(* ===== verification/Prelude.thy ===== *)
theory Prelude
  imports Complex_Main "HOL-Library.Word" "HOL-Library.AList" "HOL-Library.Code_Target_Nat"
begin

text \<open>
  Shared vocabulary of the development.  A Python \<open>str\<close> is a list of code points
  (\<open>nat\<close>), because the source counts, slices and compares code points and because a
  reply may hold lone surrogates; a Python \<open>bytes\<close> value is a list of 8-bit words.
  The operations below are the methods of \<open>str\<close>, \<open>bytes\<close>, \<open>list\<close> and \<open>dict\<close> the
  modelled modules call, each with the laws the component proofs rest on.
\<close>

section \<open>Types, literals and error results\<close>

type_synonym pystr = "nat list"
type_synonym bytes = "8 word list"

definition u :: "string \<Rightarrow> pystr" where
  "u s = map of_char s"

definition ascii :: "string \<Rightarrow> bytes" where
  "ascii s = map of_char s"

text \<open>Bytes are computed through integers: counting up to a byte in words is slow.\<close>

lemma byte_of_char: "(of_char c :: 8 word) = word_of_int (of_char c)"
  using of_int_of_char [of c, where ?'a = "8 word"] by simp

lemma ascii_code [code]: "ascii s = map (\<lambda>c. word_of_int (of_char c)) s"
  unfolding ascii_def byte_of_char [abs_def] ..

lemma byte_of_nat [code_unfold]: "(of_nat :: nat \<Rightarrow> 8 word) = (\<lambda>n. word_of_int (int n))"
  by (rule ext) simp

abbreviation NL :: nat where "NL \<equiv> 10"
abbreviation CR :: nat where "CR \<equiv> 13"

lemma u_append [simp]: "u (a @ b) = u a @ u b"
  by (simp add: u_def)

lemma length_u [simp]: "length (u s) = length s"
  by (simp add: u_def)

text \<open>Fallible code returns \<open>Inl\<close> of its error; \<open>bindE\<close> runs the continuation on success.\<close>

definition bindE :: "'e + 'a \<Rightarrow> ('a \<Rightarrow> 'e + 'b) \<Rightarrow> 'e + 'b" where
  "bindE m f = (case m of Inl e \<Rightarrow> Inl e | Inr x \<Rightarrow> f x)"

lemma bindE_simps [simp]:
  "bindE (Inl e) f = Inl e"
  "bindE (Inr x) f = f x"
  by (simp_all add: bindE_def)

lemma bindE_eq_Inr: "bindE m f = Inr y \<longleftrightarrow> (\<exists>x. m = Inr x \<and> f x = Inr y)"
  by (cases m) auto

lemma bindE_eq_Inl: "bindE m f = Inl e \<longleftrightarrow> m = Inl e \<or> (\<exists>x. m = Inr x \<and> f x = Inl e)"
  by (cases m) auto

text \<open>A guard in front of the result: \<open>if bad then Inl e else Inr x\<close>.\<close>

lemma guard_eq_Inr: "(if b then Inl e else Inr x) = Inr y \<longleftrightarrow> \<not> b \<and> x = y"
  by simp

lemma guard_eq_Inl: "(if b then Inl e else Inr x) = Inl d \<longleftrightarrow> b \<and> e = d"
  by simp

fun mapE :: "('a \<Rightarrow> 'e + 'b) \<Rightarrow> 'a list \<Rightarrow> 'e + 'b list" where
  "mapE f [] = Inr []"
| "mapE f (x # xs) = bindE (f x) (\<lambda>y. bindE (mapE f xs) (\<lambda>ys. Inr (y # ys)))"

text \<open>A loop that threads a state and stops at the first error.\<close>

fun foldE :: "('a \<Rightarrow> 's \<Rightarrow> 'e + 's) \<Rightarrow> 'a list \<Rightarrow> 's \<Rightarrow> 'e + 's" where
  "foldE f [] s = Inr s"
| "foldE f (x # xs) s = bindE (f x s) (foldE f xs)"

lemma foldE_append: "foldE f (xs @ ys) s = bindE (foldE f xs s) (foldE f ys)"
proof (induction xs arbitrary: s)
  case Nil
  show ?case by simp
next
  case (Cons x xs)
  show ?case by (cases "f x s") (simp_all add: Cons.IH)
qed

lemma foldE_invariant:
  assumes "foldE f xs s = Inr s'" and "P s"
    and "\<And>x s s'. x \<in> set xs \<Longrightarrow> P s \<Longrightarrow> f x s = Inr s' \<Longrightarrow> P s'"
  shows "P s'"
  using assms
proof (induction xs arbitrary: s)
  case (Cons x xs)
  then obtain s1 where s1: "f x s = Inr s1" "foldE f xs s1 = Inr s'" by (auto simp: bindE_eq_Inr)
  have "P s1" using Cons.prems(3) [OF _ Cons.prems(2) s1(1)] by simp
  with Cons.IH [OF s1(2)] Cons.prems(3) show ?case by (meson list.set_intros(2))
qed simp

lemma mapE_Inr_length: "mapE f xs = Inr ys \<Longrightarrow> length ys = length xs"
  by (induction xs arbitrary: ys) (auto simp: bindE_eq_Inr)

lemma mapE_Inr_set: "mapE f xs = Inr ys \<Longrightarrow> y \<in> set ys \<Longrightarrow> \<exists>x\<in>set xs. f x = Inr y"
  by (induction xs arbitrary: ys) (auto simp: bindE_eq_Inr)

section \<open>Whitespace, trimming and prefixes\<close>

text \<open>The code points for which \<open>str.isspace\<close> holds: what \<open>strip\<close> and \<open>split\<close> remove.\<close>

definition is_space :: "nat \<Rightarrow> bool" where
  "is_space c \<longleftrightarrow> (9 \<le> c \<and> c \<le> 13) \<or> (28 \<le> c \<and> c \<le> 32) \<or> c = 133 \<or> c = 160
     \<or> c = 5760 \<or> (8192 \<le> c \<and> c \<le> 8202) \<or> c = 8232 \<or> c = 8233 \<or> c = 8239
     \<or> c = 8287 \<or> c = 12288"

definition rstrip_with :: "('a \<Rightarrow> bool) \<Rightarrow> 'a list \<Rightarrow> 'a list" where
  "rstrip_with p xs = rev (dropWhile p (rev xs))"

definition lstrip :: "pystr \<Rightarrow> pystr" where
  "lstrip s = dropWhile is_space s"

definition rstrip :: "pystr \<Rightarrow> pystr" where
  "rstrip s = rstrip_with is_space s"

definition strip :: "pystr \<Rightarrow> pystr" where
  "strip s = rstrip (lstrip s)"

definition startswith :: "'a list \<Rightarrow> 'a list \<Rightarrow> bool" where
  "startswith xs p \<longleftrightarrow> take (length p) xs = p"

definition removeprefix :: "'a list \<Rightarrow> 'a list \<Rightarrow> 'a list" where
  "removeprefix xs p = (if startswith xs p then drop (length p) xs else xs)"

lemma startswith_append [simp]: "startswith (p @ xs) p"
  by (simp add: startswith_def)

lemma startswith_Nil [simp]: "startswith xs []"
  by (simp add: startswith_def)

lemma startswith_refl [simp]: "startswith xs xs"
  by (simp add: startswith_def)

lemma startswith_iff: "startswith xs p \<longleftrightarrow> (\<exists>ys. xs = p @ ys)"
  by (auto simp: startswith_def) (metis append_take_drop_id)

lemma removeprefix_append [simp]: "removeprefix (p @ xs) p = xs"
  by (simp add: removeprefix_def)

lemma removeprefix_length: "length (removeprefix xs p) \<le> length xs"
  by (simp add: removeprefix_def)

lemma rstrip_with_prefix: "\<exists>ys. xs = rstrip_with p xs @ ys \<and> (\<forall>y\<in>set ys. p y)"
proof (intro exI conjI)
  have "rev (dropWhile p (rev xs)) @ rev (takeWhile p (rev xs)) = rev (rev xs)"
    unfolding rev_append [symmetric] by (simp only: takeWhile_dropWhile_id)
  then show "xs = rstrip_with p xs @ rev (takeWhile p (rev xs))"
    by (simp add: rstrip_with_def)
  show "\<forall>y\<in>set (rev (takeWhile p (rev xs))). p y"
    by (auto dest: set_takeWhileD)
qed

lemma rstrip_with_length: "length (rstrip_with p xs) \<le> length xs"
  by (metis rstrip_with_prefix length_append le_add1)

lemma strip_eq_Nil: "strip s = [] \<longleftrightarrow> (\<forall>c\<in>set s. is_space c)"
proof -
  have "strip s = [] \<longleftrightarrow> (\<forall>c\<in>set (lstrip s). is_space c)"
    by (simp add: strip_def rstrip_def rstrip_with_def)
  also have "\<dots> \<longleftrightarrow> (\<forall>c\<in>set s. is_space c)"
    unfolding lstrip_def by (induction s) auto
  finally show ?thesis .
qed

section \<open>Splitting and joining\<close>

fun split_on :: "'a \<Rightarrow> 'a list \<Rightarrow> 'a list list" where
  "split_on c [] = [[]]"
| "split_on c (x # xs) =
     (if x = c then [] # split_on c xs
      else (case split_on c xs of [] \<Rightarrow> [[x]] | y # ys \<Rightarrow> (x # y) # ys))"

fun join :: "'a list \<Rightarrow> 'a list list \<Rightarrow> 'a list" where
  "join sep [] = []"
| "join sep [x] = x"
| "join sep (x # y # ys) = x @ sep @ join sep (y # ys)"

lemma split_on_ne [simp]: "split_on c xs \<noteq> []"
  by (cases xs) (auto split: list.splits)

lemma split_on_Cons_ex: "\<exists>y ys. split_on c xs = y # ys"
  by (cases "split_on c xs") auto

lemma join_Cons: "ys \<noteq> [] \<Longrightarrow> join sep (x # ys) = x @ sep @ join sep ys"
  by (cases ys) auto

lemma join_split_on [simp]: "join [c] (split_on c xs) = xs"
proof (induction xs)
  case Nil
  show ?case by simp
next
  case (Cons x xs)
  obtain y ys where s: "split_on c xs = y # ys" using split_on_Cons_ex by metis
  with Cons show ?case by (cases ys) (auto simp: join_Cons)
qed

lemma split_on_no_sep: "l \<in> set (split_on c xs) \<Longrightarrow> c \<notin> set l"
proof (induction xs arbitrary: l)
  case Nil
  then show ?case by simp
next
  case (Cons x xs)
  obtain y ys where s: "split_on c xs = y # ys" using split_on_Cons_ex by metis
  with Cons show ?case by (fastforce split: if_splits)
qed

lemma split_on_single: "c \<notin> set xs \<Longrightarrow> split_on c xs = [xs]"
  by (induction xs) auto

lemma split_on_append_sep:
  "split_on c (xs @ c # ys) = split_on c xs @ split_on c ys"
proof (induction xs)
  case Nil
  show ?case by simp
next
  case (Cons x xs)
  obtain y ys' where s: "split_on c xs = y # ys'" using split_on_Cons_ex by metis
  with Cons show ?case by simp
qed

lemma split_on_append:
  "split_on c (xs @ ys) =
     butlast (split_on c xs) @ split_on c (last (split_on c xs) @ ys)"
proof (induction xs)
  case Nil
  show ?case by simp
next
  case (Cons x xs)
  obtain y zs where s: "split_on c xs = y # zs" using split_on_Cons_ex by metis
  show ?case
  proof (cases "x = c")
    case True
    with Cons s show ?thesis by simp
  next
    case False
    show ?thesis
    proof (cases zs)
      case Nil
      with Cons s False show ?thesis
        by (auto split: list.splits)
    next
      case (Cons z zs')
      with \<open>split_on c (xs @ ys) = _\<close> s False show ?thesis by simp
    qed
  qed
qed

text \<open>The complete parts, each ended by a separator, and the unfinished rest after them.\<close>

lemma full_parts_append:
  "butlast (split_on c (xs @ ys)) =
     butlast (split_on c xs) @ butlast (split_on c (last (split_on c xs) @ ys))"
  by (subst split_on_append) (simp add: butlast_append)

lemma last_part_append:
  "last (split_on c (xs @ ys)) = last (split_on c (last (split_on c xs) @ ys))"
  by (subst split_on_append) simp

lemma last_part_no_sep: "c \<notin> set (last (split_on c xs))"
  by (rule split_on_no_sep) (rule last_in_set, simp)

lemma length_split_on_sum:
  "sum_list (map (\<lambda>l. length l + 1) (split_on c xs)) = length xs + 1"
proof (induction xs)
  case Nil
  show ?case by simp
next
  case (Cons x xs)
  obtain y ys where "split_on c xs = y # ys" using split_on_Cons_ex by metis
  with Cons show ?case by simp
qed

lemma join_append_single:
  "xs \<noteq> [] \<Longrightarrow> join sep (xs @ [y]) = join sep xs @ sep @ y"
  by (induction sep xs rule: join.induct) auto

text \<open>\<open>str.partition\<close> and \<open>str.rpartition\<close>; the flag says whether the separator occurs.\<close>

fun partition_at :: "'a list \<Rightarrow> 'a list \<Rightarrow> 'a list \<times> bool \<times> 'a list" where
  "partition_at sep [] = (if sep = [] then ([], True, []) else ([], False, []))"
| "partition_at sep (x # xs) =
     (if startswith (x # xs) sep then ([], True, drop (length sep) (x # xs))
      else (case partition_at sep xs of (a, f, b) \<Rightarrow> (x # a, f, b)))"

definition rpartition_at :: "'a list \<Rightarrow> 'a list \<Rightarrow> 'a list \<times> bool \<times> 'a list" where
  "rpartition_at sep xs =
     (case partition_at (rev sep) (rev xs) of
        (a, True, b) \<Rightarrow> (rev b, True, rev a)
      | (a, False, b) \<Rightarrow> ([], False, xs))"

lemma partition_at_found: "partition_at sep xs = (a, True, b) \<Longrightarrow> xs = a @ sep @ b"
  by (induction sep xs arbitrary: a b rule: partition_at.induct)
     (auto split: if_splits prod.splits simp: startswith_iff)

lemma partition_at_not_found:
  "partition_at sep xs = (a, False, b) \<Longrightarrow> a = xs \<and> b = [] \<and> (\<forall>p s. xs \<noteq> p @ sep @ s)"
proof (induction sep xs arbitrary: a b rule: partition_at.induct)
  case (1 sep)
  then show ?case by (auto split: if_splits)
next
  case (2 sep x xs)
  from "2.prems" have ns: "\<not> startswith (x # xs) sep"
    by (auto split: if_splits)
  obtain a' f b' where p: "partition_at sep xs = (a', f, b')" by (metis prod_cases3)
  with "2.prems" ns have f: "\<not> f" "a = x # a'" "b = b'" by auto
  with p have IH: "a' = xs \<and> b' = [] \<and> (\<forall>p s. xs \<noteq> p @ sep @ s)"
    using "2.IH" [OF ns] by simp
  have "x # xs \<noteq> p @ sep @ s" for p s
    using ns IH by (cases p) (auto simp: startswith_iff)
  with IH f show ?case by simp
qed

text \<open>The separator found is the first one: no occurrence starts inside the part before it.\<close>

lemma partition_at_first:
  "partition_at sep xs = (a, True, b) \<Longrightarrow> xs = p @ sep @ s \<Longrightarrow> length a \<le> length p"
proof (induction sep xs arbitrary: a b p rule: partition_at.induct)
  case (1 sep)
  then show ?case by (auto split: if_splits)
next
  case (2 sep x xs)
  show ?case
  proof (cases "startswith (x # xs) sep")
    case True
    with "2.prems"(1) show ?thesis by simp
  next
    case False
    with "2.prems"(1) obtain a' where a: "a = x # a'" "partition_at sep xs = (a', True, b)"
      by (auto split: prod.splits)
    from False "2.prems"(2) obtain p' where p: "p = x # p'" "xs = p' @ sep @ s"
      by (cases p) (auto simp: startswith_iff)
    from "2.IH" [OF False a(2) p(2)] a p show ?thesis by simp
  qed
qed

lemma partition_at_char:
  "c \<notin> set a \<Longrightarrow> partition_at [c] (a @ c # b) = (a, True, b)"
  by (induction a) (auto simp: startswith_def)

lemma partition_at_char_None: "c \<notin> set a \<Longrightarrow> partition_at [c] a = (a, False, [])"
  by (induction a) (auto simp: startswith_def)

lemma rpartition_at_found: "rpartition_at sep xs = (a, True, b) \<Longrightarrow> xs = a @ sep @ b"
proof -
  assume h: "rpartition_at sep xs = (a, True, b)"
  obtain a' f b' where p: "partition_at (rev sep) (rev xs) = (a', f, b')"
    by (metis prod_cases3)
  with h have f: "f" "a = rev b'" "b = rev a'"
    by (auto simp: rpartition_at_def split: bool.splits)
  with p have "rev xs = a' @ rev sep @ b'" by (auto dest: partition_at_found)
  then have "xs = rev (a' @ rev sep @ b')" by (metis rev_rev_ident)
  with f show ?thesis by simp
qed

lemma rpartition_at_not_found:
  "rpartition_at sep xs = (a, False, b) \<Longrightarrow> a = [] \<and> b = xs \<and> (\<forall>p s. xs \<noteq> p @ sep @ s)"
proof -
  assume h: "rpartition_at sep xs = (a, False, b)"
  obtain a' f b' where p: "partition_at (rev sep) (rev xs) = (a', f, b')"
    by (metis prod_cases3)
  with h have f: "\<not> f" "a = []" "b = xs"
    by (auto simp: rpartition_at_def split: bool.splits)
  with p have no: "\<forall>p s. rev xs \<noteq> p @ rev sep @ s"
    using partition_at_not_found [of "rev sep" "rev xs"] by auto
  have "xs \<noteq> p @ sep @ s" for p s
  proof
    assume "xs = p @ sep @ s"
    then have "rev xs = rev s @ rev sep @ rev p" by simp
    with no show False by blast
  qed
  with f show ?thesis by simp
qed

text \<open>The occurrence \<open>rpartition\<close> finds is the last one.\<close>

lemma rpartition_at_last:
  assumes "rpartition_at sep xs = (a, True, b)" and "xs = p @ sep @ s"
  shows "length p \<le> length a"
proof -
  obtain a' f b' where q: "partition_at (rev sep) (rev xs) = (a', f, b')"
    by (metis prod_cases3)
  with assms(1) have f: "f" "a = rev b'" "b = rev a'"
    by (auto simp: rpartition_at_def split: bool.splits)
  have "rev xs = rev s @ rev sep @ rev p" using assms(2) by simp
  moreover from q f(1) have "partition_at (rev sep) (rev xs) = (a', True, b')" by simp
  ultimately have "length a' \<le> length (rev s)"
    by (metis partition_at_first)
  moreover have "length xs = length a + length sep + length b"
    using rpartition_at_found [OF assms(1)] by simp
  ultimately show ?thesis using assms(2) f by simp
qed

definition occurs_in :: "'a list \<Rightarrow> 'a list \<Rightarrow> bool" where
  "occurs_in sep xs = fst (snd (partition_at sep xs))"

lemma occurs_in_iff: "occurs_in sep xs \<longleftrightarrow> (\<exists>p s. xs = p @ sep @ s)"
proof -
  obtain a f b where p: "partition_at sep xs = (a, f, b)" by (metis prod_cases3)
  then show ?thesis
    using partition_at_found [of sep xs a b] partition_at_not_found [of sep xs a b]
    by (cases f) (auto simp: occurs_in_def)
qed

text \<open>\<open>str.split()\<close>: the maximal runs of non-whitespace.\<close>

fun split_ws_acc :: "pystr \<Rightarrow> pystr \<Rightarrow> pystr list" where
  "split_ws_acc acc [] = (if acc = [] then [] else [rev acc])"
| "split_ws_acc acc (c # cs) =
     (if is_space c
      then (if acc = [] then split_ws_acc [] cs else rev acc # split_ws_acc [] cs)
      else split_ws_acc (c # acc) cs)"

definition split_ws :: "pystr \<Rightarrow> pystr list" where
  "split_ws s = split_ws_acc [] s"

lemma split_ws_acc_words:
  "\<forall>c\<in>set acc. \<not> is_space c \<Longrightarrow>
     \<forall>w\<in>set (split_ws_acc acc s). w \<noteq> [] \<and> (\<forall>c\<in>set w. \<not> is_space c)"
proof (induction s arbitrary: acc)
  case Nil
  then show ?case by simp
next
  case (Cons c cs)
  show ?case
  proof (cases "is_space c")
    case True
    have "\<forall>w\<in>set (split_ws_acc [] cs). w \<noteq> [] \<and> (\<forall>c\<in>set w. \<not> is_space c)"
      by (rule Cons.IH) simp
    with True Cons.prems show ?thesis by simp
  next
    case False
    with Cons.prems
    have "\<forall>w\<in>set (split_ws_acc (c # acc) cs). w \<noteq> [] \<and> (\<forall>c\<in>set w. \<not> is_space c)"
      by (intro Cons.IH) simp
    with False show ?thesis by simp
  qed
qed

lemma split_ws_words: "w \<in> set (split_ws s) \<Longrightarrow> w \<noteq> [] \<and> (\<forall>c\<in>set w. \<not> is_space c)"
  using split_ws_acc_words [of "[]" s] by (simp add: split_ws_def)

text \<open>\<open>str.splitlines()\<close>: every Unicode line boundary, \<open>CR NL\<close> counting once.\<close>

definition is_linebreak :: "nat \<Rightarrow> bool" where
  "is_linebreak c \<longleftrightarrow> (10 \<le> c \<and> c \<le> 13) \<or> (28 \<le> c \<and> c \<le> 30) \<or> c = 133
     \<or> c = 8232 \<or> c = 8233"

fun splitlines_acc :: "pystr \<Rightarrow> pystr \<Rightarrow> pystr list" where
  "splitlines_acc acc [] = (if acc = [] then [] else [rev acc])"
| "splitlines_acc acc [c] =
     (if is_linebreak c then [rev acc] else [rev (c # acc)])"
| "splitlines_acc acc (c # d # cs) =
     (if c = CR \<and> d = NL then rev acc # splitlines_acc [] cs
      else if is_linebreak c then rev acc # splitlines_acc [] (d # cs)
      else splitlines_acc (c # acc) (d # cs))"

definition splitlines :: "pystr \<Rightarrow> pystr list" where
  "splitlines s = splitlines_acc [] s"

lemma splitlines_acc_no_break:
  "\<forall>c\<in>set acc. \<not> is_linebreak c \<Longrightarrow>
     \<forall>l\<in>set (splitlines_acc acc s). \<forall>c\<in>set l. \<not> is_linebreak c"
proof (induction acc s rule: splitlines_acc.induct)
  case (1 acc)
  then show ?case by simp
next
  case (2 acc c)
  then show ?case by (cases "is_linebreak c") simp_all
next
  case (3 acc c d cs)
  consider "c = CR \<and> d = NL" | "\<not> (c = CR \<and> d = NL)" "is_linebreak c"
    | "\<not> (c = CR \<and> d = NL)" "\<not> is_linebreak c" by blast
  then show ?case
  proof cases
    case 1
    from "3.IH"(1) [OF 1] have "\<forall>l\<in>set (splitlines_acc [] cs). \<forall>c\<in>set l. \<not> is_linebreak c"
      by simp
    with 1 "3.prems" show ?thesis by simp
  next
    case 2
    from "3.IH"(2) [OF 2]
    have "\<forall>l\<in>set (splitlines_acc [] (d # cs)). \<forall>c\<in>set l. \<not> is_linebreak c" by simp
    moreover have "splitlines_acc acc (c # d # cs) = rev acc # splitlines_acc [] (d # cs)"
      using 2 by (simp only: splitlines_acc.simps(3) if_False if_True)
    ultimately show ?thesis using "3.prems" by simp
  next
    case 3
    with "3.prems" have "\<forall>x\<in>set (c # acc). \<not> is_linebreak x" by simp
    from "3.IH"(3) [OF 3 this]
    have "\<forall>l\<in>set (splitlines_acc (c # acc) (d # cs)). \<forall>c\<in>set l. \<not> is_linebreak c" .
    moreover have "splitlines_acc acc (c # d # cs) = splitlines_acc (c # acc) (d # cs)"
      using 3 by (simp only: splitlines_acc.simps(3) if_False if_True)
    ultimately show ?thesis by simp
  qed
qed

lemma splitlines_no_break: "l \<in> set (splitlines s) \<Longrightarrow> c \<in> set l \<Longrightarrow> \<not> is_linebreak c"
  using splitlines_acc_no_break [of "[]" s] by (simp add: splitlines_def)

section \<open>Numbers as text\<close>

fun dec_digits :: "nat \<Rightarrow> pystr" where
  "dec_digits n = (if n < 10 then [48 + n] else dec_digits (n div 10) @ [48 + n mod 10])"

declare dec_digits.simps [simp del]

definition str_int :: "int \<Rightarrow> pystr" where
  "str_int i = (if i < 0 then u ''-'' @ dec_digits (nat (- i)) else dec_digits (nat i))"

definition str_nat :: "nat \<Rightarrow> pystr" where
  "str_nat n = dec_digits n"

lemma dec_digits_range: "c \<in> set (dec_digits n) \<Longrightarrow> 48 \<le> c \<and> c \<le> 57"
proof (induction n rule: dec_digits.induct)
  case (1 n)
  show ?case
  proof (cases "n < 10")
    case True
    with "1.prems" show ?thesis by (simp add: dec_digits.simps [of n])
  next
    case False
    with "1.prems" have "c \<in> set (dec_digits (n div 10)) \<or> c = 48 + n mod 10"
      by (auto simp: dec_digits.simps [of n])
    moreover have "n mod 10 < 10" by simp
    ultimately show ?thesis using "1.IH" [OF False] by (auto intro: leI)
  qed
qed

fun dec_value_acc :: "nat \<Rightarrow> pystr \<Rightarrow> nat" where
  "dec_value_acc v [] = v"
| "dec_value_acc v (d # ds) = dec_value_acc (10 * v + (d - 48)) ds"

definition dec_value :: "pystr \<Rightarrow> nat" where
  "dec_value ds = dec_value_acc 0 ds"

lemma dec_value_acc_append: "dec_value_acc v (xs @ [d]) = 10 * dec_value_acc v xs + (d - 48)"
  by (induction xs arbitrary: v) auto

lemma dec_value_digits [simp]: "dec_value (dec_digits n) = n"
proof (induction n rule: dec_digits.induct)
  case (1 n)
  show ?case
  proof (cases "n < 10")
    case True
    then show ?thesis by (simp add: dec_digits.simps [of n] dec_value_def)
  next
    case False
    have "dec_value (dec_digits n) = 10 * dec_value (dec_digits (n div 10)) + n mod 10"
      using False by (simp add: dec_digits.simps [of n] dec_value_def dec_value_acc_append)
    with "1.IH" [OF False] show ?thesis by simp
  qed
qed

lemma str_nat_inject: "str_nat m = str_nat n \<longleftrightarrow> m = n"
  unfolding str_nat_def by (metis dec_value_digits)

section \<open>\<open>min\<close> with a key: the first minimal element\<close>

fun min_by :: "('a \<Rightarrow> 'k::linorder) \<Rightarrow> 'a list \<Rightarrow> 'a option" where
  "min_by key [] = None"
| "min_by key (x # xs) =
     (case min_by key xs of None \<Rightarrow> Some x
      | Some y \<Rightarrow> (if key y < key x then Some y else Some x))"

lemma min_by_None [simp]: "min_by key xs = None \<longleftrightarrow> xs = []"
  by (cases xs) (auto split: option.splits)

lemma min_by_in: "min_by key xs = Some x \<Longrightarrow> x \<in> set xs"
  by (induction xs arbitrary: x) (auto split: option.splits if_splits)

lemma min_by_le: "min_by key xs = Some x \<Longrightarrow> y \<in> set xs \<Longrightarrow> key x \<le> key y"
proof (induction xs arbitrary: x)
  case Nil
  then show ?case by simp
next
  case (Cons z zs)
  show ?case
  proof (cases "min_by key zs")
    case None
    with Cons.prems show ?thesis by simp
  next
    case (Some m)
    from Cons.prems Some have x: "x = (if key m < key z then m else z)"
      by (auto split: if_splits)
    from Cons.prems(2) consider "y = z" | "y \<in> set zs" by auto
    then show ?thesis
    proof cases
      case 1
      with x show ?thesis by auto
    next
      case 2
      with Cons.IH [OF Some] have "key m \<le> key y" by simp
      with x show ?thesis by (auto split: if_splits)
    qed
  qed
qed

text \<open>Ties go to the earliest element, as Python's \<open>min\<close> keeps the first it meets.\<close>

lemma min_by_first:
  "min_by key xs = Some x \<Longrightarrow> \<exists>ys zs. xs = ys @ x # zs \<and> (\<forall>y\<in>set ys. key x < key y)"
proof (induction xs arbitrary: x)
  case Nil
  then show ?case by simp
next
  case (Cons z zs)
  show ?case
  proof (cases "min_by key zs")
    case None
    with Cons.prems show ?thesis by (intro exI [of _ "[]"] exI [of _ zs]) auto
  next
    case (Some m)
    show ?thesis
    proof (cases "key m < key z")
      case True
      with Cons.prems Some have "x = m" by simp
      with Cons.IH [OF Some] True obtain ys ws
        where "zs = ys @ x # ws" "\<forall>y\<in>set ys. key x < key y" by auto
      with True \<open>x = m\<close> show ?thesis by (intro exI [of _ "z # ys"] exI [of _ ws]) auto
    next
      case False
      with Cons.prems Some show ?thesis by (intro exI [of _ "[]"] exI [of _ zs]) auto
    qed
  qed
qed

lemma min_by_snoc:
  "min_by key (xs @ [x]) = (case min_by key xs of None \<Rightarrow> Some x
     | Some b \<Rightarrow> if key x < key b then Some x else Some b)"
proof (induction xs)
  case Nil
  show ?case by simp
next
  case (Cons a xs)
  then show ?case by (auto split: option.splits)
qed

end
