(* ===== verification/Utf8.thy ===== *)
theory Utf8
  imports Prelude
begin

text \<open>
  The UTF-8 codec as the modules use it: \<open>str.encode("utf-8")\<close>, which raises
  \<open>UnicodeEncodeError\<close> on a lone surrogate (\<open>None\<close> here), and \<open>bytes.decode\<close> with the
  error handlers \<open>strict\<close>, \<open>replace\<close> (one U+FFFD per maximal ill-formed subpart) and
  \<open>ignore\<close>.  The decoder reads one item at a time: a scalar value or an ill-formed part.
\<close>

section \<open>Encoding\<close>

definition is_scalar :: "nat \<Rightarrow> bool" where
  "is_scalar c \<longleftrightarrow> c < 1114112 \<and> \<not> (55296 \<le> c \<and> c \<le> 57343)"

definition encode_nat :: "nat \<Rightarrow> nat list" where
  "encode_nat c =
     (if c < 128 then [c]
      else if c < 2048 then [192 + c div 64, 128 + c mod 64]
      else if c < 65536 then [224 + c div 4096, 128 + (c div 64) mod 64, 128 + c mod 64]
      else [240 + c div 262144, 128 + (c div 4096) mod 64, 128 + (c div 64) mod 64,
            128 + c mod 64])"

definition encode_cp :: "nat \<Rightarrow> bytes" where
  "encode_cp c = map of_nat (encode_nat c)"

definition encodable :: "pystr \<Rightarrow> bool" where
  "encodable s \<longleftrightarrow> list_all is_scalar s"

definition utf8_bytes :: "pystr \<Rightarrow> bytes" where
  "utf8_bytes s = concat (map encode_cp s)"

definition utf8_encode :: "pystr \<Rightarrow> bytes option" where
  "utf8_encode s = (if encodable s then Some (utf8_bytes s) else None)"

section \<open>Decoding\<close>

definition is_cont :: "nat \<Rightarrow> bool" where
  "is_cont b \<longleftrightarrow> 128 \<le> b \<and> b < 192"

text \<open>The second byte of a three or four byte sequence; the bounds exclude overlong forms,
  surrogates and values above U+10FFFF.\<close>

definition second_ok :: "nat \<Rightarrow> nat \<Rightarrow> bool" where
  "second_ok b0 b1 \<longleftrightarrow> is_cont b1 \<and> (b0 = 224 \<longrightarrow> 160 \<le> b1) \<and> (b0 = 237 \<longrightarrow> b1 < 160)
     \<and> (b0 = 240 \<longrightarrow> 144 \<le> b1) \<and> (b0 = 244 \<longrightarrow> b1 < 144)"

fun decode_item :: "nat list \<Rightarrow> nat option \<times> nat list" where
  "decode_item [] = (None, [])"
| "decode_item (b0 # bs) =
     (if b0 < 128 then (Some b0, bs)
      else if 194 \<le> b0 \<and> b0 < 224 then
        (case bs of
           [] \<Rightarrow> (None, [])
         | b1 # r \<Rightarrow> if is_cont b1 then (Some ((b0 - 192) * 64 + (b1 - 128)), r)
                     else (None, bs))
      else if 224 \<le> b0 \<and> b0 < 240 then
        (case bs of
           [] \<Rightarrow> (None, [])
         | b1 # r \<Rightarrow>
             if \<not> second_ok b0 b1 then (None, bs)
             else (case r of
                     [] \<Rightarrow> (None, [])
                   | b2 # r2 \<Rightarrow>
                       if is_cont b2
                       then (Some ((b0 - 224) * 4096 + (b1 - 128) * 64 + (b2 - 128)), r2)
                       else (None, r)))
      else if 240 \<le> b0 \<and> b0 < 245 then
        (case bs of
           [] \<Rightarrow> (None, [])
         | b1 # r \<Rightarrow>
             if \<not> second_ok b0 b1 then (None, bs)
             else (case r of
                     [] \<Rightarrow> (None, [])
                   | b2 # r2 \<Rightarrow>
                       if \<not> is_cont b2 then (None, r)
                       else (case r2 of
                               [] \<Rightarrow> (None, [])
                             | b3 # r3 \<Rightarrow>
                                 if is_cont b3
                                 then (Some ((b0 - 240) * 262144 + (b1 - 128) * 4096
                                             + (b2 - 128) * 64 + (b3 - 128)), r3)
                                 else (None, r2))))
      else (None, bs))"

lemma decode_item_shorter: "length (snd (decode_item (b # bs))) < length (b # bs)"
  by (auto split: list.splits)

declare decode_item.simps(2) [simp del]

function decode_items :: "nat list \<Rightarrow> nat option list" where
  "decode_items [] = []"
| "decode_items (b # bs) =
     fst (decode_item (b # bs)) # decode_items (snd (decode_item (b # bs)))"
  by pat_completeness auto
termination
  by (relation "measure length") (simp_all only: in_measure decode_item_shorter wf_measure)

fun somes :: "'a option list \<Rightarrow> 'a list" where
  "somes [] = []"
| "somes (None # xs) = somes xs"
| "somes (Some x # xs) = x # somes xs"

definition decode_replace :: "bytes \<Rightarrow> pystr" where
  "decode_replace bs =
     map (\<lambda>x. case x of Some c \<Rightarrow> c | None \<Rightarrow> 65533) (decode_items (map unat bs))"

definition decode_ignore :: "bytes \<Rightarrow> pystr" where
  "decode_ignore bs = somes (decode_items (map unat bs))"

definition decode_strict :: "bytes \<Rightarrow> pystr option" where
  "decode_strict bs = those (decode_items (map unat bs))"

section \<open>Round trip\<close>

lemma unat_of_nat_byte: "n < 256 \<Longrightarrow> unat (of_nat n :: 8 word) = n"
  by (simp add: unat_of_nat take_bit_nat_eq_self)

lemma encode_nat_bytes: "is_scalar c \<Longrightarrow> b \<in> set (encode_nat c) \<Longrightarrow> b < 256"
  by (auto simp: encode_nat_def is_scalar_def split: if_splits)

lemma unat_encode_cp: "is_scalar c \<Longrightarrow> map unat (encode_cp c) = encode_nat c"
  unfolding encode_cp_def map_map comp_def
  by (rule map_idI) (auto intro: unat_of_nat_byte encode_nat_bytes)

lemma encode_nat_cases:
  assumes "is_scalar c"
  obtains (one) "c < 128" "encode_nat c = [c]"
  | (two) "128 \<le> c" "c < 2048" "encode_nat c = [192 + c div 64, 128 + c mod 64]"
  | (three) "2048 \<le> c" "c < 65536"
      "encode_nat c = [224 + c div 4096, 128 + (c div 64) mod 64, 128 + c mod 64]"
  | (four) "65536 \<le> c" "c < 1114112"
      "encode_nat c = [240 + c div 262144, 128 + (c div 4096) mod 64,
                       128 + (c div 64) mod 64, 128 + c mod 64]"
proof -
  consider "c < 128" | "128 \<le> c" "c < 2048" | "2048 \<le> c" "c < 65536" | "65536 \<le> c"
    by linarith
  then show thesis
    using assms that by cases (simp_all add: encode_nat_def is_scalar_def)
qed

lemma is_cont_mod: "is_cont (128 + n mod 64)"
  by (simp add: is_cont_def)

lemma recombine2: "c div 64 * 64 + c mod 64 = (c::nat)"
  by simp

lemma recombine3: "c div 4096 * 4096 + (c div 64) mod 64 * 64 + c mod 64 = (c::nat)"
proof -
  define q where "q = c div 64"
  have "c div 4096 = q div 64" by (simp add: q_def div_mult2_eq [symmetric])
  moreover have "q div 64 * 64 + q mod 64 = q" by simp
  moreover have "q * 64 + c mod 64 = c" by (simp add: q_def)
  ultimately show ?thesis unfolding q_def [symmetric] by linarith
qed

lemma recombine4:
  "c div 262144 * 262144 + (c div 4096) mod 64 * 4096 + (c div 64) mod 64 * 64 + c mod 64
     = (c::nat)"
proof -
  define q where "q = c div 4096"
  have "c div 262144 = q div 64" by (simp add: q_def div_mult2_eq [symmetric])
  moreover have "q div 64 * 64 + q mod 64 = q" by simp
  moreover have "q * 4096 + (c div 64) mod 64 * 64 + c mod 64 = c"
    using recombine3 [of c] by (simp add: q_def)
  ultimately show ?thesis unfolding q_def [symmetric] by linarith
qed

text \<open>The second byte of an encoded scalar passes the decoder's range checks.\<close>

lemma second_ok_three:
  assumes "is_scalar c" "2048 \<le> c" "c < 65536"
  shows "second_ok (224 + c div 4096) (128 + (c div 64) mod 64)"
proof -
  define q where "q = c div 64"
  have q4: "c div 4096 = q div 64" by (simp add: q_def div_mult2_eq [symmetric])
  have lo: "32 \<le> q" using assms(2) by (simp add: q_def)
  have sur: "\<not> (864 \<le> q \<and> q < 896)"
  proof
    assume "864 \<le> q \<and> q < 896"
    moreover have "q * 64 + c mod 64 = c" by (simp add: q_def)
    moreover have "c mod 64 < 64" by simp
    ultimately have "55296 \<le> c \<and> c < 57344" by linarith
    with assms(1) show False by (simp add: is_scalar_def)
  qed
  have d: "q div 64 * 64 + q mod 64 = q" "q mod 64 < 64" by simp_all
  have "q div 64 = 0 \<longrightarrow> 32 \<le> q mod 64" using lo d(1) by (auto simp del: div_eq_0_iff)
  moreover have "q div 64 = 13 \<longrightarrow> q mod 64 < 32"
  proof
    assume "q div 64 = 13"
    with d(1) have "832 + q mod 64 = q" by simp
    with sur d(2) show "q mod 64 < 32" by linarith
  qed
  moreover have "q div 64 < 16" using assms(3) by (simp add: q_def)
  ultimately show ?thesis
    unfolding q4 q_def [symmetric] second_ok_def by (simp add: is_cont_mod)
qed

lemma second_ok_four:
  assumes "65536 \<le> c" "c < 1114112"
  shows "second_ok (240 + c div 262144) (128 + (c div 4096) mod 64)"
proof -
  define q where "q = c div 4096"
  have q4: "c div 262144 = q div 64" by (simp add: q_def div_mult2_eq [symmetric])
  have b: "16 \<le> q" "q < 272" using assms by (simp_all add: q_def)
  have d: "q div 64 * 64 + q mod 64 = q" "q mod 64 < 64" by simp_all
  have "q div 64 = 0 \<longrightarrow> 16 \<le> q mod 64" using b(1) d(1) by (auto simp del: div_eq_0_iff)
  moreover have "q div 64 = 4 \<longrightarrow> q mod 64 < 16"
  proof
    assume "q div 64 = 4"
    with d(1) have "256 + q mod 64 = q" by simp
    with b(2) show "q mod 64 < 16" by linarith
  qed
  ultimately show ?thesis
    unfolding q4 q_def [symmetric] second_ok_def by (simp add: is_cont_mod)
qed

lemma decode_item_encoded:
  assumes "is_scalar c"
  shows "decode_item (encode_nat c @ r) = (Some c, r)"
  using assms
proof (cases rule: encode_nat_cases)
  case one
  then show ?thesis by (simp add: decode_item.simps(2))
next
  case two
  have "2 \<le> c div 64" "c div 64 < 32" using two by simp_all
  with two show ?thesis
    by (simp add: decode_item.simps(2) is_cont_mod recombine2)
next
  case three
  have "c div 4096 < 16" using three by simp
  with three second_ok_three [OF assms three(1,2)] show ?thesis
    by (simp add: decode_item.simps(2) is_cont_mod recombine3)
next
  case four
  have "c div 262144 < 5" using four by simp
  with four second_ok_four [OF four(1,2)] show ?thesis
    by (simp add: decode_item.simps(2) is_cont_mod recombine4)
qed

lemma encode_nat_Cons: "\<exists>b bs. encode_nat c = b # bs"
  by (simp add: encode_nat_def)

lemma decode_items_encoded:
  assumes "is_scalar c"
  shows "decode_items (encode_nat c @ r) = Some c # decode_items r"
proof -
  obtain b bs where e: "encode_nat c = b # bs" using encode_nat_Cons by blast
  have "decode_items (b # (bs @ r)) = fst (decode_item (b # (bs @ r)))
          # decode_items (snd (decode_item (b # (bs @ r))))" by simp
  moreover have "decode_item (b # (bs @ r)) = (Some c, r)"
    using decode_item_encoded [OF assms, of r] e by simp
  ultimately show ?thesis using e by simp
qed

definition code_units :: "pystr \<Rightarrow> nat list" where
  "code_units s = concat (map encode_nat s)"

lemma code_units_simps [simp]:
  "code_units [] = []" "code_units (c # s) = encode_nat c @ code_units s"
  by (simp_all add: code_units_def)

lemma unat_utf8_bytes: "encodable s \<Longrightarrow> map unat (utf8_bytes s) = code_units s"
  by (induction s) (auto simp: utf8_bytes_def encodable_def unat_encode_cp)

lemma decode_items_code_units:
  "encodable s \<Longrightarrow> decode_items (code_units s @ r) = map Some s @ decode_items r"
  by (induction s) (auto simp: encodable_def decode_items_encoded)

lemma those_map_Some [simp]: "those (map Some xs) = Some xs"
  by (induction xs) auto

text \<open>Encoding then decoding strictly gives the string back.\<close>

lemma decode_strict_encode:
  assumes "utf8_encode s = Some bs"
  shows "decode_strict bs = Some s"
proof -
  have e: "encodable s" "bs = utf8_bytes s"
    using assms by (auto simp: utf8_encode_def split: if_splits)
  then have "decode_items (map unat bs) = map Some s"
    using decode_items_code_units [OF e(1), of "[]"] by (simp add: unat_utf8_bytes)
  then show ?thesis by (simp add: decode_strict_def)
qed

section \<open>Truncation\<close>

text \<open>A proper prefix of an encoded scalar decodes to no scalar at all.\<close>

lemma decode_truncated:
  assumes "is_scalar c" and "k < length (encode_nat c)"
  shows "\<forall>x\<in>set (decode_items (take k (encode_nat c))). x = None"
  using assms(1)
proof (cases rule: encode_nat_cases)
  case one
  with assms(2) show ?thesis by simp
next
  case two
  have "2 \<le> c div 64" "c div 64 < 32" using two by simp_all
  moreover from two assms(2) have "k = 0 \<or> k = Suc 0" by auto
  ultimately show ?thesis using two by (auto simp: decode_item.simps(2))
next
  case three
  have "c div 4096 < 16" using three by simp
  moreover from three assms(2) have "k = 0 \<or> k = Suc 0 \<or> k = Suc (Suc 0)" by auto
  ultimately show ?thesis using three second_ok_three [OF assms(1) three(1,2)]
    by (auto simp: decode_item.simps(2))
next
  case four
  have "c div 262144 < 5" using four by simp
  moreover from four assms(2)
  have "k = 0 \<or> k = Suc 0 \<or> k = Suc (Suc 0) \<or> k = Suc (Suc (Suc 0))" by auto
  ultimately show ?thesis using four second_ok_four [OF four(1,2)]
    by (auto simp: decode_item.simps(2) is_cont_mod)
qed

lemma somes_all_None: "\<forall>x\<in>set xs. x = None \<Longrightarrow> somes xs = []"
  by (induction xs) auto

lemma decode_units_prefix:
  "encodable s \<Longrightarrow>
     \<exists>n. somes (decode_items (take k (code_units s))) = take n s
         \<and> length (code_units (take n s)) \<le> k"
proof (induction s arbitrary: k)
  case Nil
  show ?case by simp
next
  case (Cons c s)
  then have c: "is_scalar c" and s: "encodable s" by (auto simp: encodable_def)
  show ?case
  proof (cases "k < length (encode_nat c)")
    case True
    then have "somes (decode_items (take k (code_units (c # s)))) = []"
      using decode_truncated [OF c True] by (simp add: somes_all_None)
    then show ?thesis by (intro exI [of _ 0]) simp
  next
    case False
    let ?k = "k - length (encode_nat c)"
    from Cons.IH [OF s, of ?k] obtain n
      where n: "somes (decode_items (take ?k (code_units s))) = take n s"
        "length (code_units (take n s)) \<le> ?k" by blast
    have "take k (code_units (c # s)) = encode_nat c @ take ?k (code_units s)"
      using False by simp
    then have "somes (decode_items (take k (code_units (c # s))))
        = take (Suc n) (c # s)"
      using n(1) by (simp add: decode_items_encoded [OF c])
    moreover have "length (code_units (take (Suc n) (c # s))) \<le> k"
      using n(2) False by simp
    ultimately show ?thesis by blast
  qed
qed

text \<open>Cutting the encoding at any byte and ignoring the broken tail keeps a prefix of the
  string, and the kept prefix still fits in the cut.\<close>

lemma length_utf8_bytes: "length (utf8_bytes s) = length (code_units s)"
  by (induction s) (auto simp: utf8_bytes_def encode_cp_def)

lemma decode_ignore_take:
  assumes "encodable s"
  shows "\<exists>n. decode_ignore (take k (utf8_bytes s)) = take n s
           \<and> length (utf8_bytes (take n s)) \<le> k"
proof -
  have "map unat (take k (utf8_bytes s)) = take k (code_units s)"
    using unat_utf8_bytes [OF assms] by (simp add: take_map [symmetric])
  then show ?thesis
    using decode_units_prefix [OF assms, of k]
    by (simp add: decode_ignore_def length_utf8_bytes)
qed

lemma utf8_bytes_Nil [simp]: "utf8_bytes [] = []"
  by (simp add: utf8_bytes_def)

lemma utf8_bytes_append: "utf8_bytes (a @ b) = utf8_bytes a @ utf8_bytes b"
  by (simp add: utf8_bytes_def)

lemma encodable_append [simp]: "encodable (a @ b) \<longleftrightarrow> encodable a \<and> encodable b"
  by (simp add: encodable_def)

lemma encodable_take: "encodable s \<Longrightarrow> encodable (take n s)"
  unfolding encodable_def by (metis append_take_drop_id list_all_append)

text \<open>Text made of 7-bit literals always encodes, one byte per character.\<close>

lemma utf8_bytes_ascii: "\<forall>c\<in>set s. c < 128 \<Longrightarrow> utf8_bytes s = map of_nat s"
  by (induction s) (auto simp: utf8_bytes_def encode_cp_def encode_nat_def)

lemma encodable_ascii: "\<forall>c\<in>set s. c < 128 \<Longrightarrow> encodable s"
  by (auto simp: encodable_def list_all_iff is_scalar_def)

text \<open>Every decoded character is a scalar value, so decoded text always encodes again.\<close>

lemma three_byte_scalar:
  assumes "224 \<le> b0" "b0 < 240" "second_ok b0 b1" "is_cont b2"
  shows "is_scalar ((b0 - 224) * 4096 + (b1 - 128) * 64 + (b2 - 128))"
proof -
  have b1: "128 \<le> b1" "b1 < 192" and b2: "128 \<le> b2" "b2 < 192"
    using assms(3,4) by (auto simp: second_ok_def is_cont_def)
  obtain x y z where xyz: "b0 = 224 + x" "b1 = 128 + y" "b2 = 128 + z"
    using assms(1) b1(1) b2(1) by (metis le_iff_add)
  consider "x < 13" | "x = 13" | "13 < x" by linarith
  then show ?thesis
    using assms b1 b2 xyz
    by cases (auto simp: is_scalar_def second_ok_def)
qed

lemma four_byte_scalar:
  assumes "240 \<le> b0" "b0 < 245" "second_ok b0 b1" "is_cont b2" "is_cont b3"
  shows "is_scalar ((b0 - 240) * 262144 + (b1 - 128) * 4096 + (b2 - 128) * 64 + (b3 - 128))"
proof -
  have b: "128 \<le> b1" "b1 < 192" "128 \<le> b2" "b2 < 192" "128 \<le> b3" "b3 < 192"
    using assms(3-5) by (auto simp: second_ok_def is_cont_def)
  obtain w x y z where xyz: "b0 = 240 + w" "b1 = 128 + x" "b2 = 128 + y" "b3 = 128 + z"
    using assms(1) b(1,3,5) by (metis le_iff_add)
  consider "w = 0" | "w = 4" | "0 < w" "w < 4" using assms(2) xyz by linarith
  then show ?thesis
    using assms b xyz by cases (auto simp: is_scalar_def second_ok_def)
qed

lemma decode_item_scalar:
  assumes "decode_item bs = (Some c, r)"
  shows "is_scalar c"
proof (cases bs)
  case Nil
  with assms show ?thesis by simp
next
  case (Cons b0 bs')
  from assms Cons consider "b0 < 128" "c = b0"
    | b1 where "194 \<le> b0" "b0 < 224" "is_cont b1" "c = (b0 - 192) * 64 + (b1 - 128)"
    | b1 b2 where "224 \<le> b0" "b0 < 240" "second_ok b0 b1" "is_cont b2"
        "c = (b0 - 224) * 4096 + (b1 - 128) * 64 + (b2 - 128)"
    | b1 b2 b3 where "240 \<le> b0" "b0 < 245" "second_ok b0 b1" "is_cont b2" "is_cont b3"
        "c = (b0 - 240) * 262144 + (b1 - 128) * 4096 + (b2 - 128) * 64 + (b3 - 128)"
    by (simp add: decode_item.simps(2) split: if_split_asm list.split_asm)
  then show ?thesis
  proof cases
    case 1
    then show ?thesis by (simp add: is_scalar_def)
  next
    case 2
    then show ?thesis by (auto simp: is_scalar_def is_cont_def)
  next
    case 3
    then show ?thesis using three_byte_scalar by simp
  next
    case 4
    then show ?thesis using four_byte_scalar by simp
  qed
qed

lemma decode_items_scalar: "Some c \<in> set (decode_items bs) \<Longrightarrow> is_scalar c"
proof (induction bs rule: decode_items.induct)
  case 1
  then show ?case by simp
next
  case (2 b bs)
  show ?case
  proof (cases "Some c = fst (decode_item (b # bs))")
    case True
    then show ?thesis using decode_item_scalar by (metis prod.collapse)
  next
    case False
    with 2 show ?thesis by simp
  qed
qed

lemma decode_replace_encodable: "encodable (decode_replace bs)"
  unfolding encodable_def decode_replace_def list_all_iff
  by (auto split: option.splits dest: decode_items_scalar) (simp add: is_scalar_def)

lemma set_somes: "c \<in> set (somes xs) \<longleftrightarrow> Some c \<in> set xs"
  by (induction xs rule: somes.induct) auto

lemma decode_ignore_encodable: "encodable (decode_ignore bs)"
  unfolding encodable_def decode_ignore_def list_all_iff
  by (auto simp: set_somes dest: decode_items_scalar)

end
