(* ===== verification/Json.thy ===== *)
theory Json
  imports Utf8
begin

text \<open>
  Python floats and \<open>json.loads\<close>, the two parts of the standard library whose edges reach
  the modelled code: \<open>NaN\<close> and the infinities are floats that compare in their own way and
  that \<open>json.loads\<close> accepts, and an integer literal of more than 4300 digits makes it raise
  a plain \<open>ValueError\<close> instead of \<open>JSONDecodeError\<close>.  Finite floats are exact rationals:
  rounding to 53 bits is not modelled, overflow to an infinity is.  Nesting has no limit here;
  Python raises \<open>RecursionError\<close> on a document nested deeper than its stack.
\<close>

section \<open>Floats\<close>

datatype pyfloat = Fin rat | PosInf | NegInf | NaN

fun float_le :: "pyfloat \<Rightarrow> pyfloat \<Rightarrow> bool" where
  "float_le NaN _ = False"
| "float_le _ NaN = False"
| "float_le NegInf _ = True"
| "float_le _ PosInf = True"
| "float_le (Fin a) (Fin b) = (a \<le> b)"
| "float_le _ _ = False"

fun float_less :: "pyfloat \<Rightarrow> pyfloat \<Rightarrow> bool" where
  "float_less NaN _ = False"
| "float_less _ NaN = False"
| "float_less NegInf x = (x \<noteq> NegInf)"
| "float_less (Fin a) (Fin b) = (a < b)"
| "float_less (Fin a) PosInf = True"
| "float_less _ _ = False"

fun float_add :: "pyfloat \<Rightarrow> pyfloat \<Rightarrow> pyfloat" where
  "float_add NaN _ = NaN"
| "float_add _ NaN = NaN"
| "float_add PosInf NegInf = NaN"
| "float_add NegInf PosInf = NaN"
| "float_add PosInf _ = PosInf"
| "float_add _ PosInf = PosInf"
| "float_add NegInf _ = NegInf"
| "float_add _ NegInf = NegInf"
| "float_add (Fin a) (Fin b) = Fin (a + b)"

section \<open>JSON values\<close>

text \<open>An object keeps its keys in insertion order; a repeated key keeps its first position
  and its last value, as a Python \<open>dict\<close> does.\<close>

datatype json =
    JNull
  | JBool bool
  | JInt int
  | JFloat pyfloat
  | JStr pystr
  | JArr "json list"
  | JObj "(pystr \<times> json) list"

datatype json_error = Decode_Error | Int_Too_Long | Out_Of_Fuel

text \<open>\<open>type(value).__name__\<close> and \<open>dict.get\<close>.\<close>

fun type_name :: "json \<Rightarrow> pystr" where
  "type_name JNull = u ''NoneType''"
| "type_name (JBool _) = u ''bool''"
| "type_name (JInt _) = u ''int''"
| "type_name (JFloat _) = u ''float''"
| "type_name (JStr _) = u ''str''"
| "type_name (JArr _) = u ''list''"
| "type_name (JObj _) = u ''dict''"

definition obj_get :: "(pystr \<times> json) list \<Rightarrow> string \<Rightarrow> json option" where
  "obj_get kvs k = map_of kvs (u k)"

section \<open>Scanning\<close>

definition json_ws :: "nat \<Rightarrow> bool" where
  "json_ws c \<longleftrightarrow> c = 32 \<or> c = 9 \<or> c = 10 \<or> c = 13"

definition skip_ws :: "pystr \<Rightarrow> pystr" where
  "skip_ws s = dropWhile json_ws s"

definition is_digit :: "nat \<Rightarrow> bool" where
  "is_digit c \<longleftrightarrow> 48 \<le> c \<and> c \<le> 57"

definition hex_value :: "nat \<Rightarrow> nat option" where
  "hex_value c = (if is_digit c then Some (c - 48)
                  else if 65 \<le> c \<and> c \<le> 70 then Some (c - 55)
                  else if 97 \<le> c \<and> c \<le> 102 then Some (c - 87) else None)"

definition hex4 :: "nat \<Rightarrow> nat \<Rightarrow> nat \<Rightarrow> nat \<Rightarrow> nat option" where
  "hex4 a b c d = (case (hex_value a, hex_value b, hex_value c, hex_value d) of
     (Some w, Some x, Some y, Some z) \<Rightarrow> Some (w * 4096 + x * 256 + y * 16 + z)
   | _ \<Rightarrow> None)"

definition simple_escape :: "nat \<Rightarrow> nat option" where
  "simple_escape c = (if c = 34 \<or> c = 92 \<or> c = 47 then Some c
     else if c = 98 then Some 8 else if c = 102 then Some 12
     else if c = 110 then Some 10 else if c = 114 then Some 13
     else if c = 116 then Some 9 else None)"

text \<open>The characters of a string up to its closing quote; the flag marks a \<open>\u\<close> escape.\<close>

fun scan_chars :: "pystr \<Rightarrow> json_error + (bool \<times> nat) list \<times> pystr" where
  "scan_chars [] = Inl Decode_Error"
| "scan_chars (c # cs) =
     (if c = 34 then Inr ([], cs)
      else if c = 92 then
        (case cs of
           [] \<Rightarrow> Inl Decode_Error
         | e # r \<Rightarrow>
             if e = 117 then
               (case r of
                  h1 # h2 # h3 # h4 # r' \<Rightarrow>
                    (case hex4 h1 h2 h3 h4 of
                       None \<Rightarrow> Inl Decode_Error
                     | Some v \<Rightarrow> bindE (scan_chars r') (\<lambda>(ts, z). Inr ((True, v) # ts, z)))
                | _ \<Rightarrow> Inl Decode_Error)
             else
               (case simple_escape e of
                  None \<Rightarrow> Inl Decode_Error
                | Some v \<Rightarrow> bindE (scan_chars r) (\<lambda>(ts, z). Inr ((False, v) # ts, z))))
      else if c < 32 then Inl Decode_Error
      else bindE (scan_chars cs) (\<lambda>(ts, z). Inr ((False, c) # ts, z)))"

text \<open>Two adjacent escapes that form a surrogate pair become one code point; a surrogate
  left alone stays in the string.\<close>

fun join_pairs :: "(bool \<times> nat) list \<Rightarrow> pystr" where
  "join_pairs [] = []"
| "join_pairs [(e, c)] = [c]"
| "join_pairs ((e1, c1) # (e2, c2) # ts) =
     (if e1 \<and> e2 \<and> 55296 \<le> c1 \<and> c1 \<le> 56319 \<and> 56320 \<le> c2 \<and> c2 \<le> 57343
      then (65536 + (c1 - 55296) * 1024 + (c2 - 56320)) # join_pairs ts
      else c1 # join_pairs ((e2, c2) # ts))"

definition scan_string :: "pystr \<Rightarrow> json_error + pystr \<times> pystr" where
  "scan_string s = bindE (scan_chars s) (\<lambda>(ts, r). Inr (join_pairs ts, r))"

definition digits_prefix :: "pystr \<Rightarrow> pystr \<times> pystr" where
  "digits_prefix s = (takeWhile is_digit s, dropWhile is_digit s)"

text \<open>The optional fraction and exponent of a number; \<open>None\<close> where that part is absent.\<close>

definition scan_frac :: "pystr \<Rightarrow> pystr option \<times> pystr" where
  "scan_frac s = (case s of
     c # r \<Rightarrow> (if c = 46 \<and> fst (digits_prefix r) \<noteq> []
               then (Some (fst (digits_prefix r)), snd (digits_prefix r)) else (None, s))
   | [] \<Rightarrow> (None, s))"

definition scan_exp :: "pystr \<Rightarrow> (bool \<times> pystr) option \<times> pystr" where
  "scan_exp s = (case s of
     c # r \<Rightarrow>
       (if c = 101 \<or> c = 69 then
          (case r of
             d # r' \<Rightarrow>
               (if d = 45 \<or> d = 43
                then (if fst (digits_prefix r') \<noteq> []
                      then (Some (d = 45, fst (digits_prefix r')), snd (digits_prefix r'))
                      else (None, s))
                else (if fst (digits_prefix r) \<noteq> []
                      then (Some (False, fst (digits_prefix r)), snd (digits_prefix r))
                      else (None, s)))
           | [] \<Rightarrow> (None, s))
        else (None, s))
   | [] \<Rightarrow> (None, s))"

definition scan_int :: "pystr \<Rightarrow> (pystr \<times> pystr) option" where
  "scan_int s = (case s of
     [] \<Rightarrow> None
   | c # r \<Rightarrow> if c = 48 then Some ([48], r)
             else if is_digit c then Some (digits_prefix s) else None)"

text \<open>The largest digit count \<open>int(str)\<close> converts before raising.\<close>

definition int_max_str_digits :: nat where
  "int_max_str_digits = 4300"

definition float_of_rat :: "rat \<Rightarrow> pyfloat" where
  "float_of_rat q = (if q \<ge> 2 ^ 1024 - 2 ^ 970 then PosInf
                     else if q \<le> - (2 ^ 1024 - 2 ^ 970) then NegInf else Fin q)"

definition number_value ::
  "bool \<Rightarrow> pystr \<Rightarrow> pystr option \<Rightarrow> (bool \<times> pystr) option \<Rightarrow> json_error + json" where
  "number_value neg ds fr ex =
     (case (fr, ex) of
        (None, None) \<Rightarrow>
          if int_max_str_digits < length ds then Inl Int_Too_Long
          else Inr (JInt (if neg then - int (dec_value ds) else int (dec_value ds)))
      | _ \<Rightarrow>
          let f = (case fr of None \<Rightarrow> [] | Some d \<Rightarrow> d);
              m = of_nat (dec_value (ds @ f)) / 10 ^ length f;
              e = (case ex of None \<Rightarrow> (False, []) | Some x \<Rightarrow> x);
              v = (if fst e then m / 10 ^ dec_value (snd e) else m * 10 ^ dec_value (snd e))
          in Inr (JFloat (float_of_rat (if neg then - v else v))))"

definition scan_number :: "pystr \<Rightarrow> json_error + json \<times> pystr" where
  "scan_number s =
     (let neg = startswith s (u ''-''); body = (if neg then drop 1 s else s)
      in case scan_int body of
           None \<Rightarrow>
             if startswith s (u ''NaN'') then Inr (JFloat NaN, drop 3 s)
             else if startswith s (u ''Infinity'') then Inr (JFloat PosInf, drop 8 s)
             else if startswith s (u ''-Infinity'') then Inr (JFloat NegInf, drop 9 s)
             else Inl Decode_Error
         | Some (ds, r) \<Rightarrow>
             (case scan_frac r of (fr, r1) \<Rightarrow>
               (case scan_exp r1 of (ex, r2) \<Rightarrow>
                  bindE (number_value neg ds fr ex) (\<lambda>v. Inr (v, r2)))))"

section \<open>Parsing\<close>

text \<open>The recursive scanner, bounded by fuel.  A value of length \<open>n\<close> needs at most
  \<open>2 * n + 2\<close> nested calls, which is the fuel \<open>json_loads\<close> starts with.\<close>

fun parse_value :: "nat \<Rightarrow> pystr \<Rightarrow> json_error + json \<times> pystr"
and parse_elems :: "nat \<Rightarrow> pystr \<Rightarrow> json_error + json list \<times> pystr"
and parse_members :: "nat \<Rightarrow> (pystr \<times> json) list \<Rightarrow> pystr
                        \<Rightarrow> json_error + (pystr \<times> json) list \<times> pystr" where
  "parse_value 0 s = Inl Out_Of_Fuel"
| "parse_value (Suc n) s =
     (case s of
        [] \<Rightarrow> Inl Decode_Error
      | c # r \<Rightarrow>
          if c = 34 then bindE (scan_string r) (\<lambda>(t, z). Inr (JStr t, z))
          else if c = 123 then
            (case skip_ws r of
               [] \<Rightarrow> Inl Decode_Error
             | d # q \<Rightarrow> if d = 125 then Inr (JObj [], q)
                       else bindE (parse_members n [] (d # q)) (\<lambda>(m, z). Inr (JObj m, z)))
          else if c = 91 then
            (case skip_ws r of
               [] \<Rightarrow> Inl Decode_Error
             | d # q \<Rightarrow> if d = 93 then Inr (JArr [], q)
                       else bindE (parse_elems n (d # q)) (\<lambda>(xs, z). Inr (JArr xs, z)))
          else if startswith s (u ''null'') then Inr (JNull, drop 4 s)
          else if startswith s (u ''true'') then Inr (JBool True, drop 4 s)
          else if startswith s (u ''false'') then Inr (JBool False, drop 5 s)
          else scan_number s)"
| "parse_elems 0 s = Inl Out_Of_Fuel"
| "parse_elems (Suc n) s =
     bindE (parse_value n s) (\<lambda>(v, r).
       case skip_ws r of
         [] \<Rightarrow> Inl Decode_Error
       | d # q \<Rightarrow>
           if d = 93 then Inr ([v], q)
           else if d = 44 then bindE (parse_elems n (skip_ws q)) (\<lambda>(vs, z). Inr (v # vs, z))
           else Inl Decode_Error)"
| "parse_members 0 acc s = Inl Out_Of_Fuel"
| "parse_members (Suc n) acc s =
     (case s of
        [] \<Rightarrow> Inl Decode_Error
      | c # r \<Rightarrow>
          if c \<noteq> 34 then Inl Decode_Error
          else bindE (scan_string r) (\<lambda>(k, r1).
            case skip_ws r1 of
              [] \<Rightarrow> Inl Decode_Error
            | d # q \<Rightarrow>
                if d \<noteq> 58 then Inl Decode_Error
                else bindE (parse_value n (skip_ws q)) (\<lambda>(v, r2).
                  case skip_ws r2 of
                    [] \<Rightarrow> Inl Decode_Error
                  | e # z \<Rightarrow>
                      if e = 125 then Inr (AList.update k v acc, z)
                      else if e = 44 then parse_members n (AList.update k v acc) (skip_ws z)
                      else Inl Decode_Error)))"

definition json_loads :: "pystr \<Rightarrow> json_error + json" where
  "json_loads s =
     bindE (parse_value (2 * length s + 2) (skip_ws s)) (\<lambda>(v, r).
       if skip_ws r = [] then Inr v else Inl Decode_Error)"

section \<open>The fuel is always enough\<close>

lemma skip_ws_length: "length (skip_ws s) \<le> length s"
  by (simp add: skip_ws_def length_dropWhile_le)

lemma skip_ws_Cons_length: "skip_ws s = c # r \<Longrightarrow> Suc (length r) \<le> length s"
  using skip_ws_length [of s] by simp

lemma scan_chars_length: "scan_chars s = Inr (ts, r) \<Longrightarrow> length r < length s"
proof (induction s arbitrary: ts r rule: scan_chars.induct)
  case 1
  then show ?case by simp
next
  case (2 c cs)
  show ?case
  proof (cases "c = 34")
    case True
    with "2.prems" show ?thesis by simp
  next
    case nq: False
    show ?thesis
    proof (cases "c = 92")
      case True
      with "2.prems" nq obtain e q where cs: "cs = e # q" by (cases cs) auto
      show ?thesis
      proof (cases "e = 117")
        case u: True
        from "2.prems" nq True cs u obtain h1 h2 h3 h4 q' v ts'
          where q: "q = h1 # h2 # h3 # h4 # q'" "hex4 h1 h2 h3 h4 = Some v"
            "scan_chars q' = Inr (ts', r)"
          by (auto split: list.splits option.splits simp: bindE_eq_Inr)
        from "2.IH"(1) [OF nq True cs u q(1) refl refl refl q(2) q(3)] cs q(1)
        show ?thesis by simp
      next
        case nu: False
        from "2.prems" nq True cs nu obtain v ts'
          where q: "simple_escape e = Some v" "scan_chars q = Inr (ts', r)"
          by (auto split: option.splits simp: bindE_eq_Inr)
        from "2.IH"(2) [OF nq True cs nu q(1) q(2)] cs show ?thesis by simp
      qed
    next
      case False
      with "2.prems" nq obtain ts' where nc: "\<not> c < 32" and q: "scan_chars cs = Inr (ts', r)"
        by (auto simp: bindE_eq_Inr split: if_splits)
      from "2.IH"(3) [OF nq False nc q] show ?thesis by simp
    qed
  qed
qed

lemma scan_string_length: "scan_string s = Inr (t, r) \<Longrightarrow> length r < length s"
  by (auto simp: scan_string_def bindE_eq_Inr dest: scan_chars_length)

lemma digits_prefix_length: "length (snd (digits_prefix s)) \<le> length s"
  by (simp add: digits_prefix_def length_dropWhile_le)

lemma scan_int_length: "scan_int s = Some (ds, r) \<Longrightarrow> length r < length s"
proof (cases s)
  case (Cons c q)
  assume a: "scan_int s = Some (ds, r)"
  show ?thesis
  proof (cases "c = 48")
    case True
    with a Cons show ?thesis by (simp add: scan_int_def)
  next
    case False
    with a Cons have "is_digit c" "r = dropWhile is_digit q"
      by (auto simp: scan_int_def digits_prefix_def split: if_splits)
    with Cons show ?thesis by (simp add: le_imp_less_Suc length_dropWhile_le)
  qed
qed (simp add: scan_int_def)

lemma scan_frac_length: "scan_frac s = (fr, r) \<Longrightarrow> length r \<le> length s"
  using digits_prefix_length [of "tl s"]
  by (cases s) (auto simp: scan_frac_def split: if_splits)

lemma scan_exp_length: "scan_exp s = (ex, r) \<Longrightarrow> length r \<le> length s"
  using digits_prefix_length [of "tl s"] digits_prefix_length [of "tl (tl s)"]
  by (cases s; cases "tl s") (auto simp: scan_exp_def split: if_splits)

lemma startswith_u_ne: "startswith s (u (c # cs)) \<Longrightarrow> s \<noteq> []"
  by (auto simp: startswith_def u_def)

lemma scan_number_length: "scan_number s = Inr (v, r) \<Longrightarrow> length r < length s"
proof -
  assume a: "scan_number s = Inr (v, r)"
  define body where "body = (if startswith s (u ''-'') then drop 1 s else s)"
  have b: "length body \<le> length s" by (simp add: body_def)
  show ?thesis
  proof (cases "scan_int body")
    case None
    with a have "s \<noteq> [] \<and> (r = drop 3 s \<or> r = drop 8 s \<or> r = drop 9 s)"
      by (auto simp: scan_number_def body_def [symmetric] Let_def startswith_u_ne
          split: if_splits)
    then show ?thesis by auto
  next
    case (Some p)
    obtain ds r0 where p: "p = (ds, r0)" by (cases p)
    obtain fr r1 where f: "scan_frac r0 = (fr, r1)" by (cases "scan_frac r0")
    obtain ex r2 where e: "scan_exp r1 = (ex, r2)" by (cases "scan_exp r1")
    from a Some p f e have "r = r2"
      by (auto simp: scan_number_def body_def [symmetric] Let_def bindE_eq_Inr)
    moreover have "length r0 < length body" using Some p by (auto dest: scan_int_length)
    ultimately show ?thesis using b scan_frac_length [OF f] scan_exp_length [OF e] by simp
  qed
qed

lemma number_value_fuel: "number_value neg ds fr ex \<noteq> Inl Out_Of_Fuel"
  by (auto simp: number_value_def Let_def split: option.splits)

lemma scan_number_fuel: "scan_number s \<noteq> Inl Out_Of_Fuel"
  using number_value_fuel
  by (auto simp: scan_number_def Let_def bindE_eq_Inl split: option.splits prod.splits)

lemma scan_chars_fuel: "scan_chars s \<noteq> Inl Out_Of_Fuel"
proof (induction s rule: scan_chars.induct)
  case 1
  then show ?case by simp
next
  case (2 c cs)
  show ?case
  proof
    assume a: "scan_chars (c # cs) = Inl Out_Of_Fuel"
    show False
    proof (cases "c = 34 \<or> (c \<noteq> 92 \<and> c < 32)")
      case True
      with a show False by (auto split: if_splits)
    next
      case False
      show False
      proof (cases "c = 92")
        case False
        with a \<open>\<not> (c = 34 \<or> (c \<noteq> 92 \<and> c < 32))\<close> "2.IH"(3) show False
          by (auto simp: bindE_eq_Inl split: if_splits)
      next
        case True
        with a obtain e q where cs: "cs = e # q" by (cases cs) auto
        show False
        proof (cases "e = 117")
          case False
          with a True cs "2.IH"(2) show False
            by (auto simp: bindE_eq_Inl split: option.splits)
        next
          case e: True
          from a True cs e obtain h1 h2 h3 h4 q' v
            where q: "q = h1 # h2 # h3 # h4 # q'" "hex4 h1 h2 h3 h4 = Some v"
              "scan_chars q' = Inl Out_Of_Fuel"
            by (auto split: list.splits option.splits simp: bindE_eq_Inl)
          have "c \<noteq> 34" using True by simp
          from "2.IH"(1) [OF this True cs e q(1) refl refl refl q(2)] q(3) show False by simp
        qed
      qed
    qed
  qed
qed

lemma scan_string_fuel: "scan_string s \<noteq> Inl Out_Of_Fuel"
  using scan_chars_fuel by (auto simp: scan_string_def bindE_eq_Inl)

lemma case_list_eq:
  "(case xs of [] \<Rightarrow> a | y # ys \<Rightarrow> f y ys) = c \<longleftrightarrow>
     (xs = [] \<and> a = c) \<or> (\<exists>y ys. xs = y # ys \<and> f y ys = c)"
  by (cases xs) auto

lemma drop_word_length: "s \<noteq> [] \<Longrightarrow> length (drop (Suc n) s) < length s"
  by simp

lemma parse_lengths:
  "(\<forall>s v r. parse_value n s = Inr (v, r) \<longrightarrow> length r < length s)
   \<and> (\<forall>s vs r. parse_elems n s = Inr (vs, r) \<longrightarrow> length r < length s)
   \<and> (\<forall>acc s m r. parse_members n acc s = Inr (m, r) \<longrightarrow> length r < length s)"
proof (induction n)
  case 0
  show ?case by simp
next
  case (Suc n)
  note V = Suc.IH [THEN conjunct1, rule_format]
  note E = Suc.IH [THEN conjunct2, THEN conjunct1, rule_format]
  note M = Suc.IH [THEN conjunct2, THEN conjunct2, rule_format]
  have "length r < length s" if a: "parse_value (Suc n) s = Inr (v, r)" for s v r
  proof -
    from a obtain c q where s: "s = c # q" by (cases s) auto
    show ?thesis
    proof (cases "c = 34 \<or> c = 123 \<or> c = 91")
      case False
      with a s scan_number_length [of s v r] show ?thesis by (auto split: if_splits)
    next
      case True
      with a s show ?thesis
        by (auto simp: bindE_eq_Inr split: if_splits list.splits
            dest!: scan_string_length skip_ws_Cons_length E M)
    qed
  qed
  moreover have "length r < length s" if a: "parse_elems (Suc n) s = Inr (vs, r)" for s vs r
  proof -
    from a obtain v q where v1: "parse_value n s = Inr (v, q)"
      and b: "(case skip_ws q of [] \<Rightarrow> Inl Decode_Error
        | d # z \<Rightarrow> if d = 93 then Inr ([v], z)
            else if d = 44 then bindE (parse_elems n (skip_ws z)) (\<lambda>(vs, w). Inr (v # vs, w))
            else Inl Decode_Error) = Inr (vs, r)"
      by (auto simp: bindE_eq_Inr)
    then obtain d z where v: "parse_value n s = Inr (v, q)" "skip_ws q = d # z"
      by (cases "skip_ws q") auto
    with b have rest: "d = 93 \<and> r = z \<or> (\<exists>ws. parse_elems n (skip_ws z) = Inr (ws, r))"
      by (auto simp: bindE_eq_Inr split: if_split_asm)
    from rest skip_ws_length [of z] have "length r \<le> length z" by (auto dest: E)
    with V [OF v(1)] skip_ws_Cons_length [OF v(2)] show ?thesis by simp
  qed
  moreover have "length r < length s" if a: "parse_members (Suc n) acc s = Inr (m, r)"
    for acc s m r
  proof -
    from a obtain q k r1 d z v r2 e y m' where k: "s = 34 # q" "scan_string q = Inr (k, r1)"
      "skip_ws r1 = d # z" "parse_value n (skip_ws z) = Inr (v, r2)" "skip_ws r2 = e # y"
      and rest: "r = y \<or> parse_members n m' (skip_ws y) = Inr (m, r)"
      by (auto simp: bindE_eq_Inr case_list_eq split: if_split_asm) blast+
    from rest skip_ws_length [of y] have "length r \<le> length y" by (auto dest: M)
    with k(1) scan_string_length [OF k(2)] skip_ws_Cons_length [OF k(3)] V [OF k(4)]
      skip_ws_length [of z] skip_ws_Cons_length [OF k(5)] show ?thesis by simp
  qed
  ultimately show ?case by blast
qed

lemma parse_fuel:
  "(\<forall>s. 2 * length s + 1 \<le> n \<longrightarrow> parse_value n s \<noteq> Inl Out_Of_Fuel)
   \<and> (\<forall>s. 2 * length s + 2 \<le> n \<longrightarrow> parse_elems n s \<noteq> Inl Out_Of_Fuel)
   \<and> (\<forall>acc s. 2 * length s + 2 \<le> n \<longrightarrow> parse_members n acc s \<noteq> Inl Out_Of_Fuel)"
proof (induction n)
  case 0
  show ?case by simp
next
  case (Suc n)
  note V = Suc.IH [THEN conjunct1, rule_format]
  note E = Suc.IH [THEN conjunct2, THEN conjunct1, rule_format]
  note M = Suc.IH [THEN conjunct2, THEN conjunct2, rule_format]
  have "parse_value (Suc n) s \<noteq> Inl Out_Of_Fuel" if a: "2 * length s + 1 \<le> Suc n" for s
  proof (cases s)
    case (Cons c q)
    have i: "parse_elems n (d # z) \<noteq> Inl Out_Of_Fuel"
      "parse_members n [] (d # z) \<noteq> Inl Out_Of_Fuel" if "skip_ws q = d # z" for d z
      using E [of "d # z"] M [of "d # z"] skip_ws_Cons_length [OF that] a Cons by auto
    show ?thesis
    proof (cases "c = 34 \<or> c = 123 \<or> c = 91")
      case False
      with Cons scan_number_fuel show ?thesis by auto
    next
      case True
      with Cons i scan_string_fuel show ?thesis
        by (auto simp: bindE_eq_Inl split: list.splits)
    qed
  qed simp
  moreover have "parse_elems (Suc n) s \<noteq> Inl Out_Of_Fuel" if a: "2 * length s + 2 \<le> Suc n" for s
  proof
    assume f: "parse_elems (Suc n) s = Inl Out_Of_Fuel"
    have "parse_value n s \<noteq> Inl Out_Of_Fuel" using V a by simp
    with f obtain v q where v1: "parse_value n s = Inr (v, q)"
      and b: "(case skip_ws q of [] \<Rightarrow> Inl Decode_Error
        | d # z \<Rightarrow> if d = 93 then Inr ([v], z)
            else if d = 44 then bindE (parse_elems n (skip_ws z)) (\<lambda>(vs, w). Inr (v # vs, w))
            else Inl Decode_Error) = Inl Out_Of_Fuel"
      by (auto simp: bindE_eq_Inl)
    then obtain d z where v: "parse_value n s = Inr (v, q)" "skip_ws q = d # z"
      by (cases "skip_ws q") auto
    with b have rest: "parse_elems n (skip_ws z) = Inl Out_Of_Fuel"
      by (auto simp: bindE_eq_Inl split: if_split_asm)
    have "length q < length s" using parse_lengths v(1) by blast
    then have "2 * length (skip_ws z) + 2 \<le> n"
      using skip_ws_Cons_length [OF v(2)] skip_ws_length [of z] a by simp
    with E rest show False by blast
  qed
  moreover have "parse_members (Suc n) acc s \<noteq> Inl Out_Of_Fuel"
    if a: "2 * length s + 2 \<le> Suc n" for acc s
  proof
    assume f: "parse_members (Suc n) acc s = Inl Out_Of_Fuel"
    then obtain q k r1 d z where k: "s = 34 # q" "scan_string q = Inr (k, r1)"
      "skip_ws r1 = d # z"
      and f1: "parse_value n (skip_ws z) = Inl Out_Of_Fuel \<or>
        (\<exists>v r2 e y m'. parse_value n (skip_ws z) = Inr (v, r2) \<and> skip_ws r2 = e # y \<and>
           parse_members n m' (skip_ws y) = Inl Out_Of_Fuel)"
      using scan_string_fuel
      by (auto simp: bindE_eq_Inl case_list_eq split: if_split_asm) blast+
    have z: "Suc (Suc (length (skip_ws z))) \<le> length s"
      using k(1) scan_string_length [OF k(2)] skip_ws_Cons_length [OF k(3)]
        skip_ws_length [of z] by simp
    then have "parse_value n (skip_ws z) \<noteq> Inl Out_Of_Fuel" using V a by simp
    with f1 obtain v r2 e y m' where y: "parse_value n (skip_ws z) = Inr (v, r2)"
      "skip_ws r2 = e # y" "parse_members n m' (skip_ws y) = Inl Out_Of_Fuel" by blast
    have "length r2 < length (skip_ws z)" using parse_lengths y(1) by blast
    then have "2 * length (skip_ws y) + 2 \<le> n"
      using z skip_ws_Cons_length [OF y(2)] skip_ws_length [of y] a by simp
    with M y(3) show False by blast
  qed
  ultimately show ?case by blast
qed

text \<open>So running out of fuel is not one of the outcomes of \<open>json_loads\<close>.\<close>

lemma json_loads_fuel: "json_loads s \<noteq> Inl Out_Of_Fuel"
proof
  assume "json_loads s = Inl Out_Of_Fuel"
  then have "parse_value (2 * length s + 2) (skip_ws s) = Inl Out_Of_Fuel"
    by (auto simp: json_loads_def bindE_eq_Inl split: if_splits)
  moreover have "2 * length (skip_ws s) + 1 \<le> 2 * length s + 2"
    using skip_ws_length [of s] by simp
  ultimately show False using parse_fuel by blast
qed

end
