(* ===== verification/Domain.thy ===== *)
theory Domain
  imports Json
begin

text \<open>
  The shared value objects of \<open>src/claude_local/types.py\<close>: the five terminal statuses, the
  budget, context files and the task, each constructed through the checks of its
  \<open>__post_init__\<close>, and the guarded rate \<open>mean_tokens_per_second\<close>.  The exceptions the
  package raises are the constructors of one type \<open>exn\<close>; a constructor carries what the
  exception's message prints, so every \<open>raise\<close> of the code is a value of the model.
\<close>

section \<open>Exceptions\<close>

datatype value_reason =
    Max_Attempts_Not_Positive int
  | Max_Tokens_Not_Positive int
  | Generation_Timeout_Not_Positive pyfloat
  | Oracle_Timeout_Not_Positive pyfloat
  | Blank_Context_Path
  | Blank_Impl_Path
  | Expected_Tests_Below_One int
  | Not_Nested_Relative_File pystr
  | Bad_Int_Literal pystr

datatype keep_reason =
    Empty_Path
  | Absolute_Path
  | Final_Symlink
  | Unresolvable_Path
  | Outside_Root
  | Not_The_Permitted_Path

datatype exn =
    Value_Error value_reason
  | Unicode_Encode_Error
  | Unicode_Decode_Error
  | Int_Digits_Error
  | Keep_Only_Violation pystr keep_reason
  | Backend_Unavailable pystr pystr pystr
  | Generation_Silent pystr pystr pystr
  | Replay_Exhausted nat nat
  | Oracle_Error pystr
  | Sandbox_Unavailable
  | OS_Error

text \<open>The instances of \<open>ValueError\<close>: the codec errors and the digit limit are subclasses.\<close>

definition is_value_error :: "exn \<Rightarrow> bool" where
  "is_value_error e = (case e of
     Value_Error _ \<Rightarrow> True | Unicode_Encode_Error \<Rightarrow> True | Unicode_Decode_Error \<Rightarrow> True
   | Int_Digits_Error \<Rightarrow> True | _ \<Rightarrow> False)"

section \<open>Value objects\<close>

datatype status = Done | Derailed | Exhausted | Blocked | Faulted

definition status_value :: "status \<Rightarrow> pystr" where
  "status_value s = (case s of Done \<Rightarrow> u ''done'' | Derailed \<Rightarrow> u ''derailed''
     | Exhausted \<Rightarrow> u ''exhausted'' | Blocked \<Rightarrow> u ''blocked'' | Faulted \<Rightarrow> u ''faulted'')"

record budget =
  max_attempts :: int
  max_tokens :: int
  generation_timeout_s :: pyfloat
  oracle_timeout_s :: pyfloat

definition mk_budget :: "int \<Rightarrow> int \<Rightarrow> pyfloat \<Rightarrow> pyfloat \<Rightarrow> exn + budget" where
  "mk_budget attempts tokens gen orc =
     (if attempts \<le> 0 then Inl (Value_Error (Max_Attempts_Not_Positive attempts))
      else if tokens \<le> 0 then Inl (Value_Error (Max_Tokens_Not_Positive tokens))
      else if float_le gen (Fin 0) then Inl (Value_Error (Generation_Timeout_Not_Positive gen))
      else if float_le orc (Fin 0) then Inl (Value_Error (Oracle_Timeout_Not_Positive orc))
      else Inr \<lparr>max_attempts = attempts, max_tokens = tokens,
                generation_timeout_s = gen, oracle_timeout_s = orc\<rparr>)"

record context_file =
  cf_path :: pystr
  cf_content :: pystr

definition mk_context_file :: "pystr \<Rightarrow> pystr \<Rightarrow> exn + context_file" where
  "mk_context_file path content =
     (if strip path = [] then Inl (Value_Error Blank_Context_Path)
      else Inr \<lparr>cf_path = path, cf_content = content\<rparr>)"

record task_spec =
  impl_path :: pystr
  spec_text :: pystr
  test_text :: pystr
  expected_tests :: int
  task_budget :: budget
  context_files :: "context_file list"
  plan_first :: bool

definition mk_task_spec ::
  "pystr \<Rightarrow> pystr \<Rightarrow> pystr \<Rightarrow> int \<Rightarrow> budget \<Rightarrow> context_file list \<Rightarrow> bool \<Rightarrow> exn + task_spec" where
  "mk_task_spec path spec test expected b ctx plan =
     (if strip path = [] then Inl (Value_Error Blank_Impl_Path)
      else if expected \<le> 0 then Inl (Value_Error (Expected_Tests_Below_One expected))
      else Inr \<lparr>impl_path = path, spec_text = spec, test_text = test,
                expected_tests = expected, task_budget = b, context_files = ctx,
                plan_first = plan\<rparr>)"

definition mean_tokens_per_second :: "int \<Rightarrow> rat \<Rightarrow> rat option" where
  "mean_tokens_per_second tokens seconds =
     (if seconds > 0 then Some (of_int tokens / seconds) else None)"

section \<open>Well-formedness\<close>

definition wf_budget :: "budget \<Rightarrow> bool" where
  "wf_budget b \<longleftrightarrow> 0 < max_attempts b \<and> 0 < max_tokens b
     \<and> \<not> float_le (generation_timeout_s b) (Fin 0) \<and> \<not> float_le (oracle_timeout_s b) (Fin 0)"

definition wf_task :: "task_spec \<Rightarrow> bool" where
  "wf_task t \<longleftrightarrow> strip (impl_path t) \<noteq> [] \<and> 0 < expected_tests t"

lemma mk_budget_wf: "mk_budget a t g r = Inr b \<Longrightarrow> wf_budget b"
  by (auto simp: mk_budget_def wf_budget_def split: if_splits)

lemma mk_task_spec_wf: "mk_task_spec p s t e b c pf = Inr ts \<Longrightarrow> wf_task ts"
  by (auto simp: mk_task_spec_def wf_task_def split: if_splits)

lemma mk_budget_Inl: "mk_budget a t g r = Inl e \<Longrightarrow> is_value_error e"
  by (auto simp: mk_budget_def is_value_error_def split: if_splits)

lemma mk_context_file_Inl: "mk_context_file p c = Inl e \<Longrightarrow> is_value_error e"
  by (auto simp: mk_context_file_def is_value_error_def split: if_splits)

lemma mk_task_spec_Inl: "mk_task_spec p s t e b c pf = Inl x \<Longrightarrow> is_value_error x"
  by (auto simp: mk_task_spec_def is_value_error_def split: if_splits)

lemma mean_tokens_nonneg:
  "0 \<le> t \<Longrightarrow> mean_tokens_per_second t s = Some r \<Longrightarrow> 0 \<le> r \<and> r * s = of_int t"
  by (auto simp: mean_tokens_per_second_def split: if_splits)

text \<open>A comparison with NaN is false both ways, so a NaN timeout passes the check that is
  meant to keep the bounds positive.\<close>

lemma mk_budget_accepts_nan:
  "mk_budget 1 1 NaN NaN = Inr \<lparr>max_attempts = 1, max_tokens = 1,
     generation_timeout_s = NaN, oracle_timeout_s = NaN\<rparr>"
  by (simp add: mk_budget_def)

end
