(* ===== verification/Derail.thy ===== *)
theory Derail
  imports Domain
begin

text \<open>
  The derail guard of \<open>src/claude_local/derail.py\<close>.  The state is the object's fields; the
  injected clock is a function from the number of the reading to its value, and every
  operation returns how many readings it has used, because \<open>feed\<close> reads it twice.
\<close>

section \<open>State\<close>

definition REPETITION_NGRAM :: nat where "REPETITION_NGRAM = 24"
definition REPETITION_THRESHOLD :: nat where "REPETITION_THRESHOLD = 6"
definition WARMUP_CHARS :: nat where "WARMUP_CHARS = 200"
definition CHARS_PER_TOKEN :: nat where "CHARS_PER_TOKEN = 4"
definition SILENCE_TIMEOUT_S :: rat where "SILENCE_TIMEOUT_S = 180"

lemmas derail_constants = REPETITION_NGRAM_def REPETITION_THRESHOLD_def WARMUP_CHARS_def
  CHARS_PER_TOKEN_def SILENCE_TIMEOUT_S_def

datatype derail_reason = Repetition | Token_Cap | Timeout | Silent

definition derail_value :: "derail_reason \<Rightarrow> pystr" where
  "derail_value r = (case r of Repetition \<Rightarrow> u ''repetition'' | Token_Cap \<Rightarrow> u ''token_cap''
     | Timeout \<Rightarrow> u ''timeout'' | Silent \<Rightarrow> u ''silent'')"

record guard =
  deadline :: pyfloat
  silence_since :: "rat option"
  token_cap_chars :: int
  fed_chars :: nat
  pending :: "pystr list"
  line_base :: nat
  recent :: "pystr list"
  tripped :: "derail_reason option"

definition new_guard :: "budget \<Rightarrow> rat \<Rightarrow> guard" where
  "new_guard b now = \<lparr>deadline = float_add (Fin now) (generation_timeout_s b),
     silence_since = None, token_cap_chars = max_tokens b * int CHARS_PER_TOKEN,
     fed_chars = 0, pending = [], line_base = 0, recent = [], tripped = None\<rparr>"

section \<open>Operations\<close>

definition trip :: "derail_reason \<Rightarrow> guard \<Rightarrow> derail_reason option \<times> guard" where
  "trip r g = (Some r, g\<lparr>tripped := Some r\<rparr>)"

definition clock_bounds :: "rat \<Rightarrow> guard \<Rightarrow> derail_reason option \<times> guard" where
  "clock_bounds now g =
     (if float_less (deadline g) (Fin now) then trip Timeout g
      else let since = (case silence_since g of None \<Rightarrow> now | Some t \<Rightarrow> t);
               g' = g\<lparr>silence_since := Some since\<rparr>
           in if now - since > SILENCE_TIMEOUT_S then trip Silent g' else (None, g'))"

definition tick :: "(nat \<Rightarrow> rat) \<Rightarrow> nat \<Rightarrow> guard \<Rightarrow> derail_reason option \<times> guard \<times> nat" where
  "tick clk k g =
     (case tripped g of Some r \<Rightarrow> (Some r, g, k)
      | None \<Rightarrow> (case clock_bounds (clk k) g of (r, g') \<Rightarrow> (r, g', Suc k)))"

text \<open>The ring buffer of eligible lines: \<open>deque(maxlen=REPETITION_THRESHOLD)\<close>.\<close>

definition push_recent :: "pystr list \<Rightarrow> pystr \<Rightarrow> pystr list" where
  "push_recent rs l =
     (let xs = rs @ [l] in drop (length xs - REPETITION_THRESHOLD) xs)"

definition all_same :: "'a list \<Rightarrow> bool" where
  "all_same xs \<longleftrightarrow> length (remdups xs) = 1"

text \<open>The loop over completed lines: the verdict, the position reached and the buffer.\<close>

fun scan_lines :: "pystr list \<Rightarrow> nat \<Rightarrow> pystr list \<Rightarrow> bool \<times> nat \<times> pystr list" where
  "scan_lines [] pos rs = (False, pos, rs)"
| "scan_lines (l # ls) pos rs =
     (let pos' = pos + length l + 1 in
      if pos' \<le> WARMUP_CHARS then scan_lines ls pos' rs
      else if length l < REPETITION_NGRAM then scan_lines ls pos' rs
      else let rs' = push_recent rs l in
           if length rs' = REPETITION_THRESHOLD \<and> all_same rs' then (True, pos', rs')
           else scan_lines ls pos' rs')"

definition scan_for_repetition ::
  "pystr \<Rightarrow> guard \<Rightarrow> derail_reason option \<times> guard" where
  "scan_for_repetition d g =
     (let g1 = g\<lparr>pending := pending g @ [d]\<rparr> in
      if NL \<notin> set d then (None, g1)
      else let parts = split_on NL (concat (pending g1));
               g2 = g1\<lparr>pending := [last parts]\<rparr>
           in case scan_lines (butlast parts) (line_base g2) (recent g2) of
                (True, _, rs) \<Rightarrow> trip Repetition (g2\<lparr>recent := rs\<rparr>)
              | (False, pos, rs) \<Rightarrow> (None, g2\<lparr>recent := rs, line_base := pos\<rparr>))"

definition feed ::
  "(nat \<Rightarrow> rat) \<Rightarrow> nat \<Rightarrow> guard \<Rightarrow> pystr \<Rightarrow> derail_reason option \<times> guard \<times> nat" where
  "feed clk k g d =
     (case tripped g of Some r \<Rightarrow> (Some r, g, k)
      | None \<Rightarrow>
          (case clock_bounds (clk k) g of
             (Some r, g1) \<Rightarrow> (Some r, g1, Suc k)
           | (None, g1) \<Rightarrow>
               let g2 = g1\<lparr>silence_since := Some (clk (Suc k)),
                           fed_chars := fed_chars g1 + length d\<rparr>
               in if int (fed_chars g2) > token_cap_chars g2
                  then (case trip Token_Cap g2 of (r, g3) \<Rightarrow> (r, g3, Suc (Suc k)))
                  else (case scan_for_repetition d g2 of (r, g3) \<Rightarrow> (r, g3, Suc (Suc k)))))"

text \<open>A whole stream of deltas; the caller stops at the first verdict, and the latch makes
  feeding the rest change nothing.\<close>

fun feed_many :: "(nat \<Rightarrow> 'g \<Rightarrow> 'd \<Rightarrow> 'r option \<times> 'g \<times> nat) \<Rightarrow> nat \<Rightarrow> 'g \<Rightarrow> 'd list
                    \<Rightarrow> 'g \<times> nat" where
  "feed_many op k g [] = (g, k)"
| "feed_many op k g (d # ds) = (case op k g d of (_, g', k') \<Rightarrow> feed_many op k' g' ds)"

definition feed_all ::
  "(nat \<Rightarrow> rat) \<Rightarrow> nat \<Rightarrow> guard \<Rightarrow> pystr list \<Rightarrow> guard \<times> nat" where
  "feed_all clk k g ds = feed_many (feed clk) k g ds"

section \<open>The latch\<close>

lemma tick_latched: "tripped g = Some r \<Longrightarrow> tick clk k g = (Some r, g, k)"
  by (simp add: tick_def)

lemma feed_latched: "tripped g = Some r \<Longrightarrow> feed clk k g d = (Some r, g, k)"
  by (simp add: feed_def)

lemma clock_bounds_verdict: "clock_bounds t g = (r, g') \<Longrightarrow> tripped g = None \<Longrightarrow> tripped g' = r"
  by (auto simp: clock_bounds_def trip_def Let_def split: if_splits)

lemma scan_verdict: "scan_for_repetition d g = (r, g') \<Longrightarrow> tripped g = None \<Longrightarrow> tripped g' = r"
  by (auto simp: scan_for_repetition_def trip_def Let_def split: if_splits prod.splits bool.splits)

lemma tick_verdict: "tick clk k g = (r, g', k') \<Longrightarrow> tripped g' = r"
  by (auto simp: tick_def dest: clock_bounds_verdict split: option.splits prod.splits)

lemma feed_verdict: "feed clk k g d = (r, g', k') \<Longrightarrow> tripped g' = r"
proof (cases "tripped g")
  case None
  assume f: "feed clk k g d = (r, g', k')"
  obtain v g1 where c: "clock_bounds (clk k) g = (v, g1)" by (cases "clock_bounds (clk k) g")
  with None have t: "tripped g1 = v" by (auto dest: clock_bounds_verdict)
  show ?thesis
  proof (cases v)
    case (Some w)
    with f None c t show ?thesis by (simp add: feed_def)
  next
    case v: None
    define g2 where "g2 = g1\<lparr>silence_since := Some (clk (Suc k)),
                               fed_chars := fed_chars g1 + length d\<rparr>"
    have t2: "tripped g2 = None" using t v by (simp add: g2_def)
    obtain w g3 where s: "scan_for_repetition d g2 = (w, g3)"
      by (cases "scan_for_repetition d g2")
    from f None c v s show ?thesis
      using scan_verdict [OF s t2]
      by (auto simp: feed_def Let_def trip_def g2_def [symmetric] split: if_splits)
  qed
qed (simp add: feed_def)

text \<open>The interface the client drives a guard through: a verdict, once returned, is latched
  and readable without another call.\<close>

locale stream_guard =
  fixes verdict :: "'g \<Rightarrow> 'r option"
    and tick_op :: "nat \<Rightarrow> 'g \<Rightarrow> 'r option \<times> 'g \<times> nat"
    and feed_op :: "nat \<Rightarrow> 'g \<Rightarrow> 'd \<Rightarrow> 'r option \<times> 'g \<times> nat"
  assumes tick_reports: "tick_op k g = (v, g', k') \<Longrightarrow> verdict g' = v"
    and feed_reports: "feed_op k g d = (v, g', k') \<Longrightarrow> verdict g' = v"
    and tick_latch: "verdict g = Some r \<Longrightarrow> tick_op k g = (Some r, g, k)"
    and feed_latch: "verdict g = Some r \<Longrightarrow> feed_op k g d = (Some r, g, k)"
begin

lemma feed_many_latched: "verdict g = Some r \<Longrightarrow> feed_many feed_op k g ds = (g, k)"
  by (induction ds) (simp_all add: feed_latch)

lemma feed_many_verdict_stable:
  "verdict g = Some r \<Longrightarrow> verdict (fst (feed_many feed_op k g ds)) = Some r"
  by (simp add: feed_many_latched)

lemma feed_many_append:
  "feed_many feed_op k g (xs @ ys) =
     (case feed_many feed_op k g xs of (g', k') \<Rightarrow> feed_many feed_op k' g' ys)"
  by (induction xs arbitrary: k g) (auto split: prod.splits)

lemma feed_many_verdict_mono:
  assumes "verdict (fst (feed_many feed_op k g (xs @ ys))) = None"
  shows "verdict (fst (feed_many feed_op k g xs)) = None"
proof (rule ccontr)
  obtain g' k' where x: "feed_many feed_op k g xs = (g', k')"
    by (cases "feed_many feed_op k g xs")
  assume "verdict (fst (feed_many feed_op k g xs)) \<noteq> None"
  with x obtain r where "verdict g' = Some r" by auto
  with x assms show False by (simp add: feed_many_append feed_many_latched)
qed

end

interpretation derail: stream_guard tripped "tick clk" "feed clk" for clk
  by unfold_locales (erule tick_verdict feed_verdict tick_latched feed_latched)+

section \<open>The repetition verdict as a property of the text\<close>

text \<open>The lines that count: those long enough that end past the warmup.\<close>

fun eligible :: "nat \<Rightarrow> pystr list \<Rightarrow> pystr list" where
  "eligible pos [] = []"
| "eligible pos (l # ls) =
     (let pos' = pos + length l + 1 in
      if WARMUP_CHARS < pos' \<and> REPETITION_NGRAM \<le> length l
      then l # eligible pos' ls else eligible pos' ls)"

definition has_run :: "nat \<Rightarrow> 'a list \<Rightarrow> bool" where
  "has_run n xs \<longleftrightarrow> (\<exists>i x. i + n \<le> length xs \<and> take n (drop i xs) = replicate n x)"

definition complete_lines :: "pystr \<Rightarrow> pystr list" where
  "complete_lines t = butlast (split_on NL t)"

text \<open>The reference definition: six consecutive equal eligible lines in the text.\<close>

definition repeats :: "pystr \<Rightarrow> bool" where
  "repeats t = has_run REPETITION_THRESHOLD (eligible 0 (complete_lines t))"

section \<open>The ring buffer finds exactly the runs\<close>

lemma all_same_iff: "all_same xs \<longleftrightarrow> xs \<noteq> [] \<and> (\<exists>x. xs = replicate (length xs) x)"
proof -
  have "length (remdups xs) = card (set xs)" by (simp add: length_remdups_card_conv)
  moreover have "card (set xs) = 1 \<longleftrightarrow> xs \<noteq> [] \<and> (\<exists>x. xs = replicate (length xs) x)"
  proof
    assume "card (set xs) = 1"
    then obtain x where x: "set xs = {x}" by (auto simp: card_1_singleton_iff)
    then have "xs = replicate (length xs) x" by (intro replicate_eqI) auto
    with x show "xs \<noteq> [] \<and> (\<exists>x. xs = replicate (length xs) x)" by auto
  next
    assume "xs \<noteq> [] \<and> (\<exists>x. xs = replicate (length xs) x)"
    then obtain x where "xs \<noteq> []" "xs = replicate (length xs) x" by blast
    then have "set xs = {x}" by (metis length_greater_0_conv neq0_conv set_replicate_conv_if)
    then show "card (set xs) = 1" by simp
  qed
  ultimately show ?thesis by (simp add: all_same_def)
qed

lemma has_run_append: "has_run n xs \<Longrightarrow> has_run n (xs @ ys)"
  unfolding has_run_def
proof (elim exE conjE)
  fix i x
  assume "i + n \<le> length xs" "take n (drop i xs) = replicate n x"
  then show "\<exists>i x. i + n \<le> length (xs @ ys) \<and> take n (drop i (xs @ ys)) = replicate n x"
    by (intro exI [of _ i] exI [of _ x]) auto
qed

lemma has_run_snoc:
  assumes "\<not> has_run n xs"
  shows "has_run n (xs @ [l]) \<longleftrightarrow> n \<le> length xs + 1 \<and>
           (\<exists>x. drop (length xs + 1 - n) (xs @ [l]) = replicate n x)"
proof
  assume "has_run n (xs @ [l])"
  then obtain i x where r: "i + n \<le> length xs + 1"
    "take n (drop i (xs @ [l])) = replicate n x" by (auto simp: has_run_def)
  have "\<not> i + n \<le> length xs"
  proof
    assume "i + n \<le> length xs"
    with r(2) have "take n (drop i xs) = replicate n x" by simp
    with \<open>i + n \<le> length xs\<close> assms show False by (auto simp: has_run_def)
  qed
  with r have i: "i = length xs + 1 - n" "n \<le> length xs + 1" by auto
  then have "length (drop i (xs @ [l])) = n" by simp
  then have "take n (drop i (xs @ [l])) = drop i (xs @ [l])" by simp
  with r(2) i show "n \<le> length xs + 1 \<and>
      (\<exists>x. drop (length xs + 1 - n) (xs @ [l]) = replicate n x)" by metis
next
  assume a: "n \<le> length xs + 1 \<and> (\<exists>x. drop (length xs + 1 - n) (xs @ [l]) = replicate n x)"
  then obtain x where x: "drop (length xs + 1 - n) (xs @ [l]) = replicate n x" by blast
  then have "take n (drop (length xs + 1 - n) (xs @ [l])) = replicate n x" by simp
  moreover from a have "length xs + 1 - n + n \<le> length (xs @ [l])" by simp
  ultimately show "has_run n (xs @ [l])" unfolding has_run_def by blast
qed

fun scan_eligible :: "pystr list \<Rightarrow> pystr list \<Rightarrow> bool" where
  "scan_eligible [] rs = False"
| "scan_eligible (l # ls) rs =
     (let rs' = push_recent rs l in
      (length rs' = REPETITION_THRESHOLD \<and> all_same rs') \<or> scan_eligible ls rs')"

lemma scan_lines_eligible: "fst (scan_lines ls pos rs) = scan_eligible (eligible pos ls) rs"
  by (induction ls arbitrary: pos rs) (auto simp: Let_def)

definition last_n :: "nat \<Rightarrow> 'a list \<Rightarrow> 'a list" where
  "last_n n xs = drop (length xs - n) xs"

lemma push_recent_last:
  "push_recent (last_n REPETITION_THRESHOLD pre) l = last_n REPETITION_THRESHOLD (pre @ [l])"
proof (cases "length pre \<le> REPETITION_THRESHOLD")
  case True
  then show ?thesis by (simp add: push_recent_def last_n_def Let_def)
next
  case False
  define k where "k = length pre - REPETITION_THRESHOLD"
  have "length (drop k pre @ [l]) - REPETITION_THRESHOLD = 1"
    using False by (simp add: k_def)
  moreover have "drop 1 (drop k pre @ [l]) = drop (Suc k) (pre @ [l])"
    using False by (simp add: k_def derail_constants)
  moreover have "length (pre @ [l]) - REPETITION_THRESHOLD = Suc k"
    using False by (simp add: k_def)
  ultimately show ?thesis
    by (simp only: push_recent_def last_n_def Let_def k_def [symmetric])
qed

lemma scan_eligible_has_run:
  "\<not> has_run REPETITION_THRESHOLD pre \<Longrightarrow>
     scan_eligible es (last_n REPETITION_THRESHOLD pre) = has_run REPETITION_THRESHOLD (pre @ es)"
proof (induction es arbitrary: pre)
  case Nil
  then show ?case by simp
next
  case (Cons l ls)
  define rs' where "rs' = last_n REPETITION_THRESHOLD (pre @ [l])"
  have trip: "(length rs' = REPETITION_THRESHOLD \<and> all_same rs')
      \<longleftrightarrow> has_run REPETITION_THRESHOLD (pre @ [l])"
  proof -
    have pos: "0 < REPETITION_THRESHOLD" by (simp add: derail_constants)
    have r: "rs' = drop (length pre + 1 - REPETITION_THRESHOLD) (pre @ [l])"
      by (simp add: rs'_def last_n_def)
    then have len: "length rs' = REPETITION_THRESHOLD \<longleftrightarrow> REPETITION_THRESHOLD \<le> length pre + 1"
      by auto
    show ?thesis
      unfolding has_run_snoc [OF Cons.prems] all_same_iff len r [symmetric]
      using pos len by auto
  qed
  show ?case
  proof (cases "has_run REPETITION_THRESHOLD (pre @ [l])")
    case True
    then have "has_run REPETITION_THRESHOLD ((pre @ [l]) @ ls)" by (rule has_run_append)
    with True trip show ?thesis
      by (simp add: push_recent_last rs'_def [symmetric] Let_def)
  next
    case False
    from Cons.IH [OF False] have "scan_eligible ls rs' = has_run REPETITION_THRESHOLD (pre @ l # ls)"
      by (simp add: rs'_def)
    moreover have "scan_eligible (l # ls) (last_n REPETITION_THRESHOLD pre)
        = ((length rs' = REPETITION_THRESHOLD \<and> all_same rs') \<or> scan_eligible ls rs')"
      by (simp add: push_recent_last rs'_def Let_def)
    ultimately show ?thesis using trip False by blast
  qed
qed

lemma repeats_scan: "repeats t = fst (scan_lines (complete_lines t) 0 [])"
proof -
  have "\<not> has_run REPETITION_THRESHOLD ([] :: pystr list)"
    by (simp add: has_run_def derail_constants)
  from scan_eligible_has_run [OF this, of "eligible 0 (complete_lines t)"]
  show ?thesis by (simp add: repeats_def scan_lines_eligible last_n_def)
qed

lemma scan_lines_append:
  "scan_lines (xs @ ys) pos rs =
     (case scan_lines xs pos rs of
        (True, p, r) \<Rightarrow> (True, p, r) | (False, p, r) \<Rightarrow> scan_lines ys p r)"
  by (induction xs arbitrary: pos rs) (auto simp: Let_def)

section \<open>Chunking\<close>

lemma complete_lines_append:
  "complete_lines (t @ d) =
     complete_lines t @ butlast (split_on NL (last (split_on NL t) @ d))"
  unfolding complete_lines_def by (rule full_parts_append)

lemma repeats_append: "repeats t \<Longrightarrow> repeats (t @ d)"
  unfolding repeats_scan complete_lines_append
  by (auto simp: scan_lines_append split: prod.splits bool.splits)

definition untripped_after :: "guard \<Rightarrow> pystr \<Rightarrow> bool" where
  "untripped_after g t \<longleftrightarrow> tripped g = None \<and> fed_chars g = length t
     \<and> int (length t) \<le> token_cap_chars g
     \<and> concat (pending g) = last (split_on NL t)
     \<and> scan_lines (complete_lines t) 0 [] = (False, line_base g, recent g)"

lemma untripped_repeats: "untripped_after g t \<Longrightarrow> \<not> repeats t"
  by (simp add: untripped_after_def repeats_scan)

text \<open>A clock on which no time bound ever trips: no reading passes the deadline and no two
  consecutive readings are further apart than the silence bound.\<close>

definition quiet_clock :: "(nat \<Rightarrow> rat) \<Rightarrow> pyfloat \<Rightarrow> bool" where
  "quiet_clock clk dl \<longleftrightarrow> (\<forall>k. \<not> float_less dl (Fin (clk k)))
     \<and> (\<forall>k. clk (Suc k) - clk k \<le> SILENCE_TIMEOUT_S)"

definition silence_at :: "(nat \<Rightarrow> rat) \<Rightarrow> nat \<Rightarrow> guard \<Rightarrow> bool" where
  "silence_at clk k g \<longleftrightarrow> silence_since g = None
     \<or> (\<exists>j. k = Suc j \<and> silence_since g = Some (clk j))"

lemma clock_bounds_quiet:
  assumes "quiet_clock clk (deadline g)" and "silence_at clk k g"
  shows "\<exists>s. clock_bounds (clk k) g = (None, g\<lparr>silence_since := Some s\<rparr>)"
proof -
  have "\<not> float_less (deadline g) (Fin (clk k))" using assms(1) by (simp add: quiet_clock_def)
  moreover have "clk k - (case silence_since g of None \<Rightarrow> clk k | Some t \<Rightarrow> t)
      \<le> SILENCE_TIMEOUT_S"
    using assms by (auto simp: quiet_clock_def silence_at_def derail_constants)
  ultimately show ?thesis by (auto simp: clock_bounds_def Let_def)
qed

lemma feed_quiet:
  assumes q: "quiet_clock clk (deadline g)" and s: "silence_at clk k g"
    and inv: "untripped_after g t"
  obtains r g' where "feed clk k g d = (r, g', Suc (Suc k))"
    and "r = None \<Longrightarrow> untripped_after g' (t @ d)"
    and "silence_at clk (Suc (Suc k)) g'"
    and "deadline g' = deadline g" and "token_cap_chars g' = token_cap_chars g"
    and "r \<noteq> None \<longleftrightarrow> token_cap_chars g < int (length (t @ d)) \<or> repeats (t @ d)"
proof -
  from inv have t: "tripped g = None" by (simp add: untripped_after_def)
  obtain s0 where c: "clock_bounds (clk k) g = (None, g\<lparr>silence_since := Some s0\<rparr>)"
    using clock_bounds_quiet [OF q s] by blast
  define g2 where "g2 = g\<lparr>silence_since := Some (clk (Suc k)),
                           fed_chars := fed_chars g + length d\<rparr>"
  have f: "feed clk k g d = (if int (fed_chars g2) > token_cap_chars g2
      then (case trip Token_Cap g2 of (r, g3) \<Rightarrow> (r, g3, Suc (Suc k)))
      else (case scan_for_repetition d g2 of (r, g3) \<Rightarrow> (r, g3, Suc (Suc k))))"
    using t c by (simp add: feed_def Let_def g2_def)
  have n: "fed_chars g2 = length (t @ d)" "token_cap_chars g2 = token_cap_chars g"
    using inv by (simp_all add: g2_def untripped_after_def)
  show thesis
  proof (cases "int (fed_chars g2) > token_cap_chars g2")
    case True
    show thesis
      by (rule that [of "Some Token_Cap" "g2\<lparr>tripped := Some Token_Cap\<rparr>"])
         (use f True n in \<open>simp_all add: trip_def silence_at_def g2_def\<close>)
  next
    case False
    define parts where "parts = split_on NL (last (split_on NL t) @ d)"
    obtain b p rs where sc: "scan_lines (butlast parts) (line_base g) (recent g) = (b, p, rs)"
      by (metis prod_cases3)
    have all: "scan_lines (complete_lines (t @ d)) 0 [] = (b, p, rs)"
      using inv sc by (cases b)
        (simp_all add: complete_lines_append scan_lines_append untripped_after_def parts_def)
    have lp: "last (split_on NL (t @ d)) = last parts"
      unfolding parts_def by (rule last_part_append)
    have pend: "concat (pending g2 @ [d]) = last (split_on NL t) @ d"
      using inv by (simp add: untripped_after_def g2_def)
    show thesis
    proof (cases "NL \<in> set d")
      case nl: False
      then have "parts = [last (split_on NL t) @ d]"
        using last_part_no_sep [of NL t] by (simp add: parts_def split_on_single)
      then have "b = False" "p = line_base g" "rs = recent g" "last parts = concat (pending g2 @ [d])"
        using sc pend by simp_all
      moreover have "scan_for_repetition d g2 = (None, g2\<lparr>pending := pending g2 @ [d]\<rparr>)"
        using nl by (simp add: scan_for_repetition_def Let_def)
      ultimately have fs: "feed clk k g d = (None, g2\<lparr>pending := pending g2 @ [d]\<rparr>, Suc (Suc k))"
        and st: "scan_lines (complete_lines (t @ d)) 0 [] = (False, line_base g, recent g)"
        and la: "last (split_on NL (t @ d)) = concat (pending g2 @ [d])"
        using f False all lp by simp_all
      have "untripped_after (g2\<lparr>pending := pending g2 @ [d]\<rparr>) (t @ d)"
        unfolding untripped_after_def using st la n False t by (simp add: g2_def)
      then show thesis
        using fs st False n
        by (intro that [of None "g2\<lparr>pending := pending g2 @ [d]\<rparr>"])
           (simp_all add: silence_at_def g2_def repeats_scan)
    next
      case nl: True
      have sr: "scan_for_repetition d g2 =
          (if b then trip Repetition (g2\<lparr>pending := [last parts], recent := rs\<rparr>)
           else (None, g2\<lparr>pending := [last parts], recent := rs, line_base := p\<rparr>))"
        using nl sc pend by (simp add: scan_for_repetition_def Let_def parts_def g2_def)
      show thesis
      proof (cases b)
        case True
        with f False all n sr show thesis
          by (intro that [of "Some Repetition"
                "g2\<lparr>pending := [last parts], recent := rs, tripped := Some Repetition\<rparr>"])
             (auto simp: trip_def silence_at_def g2_def repeats_scan)
      next
        case nb: False
        let ?g = "g2\<lparr>pending := [last parts], recent := rs, line_base := p\<rparr>"
        have fs: "feed clk k g d = (None, ?g, Suc (Suc k))"
          using f False sr nb by simp
        have "untripped_after ?g (t @ d)"
          unfolding untripped_after_def using all nb n False t lp by (simp add: g2_def)
        then show thesis
          using fs all nb False n
          by (intro that [of None ?g]) (simp_all add: silence_at_def g2_def repeats_scan)
      qed
    qed
  qed
qed

lemma feed_many_quiet:
  assumes "quiet_clock clk (deadline g)" and "silence_at clk k g" and "untripped_after g t"
  shows "tripped (fst (feed_many (feed clk) k g ds)) \<noteq> None \<longleftrightarrow>
           token_cap_chars g < int (length (t @ concat ds)) \<or> repeats (t @ concat ds)"
  using assms
proof (induction ds arbitrary: g k t)
  case Nil
  then show ?case using untripped_repeats [OF Nil.prems(3)]
    by (simp add: untripped_after_def)
next
  case (Cons d ds)
  obtain r g' where f: "feed clk k g d = (r, g', Suc (Suc k))"
    and inv: "r = None \<Longrightarrow> untripped_after g' (t @ d)"
    and si: "silence_at clk (Suc (Suc k)) g'"
    and same: "deadline g' = deadline g" "token_cap_chars g' = token_cap_chars g"
    and r: "r \<noteq> None \<longleftrightarrow> token_cap_chars g < int (length (t @ d)) \<or> repeats (t @ d)"
    using feed_quiet [OF Cons.prems, of d] by blast
  show ?case
  proof (cases r)
    case None
    have "quiet_clock clk (deadline g')" using Cons.prems(1) same by simp
    from Cons.IH [OF this si inv [OF None]] show ?thesis by (simp add: f same)
  next
    case (Some v)
    have "tripped g' = Some v" using feed_verdict [OF f] Some by simp
    moreover have "token_cap_chars g < int (length (t @ concat (d # ds)))
        \<or> repeats (t @ concat (d # ds))"
      using r Some repeats_append [of "t @ d" "concat ds"] by auto
    ultimately show ?thesis by (simp add: f derail.feed_many_latched)
  qed
qed

lemma untripped_new: "0 \<le> max_tokens b \<Longrightarrow> untripped_after (new_guard b t0) []"
  by (simp add: untripped_after_def new_guard_def complete_lines_def)

section \<open>Properties\<close>

text \<open>C25. On a clock that trips no time bound, whether a generation is cut depends only on the
  concatenated text: it is cut exactly when the text exceeds the token cap or holds six
  consecutive equal eligible lines, however the server split it into deltas.\<close>

theorem derail_trips_iff:
  assumes "wf_budget b" and "quiet_clock clk (deadline (new_guard b t0))"
  shows "tripped (fst (feed_all clk k (new_guard b t0) ds)) \<noteq> None \<longleftrightarrow>
           max_tokens b * int CHARS_PER_TOKEN < int (length (concat ds)) \<or> repeats (concat ds)"
proof -
  have "untripped_after (new_guard b t0) []"
    using assms(1) by (intro untripped_new) (simp add: wf_budget_def)
  moreover have "silence_at clk k (new_guard b t0)" by (simp add: silence_at_def new_guard_def)
  ultimately show ?thesis
    using feed_many_quiet [OF assms(2), of k "[]" ds] by (simp add: feed_all_def new_guard_def)
qed

theorem derail_trips_iff_witness:
  "tripped (fst (feed_all (\<lambda>_. 0) 0 (new_guard \<lparr>max_attempts = 1, max_tokens = 1,
     generation_timeout_s = Fin 5, oracle_timeout_s = Fin 5\<rparr> 0) [u ''ab'', u ''cde''])) \<noteq> None"
proof -
  let ?b = "\<lparr>max_attempts = 1, max_tokens = 1,
     generation_timeout_s = Fin 5, oracle_timeout_s = Fin 5\<rparr>"
  have "wf_budget ?b" by (simp add: wf_budget_def)
  moreover have "quiet_clock (\<lambda>_. 0) (deadline (new_guard ?b 0))"
    by (simp add: quiet_clock_def new_guard_def derail_constants)
  ultimately show ?thesis
    using derail_trips_iff [of ?b "\<lambda>_. 0" 0 0 "[u ''ab'', u ''cde'']"]
    by (simp add: derail_constants)
qed

definition chunking_budget :: budget where
  "chunking_budget = \<lparr>max_attempts = 1, max_tokens = 88,
     generation_timeout_s = Fin 5, oracle_timeout_s = Fin 5\<rparr>"

definition repeated_lines :: pystr where
  "repeated_lines = concat (replicate 14 (replicate 24 97 @ [NL]))"

text \<open>The reason reported for the cut does depend on the chunking, against the module's
  claim that the verdict never does: one text, fed whole, is cut as TOKEN_CAP, and fed in two
  deltas is cut as REPETITION.\<close>

theorem derail_reason_depends_on_chunking:
  "tripped (fst (feed_all (\<lambda>_. 0) 0 (new_guard chunking_budget 0)
      [repeated_lines @ u ''0123456789'']))
     = Some Token_Cap
   \<and> tripped (fst (feed_all (\<lambda>_. 0) 0 (new_guard chunking_budget 0)
      [repeated_lines, u ''0123456789''])) = Some Repetition"
  by code_simp

text \<open>C26. The bounded ring buffer, scanned line by line from stream positions, decides exactly
  the reference property: a run of six consecutive equal lines among those of at least 24
  characters that end past the first 200.\<close>

theorem derail_ring_buffer_correct:
  "fst (scan_lines (complete_lines t) 0 []) =
     has_run REPETITION_THRESHOLD (eligible 0 (complete_lines t))"
  using repeats_scan [of t] by (simp add: repeats_def)

text \<open>Silence is judged only once the stream has started: the first arrival arms the clock
  and is never judged, later ones trip exactly when more than the bound has passed since the
  last content, and a verdict once reached is returned by every later call without change.\<close>

theorem derail_silence_and_latch:
  "(tripped g = None \<and> \<not> float_less (deadline g) (Fin (clk k)) \<longrightarrow>
      fst (tick clk k g) = (case silence_since g of None \<Rightarrow> None
        | Some t \<Rightarrow> if clk k - t > SILENCE_TIMEOUT_S then Some Silent else None))
   \<and> (tripped g = Some r \<longrightarrow> tick clk k g = (Some r, g, k) \<and> feed clk k g d = (Some r, g, k))"
  by (auto simp: tick_def clock_bounds_def trip_def Let_def derail_constants feed_latched
      split: option.splits)

theorem derail_silence_and_latch_witness:
  "fst (tick (\<lambda>_. 200) 0 (new_guard chunking_budget 200)) = None
   \<and> fst (tick (\<lambda>_. 200) 0 (new_guard chunking_budget 200\<lparr>silence_since := Some 10\<rparr>)) = Some Silent"
proof -
  let ?g = "new_guard chunking_budget 200"
  have "tripped ?g = None \<and> \<not> float_less (deadline ?g) (Fin ((\<lambda>_. 200) 0))"
    by (simp add: new_guard_def chunking_budget_def)
  moreover have "silence_since ?g = None" by (simp add: new_guard_def)
  ultimately show ?thesis
    using derail_silence_and_latch [of ?g "\<lambda>_. 200" 0]
      derail_silence_and_latch [of "?g\<lparr>silence_since := Some 10\<rparr>" "\<lambda>_. 200" 0]
    by (simp add: derail_constants)
qed

lemma clock_bounds_nan:
  "deadline g = NaN \<Longrightarrow> clock_bounds t g = (r, g') \<Longrightarrow> deadline g' = NaN \<and> r \<noteq> Some Timeout"
  by (auto simp: clock_bounds_def trip_def Let_def split: if_splits)

lemma scan_nan:
  "scan_for_repetition d g = (r, g') \<Longrightarrow> deadline g' = deadline g \<and> r \<noteq> Some Timeout"
  by (auto simp: scan_for_repetition_def trip_def Let_def split: if_splits prod.splits bool.splits)

lemma feed_nan:
  assumes "deadline g = NaN" "tripped g \<noteq> Some Timeout" "feed clk k g d = (r, g', k')"
  shows "deadline g' = NaN \<and> tripped g' \<noteq> Some Timeout"
proof (cases "tripped g")
  case None
  obtain v g1 where c: "clock_bounds (clk k) g = (v, g1)" by (cases "clock_bounds (clk k) g")
  note cn = clock_bounds_nan [OF assms(1) c]
  have "deadline g' = NaN \<and> r \<noteq> Some Timeout"
  proof (cases v)
    case (Some w)
    with assms(3) None c cn show ?thesis by (auto simp: feed_def)
  next
    case v: None
    define g2 where "g2 = g1\<lparr>silence_since := Some (clk (Suc k)),
                               fed_chars := fed_chars g1 + length d\<rparr>"
    obtain w g3 where s: "scan_for_repetition d g2 = (w, g3)"
      by (cases "scan_for_repetition d g2")
    have "deadline g2 = NaN" using cn by (simp add: g2_def)
    with scan_nan [OF s] assms(3) None c v s show ?thesis
      by (auto simp: feed_def Let_def trip_def g2_def [symmetric] split: if_splits)
  qed
  with feed_verdict [OF assms(3)] show ?thesis by simp
next
  case (Some x)
  with assms show ?thesis by (auto simp: feed_def)
qed

text \<open>A budget whose generation timeout is NaN passes validation and disables the deadline:
  no sequence of deltas on any clock ever ends in a TIMEOUT verdict.\<close>

theorem derail_nan_never_times_out:
  assumes "generation_timeout_s b = NaN"
  shows "tripped (fst (feed_all clk k (new_guard b t0) ds)) \<noteq> Some Timeout"
proof -
  have "deadline g = NaN \<Longrightarrow> tripped g \<noteq> Some Timeout \<Longrightarrow>
      tripped (fst (feed_many (feed clk) k g ds)) \<noteq> Some Timeout" for g
  proof (induction ds arbitrary: g k)
    case (Cons d ds)
    obtain r g' k' where f: "feed clk k g d = (r, g', k')" by (metis prod_cases3)
    from feed_nan [OF Cons.prems f] Cons.IH [of g' k'] f show ?case by simp
  qed simp
  then show ?thesis using assms by (simp add: feed_all_def new_guard_def)
qed

theorem derail_nan_never_times_out_witness:
  "wf_budget \<lparr>max_attempts = 1, max_tokens = 1, generation_timeout_s = NaN, oracle_timeout_s = NaN\<rparr>
   \<and> tripped (fst (feed_all (\<lambda>n. of_nat n * 100) 0 (new_guard \<lparr>max_attempts = 1, max_tokens = 1,
       generation_timeout_s = NaN, oracle_timeout_s = NaN\<rparr> 0) [u ''a'', u ''b''])) \<noteq> Some Timeout"
proof -
  let ?b = "\<lparr>max_attempts = 1, max_tokens = 1, generation_timeout_s = NaN, oracle_timeout_s = NaN\<rparr>"
  have "wf_budget ?b" using mk_budget_wf [OF mk_budget_accepts_nan] .
  moreover have "generation_timeout_s ?b = NaN" by simp
  ultimately show ?thesis using derail_nan_never_times_out [of ?b] by blast
qed

end
