(* ===== verification/Harmony.thy ===== *)
theory Harmony
  imports Prelude
begin

text \<open>
  \<open>src/claude_local/harmony.py\<close>: the user-facing reply read out of a channel transcript.
\<close>

definition transcript_openers :: "pystr list" where
  "transcript_openers = [u ''<|channel|>'', u ''<|start|>'']"

definition final_message :: pystr where
  "final_message = u ''<|channel|>final<|message|>''"

definition terminators :: "pystr list" where
  "terminators = [u ''<|return|>'', u ''<|end|>'']"

definition opens_transcript :: "pystr \<Rightarrow> bool" where
  "opens_transcript reply = list_ex (startswith (lstrip reply)) transcript_openers"

definition cut_at :: "pystr \<Rightarrow> pystr \<Rightarrow> pystr" where
  "cut_at content terminator = fst (partition_at terminator content)"

definition assistant_content :: "pystr \<Rightarrow> pystr" where
  "assistant_content reply =
     (if \<not> opens_transcript reply then reply
      else (case rpartition_at final_message reply of
              (_, False, _) \<Rightarrow> []
            | (_, True, content) \<Rightarrow> foldl cut_at content terminators))"

lemma cut_at_prefix: "\<exists>r. content = cut_at content t @ r"
proof -
  obtain a f b where p: "partition_at t content = (a, f, b)" by (metis prod_cases3)
  then show ?thesis
    using partition_at_found [of t content a b] partition_at_not_found [of t content a b]
    by (cases f) (auto simp: cut_at_def)
qed

lemma cut_at_absent:
  assumes "t \<noteq> []"
  shows "\<not> occurs_in t (cut_at content t)"
proof
  assume "occurs_in t (cut_at content t)"
  then obtain p s where o: "cut_at content t = p @ t @ s" by (auto simp: occurs_in_iff)
  obtain a f b where q: "partition_at t content = (a, f, b)" by (metis prod_cases3)
  show False
  proof (cases f)
    case True
    with q have c: "content = a @ t @ b" by (auto dest: partition_at_found)
    with o q have "content = p @ t @ (s @ t @ b)" by (simp add: cut_at_def)
    moreover have "partition_at t content = (a, True, b)" using q True by simp
    ultimately have "length a \<le> length p" by (metis partition_at_first)
    with o q assms show False by (simp add: cut_at_def)
  next
    case False
    with q have "a = content" "\<forall>p s. content \<noteq> p @ t @ s"
      using partition_at_not_found [of t content a b] by auto
    with o q show False by (simp add: cut_at_def)
  qed
qed

lemma cut_at_keeps_absent: "\<not> occurs_in t content \<Longrightarrow> \<not> occurs_in t (cut_at content s)"
proof
  assume a: "\<not> occurs_in t content" and o: "occurs_in t (cut_at content s)"
  from o obtain p q where "cut_at content s = p @ t @ q" by (auto simp: occurs_in_iff)
  moreover obtain r where "content = cut_at content s @ r" using cut_at_prefix by blast
  ultimately have "content = p @ t @ (q @ r)" by simp
  with a show False by (auto simp: occurs_in_iff)
qed

lemma terminators_ne: "t \<in> set terminators \<Longrightarrow> t \<noteq> []"
  by (auto simp: terminators_def u_def)

lemma assistant_content_cut:
  assumes "opens_transcript reply" and "rpartition_at final_message reply = (b, True, content)"
  shows "assistant_content reply =
           cut_at (cut_at content (u ''<|return|>'')) (u ''<|end|>'')"
  using assms by (simp add: assistant_content_def terminators_def)

section \<open>Properties\<close>

text \<open>A reply that does not open as a channel transcript passes through unchanged, whatever
  markers it quotes further on; one that does and has no final channel becomes empty.\<close>

theorem harmony_passthrough:
  "(\<not> opens_transcript reply \<longrightarrow> assistant_content reply = reply)
   \<and> (opens_transcript reply \<and> \<not> occurs_in final_message reply \<longrightarrow> assistant_content reply = [])"
proof -
  obtain a f b where p: "rpartition_at final_message reply = (a, f, b)" by (metis prod_cases3)
  have "\<not> f" if "\<not> occurs_in final_message reply"
    using rpartition_at_found [of final_message reply a b] p that by (auto simp: occurs_in_iff)
  with p show ?thesis by (auto simp: assistant_content_def)
qed

theorem harmony_passthrough_witness:
  "assistant_content (u ''x <|channel|>'') = u ''x <|channel|>''
   \<and> assistant_content (u ''<|channel|>analysis'') = []"
proof -
  have "\<not> opens_transcript (u ''x <|channel|>'')" by code_simp
  moreover have "opens_transcript (u ''<|channel|>analysis'')
      \<and> \<not> occurs_in final_message (u ''<|channel|>analysis'')" by code_simp
  ultimately show ?thesis
    using harmony_passthrough [of "u ''x <|channel|>''"]
      harmony_passthrough [of "u ''<|channel|>analysis''"] by blast
qed

text \<open>From a transcript the result is what follows the last final-channel marker, cut before
  the first terminator: the reply splits around the marker, no later marker exists, the result
  is a prefix of the rest and holds no terminator.\<close>

theorem harmony_last_final:
  assumes "opens_transcript reply" and "occurs_in final_message reply"
  shows "\<exists>before rest. reply = before @ final_message @ assistant_content reply @ rest
     \<and> (\<forall>p s. reply = p @ final_message @ s \<longrightarrow> length p \<le> length before)
     \<and> (\<forall>t\<in>set terminators. \<not> occurs_in t (assistant_content reply))"
proof -
  obtain before f content where p: "rpartition_at final_message reply = (before, f, content)"
    by (metis prod_cases3)
  have f: f
    using rpartition_at_not_found [of final_message reply before content] p assms(2)
    by (cases f) (auto simp: occurs_in_iff)
  note ac = assistant_content_cut [OF assms(1), of before content]
  obtain r1 where r1: "content = cut_at content (u ''<|return|>'') @ r1"
    using cut_at_prefix by blast
  obtain r2 where r2: "cut_at content (u ''<|return|>'') = assistant_content reply @ r2"
    using cut_at_prefix [of "cut_at content (u ''<|return|>'')" "u ''<|end|>''"] ac p f by auto
  have "reply = before @ final_message @ content"
    using p f by (auto dest: rpartition_at_found)
  then have "reply = before @ final_message @ assistant_content reply @ (r2 @ r1)"
    using r1 r2 by simp
  moreover from p f have "rpartition_at final_message reply = (before, True, content)" by simp
  then have "\<forall>p' s. reply = p' @ final_message @ s \<longrightarrow> length p' \<le> length before"
    by (blast intro: rpartition_at_last)
  moreover have "\<forall>t\<in>set terminators. \<not> occurs_in t (assistant_content reply)"
    using ac p f cut_at_absent [of "u ''<|end|>''"]
      cut_at_keeps_absent [OF cut_at_absent, of "u ''<|return|>''"]
    by (auto simp: terminators_def u_def)
  ultimately show ?thesis by blast
qed

theorem harmony_last_final_witness:
  "opens_transcript (u ''<|start|>a<|channel|>final<|message|>F<|end|>'')
   \<and> list_all (\<lambda>t. \<not> occurs_in t
        (assistant_content (u ''<|start|>a<|channel|>final<|message|>F<|end|>''))) terminators"
proof -
  have h: "opens_transcript (u ''<|start|>a<|channel|>final<|message|>F<|end|>'')"
    "occurs_in final_message (u ''<|start|>a<|channel|>final<|message|>F<|end|>'')"
    by code_simp+
  from harmony_last_final [OF this] h(1) show ?thesis by (auto simp: list_all_iff)
qed

end
