(* ===== verification/Sse.thy ===== *)
theory Sse
  imports Domain
begin

text \<open>
  The event-stream decoder of \<open>src/claude_local/sse.py\<close>.  The generator's local variables are
  the record \<open>sse_state\<close>; one transport chunk is one call of \<open>feed_chunk\<close>, which runs the
  inner loop over the buffer with the code's offsets \<open>start\<close> and \<open>search_from\<close> and returns
  the events it yields with the state, or how the generator ended.
\<close>

section \<open>Events\<close>

text \<open>The text of an \<open>Error\<close> event, one constructor per format string.  \<open>Str_Of v\<close> is Python's
  \<open>str\<close> of a decoded value that is not a string message.\<close>

datatype sse_message =
    Malformed_Frame pystr
  | Unexpected_Frame pystr
  | Unexpected_Shape pystr pystr pystr
  | Upstream_Message pystr
  | Str_Of json
  | Frame_Too_Large

datatype sse_event =
    Delta pystr
  | Reasoning pystr
  | Finish pystr
  | Usage int
  | Error sse_message

definition is_error_event :: "sse_event \<Rightarrow> bool" where
  "is_error_event e = (case e of Error _ \<Rightarrow> True | _ \<Rightarrow> False)"

lemma is_error_event_simps [simp]:
  "\<not> is_error_event (Delta t)" "\<not> is_error_event (Reasoning t)" "\<not> is_error_event (Finish t)"
  "\<not> is_error_event (Usage n)" "is_error_event (Error m)"
  by (simp_all add: is_error_event_def)

definition MAX_FRAME_BYTES :: nat where "MAX_FRAME_BYTES = 2 ^ 20"

section \<open>One frame\<close>

definition unexpected_shape :: "string \<Rightarrow> string \<Rightarrow> json \<Rightarrow> sse_event" where
  "unexpected_shape field expected v = Error (Unexpected_Shape (u field) (u expected) (type_name v))"

definition error_message :: "json \<Rightarrow> sse_message" where
  "error_message e =
     (case e of
        JObj kvs \<Rightarrow> (case obj_get kvs ''message'' of
                       Some (JStr m) \<Rightarrow> Upstream_Message m | _ \<Rightarrow> Str_Of e)
      | _ \<Rightarrow> Str_Of e)"

text \<open>\<open>dict.get\<close>: an absent key reads as \<open>None\<close>, the JSON null.\<close>

definition get_or_null :: "(pystr \<times> json) list \<Rightarrow> string \<Rightarrow> json" where
  "get_or_null kvs k = (case obj_get kvs k of None \<Rightarrow> JNull | Some v \<Rightarrow> v)"

text \<open>\<open>Some t\<close> for a string, \<open>None\<close> for null; anything else is off contract.\<close>

definition string_or_null :: "json \<Rightarrow> unit + pystr option" where
  "string_or_null v = (case v of JNull \<Rightarrow> Inr None | JStr t \<Rightarrow> Inr (Some t) | _ \<Rightarrow> Inl ())"

definition emit :: "(pystr \<Rightarrow> sse_event) \<Rightarrow> pystr option \<Rightarrow> sse_event list" where
  "emit mk t = (case t of None \<Rightarrow> [] | Some s \<Rightarrow> if s = [] then [] else [mk s])"

definition delta_text_events :: "(pystr \<times> json) list \<Rightarrow> sse_event + sse_event list" where
  "delta_text_events d =
     (let r = get_or_null d ''reasoning_content''; c = get_or_null d ''content'' in
      case string_or_null r of
        Inl _ \<Rightarrow> Inl (unexpected_shape ''reasoning_content'' ''string or null'' r)
      | Inr rt \<Rightarrow>
          (case string_or_null c of
             Inl _ \<Rightarrow> Inl (unexpected_shape ''content'' ''string or null'' c)
           | Inr ct \<Rightarrow> Inr (emit Reasoning rt @ emit Delta ct)))"

definition choice_events1 :: "json \<Rightarrow> sse_event + sse_event list" where
  "choice_events1 choice =
     (case choice of
        JObj kvs \<Rightarrow>
          (let reason = get_or_null kvs ''finish_reason'' in
           case string_or_null reason of
             Inl _ \<Rightarrow> Inl (unexpected_shape ''finish_reason'' ''string or null'' reason)
           | Inr rt \<Rightarrow>
               (case obj_get kvs ''delta'' of
                  None \<Rightarrow> Inr (case rt of None \<Rightarrow> [] | Some r \<Rightarrow> [Finish r])
                | Some (JObj d) \<Rightarrow>
                    bindE (delta_text_events d) (\<lambda>evs.
                      Inr (evs @ (case rt of None \<Rightarrow> [] | Some r \<Rightarrow> [Finish r])))
                | Some v \<Rightarrow> Inl (unexpected_shape ''delta'' ''object'' v)))
      | _ \<Rightarrow> Inl (unexpected_shape ''choice'' ''object'' choice))"

fun choices_loop :: "json list \<Rightarrow> sse_event + sse_event list" where
  "choices_loop [] = Inr []"
| "choices_loop (c # cs) =
     bindE (choice_events1 c) (\<lambda>evs. bindE (choices_loop cs) (\<lambda>rest. Inr (evs @ rest)))"

definition choice_events :: "json \<Rightarrow> sse_event + sse_event list" where
  "choice_events choices =
     (case choices of JArr cs \<Rightarrow> choices_loop cs
      | _ \<Rightarrow> Inl (unexpected_shape ''choices'' ''array'' choices))"

definition usage_event :: "json \<Rightarrow> sse_event + sse_event option" where
  "usage_event usage =
     (case usage of
        JNull \<Rightarrow> Inr None
      | JObj kvs \<Rightarrow>
          (case get_or_null kvs ''completion_tokens'' of
             JNull \<Rightarrow> Inr None
           | JInt n \<Rightarrow> if n < 0
               then Inl (unexpected_shape ''completion_tokens'' ''non-negative integer'' (JInt n))
               else Inr (Some (Usage n))
           | v \<Rightarrow> Inl (unexpected_shape ''completion_tokens'' ''non-negative integer'' v))
      | _ \<Rightarrow> Inl (unexpected_shape ''usage'' ''object or null'' usage))"

text \<open>All the events of one data payload.  Only \<open>JSONDecodeError\<close> is folded into an event: the
  plain \<open>ValueError\<close> of an over-long integer literal escapes.\<close>

definition events :: "pystr \<Rightarrow> exn + sse_event list" where
  "events payload =
     (case json_loads payload of
        Inl Int_Too_Long \<Rightarrow> Inl Int_Digits_Error
      | Inl _ \<Rightarrow> Inr [Error (Malformed_Frame (take 120 payload))]
      | Inr (JObj kvs) \<Rightarrow>
          (case obj_get kvs ''error'' of
             Some e \<Rightarrow> Inr [Error (error_message e)]
           | None \<Rightarrow>
               (case choice_events (case obj_get kvs ''choices'' of
                                      None \<Rightarrow> JArr [] | Some v \<Rightarrow> v) of
                  Inl err \<Rightarrow> Inr [err]
                | Inr evs \<Rightarrow>
                    (case usage_event (get_or_null kvs ''usage'') of
                       Inl err \<Rightarrow> Inr [err]
                     | Inr None \<Rightarrow> Inr evs
                     | Inr (Some us) \<Rightarrow> Inr (evs @ [us]))))
      | Inr v \<Rightarrow> Inr [Error (Unexpected_Frame (type_name v))])"

section \<open>The decoder\<close>

datatype stream_end = Ended | Stopped | Raised exn

record sse_state =
  buffer :: bytes
  data_lines :: "pystr list"
  data_bytes :: nat
  search_from :: nat

definition init_sse :: sse_state where
  "init_sse = \<lparr>buffer = [], data_lines = [], data_bytes = 0, search_from = 0\<rparr>"

text \<open>\<open>buffer.find(b"\n", search_from)\<close>.\<close>

fun find_from :: "8 word \<Rightarrow> bytes \<Rightarrow> nat \<Rightarrow> nat option" where
  "find_from c [] i = None"
| "find_from c (b # bs) 0 = (if b = c then Some 0 else map_option Suc (find_from c bs 0))"
| "find_from c (b # bs) (Suc i) = map_option Suc (find_from c bs i)"

definition line_text :: "bytes \<Rightarrow> pystr" where
  "line_text bs = decode_replace (rstrip_with (\<lambda>b. b = 13) bs)"

text \<open>What one line does: a \<open>data:\<close> line extends the pending block, any other field is
  ignored, and a blank line dispatches the block.  The pending block is the pair of
  \<open>data_lines\<close> and \<open>data_bytes\<close>.\<close>

datatype line_result =
    Continue "sse_event list" "pystr list" nat
  | Finished "sse_event list" stream_end

definition process_line :: "bytes \<Rightarrow> pystr list \<Rightarrow> nat \<Rightarrow> line_result" where
  "process_line raw dls n =
     (let line = line_text raw in
      if line \<noteq> [] then
        (if startswith line (u ''data:'')
         then (let p = removeprefix (drop 5 line) (u '' '')
               in Continue [] (dls @ [p]) (n + length p))
         else Continue [] dls n)
      else if dls = [] then Continue [] dls n
      else (let payload = join [NL] dls in
            if payload = u ''[DONE]'' then Finished [] Stopped
            else (case events payload of
                    Inl e \<Rightarrow> Finished [] (Raised e)
                  | Inr evs \<Rightarrow> Continue evs [] 0)))"

lemma find_from_bounds: "find_from c bs i = Some n \<Longrightarrow> i \<le> n \<and> n < length bs"
  by (induction c bs i arbitrary: n rule: find_from.induct) (auto split: if_splits)

text \<open>The inner \<open>while\<close>: \<open>start\<close> is where the current line begins, \<open>sf\<close> where the search
  resumes.  On exhaustion it returns the pending block and the final \<open>start\<close>.\<close>

function drain_lines ::
  "bytes \<Rightarrow> nat \<Rightarrow> nat \<Rightarrow> pystr list \<Rightarrow> nat
     \<Rightarrow> sse_event list \<times> (stream_end + pystr list \<times> nat \<times> nat)" where
  "drain_lines buf start sf dls n =
     (case find_from 10 buf sf of
        None \<Rightarrow> ([], Inr (dls, n, start))
      | Some nlpos \<Rightarrow>
          (case process_line (drop start (take nlpos buf)) dls n of
             Finished evs e \<Rightarrow> (evs, Inl e)
           | Continue evs dls' n' \<Rightarrow>
               (case drain_lines buf (nlpos + 1) (nlpos + 1) dls' n' of
                  (evs', r) \<Rightarrow> (evs @ evs', r))))"
  by pat_completeness auto
termination
  by (relation "measure (\<lambda>(buf, start, sf, dls, n). length buf - sf)")
     (auto dest: find_from_bounds)

declare drain_lines.simps [simp del]

definition feed_chunk :: "sse_state \<Rightarrow> bytes \<Rightarrow> sse_event list \<times> (stream_end + sse_state)" where
  "feed_chunk st chunk =
     (let buf = buffer st @ chunk in
      case drain_lines buf 0 (search_from st) (data_lines st) (data_bytes st) of
        (evs, Inl e) \<Rightarrow> (evs, Inl e)
      | (evs, Inr (dls, n, start)) \<Rightarrow>
          (let rest = drop start buf in
           if length rest + n > MAX_FRAME_BYTES
           then (evs @ [Error Frame_Too_Large], Inl Stopped)
           else (evs, Inr \<lparr>buffer = rest, data_lines = dls, data_bytes = n,
                           search_from = length rest\<rparr>)))"

fun decode_from :: "sse_state \<Rightarrow> bytes list \<Rightarrow> sse_event list \<times> stream_end" where
  "decode_from st [] = ([], Ended)"
| "decode_from st (c # cs) =
     (case feed_chunk st c of
        (evs, Inl e) \<Rightarrow> (evs, e)
      | (evs, Inr st') \<Rightarrow> (case decode_from st' cs of (evs', e) \<Rightarrow> (evs @ evs', e)))"

definition decode_sse :: "bytes list \<Rightarrow> sse_event list \<times> stream_end" where
  "decode_sse chunks = decode_from init_sse chunks"

section \<open>The reference decoder: the complete lines of the whole stream\<close>

fun run_lines ::
  "bytes list \<Rightarrow> pystr list \<Rightarrow> nat \<Rightarrow> sse_event list \<times> (stream_end + pystr list \<times> nat)" where
  "run_lines [] dls n = ([], Inr (dls, n))"
| "run_lines (l # ls) dls n =
     (case process_line l dls n of
        Finished evs e \<Rightarrow> (evs, Inl e)
      | Continue evs dls' n' \<Rightarrow> (case run_lines ls dls' n' of (evs', r) \<Rightarrow> (evs @ evs', r)))"

definition sse_spec :: "bytes \<Rightarrow> sse_event list \<times> stream_end" where
  "sse_spec bs =
     (case run_lines (butlast (split_on 10 bs)) [] 0 of
        (evs, Inl e) \<Rightarrow> (evs, e) | (evs, Inr _) \<Rightarrow> (evs, Ended))"

lemma run_lines_append:
  "run_lines (xs @ ys) dls n =
     (case run_lines xs dls n of
        (evs, Inl e) \<Rightarrow> (evs, Inl e)
      | (evs, Inr (dls', n')) \<Rightarrow>
          (case run_lines ys dls' n' of (evs', r) \<Rightarrow> (evs @ evs', r)))"
proof (induction xs arbitrary: dls n)
  case Nil
  show ?case by (simp split: prod.splits)
next
  case (Cons x xs)
  show ?case
    by (cases "process_line x dls n") (auto simp: Cons.IH split: prod.splits sum.splits)
qed

lemma find_from_None: "find_from c bs i = None \<longleftrightarrow> c \<notin> set (drop i bs)"
proof (induction bs arbitrary: i)
  case Nil
  show ?case by simp
next
  case (Cons b bs)
  show ?case
  proof (cases i)
    case 0
    show ?thesis using Cons.IH [of 0] by (auto simp: 0)
  next
    case (Suc j)
    show ?thesis using Cons.IH [of j] by (simp add: Suc)
  qed
qed

lemma find_from_Some:
  "find_from c bs i = Some n \<Longrightarrow>
     bs = take n bs @ c # drop (Suc n) bs \<and> c \<notin> set (drop i (take n bs))"
proof (induction bs arbitrary: i n)
  case Nil
  then show ?case by simp
next
  case (Cons b bs)
  show ?case
  proof (cases "i = 0 \<and> b = c")
    case True
    with Cons.prems show ?thesis by simp
  next
    case False
    with Cons.prems obtain m where m: "find_from c bs (i - 1) = Some m" "n = Suc m"
      by (cases i) auto
    from Cons.IH [OF m(1)] False m(2) show ?thesis by (cases i) auto
  qed
qed

lemma drop_split:
  assumes "i \<le> j" and "j \<le> length xs"
  shows "drop i xs = drop i (take j xs) @ drop j xs"
proof -
  have "drop i xs = drop i (take j xs @ drop j xs)" by simp
  also have "\<dots> = drop i (take j xs) @ drop (i - length (take j xs)) (drop j xs)"
    by (rule drop_append)
  also have "i - length (take j xs) = 0" using assms by simp
  finally show ?thesis by simp
qed

lemma drain_lines_spec:
  assumes "start \<le> sf" and "sf \<le> length buf" and "10 \<notin> set (drop start (take sf buf))"
    and "run_lines (butlast (split_on 10 (drop start buf))) dls n = (evs, r)"
  shows "\<exists>r'. drain_lines buf start sf dls n = (evs, r') \<and>
     (case r of Inl e \<Rightarrow> r' = Inl e
      | Inr (d, m) \<Rightarrow> \<exists>st. r' = Inr (d, m, st) \<and>
          drop st buf = last (split_on 10 (drop start buf)))"
  using assms
proof (induction buf start sf dls n arbitrary: evs r rule: drain_lines.induct)
  case (1 buf start sf dls n)
  show ?case
  proof (cases "find_from 10 buf sf")
    case None
    have "drop start buf = drop start (take sf buf) @ drop sf buf"
      using "1.prems"(1,2) by (rule drop_split)
    then have "10 \<notin> set (drop start buf)"
      using None "1.prems"(3) by (auto simp: find_from_None)
    then have s: "split_on 10 (drop start buf) = [drop start buf]" by (rule split_on_single)
    with "1.prems"(4) have "evs = []" "r = Inr (dls, n)" by simp_all
    with None s show ?thesis by (simp add: drain_lines.simps [of buf start sf])
  next
    case (Some k)
    have k: "sf \<le> k" "k < length buf" using find_from_bounds [OF Some] by auto
    note fs = find_from_Some [OF Some]
    define line where "line = drop start (take k buf)"
    have "line = drop start (take sf buf) @ drop sf (take k buf)"
      using k "1.prems"(1,2) drop_split [of start sf "take k buf"]
      by (simp add: line_def min_absorb1)
    with fs "1.prems"(3) have nl: "10 \<notin> set line" by auto
    have "drop start buf = drop start (take k buf @ 10 # drop (Suc k) buf)" using fs by metis
    also have "\<dots> = line @ 10 # drop (Suc k) buf"
      using k "1.prems"(1) by (simp add: line_def)
    finally have sp: "split_on 10 (drop start buf) = line # split_on 10 (drop (Suc k) buf)"
      using nl by (simp add: split_on_append_sep split_on_single)
    then have rl: "run_lines (line # butlast (split_on 10 (drop (Suc k) buf))) dls n = (evs, r)"
      using "1.prems"(4) by simp
    show ?thesis
    proof (cases "process_line line dls n")
      case (Finished ev e)
      with rl have "evs = ev" "r = Inl e" by auto
      with Finished Some show ?thesis
        by (simp add: drain_lines.simps [of buf start sf] line_def)
    next
      case (Continue ev d m)
      obtain ev' r0 where r0: "run_lines (butlast (split_on 10 (drop (Suc k) buf))) d m = (ev', r0)"
        by (cases "run_lines (butlast (split_on 10 (drop (Suc k) buf))) d m")
      with rl Continue have e: "evs = ev @ ev'" "r = r0" by auto
      have "\<exists>r'. drain_lines buf (k + 1) (k + 1) d m = (ev', r') \<and>
          (case r0 of Inl e \<Rightarrow> r' = Inl e
           | Inr (d, m) \<Rightarrow> \<exists>st. r' = Inr (d, m, st) \<and>
               drop st buf = last (split_on 10 (drop (k + 1) buf)))"
        by (rule "1.IH" [OF Some, folded line_def, OF Continue])
           (use k r0 in \<open>simp_all\<close>)
      then obtain r' where r': "drain_lines buf (k + 1) (k + 1) d m = (ev', r')"
        "case r0 of Inl e \<Rightarrow> r' = Inl e
           | Inr (d, m) \<Rightarrow> \<exists>st. r' = Inr (d, m, st) \<and>
               drop st buf = last (split_on 10 (drop (k + 1) buf))" by blast
      have "drain_lines buf start sf dls n = (evs, r')"
        using Some Continue r'(1) e by (simp add: drain_lines.simps [of buf start sf] line_def)
      moreover have "last (split_on 10 (drop start buf)) = last (split_on 10 (drop (k + 1) buf))"
        using sp by (simp add: last_ConsR)
      ultimately show ?thesis using r'(2) e(2) by (simp only:) blast
    qed
  qed
qed

lemma feed_chunk_spec:
  assumes "10 \<notin> set (buffer st)" and "search_from st = length (buffer st)"
    and "run_lines (butlast (split_on 10 (buffer st @ chunk))) (data_lines st) (data_bytes st)
           = (evs, r)"
  shows "feed_chunk st chunk =
     (case r of Inl e \<Rightarrow> (evs, Inl e)
      | Inr (d, m) \<Rightarrow>
          (let rest = last (split_on 10 (buffer st @ chunk)) in
           if length rest + m > MAX_FRAME_BYTES
           then (evs @ [Error Frame_Too_Large], Inl Stopped)
           else (evs, Inr \<lparr>buffer = rest, data_lines = d, data_bytes = m,
                           search_from = length rest\<rparr>)))"
proof -
  define whole where "whole = buffer st @ chunk"
  have "\<exists>r'. drain_lines whole 0 (search_from st) (data_lines st) (data_bytes st)
        = (evs, r') \<and>
     (case r of Inl e \<Rightarrow> r' = Inl e
      | Inr (d, m) \<Rightarrow> \<exists>s. r' = Inr (d, m, s) \<and>
          drop s whole = last (split_on 10 (drop 0 whole)))"
    by (rule drain_lines_spec) (use assms in \<open>simp_all add: whole_def\<close>)
  then obtain r' where d: "drain_lines whole 0 (search_from st) (data_lines st) (data_bytes st)
        = (evs, r')"
    and r': "case r of Inl e \<Rightarrow> r' = Inl e
      | Inr (d, m) \<Rightarrow> \<exists>s. r' = Inr (d, m, s) \<and> drop s whole = last (split_on 10 whole)"
    unfolding drop0 by blast
  show ?thesis
    unfolding feed_chunk_def whole_def [symmetric] Let_def d
    using r' by (cases r) (auto simp del: length_drop)
qed

lemma decode_items_length: "length (decode_items bs) \<le> length bs"
proof (induction bs rule: decode_items.induct)
  case 1
  show ?case by simp
next
  case (2 b bs)
  with decode_item_shorter [of b bs] show ?case by simp
qed

lemma line_text_length: "length (line_text bs) \<le> length bs"
proof -
  have "length (line_text bs) \<le> length (rstrip_with (\<lambda>b. b = 13) bs)"
    unfolding line_text_def decode_replace_def
    using decode_items_length [of "map unat (rstrip_with (\<lambda>b. b = 13) bs)"] by simp
  also have "\<dots> \<le> length bs" by (rule rstrip_with_length)
  finally show ?thesis .
qed

lemma process_line_bytes:
  "process_line l dls n = Continue evs d m \<Longrightarrow> m \<le> n + length l"
  using line_text_length [of l] removeprefix_length [of "drop 5 (line_text l)" "u '' ''"]
  by (auto simp: process_line_def Let_def split: if_splits sum.splits)

lemma run_lines_bytes:
  "run_lines ls dls n = (evs, Inr (d, m)) \<Longrightarrow> m \<le> n + sum_list (map length ls)"
proof (induction ls arbitrary: dls n evs)
  case Nil
  then show ?case by simp
next
  case (Cons l ls)
  from Cons.prems obtain ev d' m' ev' where c: "process_line l dls n = Continue ev d' m'"
    and r: "run_lines ls d' m' = (ev', Inr (d, m))"
    by (cases "process_line l dls n") (auto split: prod.splits)
  from process_line_bytes [OF c] Cons.IH [OF r] show ?case by simp
qed

lemma run_lines_fit:
  assumes "run_lines (butlast (split_on 10 bs)) dls n = (evs, Inr (d, m))"
  shows "length (last (split_on 10 bs)) + m \<le> n + length bs"
proof -
  have "split_on 10 bs = butlast (split_on 10 bs) @ [last (split_on 10 bs)]" by simp
  then have "sum_list (map (\<lambda>l. length l + 1) (split_on 10 bs)) =
      sum_list (map (\<lambda>l. length l + 1) (butlast (split_on 10 bs)))
        + (length (last (split_on 10 bs)) + 1)"
    by (metis (no_types, lifting) map_append sum_list_append list.map sum_list_simps(2)
        sum_list.Nil add_0_right)
  then have "length bs =
      sum_list (map (\<lambda>l. length l + 1) (butlast (split_on 10 bs)))
        + length (last (split_on 10 bs))"
    using length_split_on_sum [of 10 bs] by simp
  moreover have "sum_list (map length (butlast (split_on 10 bs)))
      \<le> sum_list (map (\<lambda>l. length l + 1) (butlast (split_on 10 bs)))"
    by (rule sum_list_mono) simp
  ultimately show ?thesis using run_lines_bytes [OF assms] by linarith
qed

lemma decode_from_spec:
  assumes "10 \<notin> set (buffer st)" and "search_from st = length (buffer st)"
    and "length (buffer st) + data_bytes st + length (concat cs) \<le> MAX_FRAME_BYTES"
  shows "decode_from st cs =
     (case run_lines (butlast (split_on 10 (buffer st @ concat cs))) (data_lines st) (data_bytes st)
      of (evs, Inl e) \<Rightarrow> (evs, e) | (evs, Inr _) \<Rightarrow> (evs, Ended))"
  using assms
proof (induction cs arbitrary: st)
  case Nil
  then show ?case by (simp add: split_on_single)
next
  case (Cons c cs)
  define whole where "whole = buffer st @ c"
  obtain ev r where r: "run_lines (butlast (split_on 10 whole)) (data_lines st) (data_bytes st)
      = (ev, r)" by (cases "run_lines (butlast (split_on 10 whole)) (data_lines st) (data_bytes st)")
  note fc = feed_chunk_spec [OF Cons.prems(1,2) r [unfolded whole_def], folded whole_def]
  have sp: "butlast (split_on 10 (buffer st @ concat (c # cs))) =
      butlast (split_on 10 whole) @
      butlast (split_on 10 (last (split_on 10 whole) @ concat cs))"
    using full_parts_append [of 10 whole "concat cs"] by (simp add: whole_def)
  show ?case
  proof (cases r)
    case (Inl e)
    with fc r sp show ?thesis by (simp add: run_lines_append)
  next
    case (Inr p)
    obtain d m where p: "p = (d, m)" by (cases p)
    define st' where "st' = \<lparr>buffer = last (split_on 10 whole), data_lines = d, data_bytes = m,
      search_from = length (last (split_on 10 whole))\<rparr>"
    have fit: "length (last (split_on 10 whole)) + m \<le> data_bytes st + length whole"
      using run_lines_fit r Inr p by blast
    then have room: "length (last (split_on 10 whole)) + m + length (concat cs)
        \<le> MAX_FRAME_BYTES" using Cons.prems(3) by (simp add: whole_def)
    then have f: "feed_chunk st c = (ev, Inr st')"
      using fc Inr p by (simp add: Let_def st'_def)
    have "decode_from st' cs =
      (case run_lines (butlast (split_on 10 (buffer st' @ concat cs))) (data_lines st')
          (data_bytes st')
       of (evs, Inl e) \<Rightarrow> (evs, e) | (evs, Inr _) \<Rightarrow> (evs, Ended))"
      by (rule Cons.IH) (use room last_part_no_sep in \<open>simp_all add: st'_def\<close>)
    with f r Inr p sp show ?thesis
      by (auto simp: st'_def run_lines_append split: prod.splits sum.splits)
  qed
qed

text \<open>A generator never ends by exhaustion inside a chunk, and the only exception it raises is the
  conversion limit's.\<close>

definition ends_early :: "stream_end \<Rightarrow> bool" where
  "ends_early e \<longleftrightarrow> e = Stopped \<or> e = Raised Int_Digits_Error"

lemma process_line_end: "process_line l dls n = Finished evs e \<Longrightarrow> ends_early e"
  by (auto simp: process_line_def Let_def ends_early_def events_def
      split: if_splits sum.splits json_error.splits json.splits option.splits)

lemma drain_lines_end:
  "drain_lines buf start sf dls n = (evs, Inl e) \<Longrightarrow> ends_early e"
proof (induction buf start sf dls n arbitrary: evs rule: drain_lines.induct)
  case (1 buf start sf dls n)
  from "1.prems" obtain k where k: "find_from 10 buf sf = Some k"
    by (subst (asm) drain_lines.simps) (auto split: option.splits)
  show ?case
  proof (cases "process_line (drop start (take k buf)) dls n")
    case (Finished ev x)
    with "1.prems" k have "x = e" by (subst (asm) drain_lines.simps) simp
    with process_line_end [OF Finished] show ?thesis by simp
  next
    case (Continue ev d m)
    obtain ev' where "drain_lines buf (k + 1) (k + 1) d m = (ev', Inl e)"
      using "1.prems" k Continue
      by (subst (asm) drain_lines.simps) (auto split: prod.splits)
    from "1.IH" [OF k Continue this] show ?thesis .
  qed
qed

lemma feed_chunk_ends: "feed_chunk st c = (evs, Inl e) \<Longrightarrow> ends_early e"
  by (auto simp: feed_chunk_def Let_def split: prod.splits sum.splits if_splits
      dest: drain_lines_end) (simp add: ends_early_def)

lemma feed_chunk_end: "feed_chunk st c \<noteq> (evs, Inl Ended)"
  using feed_chunk_ends [of st c evs Ended] by (auto simp: ends_early_def)

lemma decode_from_raises: "snd (decode_from st cs) = Raised e \<Longrightarrow> e = Int_Digits_Error"
proof (induction cs arbitrary: st)
  case Nil
  then show ?case by simp
next
  case (Cons c cs)
  obtain evs r where f: "feed_chunk st c = (evs, r)" by (cases "feed_chunk st c")
  show ?case
  proof (cases r)
    case (Inl x)
    with f Cons.prems feed_chunk_ends [of st c evs x] show ?thesis
      by (auto simp: ends_early_def)
  next
    case (Inr st')
    with f Cons.prems Cons.IH [of st'] show ?thesis by (auto split: prod.splits)
  qed
qed

section \<open>Memory\<close>

text \<open>The state after a run of chunks, while the generator is still suspended.\<close>

fun sse_after :: "sse_state \<Rightarrow> bytes list \<Rightarrow> sse_state option" where
  "sse_after st [] = Some st"
| "sse_after st (c # cs) =
     (case snd (feed_chunk st c) of Inl _ \<Rightarrow> None | Inr st' \<Rightarrow> sse_after st' cs)"

definition sse_inv :: "sse_state \<Rightarrow> bool" where
  "sse_inv st \<longleftrightarrow> 10 \<notin> set (buffer st) \<and> search_from st = length (buffer st)
     \<and> data_bytes st = sum_list (map length (data_lines st))
     \<and> length (buffer st) + data_bytes st \<le> MAX_FRAME_BYTES"

lemma process_line_counts:
  "process_line l dls n = Continue evs d m \<Longrightarrow> n = sum_list (map length dls) \<Longrightarrow>
     m = sum_list (map length d)"
  by (auto simp: process_line_def Let_def split: if_splits sum.splits)

lemma run_lines_counts:
  "run_lines ls dls n = (evs, Inr (d, m)) \<Longrightarrow> n = sum_list (map length dls) \<Longrightarrow>
     m = sum_list (map length d)"
proof (induction ls arbitrary: dls n evs)
  case Nil
  then show ?case by auto
next
  case (Cons l ls)
  from Cons.prems(1) obtain ev d' m' ev' where c: "process_line l dls n = Continue ev d' m'"
    and r: "run_lines ls d' m' = (ev', Inr (d, m))"
    by (cases "process_line l dls n") (auto split: prod.splits)
  from Cons.IH [OF r process_line_counts [OF c Cons.prems(2)]] show ?case .
qed

lemma feed_chunk_inv:
  assumes "sse_inv st" and "feed_chunk st c = (evs, Inr st')"
  shows "sse_inv st'"
proof -
  obtain ev r where r: "run_lines (butlast (split_on 10 (buffer st @ c))) (data_lines st)
      (data_bytes st) = (ev, r)"
    by (cases "run_lines (butlast (split_on 10 (buffer st @ c))) (data_lines st) (data_bytes st)")
  from assms(1) have i: "10 \<notin> set (buffer st)" "search_from st = length (buffer st)"
    "data_bytes st = sum_list (map length (data_lines st))" by (simp_all add: sse_inv_def)
  from feed_chunk_spec [OF i(1,2) r] assms(2) obtain d m where
    m: "r = Inr (d, m)" and
    f: "\<not> length (last (split_on 10 (buffer st @ c))) + m > MAX_FRAME_BYTES" and
    st': "st' = \<lparr>buffer = last (split_on 10 (buffer st @ c)), data_lines = d, data_bytes = m,
                  search_from = length (last (split_on 10 (buffer st @ c)))\<rparr>"
    by (auto simp: Let_def split: sum.splits if_splits)
  from run_lines_counts [OF r [unfolded m] i(3)] f st' show ?thesis
    by (simp add: sse_inv_def last_part_no_sep)
qed

lemma sse_after_inv: "sse_inv st \<Longrightarrow> sse_after st cs = Some st' \<Longrightarrow> sse_inv st'"
proof (induction cs arbitrary: st)
  case Nil
  then show ?case by simp
next
  case (Cons c cs)
  then obtain st1 where s: "snd (feed_chunk st c) = Inr st1" "sse_after st1 cs = Some st'"
    by (auto split: sum.splits)
  then have "feed_chunk st c = (fst (feed_chunk st c), Inr st1)" by (metis prod.collapse)
  from Cons.IH [OF feed_chunk_inv [OF Cons.prems(1) this] s(2)] show ?case .
qed

lemma init_sse_inv: "sse_inv init_sse"
  by (simp add: sse_inv_def init_sse_def)

section \<open>Frames\<close>

lemma choices_loop_no_error:
  "choices_loop cs = Inr evs \<Longrightarrow> \<forall>e\<in>set evs. \<not> is_error_event e"
proof (induction cs arbitrary: evs)
  case Nil
  then show ?case by simp
next
  case (Cons c cs)
  then obtain e1 e2 where e: "choice_events1 c = Inr e1" "choices_loop cs = Inr e2" "evs = e1 @ e2"
    by (auto simp: bindE_eq_Inr)
  have "\<forall>e\<in>set e1. \<not> is_error_event e"
    using e(1)
    by (auto simp: choice_events1_def Let_def bindE_eq_Inr delta_text_events_def emit_def
        split: json.splits sum.splits option.splits if_splits)
  with Cons.IH [OF e(2)] e(3) show ?case by auto
qed

lemma choices_loop_Inl: "choices_loop cs = Inl e \<Longrightarrow> is_error_event e"
proof (induction cs)
  case Nil
  then show ?case by simp
next
  case (Cons c cs)
  have "choice_events1 c = Inl e \<Longrightarrow> is_error_event e"
    by (auto simp: choice_events1_def Let_def bindE_eq_Inl delta_text_events_def
        unexpected_shape_def split: json.splits sum.splits option.splits if_splits)
  with Cons show ?case by (auto simp: bindE_eq_Inl)
qed

lemma usage_event_kind:
  "usage_event v = Inl e \<Longrightarrow> is_error_event e"
  "usage_event v = Inr (Some e) \<Longrightarrow> \<exists>n\<ge>0. e = Usage n"
  by (auto simp: usage_event_def unexpected_shape_def split: json.splits if_splits)

lemma choices_loop_no_usage: "choices_loop cs = Inr evs \<Longrightarrow> Usage n \<notin> set evs"
proof (induction cs arbitrary: evs)
  case Nil
  then show ?case by simp
next
  case (Cons c cs)
  then obtain e1 e2 where e: "choice_events1 c = Inr e1" "choices_loop cs = Inr e2" "evs = e1 @ e2"
    by (auto simp: bindE_eq_Inr)
  have "Usage n \<notin> set e1"
    using e(1)
    by (auto simp: choice_events1_def Let_def bindE_eq_Inr delta_text_events_def emit_def
        split: json.splits sum.splits option.splits if_splits)
  with Cons.IH [OF e(2)] e(3) show ?case by simp
qed

lemma is_error_event_iff: "is_error_event e \<longleftrightarrow> (\<exists>m. e = Error m)"
  by (cases e) simp_all

lemma choice_events_Inl: "choice_events v = Inl e \<Longrightarrow> is_error_event e"
  by (cases v) (auto simp: choice_events_def unexpected_shape_def dest: choices_loop_Inl)

lemma choice_events_Inr:
  "choice_events v = Inr evs \<Longrightarrow> (\<forall>e\<in>set evs. \<not> is_error_event e) \<and> Usage n \<notin> set evs"
  by (cases v)
     (simp_all add: choice_events_def choices_loop_no_error choices_loop_no_usage)

lemma events_shape:
  assumes "events payload = Inr evs"
  shows "(\<exists>m. evs = [Error m]) \<or>
     ((\<forall>e\<in>set evs. \<not> is_error_event e) \<and>
      (\<forall>n. Usage n \<in> set evs \<longrightarrow> 0 \<le> n \<and> last evs = Usage n))"
proof (cases "json_loads payload")
  case (Inl e)
  with assms show ?thesis by (cases e) (auto simp: events_def)
next
  case js: (Inr v)
  show ?thesis
  proof (cases "\<exists>kvs. v = JObj kvs \<and> obj_get kvs ''error'' = None")
    case False
    with assms js show ?thesis
      by (cases v) (auto simp: events_def split: option.splits)
  next
    case True
    then obtain kvs where kvs: "v = JObj kvs" "obj_get kvs ''error'' = None" by blast
    define ch where "ch = (case obj_get kvs ''choices'' of None \<Rightarrow> JArr [] | Some v \<Rightarrow> v)"
    have e: "(case choice_events ch of
                  Inl err \<Rightarrow> Inr [err]
                | Inr evs \<Rightarrow>
                    (case usage_event (get_or_null kvs ''usage'') of
                       Inl err \<Rightarrow> Inr [err]
                     | Inr None \<Rightarrow> Inr evs
                     | Inr (Some us) \<Rightarrow> Inr (evs @ [us]))) = (Inr evs :: exn + sse_event list)"
      using assms js kvs by (simp add: events_def ch_def)
    show ?thesis
    proof (cases "choice_events ch")
      case (Inl err)
      with e choice_events_Inl [OF Inl] show ?thesis by (auto simp: is_error_event_iff)
    next
      case c: (Inr us)
      show ?thesis
      proof (cases "usage_event (get_or_null kvs ''usage'')")
        case (Inl err)
        with e c usage_event_kind(1) [OF Inl] show ?thesis by (auto simp: is_error_event_iff)
      next
        case (Inr t)
        show ?thesis
        proof (cases t)
          case None
          with e c Inr choice_events_Inr [OF c] show ?thesis by auto
        next
          case (Some w)
          from usage_event_kind(2) [OF Inr [unfolded Some]] obtain n where "w = Usage n" "0 \<le> n"
            by blast
          with e c Inr Some choice_events_Inr [OF c] show ?thesis by auto
        qed
      qed
    qed
  qed
qed

section \<open>Streams the decoder does not absorb\<close>

lemma feed_empty_data_line:
  "feed_chunk \<lparr>buffer = [], data_lines = dls, data_bytes = 0, search_from = 0\<rparr>
       (ascii ''data:'' @ [10])
     = ([], Inr \<lparr>buffer = [], data_lines = dls @ [[]], data_bytes = 0, search_from = 0\<rparr>)"
proof -
  have sp: "split_on 10 (ascii ''data:'' @ [10]) = [ascii ''data:'', []]" by code_simp
  have l: "line_text (ascii ''data:'') = u ''data:''" by code_simp
  have p: "process_line (ascii ''data:'') dls 0 = Continue [] (dls @ [[]]) 0"
    unfolding process_line_def l Let_def by (simp add: u_def removeprefix_def startswith_def)
  have r: "run_lines (butlast (split_on 10 ([] @ ascii ''data:'' @ [10]))) dls 0
      = ([], Inr (dls @ [[]], 0))"
    by (simp add: sp p)
  show ?thesis
    by (subst feed_chunk_spec [where r = "Inr (dls @ [[]], 0)"])
       (use r sp in \<open>simp_all add: MAX_FRAME_BYTES_def\<close>)
qed

lemma sse_after_empty_data_lines:
  "sse_after \<lparr>buffer = [], data_lines = replicate j [], data_bytes = 0, search_from = 0\<rparr>
       (replicate k (ascii ''data:'' @ [10])) =
     Some \<lparr>buffer = [], data_lines = replicate (j + k) [], data_bytes = 0, search_from = 0\<rparr>"
proof (induction k arbitrary: j)
  case 0
  show ?case by simp
next
  case (Suc k)
  from Suc.IH [of "Suc j"] show ?case
    by (simp add: feed_empty_data_line replicate_append_same)
qed

lemma decode_replace_ascii: "\<forall>c\<in>set s. c < 128 \<Longrightarrow> decode_replace (map of_nat s) = s"
  using unat_utf8_bytes [of s] decode_items_code_units [of s "[]"] encodable_ascii [of s]
    utf8_bytes_ascii [of s]
  by (simp add: decode_replace_def comp_def)

lemma json_long_integer:
  assumes "int_max_str_digits < n"
  shows "json_loads (replicate n 49) = Inl Int_Too_Long"
proof -
  obtain m where m: "n = Suc m" using assms by (cases n) auto
  have d: "digits_prefix (replicate n 49) = (replicate n 49, [])"
    by (simp add: digits_prefix_def is_digit_def)
  have "scan_int (replicate n 49) = Some (replicate n 49, [])"
    using d by (simp add: scan_int_def m is_digit_def)
  then have "scan_number (replicate n 49) = Inl Int_Too_Long"
    using assms
    by (simp add: scan_number_def m startswith_def u_def scan_frac_def scan_exp_def
        number_value_def)
  then show ?thesis
    by (simp add: json_loads_def m skip_ws_def json_ws_def startswith_def u_def)
qed

lemma long_integer_line:
  "line_text (ascii ''data:'' @ replicate (Suc n) 49) = u ''data:'' @ replicate (Suc n) 49"
proof -
  have "rstrip_with (\<lambda>b. b = 13) (ascii ''data:'' @ replicate (Suc n) 49)
      = ascii ''data:'' @ replicate (Suc n) (49 :: 8 word)"
    by (simp add: rstrip_with_def replicate_append_same [symmetric] del: replicate_Suc)
  moreover have "\<dots> = map of_nat (u ''data:'' @ replicate (Suc n) 49)"
    by (simp add: ascii_def u_def)
  moreover have "\<forall>c\<in>set (u ''data:'' @ replicate (Suc n) 49). c < 128" by (auto simp: u_def)
  ultimately show ?thesis using decode_replace_ascii by (simp only: line_text_def)
qed

lemma long_integer_run:
  assumes "int_max_str_digits < Suc n"
  shows "run_lines [ascii ''data:'' @ replicate (Suc n) 49, []] [] 0
    = ([], Inl (Raised Int_Digits_Error))"
proof -
  have "line_text [] = []" by code_simp
  moreover have "process_line (ascii ''data:'' @ replicate (Suc n) 49) [] 0
      = Continue [] [replicate (Suc n) 49] (Suc n)"
    unfolding process_line_def long_integer_line Let_def
    by (simp add: u_def removeprefix_def startswith_def)
  moreover have "events (replicate (Suc n) 49) = Inl Int_Digits_Error"
    using json_long_integer [OF assms] by (simp add: events_def del: replicate_Suc)
  moreover have "replicate (Suc n) 49 \<noteq> u ''[DONE]''"
    by (simp add: u_def)
  then have "process_line [] [replicate (Suc n) 49] (Suc n) = Finished [] (Raised Int_Digits_Error)"
    using \<open>events _ = _\<close> \<open>line_text [] = []\<close>
    by (simp add: process_line_def Let_def del: replicate_Suc)
  ultimately show ?thesis by (simp del: replicate_Suc)
qed

section \<open>Properties\<close>

text \<open>C20. However the transport slices the response body, the decoder yields the events of the
  complete lines of the concatenated body and ends the same way: the offsets that resume the
  newline search, the compaction of the buffer and multi-byte characters or \<open>CR NL\<close> pairs cut by
  a chunk boundary never change the result.  The size cap is out of reach because the body is
  no larger than the cap.\<close>

theorem sse_chunking_invariant:
  "length (concat chunks) \<le> MAX_FRAME_BYTES \<Longrightarrow> decode_sse chunks = sse_spec (concat chunks)"
  by (simp add: decode_sse_def sse_spec_def decode_from_spec init_sse_def)

definition sample_chunks :: "bytes list" where
  "sample_chunks = [ascii ''data: {\"choices\":[{\"delta\":{\"content\":'',
     ascii ''\"hi\"}}]}'' @ [13], [10, 13], [10] @ ascii ''data: [DO'', ascii ''NE]'' @ [10, 10]]"

theorem sse_chunking_invariant_witness:
  "decode_sse sample_chunks = sse_spec (concat sample_chunks)
   \<and> sse_spec (concat sample_chunks) = ([Delta (u ''hi'')], Stopped)"
proof
  have "length (concat sample_chunks) \<le> MAX_FRAME_BYTES"
    by (simp add: sample_chunks_def MAX_FRAME_BYTES_def ascii_def)
  then show "decode_sse sample_chunks = sse_spec (concat sample_chunks)"
    by (rule sse_chunking_invariant)
  show "sse_spec (concat sample_chunks) = ([Delta (u ''hi'')], Stopped)"
    by code_simp
qed

text \<open>All or nothing: the events of one complete frame are either one \<open>Error\<close> alone, or
  none of them is an \<open>Error\<close> and at most one, the last, is the \<open>Usage\<close> count, which is not
  negative.\<close>

theorem sse_frame_all_or_nothing:
  "events payload = Inr evs \<Longrightarrow>
     (\<exists>m. evs = [Error m]) \<or>
     ((\<forall>e\<in>set evs. \<not> is_error_event e) \<and>
      (\<forall>n. Usage n \<in> set evs \<longrightarrow> 0 \<le> n \<and> last evs = Usage n))"
  using events_shape by blast

definition sample_payload :: pystr where
  "sample_payload = u ''{\"choices\":[{\"delta\":{\"reasoning_content\":\"a\",\"content\":\"b\"},\"finish_reason\":\"stop\"}],\"usage\":{\"completion_tokens\":7}}''"

theorem sse_frame_all_or_nothing_witness:
  "events sample_payload = Inr [Reasoning (u ''a''), Delta (u ''b''), Finish (u ''stop''), Usage 7]
   \<and> last [Reasoning (u ''a''), Delta (u ''b''), Finish (u ''stop''), Usage 7] = Usage 7"
proof
  show e: "events sample_payload =
      Inr [Reasoning (u ''a''), Delta (u ''b''), Finish (u ''stop''), Usage 7]"
    by code_simp
  show "last [Reasoning (u ''a''), Delta (u ''b''), Finish (u ''stop''), Usage 7] = Usage 7"
    using sse_frame_all_or_nothing [OF e] by auto
qed

text \<open>The size cap does not bound the pending block: a \<open>data:\<close> line with an empty payload
  adds an entry to the block and nothing to its byte count, so a stream of them grows the list
  without limit and without an \<open>Error\<close>, against the docstring's bound on memory.\<close>

theorem sse_empty_data_lines_unbounded:
  "sse_after init_sse (replicate k (ascii ''data:'' @ [10])) =
     Some \<lparr>buffer = [], data_lines = replicate k [], data_bytes = 0, search_from = 0\<rparr>"
  using sse_after_empty_data_lines [of 0 k] by (simp add: init_sse_def)

text \<open>A frame whose payload is an integer literal longer than the conversion limit ends the
  generator with the \<open>ValueError\<close> of \<open>int\<close>, which the handler for \<open>JSONDecodeError\<close> does not
  catch: the decoder does raise into the loop it feeds.\<close>

theorem sse_long_integer_raises:
  "int_max_str_digits < n \<Longrightarrow> n + 20 \<le> MAX_FRAME_BYTES \<Longrightarrow>
     decode_sse [ascii ''data:'' @ replicate n 49 @ [10, 10]] = ([], Raised Int_Digits_Error)"
proof -
  assume a: "int_max_str_digits < n" "n + 20 \<le> MAX_FRAME_BYTES"
  then obtain m where m: "n = Suc m" by (cases n) auto
  let ?l = "ascii ''data:'' @ replicate (Suc m) (49 :: 8 word)"
  have "10 \<notin> set ?l" by (simp add: ascii_def)
  then have sp: "split_on 10 (ascii ''data:'' @ replicate (Suc m) 49 @ [10, 10]) = [?l, [], []]"
    using split_on_append_sep [of 10 ?l "[10]"] by (simp add: split_on_single del: replicate_Suc)
  have len: "length (concat [?l @ [10, 10]]) \<le> MAX_FRAME_BYTES"
    using a(2) m by (simp add: ascii_def)
  have "decode_sse [?l @ [10, 10]] = ([], Raised Int_Digits_Error)"
    using len long_integer_run [of m] a(1) m decode_from_spec [of init_sse "[?l @ [10, 10]]"]
    by (simp add: decode_sse_def init_sse_def sp del: replicate_Suc)
  with m show ?thesis by simp
qed

theorem sse_long_integer_raises_witness:
  "decode_sse [ascii ''data:'' @ replicate 4301 49 @ [10, 10]] = ([], Raised Int_Digits_Error)"
  by (rule sse_long_integer_raises) (simp_all add: int_max_str_digits_def MAX_FRAME_BYTES_def)

end
