(* ===== verification/Backend.thy ===== *)
theory Backend
  imports Derail
begin

text \<open>
  The transport seam of \<open>src/claude_local/backend.py\<close>.  The bytes of one generation are a finite
  list of chunks and, where the iterator raises instead of ending, the exception.  The httpx
  client is a parameter: a function from the URL and the JSON body of the POST to what
  \<open>httpx\<close> documents can come back.
\<close>

section \<open>Byte streams and the contract of a backend\<close>

type_synonym byte_stream = "bytes list \<times> exn option"

definition is_silent :: "exn \<Rightarrow> bool" where
  "is_silent e = (case e of Generation_Silent _ _ _ \<Rightarrow> True | _ \<Rightarrow> False)"

lemma is_silent_simps [simp]:
  "is_silent (Generation_Silent a b c)" "\<not> is_silent (Backend_Unavailable a b c)"
  "\<not> is_silent (Replay_Exhausted m n)" "\<not> is_silent Int_Digits_Error"
  by (simp_all add: is_silent_def)

text \<open>The client's view of a backend: a call either fails at once with a fault of the harness or
  yields a stream, and a stream that breaks off does so with a fault or as a silence.\<close>

locale generation_source =
  fixes gen :: "'b \<Rightarrow> pystr \<Rightarrow> pystr \<Rightarrow> budget \<Rightarrow> 'b \<times> (exn + byte_stream)"
    and fault :: "exn \<Rightarrow> bool"
  assumes call_fault: "gen b p t bu = (b', Inl e) \<Longrightarrow> fault e"
    and stream_fault: "gen b p t bu = (b', Inr (cs, Some e)) \<Longrightarrow> fault e \<or> is_silent e"
    and fault_not_silent: "fault e \<Longrightarrow> \<not> is_silent e"
begin

lemma call_not_silent: "gen b p t bu = (b', Inl e) \<Longrightarrow> \<not> is_silent e"
  using call_fault fault_not_silent by blast

lemma escaping_fault:
  "gen b p t bu = (b', Inr (cs, Some e)) \<Longrightarrow> \<not> is_silent e \<Longrightarrow> fault e"
  using stream_fault by blast

end

section \<open>ReplayBackend\<close>

record replay_backend =
  scripts :: "bytes list"
  served :: nat

definition new_replay :: "bytes list \<Rightarrow> replay_backend" where
  "new_replay ss = \<lparr>scripts = ss, served = 0\<rparr>"

definition replay_generate ::
  "replay_backend \<Rightarrow> pystr \<Rightarrow> pystr \<Rightarrow> budget \<Rightarrow> replay_backend \<times> (exn + byte_stream)" where
  "replay_generate rb prefix tail budget =
     (if served rb \<ge> length (scripts rb)
      then (rb, Inl (Replay_Exhausted (served rb) (length (scripts rb))))
      else (rb\<lparr>served := served rb + 1\<rparr>, Inr ([scripts rb ! served rb], None)))"

definition is_replay_exhausted :: "exn \<Rightarrow> bool" where
  "is_replay_exhausted e = (case e of Replay_Exhausted _ _ \<Rightarrow> True | _ \<Rightarrow> False)"

interpretation replay: generation_source replay_generate is_replay_exhausted
  by unfold_locales
     (auto simp: replay_generate_def is_replay_exhausted_def split: if_splits exn.splits)

text \<open>A run of calls with the given prompts, and what each returned.\<close>

fun replay_calls ::
  "replay_backend \<Rightarrow> (pystr \<times> pystr \<times> budget) list \<Rightarrow> replay_backend \<times> (exn + byte_stream) list"
where
  "replay_calls rb [] = (rb, [])"
| "replay_calls rb ((p, t, b) # qs) =
     (case replay_generate rb p t b of (rb', r) \<Rightarrow>
        (case replay_calls rb' qs of (rb'', rs) \<Rightarrow> (rb'', r # rs)))"

lemma replay_calls_ledger:
  "served rb \<le> length (scripts rb) \<Longrightarrow>
   replay_calls rb qs =
     (rb\<lparr>served := min (served rb + length qs) (length (scripts rb))\<rparr>,
      map (\<lambda>s. Inr ([s], None)) (take (length qs) (drop (served rb) (scripts rb))) @
      replicate (served rb + length qs - length (scripts rb))
        (Inl (Replay_Exhausted (length (scripts rb)) (length (scripts rb)))))"
proof (induction qs arbitrary: rb)
  case Nil
  then show ?case by simp
next
  case (Cons q qs)
  obtain p t b where q: "q = (p, t, b)" by (metis prod_cases3)
  show ?case
  proof (cases "served rb < length (scripts rb)")
    case True
    then have "drop (served rb) (scripts rb) =
        scripts rb ! served rb # drop (Suc (served rb)) (scripts rb)"
      by (simp add: Cons_nth_drop_Suc)
    with True Cons.IH [of "rb\<lparr>served := Suc (served rb)\<rparr>"] show ?thesis
      by (simp add: q replay_generate_def)
  next
    case False
    with Cons.prems have e: "served rb = length (scripts rb)" by simp
    with Cons.IH [of rb] show ?thesis by (simp add: q replay_generate_def)
  qed
qed

section \<open>HttpxBackend\<close>

datatype transport_error = Read_Timeout pystr | Request_Error pystr pystr

text \<open>What the POST came to: a failure before any response, or a response with its status, the
  chunks read and the failure that cut the read short.  Left out are the exceptions \<open>httpx\<close>
  raises before it sends anything and the backend does not translate: \<open>InvalidURL\<close> for a base URL
  it cannot parse, and \<open>UnicodeEncodeError\<close> for a body that holds a lone surrogate.\<close>

datatype http_outcome =
    No_Response transport_error
  | Responded nat "bytes list" "transport_error option"

type_synonym transport = "pystr \<Rightarrow> json \<Rightarrow> http_outcome"

record httpx_backend =
  hb_url :: pystr
  hb_model :: pystr
  hb_params :: "(pystr \<times> json) list"

definition CHAT_COMPLETIONS_PATH :: pystr where
  "CHAT_COMPLETIONS_PATH = u ''/v1/chat/completions''"

definition mk_httpx :: "pystr \<Rightarrow> pystr \<Rightarrow> (pystr \<times> json) list \<Rightarrow> httpx_backend" where
  "mk_httpx base_url model params =
     \<lparr>hb_url = rstrip_with (\<lambda>c. c = 47) base_url @ CHAT_COMPLETIONS_PATH,
      hb_model = model, hb_params = params\<rparr>"

text \<open>A dict display: a later key overwrites an earlier one in place.\<close>

definition dict_display :: "(pystr \<times> json) list \<Rightarrow> (pystr \<times> json) list \<Rightarrow> (pystr \<times> json) list" where
  "dict_display base kvs = fold (\<lambda>(k, v) d. AList.update k v d) kvs base"

definition chat_message :: "string \<Rightarrow> pystr \<Rightarrow> json" where
  "chat_message role content =
     JObj [(u ''role'', JStr (u role)), (u ''content'', JStr content)]"

definition request_body :: "httpx_backend \<Rightarrow> pystr \<Rightarrow> pystr \<Rightarrow> budget \<Rightarrow> (pystr \<times> json) list" where
  "request_body hb prefix tail b =
     dict_display (hb_params hb)
       [(u ''model'', JStr (hb_model hb)),
        (u ''messages'', JArr [chat_message ''system'' prefix, chat_message ''user'' tail]),
        (u ''stream'', JBool True),
        (u ''stream_options'', JObj [(u ''include_usage'', JBool True)]),
        (u ''max_tokens'', JInt (max_tokens b))]"

definition failure_reason :: "transport_error \<Rightarrow> pystr" where
  "failure_reason err = (case err of
     Read_Timeout m \<Rightarrow> u ''ReadTimeout: '' @ m
   | Request_Error name m \<Rightarrow> name @ u '': '' @ m)"

definition translate_error :: "httpx_backend \<Rightarrow> bool \<Rightarrow> transport_error \<Rightarrow> exn" where
  "translate_error hb started err =
     (case err of
        Read_Timeout _ \<Rightarrow> Generation_Silent (hb_url hb) (hb_model hb) (failure_reason err)
      | Request_Error _ _ \<Rightarrow>
          if started then Generation_Silent (hb_url hb) (hb_model hb) (failure_reason err)
          else Backend_Unavailable (hb_url hb) (hb_model hb) (failure_reason err))"

definition httpx_stream ::
  "transport \<Rightarrow> httpx_backend \<Rightarrow> pystr \<Rightarrow> pystr \<Rightarrow> budget \<Rightarrow> byte_stream" where
  "httpx_stream post hb prefix tail b =
     (case post (hb_url hb) (JObj (request_body hb prefix tail b)) of
        No_Response err \<Rightarrow> ([], Some (translate_error hb False err))
      | Responded code chunks err \<Rightarrow>
          if 200 \<le> code \<and> code < 300
          then (chunks, map_option (translate_error hb True) err)
          else ([], Some (Backend_Unavailable (hb_url hb) (hb_model hb)
                            (u ''HTTP '' @ str_nat code))))"

definition httpx_generate ::
  "transport \<Rightarrow> httpx_backend \<Rightarrow> pystr \<Rightarrow> pystr \<Rightarrow> budget
     \<Rightarrow> httpx_backend \<times> (exn + byte_stream)" where
  "httpx_generate post hb prefix tail b = (hb, Inr (httpx_stream post hb prefix tail b))"

text \<open>Whether the server answered the request with a success status.\<close>

definition response_started ::
  "transport \<Rightarrow> httpx_backend \<Rightarrow> pystr \<Rightarrow> pystr \<Rightarrow> budget \<Rightarrow> bool" where
  "response_started post hb prefix tail b =
     (case post (hb_url hb) (JObj (request_body hb prefix tail b)) of
        No_Response _ \<Rightarrow> False | Responded code _ _ \<Rightarrow> 200 \<le> code \<and> code < 300)"

definition read_timed_out ::
  "transport \<Rightarrow> httpx_backend \<Rightarrow> pystr \<Rightarrow> pystr \<Rightarrow> budget \<Rightarrow> bool" where
  "read_timed_out post hb prefix tail b =
     (case post (hb_url hb) (JObj (request_body hb prefix tail b)) of
        No_Response (Read_Timeout _) \<Rightarrow> True | _ \<Rightarrow> False)"

definition is_unavailable :: "exn \<Rightarrow> bool" where
  "is_unavailable e = (case e of Backend_Unavailable _ _ _ \<Rightarrow> True | _ \<Rightarrow> False)"

lemma translate_error_kind:
  "is_silent (translate_error hb started err) \<longleftrightarrow> started \<or> (\<exists>m. err = Read_Timeout m)"
  "is_unavailable (translate_error hb started err) \<longleftrightarrow>
     \<not> is_silent (translate_error hb started err)"
  by (cases err; simp add: translate_error_def is_unavailable_def)+

lemma is_unavailable_not_silent: "is_unavailable e \<Longrightarrow> \<not> is_silent e"
  by (cases e) (simp_all add: is_unavailable_def)

lemma httpx_stream_fault:
  assumes "httpx_stream post hb p t b = (cs, Some e)"
  shows "if response_started post hb p t b \<or> read_timed_out post hb p t b
         then is_silent e else is_unavailable e \<and> cs = []"
proof (cases "post (hb_url hb) (JObj (request_body hb p t b))")
  case (No_Response err)
  with assms show ?thesis
    by (cases err)
       (auto simp: httpx_stream_def response_started_def read_timed_out_def translate_error_def
         is_unavailable_def)
next
  case (Responded code chunks err)
  with assms show ?thesis
    by (auto simp: httpx_stream_def response_started_def read_timed_out_def translate_error_kind
         is_unavailable_def split: if_splits)
qed

interpretation httpx: generation_source "httpx_generate post" is_unavailable for post
proof
  fix b p t bu b' e cs
  show "httpx_generate post b p t bu = (b', Inl e) \<Longrightarrow> is_unavailable e"
    by (simp add: httpx_generate_def)
  show "httpx_generate post b p t bu = (b', Inr (cs, Some e)) \<Longrightarrow> is_unavailable e \<or> is_silent e"
    using httpx_stream_fault [of post b p t bu cs e]
    by (auto simp: httpx_generate_def split: if_splits)
  show "is_unavailable e \<Longrightarrow> \<not> is_silent e" by (rule is_unavailable_not_silent)
qed

lemma map_of_dict_display:
  "map_of (dict_display base kvs) = map_of base ++ map_of (rev kvs)"
proof (induction kvs arbitrary: base)
  case Nil
  show ?case by (simp add: dict_display_def)
next
  case (Cons kv kvs)
  obtain k v where kv: "kv = (k, v)" by (cases kv)
  have "dict_display base (kv # kvs) = dict_display (AList.update k v base) kvs"
    by (simp add: dict_display_def kv)
  then show ?case
    by (simp add: Cons.IH kv update_conv' map_add_upd fun_upd_def)
       (auto simp: map_add_def split: option.splits)
qed

section \<open>Properties\<close>

text \<open>The completion ledger of the replay backend: calls serve the scripts in order, one chunk
  each and whatever the prompt; every call past the supply raises with the exact counts and
  leaves the ledger at the number of scripts.\<close>

theorem replay_ledger:
  "replay_calls (new_replay ss) qs =
     (\<lparr>scripts = ss, served = min (length qs) (length ss)\<rparr>,
      map (\<lambda>s. Inr ([s], None)) (take (length qs) ss) @
      replicate (length qs - length ss) (Inl (Replay_Exhausted (length ss) (length ss))))"
  by (simp add: replay_calls_ledger new_replay_def)

text \<open>No server-specific sampling parameter can countermand the request's own keys: the model,
  the two messages, streaming, usage accounting and the token cap are always the backend's, and
  every other parameter passes through.\<close>

theorem request_invariants_hold:
  "obj_get (request_body hb prefix tail b) ''stream'' = Some (JBool True)
   \<and> obj_get (request_body hb prefix tail b) ''model'' = Some (JStr (hb_model hb))
   \<and> obj_get (request_body hb prefix tail b) ''max_tokens'' = Some (JInt (max_tokens b))
   \<and> obj_get (request_body hb prefix tail b) ''stream_options''
       = Some (JObj [(u ''include_usage'', JBool True)])
   \<and> obj_get (request_body hb prefix tail b) ''messages''
       = Some (JArr [chat_message ''system'' prefix, chat_message ''user'' tail])
   \<and> obj_get (request_body hb prefix tail b) ''repetition_penalty''
       = map_of (hb_params hb) (u ''repetition_penalty'')"
  by (simp add: request_body_def obj_get_def map_of_dict_display u_def)

end
