(* ===== verification/Client.thy ===== *)
theory Client
  imports Backend Harmony Sse
begin

text \<open>
  \<open>ModelClient\<close> of \<open>src/claude_local/client.py\<close>: one generation threads the backend's chunks
  through the guard's clock, the event decoder and the guard's verdict on each delta, and meters
  what was decoded.  The guard is a parameter (\<open>derail_factory\<close> is injected); the clock is read
  in the code's order: once at entry, once by the guard's constructor, then by each guard call
  and once at the end.
\<close>

section \<open>Results\<close>

record generation_result =
  r_text :: pystr
  completion_tokens :: int
  tokens_estimated :: bool
  r_seconds :: rat
  r_derail :: "derail_reason option"
  r_fault :: "sse_message option"
  finish_reason :: "pystr option"

definition is_length_capped :: "generation_result \<Rightarrow> bool" where
  "is_length_capped r \<longleftrightarrow> finish_reason r = Some (u ''length'')"

definition tokens_per_second :: "generation_result \<Rightarrow> rat option" where
  "tokens_per_second r = mean_tokens_per_second (completion_tokens r) (r_seconds r)"

section \<open>One call\<close>

text \<open>The local variables of \<open>generate\<close>, with the guard, the clock's position and what the
  observer has been shown.\<close>

record 'g call =
  parts :: "pystr list"
  chars :: nat
  server_tokens :: "int option"
  call_derail :: "derail_reason option"
  call_fault :: "sse_message option"
  call_finish :: "pystr option"
  observed :: "pystr list"
  call_guard :: 'g
  clock :: nat

record 'g guard_ops =
  g_make :: "budget \<Rightarrow> rat \<Rightarrow> 'g"
  g_tick :: "nat \<Rightarrow> 'g \<Rightarrow> derail_reason option \<times> 'g \<times> nat"
  g_feed :: "nat \<Rightarrow> 'g \<Rightarrow> pystr \<Rightarrow> derail_reason option \<times> 'g \<times> nat"
  g_verdict :: "'g \<Rightarrow> derail_reason option"

text \<open>A delta is metered and shown to the observer before the guard judges it; only content
  joins the reply.\<close>

definition take_delta ::
  "'g guard_ops \<Rightarrow> bool \<Rightarrow> pystr \<Rightarrow> 'g call \<Rightarrow> bool \<times> 'g call" where
  "take_delta ops is_content t c =
     (let c1 = c\<lparr>parts := (if is_content then parts c @ [t] else parts c),
                 chars := chars c + length t, observed := observed c @ [t]\<rparr>
      in case g_feed ops (clock c1) (call_guard c1) t of
           (v, g, k) \<Rightarrow> (v \<noteq> None, c1\<lparr>call_derail := v, call_guard := g, clock := k\<rparr>))"

definition handle_event :: "'g guard_ops \<Rightarrow> sse_event \<Rightarrow> 'g call \<Rightarrow> bool \<times> 'g call" where
  "handle_event ops ev c =
     (case ev of
        Delta t \<Rightarrow> take_delta ops True t c
      | Reasoning t \<Rightarrow> take_delta ops False t c
      | Usage n \<Rightarrow> (False, c\<lparr>server_tokens := Some n\<rparr>)
      | Finish r \<Rightarrow> (False, c\<lparr>call_finish := Some r\<rparr>)
      | Error m \<Rightarrow> (True, c\<lparr>call_fault := Some m\<rparr>))"

fun handle_events :: "'g guard_ops \<Rightarrow> sse_event list \<Rightarrow> 'g call \<Rightarrow> bool \<times> 'g call" where
  "handle_events ops [] c = (False, c)"
| "handle_events ops (ev # evs) c =
     (case handle_event ops ev c of
        (True, c') \<Rightarrow> (True, c') | (False, c') \<Rightarrow> handle_events ops evs c')"

text \<open>The \<open>for\<close> over \<open>decode_sse(_ticking(...))\<close>: every chunk is judged on arrival, then decoded,
  then its events are handled; the exception, if any, is the one that leaves the loop.\<close>

fun drive ::
  "'g guard_ops \<Rightarrow> bytes list \<Rightarrow> exn option \<Rightarrow> sse_state \<Rightarrow> 'g call \<Rightarrow> exn option \<times> 'g call" where
  "drive ops [] err dec c = (err, c)"
| "drive ops (chunk # cs) err dec c =
     (case g_tick ops (clock c) (call_guard c) of
        (Some v, g, k) \<Rightarrow> (None, c\<lparr>call_guard := g, clock := k\<rparr>)
      | (None, g, k) \<Rightarrow>
          (case feed_chunk dec chunk of
             (evs, r) \<Rightarrow>
               (case handle_events ops evs (c\<lparr>call_guard := g, clock := k\<rparr>) of
                  (True, c') \<Rightarrow> (None, c')
                | (False, c') \<Rightarrow>
                    (case r of
                       Inl (Raised e) \<Rightarrow> (Some e, c')
                     | Inl _ \<Rightarrow> (None, c')
                     | Inr dec' \<Rightarrow> drive ops cs err dec' c'))))"

definition new_call :: "'g \<Rightarrow> nat \<Rightarrow> 'g call" where
  "new_call g k = \<lparr>parts = [], chars = 0, server_tokens = None, call_derail = None,
     call_fault = None, call_finish = None, observed = [], call_guard = g, clock = k\<rparr>"

definition finish_call :: "'g guard_ops \<Rightarrow> rat \<Rightarrow> rat \<Rightarrow> 'g call \<Rightarrow> generation_result" where
  "finish_call ops start stop c =
     \<lparr>r_text = assistant_content (concat (parts c)),
      completion_tokens = (case server_tokens c of Some n \<Rightarrow> n
         | None \<Rightarrow> int ((chars c + CHARS_PER_TOKEN - 1) div CHARS_PER_TOKEN)),
      tokens_estimated = (server_tokens c = None),
      r_seconds = stop - start,
      r_derail = (case call_derail c of Some r \<Rightarrow> Some r | None \<Rightarrow> g_verdict ops (call_guard c)),
      r_fault = call_fault c,
      finish_reason = call_finish c\<rparr>"

record 'b client =
  backend :: 'b
  total_calls :: nat

text \<open>\<open>generate\<close>: the client after the call, what it returns or raises, what the observer saw and
  the number of clock readings.\<close>

definition generate ::
  "(nat \<Rightarrow> rat) \<Rightarrow> 'g guard_ops
     \<Rightarrow> ('b \<Rightarrow> pystr \<Rightarrow> pystr \<Rightarrow> budget \<Rightarrow> 'b \<times> (exn + byte_stream))
     \<Rightarrow> 'b client \<Rightarrow> nat \<Rightarrow> pystr \<Rightarrow> pystr \<Rightarrow> budget
     \<Rightarrow> 'b client \<times> (exn + generation_result) \<times> pystr list \<times> nat" where
  "generate clk ops gen cl k prefix tail budget =
     (let start = clk k;
          g = g_make ops budget (clk (k + 1));
          cl1 = cl\<lparr>total_calls := total_calls cl + 1\<rparr>
      in case gen (backend cl1) prefix tail budget of
           (b, Inl e) \<Rightarrow> (cl1\<lparr>backend := b\<rparr>, Inl e, [], k + 2)
         | (b, Inr (chunks, err)) \<Rightarrow>
             (case drive ops chunks err init_sse (new_call g (k + 2)) of
                (None, c) \<Rightarrow> (cl1\<lparr>backend := b\<rparr>,
                   Inr (finish_call ops start (clk (clock c)) c), observed c, clock c + 1)
              | (Some e, c) \<Rightarrow>
                  if is_silent e
                  then (let c' = c\<lparr>call_derail := Some Silent\<rparr>
                        in (cl1\<lparr>backend := b\<rparr>,
                            Inr (finish_call ops start (clk (clock c)) c'), observed c, clock c + 1))
                  else (cl1\<lparr>backend := b\<rparr>, Inl e, observed c, clock c)))"

text \<open>The guard the package injects by default.\<close>

definition derail_ops :: "(nat \<Rightarrow> rat) \<Rightarrow> guard guard_ops" where
  "derail_ops clk = \<lparr>g_make = new_guard, g_tick = tick clk, g_feed = feed clk, g_verdict = tripped\<rparr>"

section \<open>What a run of events amounts to\<close>

fun reply_parts :: "sse_event list \<Rightarrow> pystr list" where
  "reply_parts [] = []"
| "reply_parts (Delta t # evs) = t # reply_parts evs"
| "reply_parts (_ # evs) = reply_parts evs"

fun metered :: "sse_event list \<Rightarrow> pystr list" where
  "metered [] = []"
| "metered (Delta t # evs) = t # metered evs"
| "metered (Reasoning t # evs) = t # metered evs"
| "metered (_ # evs) = metered evs"

fun last_usage :: "sse_event list \<Rightarrow> int option \<Rightarrow> int option" where
  "last_usage [] x = x"
| "last_usage (Usage n # evs) x = last_usage evs (Some n)"
| "last_usage (_ # evs) x = last_usage evs x"

fun last_finish :: "sse_event list \<Rightarrow> pystr option \<Rightarrow> pystr option" where
  "last_finish [] x = x"
| "last_finish (Finish r # evs) x = last_finish evs (Some r)"
| "last_finish (_ # evs) x = last_finish evs x"

fun last_error :: "sse_event list \<Rightarrow> sse_message option \<Rightarrow> sse_message option" where
  "last_error [] x = x"
| "last_error (Error m # evs) x = last_error evs (Some m)"
| "last_error (_ # evs) x = last_error evs x"

lemma summaries_append:
  "reply_parts (xs @ ys) = reply_parts xs @ reply_parts ys"
  "metered (xs @ ys) = metered xs @ metered ys"
  "last_usage (xs @ ys) a = last_usage ys (last_usage xs a)"
  "last_finish (xs @ ys) b = last_finish ys (last_finish xs b)"
  "last_error (xs @ ys) d = last_error ys (last_error xs d)"
proof -
  show "reply_parts (xs @ ys) = reply_parts xs @ reply_parts ys"
    by (induction xs rule: reply_parts.induct) simp_all
  show "metered (xs @ ys) = metered xs @ metered ys"
    by (induction xs rule: metered.induct) simp_all
  show "last_usage (xs @ ys) a = last_usage ys (last_usage xs a)"
    by (induction xs a rule: last_usage.induct) simp_all
  show "last_finish (xs @ ys) b = last_finish ys (last_finish xs b)"
    by (induction xs b rule: last_finish.induct) simp_all
  show "last_error (xs @ ys) d = last_error ys (last_error xs d)"
    by (induction xs d rule: last_error.induct) simp_all
qed

text \<open>\<open>summarises evs c0 c\<close>: the call state \<open>c\<close> is \<open>c0\<close> after exactly the events \<open>evs\<close>.\<close>

definition summarises :: "sse_event list \<Rightarrow> 'g call \<Rightarrow> 'g call \<Rightarrow> bool" where
  "summarises evs c0 c \<longleftrightarrow>
     parts c = parts c0 @ reply_parts evs
     \<and> chars c = chars c0 + length (concat (metered evs))
     \<and> observed c = observed c0 @ metered evs
     \<and> server_tokens c = last_usage evs (server_tokens c0)
     \<and> call_finish c = last_finish evs (call_finish c0)
     \<and> call_fault c = last_error evs (call_fault c0)"

lemma summarises_Nil: "summarises [] c0 (c0\<lparr>call_guard := g, clock := k\<rparr>)"
  by (simp add: summarises_def)

lemma summarises_trans:
  "summarises xs c0 c1 \<Longrightarrow> summarises ys c1 c2 \<Longrightarrow> summarises (xs @ ys) c0 c2"
  by (simp add: summarises_def summaries_append)

lemma summarises_guard:
  "summarises evs (c0\<lparr>call_guard := g, clock := k\<rparr>) c \<longleftrightarrow> summarises evs c0 c"
  by (simp add: summarises_def)

lemma handle_event_summarises: "handle_event ops ev c = (stop, c') \<Longrightarrow> summarises [ev] c c'"
  by (cases ev)
     (auto simp: handle_event_def take_delta_def summarises_def Let_def split: prod.splits)

lemma handle_events_summarises:
  "handle_events ops evs c = (stop, c') \<Longrightarrow>
     \<exists>done rest. evs = done @ rest \<and> summarises done c c' \<and> (\<not> stop \<longrightarrow> rest = [])"
proof (induction evs arbitrary: c)
  case Nil
  then have "c' = c" "\<not> stop" by auto
  then show ?case by (intro exI [of _ "[]"]) (simp add: summarises_def)
next
  case (Cons ev evs)
  obtain s c1 where h: "handle_event ops ev c = (s, c1)" by (cases "handle_event ops ev c")
  note one = handle_event_summarises [OF h]
  show ?case
  proof (cases s)
    case True
    with Cons.prems h have "stop" "c' = c1" by auto
    with one show ?thesis by (intro exI [of _ "[ev]"] exI [of _ evs]) simp
  next
    case False
    with Cons.prems h have "handle_events ops evs c1 = (stop, c')" by simp
    from Cons.IH [OF this] obtain dn rest where
      d: "evs = dn @ rest" "summarises dn c1 c'" "\<not> stop \<longrightarrow> rest = []" by blast
    from summarises_trans [OF one d(2)] d(1,3) show ?thesis
      by (intro exI [of _ "ev # dn"] exI [of _ rest]) simp
  qed
qed

section \<open>The client over any guard that keeps the contract\<close>

definition loop_end :: "stream_end \<Rightarrow> exn option \<Rightarrow> exn option" where
  "loop_end e err = (case e of Raised x \<Rightarrow> Some x | Stopped \<Rightarrow> None | Ended \<Rightarrow> err)"

locale guarded_client =
  stream_guard "g_verdict ops" "g_tick ops" "g_feed ops"
  for ops :: "'g guard_ops"
begin

lemma handle_event_verdict:
  assumes "handle_event ops ev c = (stop, c')" and "call_derail c = None"
    and "g_verdict ops (call_guard c) = None" and "call_fault c = None"
  shows "call_derail c' = g_verdict ops (call_guard c')
    \<and> (stop \<longleftrightarrow> call_derail c' \<noteq> None \<or> call_fault c' \<noteq> None)"
  using assms
  by (cases ev)
     (auto simp: handle_event_def take_delta_def Let_def dest: feed_reports split: prod.splits)

lemma handle_events_verdict:
  assumes "handle_events ops evs c = (stop, c')" and "call_derail c = None"
    and "g_verdict ops (call_guard c) = None" and "call_fault c = None"
  shows "call_derail c' = g_verdict ops (call_guard c')
    \<and> (stop \<longleftrightarrow> call_derail c' \<noteq> None \<or> call_fault c' \<noteq> None)"
  using assms
proof (induction evs arbitrary: c)
  case Nil
  then show ?case by auto
next
  case (Cons ev evs)
  obtain s c1 where h: "handle_event ops ev c = (s, c1)" by (cases "handle_event ops ev c")
  note v = handle_event_verdict [OF h Cons.prems(2-4)]
  show ?case
  proof (cases s)
    case True
    with Cons.prems(1) h have "stop" "c' = c1" by auto
    with v True show ?thesis by auto
  next
    case False
    with Cons.prems(1) h have "handle_events ops evs c1 = (stop, c')" by simp
    moreover have "call_derail c1 = None" "g_verdict ops (call_guard c1) = None"
      "call_fault c1 = None" using v False by auto
    ultimately show ?thesis by (rule Cons.IH)
  qed
qed

lemma drive_spec:
  assumes "drive ops cs err dec c = (e, c')" and "call_derail c = None"
    and "g_verdict ops (call_guard c) = None" and "call_fault c = None"
  shows "\<exists>done rest. fst (decode_from dec cs) = done @ rest \<and> summarises done c c'
    \<and> (call_derail c' = None \<or> call_derail c' = g_verdict ops (call_guard c'))
    \<and> (if g_verdict ops (call_guard c') = None \<and> call_fault c' = None
       then rest = [] \<and> e = loop_end (snd (decode_from dec cs)) err else e = None)"
  using assms
proof (induction cs arbitrary: dec c)
  case Nil
  then show ?case by (auto simp: summarises_def loop_end_def)
next
  case (Cons chunk cs)
  obtain v g k where t: "g_tick ops (clock c) (call_guard c) = (v, g, k)" by (metis prod_cases3)
  define c1 where "c1 = c\<lparr>call_guard := g, clock := k\<rparr>"
  have vg: "g_verdict ops g = v" using tick_reports [OF t] .
  show ?case
  proof (cases v)
    case (Some r)
    with Cons.prems t vg have "e = None" "c' = c1" "g_verdict ops (call_guard c') = Some r"
      "call_derail c' = None" by (auto simp: c1_def)
    then show ?thesis
      by (intro exI [of _ "[]"] exI [of _ "fst (decode_from dec (chunk # cs))"])
         (simp add: summarises_Nil c1_def)
  next
    case None
    obtain evs r where f: "feed_chunk dec chunk = (evs, r)" by (cases "feed_chunk dec chunk")
    obtain stop c2 where h: "handle_events ops evs c1 = (stop, c2)"
      by (cases "handle_events ops evs c1")
    have "call_derail c1 = None" "g_verdict ops (call_guard c1) = None" "call_fault c1 = None"
      using Cons.prems None vg by (simp_all add: c1_def)
    note hv = handle_events_verdict [OF h this]
    obtain dn rest where d: "evs = dn @ rest" "summarises dn c c2" "\<not> stop \<longrightarrow> rest = []"
      using handle_events_summarises [OF h] by (auto simp: c1_def summarises_guard)
    obtain more where m: "fst (decode_from dec (chunk # cs)) = evs @ more"
      using f by (cases r) (fastforce split: prod.splits)+
    show ?thesis
    proof (cases stop)
      case True
      with Cons.prems t None f h have e: "e = None" "c' = c2" by (simp_all add: c1_def)
      with True hv d m show ?thesis
        by (intro exI [of _ dn] exI [of _ "rest @ more"]) auto
    next
      case False
      note go = this
      show ?thesis
      proof (cases r)
        case (Inl x)
        with Cons.prems t None f h go have e: "e = loop_end x err \<and> c' = c2 \<or> x = Ended"
          by (cases x) (auto simp: c1_def loop_end_def)
        have "x \<noteq> Ended" using f Inl feed_chunk_end by blast
        with e go hv d m f Inl show ?thesis
          by (intro exI [of _ dn] exI [of _ "[]"]) auto
      next
        case (Inr dec')
        with Cons.prems t None f h go have dr: "drive ops cs err dec' c2 = (e, c')"
          by (simp add: c1_def)
        obtain dn' rest' where d': "fst (decode_from dec' cs) = dn' @ rest'" "summarises dn' c2 c'"
          and more: "call_derail c' = None \<or> call_derail c' = g_verdict ops (call_guard c')"
          "if g_verdict ops (call_guard c') = None \<and> call_fault c' = None
           then rest' = [] \<and> e = loop_end (snd (decode_from dec' cs)) err else e = None"
          using Cons.IH [OF dr] hv go by auto
        have "fst (decode_from dec (chunk # cs)) = (dn @ dn') @ rest'"
          "snd (decode_from dec (chunk # cs)) = snd (decode_from dec' cs)"
          using f Inr d(1,3) d'(1) go by (auto split: prod.splits)
        with summarises_trans [OF d(2) d'(2)] more show ?thesis by metis
      qed
    qed
  qed
qed

lemma generate_result:
  assumes "\<And>b t0. g_verdict ops (g_make ops b t0) = None"
    and "gen (backend cl) prefix tail bu = (b', Inr (chunks, err))"
    and "generate clk ops gen cl k prefix tail bu = (cl', out, seen, k')"
  shows "\<exists>done rest. fst (decode_sse chunks) = done @ rest \<and> seen = metered done \<and>
    (case out of
       Inl e \<Rightarrow> rest = [] \<and> loop_end (snd (decode_sse chunks)) err = Some e \<and> \<not> is_silent e
     | Inr r \<Rightarrow>
         r_text r = assistant_content (concat (reply_parts done))
         \<and> finish_reason r = last_finish done None
         \<and> r_fault r = last_error done None
         \<and> tokens_estimated r = (last_usage done None = None)
         \<and> completion_tokens r =
              (case last_usage done None of Some n \<Rightarrow> n
               | None \<Rightarrow> int ((length (concat (metered done)) + 3) div 4))
         \<and> (r_derail r = None \<and> r_fault r = None \<longrightarrow>
               rest = [] \<and> loop_end (snd (decode_sse chunks)) err = None)
         \<and> (\<forall>e. rest = [] \<and> loop_end (snd (decode_sse chunks)) err = Some e \<and> is_silent e
               \<and> r_fault r = None \<longrightarrow> r_derail r \<noteq> None))"
proof -
  define c0 where "c0 = new_call (g_make ops bu (clk (k + 1))) (k + 2)"
  obtain e c where d: "drive ops chunks err init_sse c0 = (e, c)"
    by (cases "drive ops chunks err init_sse c0")
  have "call_derail c0 = None" "g_verdict ops (call_guard c0) = None" "call_fault c0 = None"
    using assms(1) by (simp_all add: c0_def new_call_def)
  from drive_spec [OF d this] obtain dn rest where
    dn: "fst (decode_from init_sse chunks) = dn @ rest" "summarises dn c0 c"
      "call_derail c = None \<or> call_derail c = g_verdict ops (call_guard c)"
      "if g_verdict ops (call_guard c) = None \<and> call_fault c = None
       then rest = [] \<and> e = loop_end (snd (decode_from init_sse chunks)) err else e = None"
    by blast
  have g: "generate clk ops gen cl k prefix tail bu =
     (case e of
        None \<Rightarrow> (cl\<lparr>total_calls := total_calls cl + 1, backend := b'\<rparr>,
           Inr (finish_call ops (clk k) (clk (clock c)) c), observed c, clock c + 1)
      | Some x \<Rightarrow>
          if is_silent x
          then (cl\<lparr>total_calls := total_calls cl + 1, backend := b'\<rparr>,
                Inr (finish_call ops (clk k) (clk (clock c)) (c\<lparr>call_derail := Some Silent\<rparr>)),
                observed c, clock c + 1)
          else (cl\<lparr>total_calls := total_calls cl + 1, backend := b'\<rparr>, Inl x, observed c, clock c))"
    using assms(2) d by (simp add: generate_def Let_def c0_def split: option.splits)
  have seen: "seen = metered dn"
    using g assms(3) dn(2)
    by (auto simp: summarises_def c0_def new_call_def split: option.splits if_splits)
  note s = dn(2) [unfolded summarises_def c0_def new_call_def, simplified]
  show ?thesis
  proof (cases e)
    case None
    with g assms(3) have out: "out = Inr (finish_call ops (clk k) (clk (clock c)) c)" by simp
    show ?thesis
      by (intro exI [of _ dn] exI [of _ rest])
         (use dn s seen None in \<open>auto simp: out finish_call_def decode_sse_def CHARS_PER_TOKEN_def
            split: option.splits if_splits\<close>)
  next
    case (Some x)
    with dn(4) have end_: "rest = []" "loop_end (snd (decode_from init_sse chunks)) err = Some x"
      "g_verdict ops (call_guard c) = None" "call_fault c = None" by (auto split: if_splits)
    show ?thesis
    proof (cases "is_silent x")
      case True
      with g assms(3) Some have out: "out = Inr (finish_call ops (clk k) (clk (clock c))
          (c\<lparr>call_derail := Some Silent\<rparr>))" by simp
      show ?thesis
        by (intro exI [of _ dn] exI [of _ rest])
           (use dn s seen end_ in \<open>auto simp: out finish_call_def decode_sse_def
              CHARS_PER_TOKEN_def split: option.splits\<close>)
    next
      case False
      with g assms(3) Some have out: "out = Inl x" by simp
      show ?thesis
        by (intro exI [of _ dn] exI [of _ rest])
           (use dn seen end_ False in \<open>auto simp: out decode_sse_def\<close>)
    qed
  qed
qed

end

interpretation derail_client: guarded_client "derail_ops clk" for clk
  by unfold_locales
     (auto simp: derail_ops_def tick_latched feed_latched dest: tick_verdict feed_verdict)

lemma new_guard_untripped: "g_verdict (derail_ops clk) (g_make (derail_ops clk) b t0) = None"
  by (simp add: derail_ops_def new_guard_def)

lemmas derail_generate = derail_client.generate_result [OF new_guard_untripped]

lemma generate_counts: "total_calls (fst (generate clk ops gen cl k p t bu)) = total_calls cl + 1"
  by (auto simp: generate_def Let_def split: prod.splits sum.splits option.splits)

section \<open>Properties\<close>

text \<open>C27. What one generation reports is exactly a summary of a prefix of the events its stream
  decodes to: the reply is the content of those events, recovered from a channel transcript; the
  observer saw every metered delta; the count is the server's last usage figure, else a quarter
  of the metered characters rounded up and flagged; and unless a verdict or an upstream error
  ended it, the prefix is the whole stream.\<close>

theorem client_result_summarises_prefix:
  assumes "gen (backend cl) prefix tail b = (b', Inr (chunks, err))"
    and "generate clk (derail_ops clk) gen cl k prefix tail b = (cl', Inr r, seen, k')"
  shows "\<exists>done rest. fst (decode_sse chunks) = done @ rest
    \<and> seen = metered done
    \<and> r_text r = assistant_content (concat (reply_parts done))
    \<and> finish_reason r = last_finish done None
    \<and> r_fault r = last_error done None
    \<and> tokens_estimated r = (last_usage done None = None)
    \<and> completion_tokens r = (case last_usage done None of Some n \<Rightarrow> n
         | None \<Rightarrow> int ((length (concat (metered done)) + 3) div 4))
    \<and> (r_derail r = None \<and> r_fault r = None \<longrightarrow> rest = [])"
  using derail_generate [OF assms] by (elim ex_forward) simp

definition sample_stream :: bytes where
  "sample_stream = ascii ''data: {\"choices\":[{\"delta\":{\"content\":\"hello\"}}]}''
     @ [10, 10] @ ascii ''data: [DONE]'' @ [10, 10]"

definition sample_budget :: budget where
  "sample_budget = \<lparr>max_attempts = 2, max_tokens = 100, generation_timeout_s = Fin 60,
     oracle_timeout_s = Fin 5\<rparr>"

definition sample_client :: "replay_backend client" where
  "sample_client = \<lparr>backend = new_replay [sample_stream], total_calls = 0\<rparr>"

definition sample_result :: generation_result where
  "sample_result = \<lparr>r_text = u ''hello'', completion_tokens = 2, tokens_estimated = True,
     r_seconds = 0, r_derail = None, r_fault = None, finish_reason = None\<rparr>"

lemma sample_generate:
  "generate (\<lambda>_. 0) (derail_ops (\<lambda>_. 0)) replay_generate sample_client 0 [] [] sample_budget
     = (\<lparr>backend = \<lparr>scripts = [sample_stream], served = 1\<rparr>, total_calls = 1\<rparr>,
        Inr sample_result, [u ''hello''], 6)"
  by code_simp

lemma sample_replay:
  "replay_generate (backend sample_client) [] [] sample_budget =
     (\<lparr>scripts = [sample_stream], served = 1\<rparr>, Inr ([sample_stream], None))"
  by (simp add: replay_generate_def sample_client_def new_replay_def)

theorem client_result_summarises_prefix_witness:
  "\<exists>done rest. fst (decode_sse [sample_stream]) = done @ rest
    \<and> [u ''hello''] = metered done \<and> rest = []"
  using client_result_summarises_prefix [OF sample_replay sample_generate]
  by (auto simp: sample_result_def)

lemma unstarted_empty:
  "httpx_stream post hb prefix tail b = (chunks, err) \<Longrightarrow> \<not> response_started post hb prefix tail b \<Longrightarrow>
     chunks = []"
  by (auto simp: httpx_stream_def response_started_def split: http_outcome.splits if_splits)

lemma httpx_raises:
  assumes "generate clk (derail_ops clk) (httpx_generate post) cl k prefix tail b
      = (cl', Inl e, seen, k')"
  shows "if response_started post (backend cl) prefix tail b
     then e = Int_Digits_Error
       \<and> snd (decode_sse (fst (httpx_stream post (backend cl) prefix tail b))) = Raised e
     else is_unavailable e \<and> seen = [] \<and> \<not> read_timed_out post (backend cl) prefix tail b"
proof -
  let ?hb = "backend cl"
  obtain chunks err where s: "httpx_stream post ?hb prefix tail b = (chunks, err)"
    by (cases "httpx_stream post ?hb prefix tail b")
  then have g: "httpx_generate post ?hb prefix tail b = (?hb, Inr (chunks, err))"
    by (simp add: httpx_generate_def)
  from derail_generate [OF g assms] obtain dn where
    l: "loop_end (snd (decode_sse chunks)) err = Some e" and ns: "\<not> is_silent e"
    and dn: "fst (decode_sse chunks) = dn" "seen = metered dn" by auto
  show ?thesis
  proof (cases "snd (decode_sse chunks)")
    case (Raised x)
    then have "chunks \<noteq> []" by (auto simp: decode_sse_def)
    then have "response_started post ?hb prefix tail b" using unstarted_empty [OF s] by blast
    with l s Raised decode_from_raises [of init_sse chunks x] show ?thesis
      by (simp add: loop_end_def decode_sse_def)
  next
    case Stopped
    with l show ?thesis by (simp add: loop_end_def)
  next
    case Ended
    with l have e: "err = Some e" by (simp add: loop_end_def)
    from httpx_stream_fault [OF s [unfolded e]] ns dn show ?thesis
      by (auto simp: decode_sse_def split: if_splits)
  qed
qed

lemma httpx_timeout_result:
  assumes "read_timed_out post (backend cl) prefix tail b"
  shows "\<exists>cl' r k'. generate clk (derail_ops clk) (httpx_generate post) cl k prefix tail b
      = (cl', Inr r, [], k') \<and> r_derail r = Some Silent \<and> r_text r = [] \<and> completion_tokens r = 0"
proof -
  let ?hb = "backend cl"
  from assms obtain m where
    p: "post (hb_url ?hb) (JObj (request_body ?hb prefix tail b)) = No_Response (Read_Timeout m)"
    by (auto simp: read_timed_out_def split: http_outcome.splits transport_error.splits)
  have "assistant_content [] = []" by code_simp
  with p show ?thesis
    by (simp add: generate_def httpx_generate_def httpx_stream_def translate_error_def Let_def
        finish_call_def new_call_def derail_constants)
qed

text \<open>C28. Over the httpx transport an attempted call is always counted.  When no response had started
  (the server could not be reached or answered outside 2xx) it raises only that the server is
  unavailable, with nothing shown to the observer, and a server that goes quiet before its first
  byte is no exception but a result with verdict SILENT and nothing metered.  Once a response has
  started it raises in one case only: the decoder met an integer past the conversion limit in the
  bytes of that response.\<close>

theorem client_fault_boundary:
  "total_calls (fst (generate clk (derail_ops clk) (httpx_generate post) cl k prefix tail b))
     = total_calls cl + 1
   \<and> (\<forall>e. fst (snd (generate clk (derail_ops clk) (httpx_generate post) cl k prefix tail b)) = Inl e
        \<longrightarrow> (if response_started post (backend cl) prefix tail b
            then e = Int_Digits_Error
              \<and> snd (decode_sse (fst (httpx_stream post (backend cl) prefix tail b))) = Raised e
            else is_unavailable e
              \<and> fst (snd (snd (generate clk (derail_ops clk) (httpx_generate post) cl k prefix tail b))) = []))
   \<and> (read_timed_out post (backend cl) prefix tail b \<longrightarrow>
        (\<exists>r. fst (snd (generate clk (derail_ops clk) (httpx_generate post) cl k prefix tail b)) = Inr r
             \<and> r_derail r = Some Silent \<and> completion_tokens r = 0))"
proof -
  obtain cl' res seen k' where
    g: "generate clk (derail_ops clk) (httpx_generate post) cl k prefix tail b = (cl', res, seen, k')"
    by (metis prod.collapse)
  have "total_calls cl' = total_calls cl + 1"
    using generate_counts [of clk "derail_ops clk" "httpx_generate post" cl k prefix tail b] g by simp
  moreover have "if response_started post (backend cl) prefix tail b
      then e = Int_Digits_Error
        \<and> snd (decode_sse (fst (httpx_stream post (backend cl) prefix tail b))) = Raised e
      else is_unavailable e \<and> seen = []" if "res = Inl e" for e
    using httpx_raises [OF g [unfolded that]] by (auto split: if_splits)
  moreover have "\<exists>r. res = Inr r \<and> r_derail r = Some Silent \<and> completion_tokens r = 0"
    if "read_timed_out post (backend cl) prefix tail b"
    using httpx_timeout_result [OF that, of clk k] g by auto
  ultimately show ?thesis unfolding g by simp
qed

definition quiet_post :: transport where
  "quiet_post url body = No_Response (Read_Timeout [])"

theorem client_fault_boundary_witness:
  "\<exists>r. fst (snd (generate (\<lambda>_. 0) (derail_ops (\<lambda>_. 0)) (httpx_generate quiet_post)
        \<lparr>backend = mk_httpx (u ''http://h/'') (u ''m'') [], total_calls = 3\<rparr> 0 [] [] sample_budget))
      = Inr r \<and> r_derail r = Some Silent"
proof -
  have "read_timed_out quiet_post (mk_httpx (u ''http://h/'') (u ''m'') []) [] [] sample_budget"
    by (simp add: read_timed_out_def quiet_post_def)
  then show ?thesis
    using client_fault_boundary [of "\<lambda>_. 0" quiet_post
        "\<lparr>backend = mk_httpx (u ''http://h/'') (u ''m'') [], total_calls = 3\<rparr>" 0 "[]" "[]" sample_budget]
    by auto
qed

end
