(* ===== verification/Filesystem.thy ===== *)
theory Filesystem
  imports Domain Utf8
begin

text \<open>
  The file system the package works on, at the level of the \<open>pathlib\<close> calls it makes.  An
  absolute path is its list of components; the store is an association list from paths to
  nodes, whose root always is a directory.  \<open>walk\<close> resolves a path the way the kernel does,
  through symbolic links and \<open>..\<close>, with the kernel's limit on the number of links.
\<close>

section \<open>Paths as text\<close>

type_synonym path = "pystr list"

definition DOTDOT :: pystr where "DOTDOT = u ''..''"

text \<open>\<open>PurePosixPath(s).parts\<close> without the root: empty components and single dots collapse.\<close>

definition path_parts :: "pystr \<Rightarrow> path" where
  "path_parts s = filter (\<lambda>c. c \<noteq> [] \<and> c \<noteq> u ''.'') (split_on 47 s)"

definition is_absolute :: "pystr \<Rightarrow> bool" where
  "is_absolute s = startswith s [47]"

definition as_posix :: "bool \<Rightarrow> path \<Rightarrow> pystr" where
  "as_posix absolute ps =
     (if absolute then 47 # join [47] ps else if ps = [] then u ''.'' else join [47] ps)"

section \<open>The store\<close>

datatype node = File bytes | Dir | Link pystr

type_synonym fs = "(path \<times> node) list"

definition fs_get :: "fs \<Rightarrow> path \<Rightarrow> node option" where
  "fs_get fs p = (if p = [] then Some Dir else map_of fs p)"

definition fs_put :: "path \<Rightarrow> node \<Rightarrow> fs \<Rightarrow> fs" where
  "fs_put p n fs = AList.update p n fs"

definition fs_del :: "path \<Rightarrow> fs \<Rightarrow> fs" where
  "fs_del p fs = AList.delete p fs"

lemma fs_get_Nil [simp]: "fs_get fs [] = Some Dir"
  by (simp add: fs_get_def)

lemma fs_get_put: "q \<noteq> [] \<Longrightarrow> fs_get (fs_put q n fs) p = (if p = q then Some n else fs_get fs p)"
  by (auto simp: fs_get_def fs_put_def update_conv')

lemma fs_get_del: "q \<noteq> [] \<Longrightarrow> fs_get (fs_del q fs) p = (if p = q then None else fs_get fs p)"
  by (auto simp: fs_get_def fs_del_def delete_conv')

definition is_link_node :: "node option \<Rightarrow> bool" where
  "is_link_node n = (case n of Some (Link _) \<Rightarrow> True | _ \<Rightarrow> False)"

lemma is_link_node_simps [simp]:
  "\<not> is_link_node None" "\<not> is_link_node (Some (File b))" "\<not> is_link_node (Some Dir)"
  "is_link_node (Some (Link t))"
  by (simp_all add: is_link_node_def)

section \<open>Resolution\<close>

text \<open>\<open>walk k mk fs cur cs\<close> resolves the components \<open>cs\<close> from the real directory \<open>cur\<close>, following at
  most \<open>k\<close> links; with \<open>mk\<close> a missing last component is allowed and names what would be created.
  Failure is an \<open>OSError\<close> of the call.\<close>

function walk :: "nat \<Rightarrow> bool \<Rightarrow> fs \<Rightarrow> path \<Rightarrow> path \<Rightarrow> path option" where
  "walk k mk fs cur [] = Some cur"
| "walk k mk fs cur (c # cs) =
     (if fs_get fs cur \<noteq> Some Dir then None
      else if c = DOTDOT then walk k mk fs (butlast cur) cs
      else (case fs_get fs (cur @ [c]) of
              None \<Rightarrow> if mk \<and> cs = [] then Some (cur @ [c]) else None
            | Some (Link t) \<Rightarrow>
                if k = 0 then None
                else walk (k - 1) mk fs (if is_absolute t then [] else cur) (path_parts t @ cs)
            | Some _ \<Rightarrow> walk k mk fs (cur @ [c]) cs))"
  by pat_completeness auto
termination
  by (relation "measures [\<lambda>(k, mk, fs, cur, cs). k, \<lambda>(k, mk, fs, cur, cs). length cs]") auto

declare walk.simps(2) [simp del]

definition MAX_LINKS :: nat where "MAX_LINKS = 40"

definition realpath :: "fs \<Rightarrow> path \<Rightarrow> path option" where
  "realpath fs p = walk MAX_LINKS False fs [] p"

definition creatable :: "fs \<Rightarrow> path \<Rightarrow> path option" where
  "creatable fs p = walk MAX_LINKS True fs [] p"

definition exists_at :: "fs \<Rightarrow> path \<Rightarrow> bool" where
  "exists_at fs p \<longleftrightarrow> realpath fs p \<noteq> None"

definition is_dir :: "fs \<Rightarrow> path \<Rightarrow> bool" where
  "is_dir fs p = (case realpath fs p of Some r \<Rightarrow> fs_get fs r = Some Dir | None \<Rightarrow> False)"

definition is_file :: "fs \<Rightarrow> path \<Rightarrow> bool" where
  "is_file fs p =
     (case realpath fs p of
        Some r \<Rightarrow> (case fs_get fs r of Some (File _) \<Rightarrow> True | _ \<Rightarrow> False) | None \<Rightarrow> False)"

text \<open>\<open>lstat\<close> of the path itself: the parent is resolved, the last component is not followed.\<close>

definition lnode :: "fs \<Rightarrow> path \<Rightarrow> node option" where
  "lnode fs p =
     (if p = [] then Some Dir
      else if last p = DOTDOT then (case realpath fs p of Some r \<Rightarrow> fs_get fs r | None \<Rightarrow> None)
      else (case realpath fs (butlast p) of
              Some q \<Rightarrow> if fs_get fs q = Some Dir then fs_get fs (q @ [last p]) else None
            | None \<Rightarrow> None))"

definition is_symlink :: "fs \<Rightarrow> path \<Rightarrow> bool" where
  "is_symlink fs p = is_link_node (lnode fs p)"

text \<open>\<open>Path.resolve()\<close> without \<open>strict\<close>: components that do not exist are kept as they are.\<close>

function walk_lenient :: "nat \<Rightarrow> fs \<Rightarrow> path \<Rightarrow> path \<Rightarrow> path" where
  "walk_lenient k fs cur [] = cur"
| "walk_lenient k fs cur (c # cs) =
     (if c = DOTDOT then walk_lenient k fs (butlast cur) cs
      else (case fs_get fs (cur @ [c]) of
              Some (Link t) \<Rightarrow>
                if k = 0 then cur @ c # cs
                else walk_lenient (k - 1) fs (if is_absolute t then [] else cur) (path_parts t @ cs)
            | _ \<Rightarrow> walk_lenient k fs (cur @ [c]) cs))"
  by pat_completeness auto
termination
  by (relation "measures [\<lambda>(k, fs, cur, cs). k, \<lambda>(k, fs, cur, cs). length cs]") auto

declare walk_lenient.simps(2) [simp del]

definition resolve :: "fs \<Rightarrow> path \<Rightarrow> path" where
  "resolve fs p = walk_lenient MAX_LINKS fs [] p"

definition str_path :: "path \<Rightarrow> pystr" where
  "str_path p = as_posix True p"

section \<open>Reading and writing\<close>

text \<open>Text mode: \<open>read_text\<close> decodes strictly and translates every line ending to a newline.\<close>

fun universal_newlines :: "pystr \<Rightarrow> pystr" where
  "universal_newlines [] = []"
| "universal_newlines [c] = [if c = CR then NL else c]"
| "universal_newlines (c # d # cs) =
     (if c = CR \<and> d = NL then NL # universal_newlines cs
      else (if c = CR then NL else c) # universal_newlines (d # cs))"

definition decode_text :: "bytes \<Rightarrow> exn + pystr" where
  "decode_text bs = (case decode_strict bs of
     None \<Rightarrow> Inl Unicode_Decode_Error | Some s \<Rightarrow> Inr (universal_newlines s))"

definition read_bytes :: "fs \<Rightarrow> path \<Rightarrow> exn + bytes" where
  "read_bytes fs p =
     (case realpath fs p of
        Some r \<Rightarrow> (case fs_get fs r of Some (File b) \<Rightarrow> Inr b | _ \<Rightarrow> Inl OS_Error)
      | None \<Rightarrow> Inl OS_Error)"

definition read_text :: "fs \<Rightarrow> path \<Rightarrow> exn + pystr" where
  "read_text fs p = bindE (read_bytes fs p) decode_text"

definition write_bytes :: "fs \<Rightarrow> path \<Rightarrow> bytes \<Rightarrow> exn + fs" where
  "write_bytes fs p b =
     (case creatable fs p of
        Some r \<Rightarrow> if fs_get fs r = Some Dir then Inl OS_Error else Inr (fs_put r (File b) fs)
      | None \<Rightarrow> Inl OS_Error)"

text \<open>Text mode encodes first.  Where the text cannot be encoded Python has by then opened the file, and
  so created or emptied it; here the call fails and leaves the store as it was.  Only what a failed
  call leaves behind is affected, and no property speaks of that.\<close>

definition write_text :: "fs \<Rightarrow> path \<Rightarrow> pystr \<Rightarrow> exn + fs" where
  "write_text fs p s =
     (case utf8_encode s of None \<Rightarrow> Inl Unicode_Encode_Error | Some b \<Rightarrow> write_bytes fs p b)"

text \<open>One \<open>mkdir\<close> with \<open>exist_ok\<close>, and the same for every ancestor first.\<close>

definition mkdir1 :: "fs \<Rightarrow> path \<Rightarrow> exn + fs" where
  "mkdir1 fs p =
     (if is_dir fs p then Inr fs
      else if lnode fs p \<noteq> None then Inl OS_Error
      else (case creatable fs p of Some r \<Rightarrow> Inr (fs_put r Dir fs) | None \<Rightarrow> Inl OS_Error))"

fun mkdirs_from :: "fs \<Rightarrow> path \<Rightarrow> path \<Rightarrow> exn + fs" where
  "mkdirs_from fs done [] = mkdir1 fs done"
| "mkdirs_from fs done (c # cs) =
     bindE (mkdir1 fs done) (\<lambda>fs'. mkdirs_from fs' (done @ [c]) cs)"

definition mkdirs :: "fs \<Rightarrow> path \<Rightarrow> exn + fs" where
  "mkdirs fs p = (if is_dir fs p then Inr fs else mkdirs_from fs [] p)"

definition unlink :: "fs \<Rightarrow> path \<Rightarrow> exn + fs" where
  "unlink fs p =
     (case realpath fs (butlast p) of
        Some q \<Rightarrow>
          (let r = q @ [last p] in
           case fs_get fs r of
             None \<Rightarrow> Inl OS_Error | Some Dir \<Rightarrow> Inl OS_Error | Some _ \<Rightarrow> Inr (fs_del r fs))
      | None \<Rightarrow> Inl OS_Error)"

definition children :: "fs \<Rightarrow> path \<Rightarrow> path list" where
  "children fs d = filter (\<lambda>p. p \<noteq> [] \<and> butlast p = d) (map fst fs)"

definition rmdir :: "fs \<Rightarrow> path \<Rightarrow> exn + fs" where
  "rmdir fs p =
     (if p \<noteq> [] \<and> lnode fs p = Some Dir \<and> realpath fs p = Some p \<and> children fs p = []
      then Inr (fs_del p fs) else Inl OS_Error)"

text \<open>\<open>rglob("*")\<close>: everything strictly below a real directory, in the store's order; links
  below it are listed and not entered.\<close>

definition below :: "path \<Rightarrow> path \<Rightarrow> bool" where
  "below d p \<longleftrightarrow> startswith p d \<and> length d < length p"

definition rglob :: "fs \<Rightarrow> path \<Rightarrow> path list" where
  "rglob fs d = remdups (filter (below d) (map fst fs))"

section \<open>Real paths\<close>

text \<open>A path is real when every proper ancestor is a directory, so that nothing on the way to
  its last component is a link.\<close>

definition real_dirs :: "fs \<Rightarrow> path \<Rightarrow> bool" where
  "real_dirs fs p \<longleftrightarrow> (\<forall>i < length p. fs_get fs (take i p) = Some Dir)"

lemma real_dirs_Nil [simp]: "real_dirs fs []"
  by (simp add: real_dirs_def)

lemma real_dirs_snoc: "real_dirs fs (p @ [c]) \<longleftrightarrow> real_dirs fs p \<and> fs_get fs p = Some Dir"
  by (auto simp: real_dirs_def less_Suc_eq)

lemma real_dirs_butlast: "real_dirs fs p \<Longrightarrow> real_dirs fs (butlast p)"
  by (cases p rule: rev_cases) (simp_all add: real_dirs_snoc)

lemma real_dirs_prefix: "real_dirs fs (p @ c # cs) \<Longrightarrow> fs_get fs p = Some Dir"
  unfolding real_dirs_def by (drule spec [of _ "length p"]) simp

lemma walk_real:
  assumes "walk k mk fs cur cs = Some p" and "real_dirs fs cur" and "\<not> is_link_node (fs_get fs cur)"
  shows "real_dirs fs p \<and> \<not> is_link_node (fs_get fs p)
    \<and> (fs_get fs p = None \<longrightarrow> mk \<or> fs_get fs cur = None)"
  using assms
proof (induction k mk fs cur cs rule: walk.induct)
  case (1 k mk fs cur)
  then show ?case by simp
next
  case (2 k mk fs cur c cs)
  from "2.prems"(1) have d: "fs_get fs cur = Some Dir"
    by (simp add: walk.simps(2) split: if_splits)
  show ?case
  proof (cases "c = DOTDOT")
    case True
    have "fs_get fs (butlast cur) = Some Dir"
      using "2.prems"(2) d by (cases cur rule: rev_cases) (simp_all add: real_dirs_snoc)
    with 2 d True show ?thesis by (simp add: walk.simps(2) real_dirs_butlast)
  next
    case False
    have snoc: "real_dirs fs (cur @ [c])" using "2.prems"(2) d by (simp add: real_dirs_snoc)
    show ?thesis
    proof (cases "fs_get fs (cur @ [c])")
      case None
      with "2.prems"(1) d False have "mk" "p = cur @ [c]"
        by (auto simp: walk.simps(2) split: if_splits)
      with None snoc show ?thesis by simp
    next
      case (Some n)
      show ?thesis
      proof (cases n)
        case (Link t)
        have "\<not> (fs_get fs cur \<noteq> Some Dir)" using d by simp
        moreover have "real_dirs fs (if is_absolute t then [] else cur)"
          "fs_get fs (if is_absolute t then [] else cur) = Some Dir"
          using "2.prems"(2) d by simp_all
        ultimately show ?thesis
          using "2.IH"(4) [OF _ False Some Link] "2.prems"(1) d False Some Link
          by (simp add: walk.simps(2) split: if_splits)
      qed (use "2.prems"(1) "2.IH"(2,3) d False Some snoc in
             \<open>simp_all add: walk.simps(2)\<close>)
    qed
  qed
qed

lemma realpath_real:
  "realpath fs p = Some r \<Longrightarrow> real_dirs fs r \<and> \<not> is_link_node (fs_get fs r) \<and> fs_get fs r \<noteq> None"
  unfolding realpath_def by (drule walk_real) auto

lemma creatable_real:
  "creatable fs p = Some r \<Longrightarrow> real_dirs fs r \<and> \<not> is_link_node (fs_get fs r)"
  unfolding creatable_def by (drule walk_real) auto

text \<open>A well-formed store: every entry lies in a directory and no name is \<open>..\<close>.\<close>

definition wf_fs :: "fs \<Rightarrow> bool" where
  "wf_fs fs \<longleftrightarrow>
     (\<forall>p \<in> fst ` set fs. p \<noteq> [] \<and> fs_get fs (butlast p) = Some Dir \<and> DOTDOT \<notin> set p)"

lemma wf_fs_entry:
  "wf_fs fs \<Longrightarrow> fs_get fs p \<noteq> None \<Longrightarrow> p \<noteq> [] \<Longrightarrow>
     fs_get fs (butlast p) = Some Dir \<and> DOTDOT \<notin> set p"
  unfolding wf_fs_def fs_get_def
  by (metis (no_types, lifting) map_of_eq_None_iff)

lemma wf_fs_real_dirs: "wf_fs fs \<Longrightarrow> fs_get fs p \<noteq> None \<Longrightarrow> real_dirs fs p"
proof (induction p rule: rev_induct)
  case Nil
  show ?case by simp
next
  case (snoc c p)
  then have "fs_get fs p = Some Dir" using wf_fs_entry [of fs "p @ [c]"] by simp
  with snoc show ?case by (simp add: real_dirs_snoc)
qed

lemma wf_fs_iff:
  "wf_fs fs \<longleftrightarrow> [] \<notin> fst ` set fs \<and>
     (\<forall>p. p \<noteq> [] \<and> fs_get fs p \<noteq> None \<longrightarrow> fs_get fs (butlast p) = Some Dir \<and> DOTDOT \<notin> set p)"
  (is "?l \<longleftrightarrow> ?r")
proof
  assume ?l
  then show ?r using wf_fs_entry [OF \<open>?l\<close>] by (auto simp: wf_fs_def)
next
  assume r: ?r
  show ?l
    unfolding wf_fs_def
  proof
    fix p assume p: "p \<in> fst ` set fs"
    with r have "p \<noteq> []" by metis
    moreover have "fs_get fs p \<noteq> None"
      using p \<open>p \<noteq> []\<close> by (simp add: fs_get_def map_of_eq_None_iff)
    ultimately show "p \<noteq> [] \<and> fs_get fs (butlast p) = Some Dir \<and> DOTDOT \<notin> set p"
      using r by blast
  qed
qed

lemma set_fs_put: "fst ` set (fs_put p n fs) = insert p (fst ` set fs)"
  using arg_cong [OF update_keys [of p n fs], of set] by (auto simp: fs_put_def)

lemma set_fs_del: "fst ` set (fs_del p fs) = fst ` set fs - {p}"
  using arg_cong [OF delete_keys [of p fs], of set] by (simp add: fs_del_def)

lemma wf_fs_put:
  assumes "wf_fs fs" and "p \<noteq> []" and "fs_get fs (butlast p) = Some Dir" and "DOTDOT \<notin> set p"
    and "n = Dir \<or> fs_get fs p \<noteq> Some Dir"
  shows "wf_fs (fs_put p n fs)"
  unfolding wf_fs_iff
proof (intro conjI allI impI)
  show "[] \<notin> fst ` set (fs_put p n fs)"
    using assms(1,2) by (simp add: set_fs_put wf_fs_iff)
  fix q assume q: "q \<noteq> [] \<and> fs_get (fs_put p n fs) q \<noteq> None"
  have "p \<noteq> butlast p" using assms(2) by (metis append_butlast_last_id append_self_conv not_Cons_self)
  then show "fs_get (fs_put p n fs) (butlast q) = Some Dir"
    using q assms wf_fs_entry [OF assms(1), of q]
    by (cases "q = p") (auto simp: fs_get_put)
  show "DOTDOT \<notin> set q"
    using q assms(2,4) wf_fs_entry [OF assms(1), of q] by (cases "q = p") (auto simp: fs_get_put)
qed

lemma wf_fs_put_file:
  "wf_fs fs \<Longrightarrow> p \<noteq> [] \<Longrightarrow> fs_get fs (butlast p) = Some Dir \<Longrightarrow> fs_get fs p \<noteq> Some Dir \<Longrightarrow>
     DOTDOT \<notin> set p \<Longrightarrow> wf_fs (fs_put p (File b) fs)"
  by (rule wf_fs_put) auto

lemma wf_fs_del:
  assumes "wf_fs fs" and "p \<noteq> []" and "\<forall>q. q \<noteq> [] \<and> fs_get fs q \<noteq> None \<longrightarrow> butlast q \<noteq> p"
  shows "wf_fs (fs_del p fs)"
  unfolding wf_fs_iff
proof (intro conjI allI impI)
  show "[] \<notin> fst ` set (fs_del p fs)"
    using assms(1) by (simp add: set_fs_del wf_fs_iff)
  fix q assume q: "q \<noteq> [] \<and> fs_get (fs_del p fs) q \<noteq> None"
  then have e: "fs_get fs q \<noteq> None" using assms(2) by (simp add: fs_get_del split: if_splits)
  from wf_fs_entry [OF assms(1) e] q have d: "fs_get fs (butlast q) = Some Dir" "DOTDOT \<notin> set q"
    by auto
  have "butlast q \<noteq> p" using assms(3) q e by blast
  with d assms(2) show "fs_get (fs_del p fs) (butlast q) = Some Dir" by (simp add: fs_get_del)
  show "DOTDOT \<notin> set q" by (rule d(2))
qed

text \<open>A real path without \<open>..\<close> resolves to itself.\<close>

lemma walk_through:
  assumes "real_dirs fs (cur @ cs)" and "DOTDOT \<notin> set cs"
    and "fs_get fs (cur @ cs) = Some n" and "\<not> is_link_node (Some n)"
  shows "walk k mk fs cur (cs @ ds) = walk k mk fs (cur @ cs) ds"
  using assms
proof (induction cs arbitrary: cur)
  case Nil
  then show ?case by simp
next
  case (Cons c cs)
  have d: "fs_get fs cur = Some Dir"
    using Cons.prems(1) by (rule real_dirs_prefix)
  have r: "walk k mk fs (cur @ [c]) (cs @ ds) = walk k mk fs (cur @ c # cs) ds"
    using Cons.IH [of "cur @ [c]"] Cons.prems by simp
  have "\<exists>m. fs_get fs (cur @ [c]) = Some m \<and> \<not> is_link_node (Some m)"
  proof (cases cs)
    case Nil
    with Cons.prems show ?thesis by simp
  next
    case (Cons e es)
    then have "fs_get fs (cur @ [c]) = Some Dir"
      using Cons.prems(1) real_dirs_prefix [of fs "cur @ [c]" e es] by simp
    then show ?thesis by simp
  qed
  with d r Cons.prems(2) show ?case
    by (auto simp: walk.simps(2) split: node.splits)
qed

lemma walk_self:
  assumes "real_dirs fs (cur @ cs)" and "DOTDOT \<notin> set cs"
    and "fs_get fs (cur @ cs) = Some n" and "\<not> is_link_node (Some n)"
  shows "walk k mk fs cur cs = Some (cur @ cs)"
  using walk_through [OF assms, of k mk "[]"] by simp

lemma walk_linkfree:
  "walk k mk fs cur cs = Some r \<Longrightarrow> DOTDOT \<notin> set cs \<Longrightarrow>
     \<forall>i. \<not> is_link_node (fs_get fs (cur @ take (Suc i) cs)) \<Longrightarrow> r = cur @ cs"
proof (induction cs arbitrary: cur)
  case Nil
  then show ?case by simp
next
  case (Cons c cs)
  have nl: "\<not> is_link_node (fs_get fs (cur @ [c]))"
    using Cons.prems(3) by (auto dest: spec [of _ 0])
  show ?case
  proof (cases "fs_get fs (cur @ [c])")
    case None
    with Cons.prems(1,2) show ?thesis by (auto simp: walk.simps(2) split: if_splits)
  next
    case (Some n)
    with Cons.prems(1,2) nl have "walk k mk fs (cur @ [c]) cs = Some r"
      by (cases n) (auto simp: walk.simps(2) split: if_splits)
    moreover have "\<forall>i. \<not> is_link_node (fs_get fs ((cur @ [c]) @ take (Suc i) cs))"
      using Cons.prems(3) by (auto dest: spec [of _ "Suc _"])
    ultimately show ?thesis using Cons.IH [of "cur @ [c]"] Cons.prems(2) by simp
  qed
qed

lemma walk_self_new:
  assumes "real_dirs fs (cur @ cs @ [c])" and "DOTDOT \<notin> set (cs @ [c])"
    and "fs_get fs (cur @ cs @ [c]) = None"
  shows "walk k True fs cur (cs @ [c]) = Some (cur @ cs @ [c])"
  using assms
proof (induction cs arbitrary: cur)
  case Nil
  then show ?case by (auto simp: walk.simps(2) real_dirs_snoc)
next
  case (Cons e cs)
  have d: "fs_get fs cur = Some Dir" "fs_get fs (cur @ [e]) = Some Dir"
    using Cons.prems(1) real_dirs_prefix [of fs cur e "cs @ [c]"]
      real_dirs_prefix [of fs "cur @ [e]" "hd (cs @ [c])" "tl (cs @ [c])"] by simp_all
  have "walk k True fs (cur @ [e]) (cs @ [c]) = Some (cur @ e # cs @ [c])"
    using Cons.IH [of "cur @ [e]"] Cons.prems by simp
  with d Cons.prems(2) show ?case by (auto simp: walk.simps(2))
qed

lemma realpath_self:
  "real_dirs fs p \<Longrightarrow> DOTDOT \<notin> set p \<Longrightarrow> fs_get fs p = Some n \<Longrightarrow> \<not> is_link_node (Some n) \<Longrightarrow>
     realpath fs p = Some p"
  unfolding realpath_def using walk_self [of fs "[]" p] by simp

lemma creatable_self:
  assumes "real_dirs fs p" and "DOTDOT \<notin> set p" and "\<not> is_link_node (fs_get fs p)"
  shows "creatable fs p = Some p"
proof (cases "fs_get fs p")
  case None
  then obtain q c where "p = q @ [c]" by (cases p rule: rev_cases) auto
  with None assms show ?thesis
    unfolding creatable_def using walk_self_new [of fs "[]" q c] by simp
next
  case (Some n)
  with assms show ?thesis unfolding creatable_def using walk_self [of fs "[]" p n] by simp
qed

end
