(* ===== verification/Paths.thy ===== *)
theory Paths
  imports Filesystem
begin

text \<open>
  The containment boundary of \<open>src/claude_local/paths.py\<close>: the shape rule for a path the task
  declares, and the resolution of an untrusted path against the permitted root.
\<close>

section \<open>The shape rule\<close>

definition require_nested_relative_file :: "pystr \<Rightarrow> exn + path" where
  "require_nested_relative_file candidate =
     (let ps = path_parts candidate; absolute = is_absolute candidate in
      if absolute \<or> length ps < 2 \<or> candidate \<noteq> as_posix absolute ps
         \<or> (\<exists>p\<in>set ps. p = [] \<or> p = u ''.'' \<or> p = DOTDOT)
      then Inl (Value_Error (Not_Nested_Relative_File candidate))
      else Inr ps)"

lemma split_on_join:
  "ps \<noteq> [] \<Longrightarrow> \<forall>p\<in>set ps. c \<notin> set p \<Longrightarrow> split_on c (join [c] ps) = ps"
proof (induction ps rule: induct_list012)
  case (3 x y zs)
  then show ?case by (simp add: split_on_append_sep split_on_single)
qed (simp_all add: split_on_single)

lemma absolute_split: "is_absolute s \<Longrightarrow> \<exists>rest. split_on 47 s = [] # rest"
  by (auto simp: is_absolute_def startswith_iff)

lemma require_nested_split:
  "require_nested_relative_file cand = Inr ps \<longleftrightarrow>
     split_on 47 cand = ps \<and> 2 \<le> length ps
     \<and> (\<forall>p\<in>set ps. p \<noteq> [] \<and> p \<noteq> u ''.'' \<and> p \<noteq> DOTDOT)"
proof
  assume a: "require_nested_relative_file cand = Inr ps"
  then have ps: "ps = path_parts cand" and rel: "\<not> is_absolute cand" and len: "2 \<le> length ps"
    and ok: "\<forall>p\<in>set ps. p \<noteq> [] \<and> p \<noteq> u ''.'' \<and> p \<noteq> DOTDOT"
    and eq0: "cand = as_posix (is_absolute cand) ps"
    unfolding require_nested_relative_file_def Let_def guard_eq_Inr de_Morgan_disj not_less
    by blast+
  have eq: "cand = as_posix False ps" using eq0 rel by metis
  have "ps \<noteq> []" using len by auto
  moreover have "\<forall>p\<in>set ps. 47 \<notin> set p"
    unfolding ps path_parts_def set_filter by (blast dest: split_on_no_sep)
  ultimately have "split_on 47 cand = ps" using eq by (simp add: as_posix_def split_on_join)
  with len ok show "split_on 47 cand = ps \<and> 2 \<le> length ps
     \<and> (\<forall>p\<in>set ps. p \<noteq> [] \<and> p \<noteq> u ''.'' \<and> p \<noteq> DOTDOT)" by blast
next
  assume a: "split_on 47 cand = ps \<and> 2 \<le> length ps
     \<and> (\<forall>p\<in>set ps. p \<noteq> [] \<and> p \<noteq> u ''.'' \<and> p \<noteq> DOTDOT)"
  then have ok: "\<forall>p\<in>set ps. p \<noteq> [] \<and> p \<noteq> u ''.'' \<and> p \<noteq> DOTDOT" and len: "\<not> length ps < 2"
    by auto
  from a have pp: "path_parts cand = ps" by (simp add: path_parts_def filter_id_conv)
  from a have cj: "join [47] ps = cand" by (metis join_split_on)
  have rel: "\<not> is_absolute cand"
  proof
    assume "is_absolute cand"
    then obtain rest where "split_on 47 cand = [] # rest" using absolute_split by blast
    then have "[] \<in> set ps" using a by (metis list.set_intros(1))
    with ok show False by blast
  qed
  have "ps \<noteq> []" using len by (cases ps) simp_all
  with rel len ok cj show "require_nested_relative_file cand = Inr ps"
    by (simp add: require_nested_relative_file_def Let_def pp as_posix_def)
qed

lemma require_nested_parts: "require_nested_relative_file cand = Inr ps \<Longrightarrow> path_parts cand = ps"
  unfolding require_nested_split by (auto simp: path_parts_def filter_id_conv)

lemma require_nested_error:
  "require_nested_relative_file cand = Inl e \<Longrightarrow> e = Value_Error (Not_Nested_Relative_File cand)"
  by (auto simp: require_nested_relative_file_def Let_def split: if_splits)

section \<open>Containment\<close>

definition resolve_strict :: "fs \<Rightarrow> path \<Rightarrow> pystr \<Rightarrow> exn + path" where
  "resolve_strict fs p candidate =
     (case realpath fs p of
        Some r \<Rightarrow> Inr r | None \<Rightarrow> Inl (Keep_Only_Violation candidate Unresolvable_Path))"

definition resolve_within :: "fs \<Rightarrow> path \<Rightarrow> pystr \<Rightarrow> exn + path" where
  "resolve_within fs base candidate =
     (if strip candidate = [] then Inl (Keep_Only_Violation candidate Empty_Path)
      else if is_absolute candidate then Inl (Keep_Only_Violation candidate Absolute_Path)
      else let raw = base @ path_parts candidate in
        if is_symlink fs raw then Inl (Keep_Only_Violation candidate Final_Symlink)
        else bindE (resolve_strict fs base candidate) (\<lambda>real_root.
          bindE (if exists_at fs raw then resolve_strict fs raw candidate
                 else bindE (resolve_strict fs (butlast raw) candidate)
                        (\<lambda>q. Inr (q @ [last raw])))
            (\<lambda>real_target.
               if startswith real_target real_root then Inr real_target
               else Inl (Keep_Only_Violation candidate Outside_Root))))"

lemma resolve_strict_Inr:
  "resolve_strict fs p cand = Inr r \<longleftrightarrow> realpath fs p = Some r"
  by (simp add: resolve_strict_def split: option.splits)

lemma resolve_strict_Inl:
  "resolve_strict fs p cand = Inl e \<Longrightarrow> e = Keep_Only_Violation cand Unresolvable_Path"
  by (simp add: resolve_strict_def split: option.splits)

lemma resolve_within_Inl:
  "resolve_within fs base cand = Inl e \<Longrightarrow> \<exists>r. e = Keep_Only_Violation cand r"
  by (auto simp: resolve_within_def Let_def bindE_eq_Inl dest!: resolve_strict_Inl split: if_splits)

text \<open>Where an accepted path leads: below the real root, through directories only.\<close>

lemma resolve_within_Inr:
  assumes "resolve_within fs base cand = Inr t"
  obtains rr where "realpath fs base = Some rr" and "startswith t rr"
    and "realpath fs (base @ path_parts cand) = Some t \<or>
         (realpath fs (base @ path_parts cand) = None \<and>
          (\<exists>q. realpath fs (butlast (base @ path_parts cand)) = Some q
             \<and> t = q @ [last (base @ path_parts cand)]))"
    and "\<not> is_symlink fs (base @ path_parts cand)"
  using assms
  by (auto simp: resolve_within_def Let_def bindE_eq_Inr resolve_strict_Inr exists_at_def
      split: if_splits)

lemma lnode_real:
  assumes "real_dirs fs p" and "DOTDOT \<notin> set p" and "p \<noteq> []"
  shows "lnode fs p = fs_get fs p"
proof -
  from assms(3) obtain q c where p: "p = q @ [c]" by (cases p rule: rev_cases) auto
  with assms have q: "real_dirs fs q" "fs_get fs q = Some Dir" "DOTDOT \<notin> set q" "c \<noteq> DOTDOT"
    by (auto simp: real_dirs_snoc)
  then have "realpath fs q = Some q" using realpath_self [of fs q Dir] by simp
  with p q show ?thesis by (simp add: lnode_def)
qed

lemma walk_missing:
  assumes "real_dirs fs (cur @ cs)" and "DOTDOT \<notin> set cs" and "fs_get fs (cur @ cs) = None"
    and "cs \<noteq> []"
  shows "walk k False fs cur cs = None"
  using assms
proof (induction cs arbitrary: cur)
  case Nil
  then show ?case by simp
next
  case (Cons c cs)
  have d: "fs_get fs cur = Some Dir" using Cons.prems(1) by (rule real_dirs_prefix)
  show ?case
  proof (cases cs)
    case Nil
    with Cons.prems d show ?thesis by (simp add: walk.simps(2))
  next
    case (Cons e es)
    then have "fs_get fs (cur @ [c]) = Some Dir"
      using Cons.prems(1) real_dirs_prefix [of fs "cur @ [c]" e es] by simp
    moreover have "walk k False fs (cur @ [c]) cs = None"
      using Cons.IH [of "cur @ [c]"] Cons.prems \<open>cs = e # es\<close> by simp
    ultimately show ?thesis using d Cons.prems(2) by (auto simp: walk.simps(2))
  qed
qed

lemma real_dirs_append: "real_dirs fs (p @ q) \<Longrightarrow> real_dirs fs p"
proof (unfold real_dirs_def, intro allI impI)
  fix i
  assume a: "\<forall>i<length (p @ q). fs_get fs (take i (p @ q)) = Some Dir" and "i < length p"
  then show "fs_get fs (take i p) = Some Dir" by (auto dest!: spec [of _ i])
qed

lemma real_dirs_nodes:
  "real_dirs fs t \<Longrightarrow> i < length t \<Longrightarrow> fs_get fs (take i t) = Some Dir"
  by (simp add: real_dirs_def)

text \<open>The final component is never a link: an existing target is a resolved path, a new one was
  found not to be a link.\<close>

lemma realpath_parent:
  assumes "realpath fs p = None" and "realpath fs (butlast p) = Some q" and "p \<noteq> []"
    and "last p \<noteq> DOTDOT" and "fs_get fs q = Some Dir" and "\<not> is_symlink fs p"
  shows "fs_get fs (q @ [last p]) = None"
proof -
  have "\<not> is_link_node (fs_get fs (q @ [last p]))"
    using assms by (simp add: is_symlink_def lnode_def)
  moreover have "walk k False fs cur (cs @ [c]) \<noteq> None"
    if "walk k False fs cur cs = Some q" "fs_get fs q = Some Dir" "c \<noteq> DOTDOT"
      "fs_get fs (q @ [c]) = Some n" "\<not> is_link_node (Some n)" for k cur cs c n
    using that
  proof (induction k False fs cur cs rule: walk.induct)
    case (1 k fs cur)
    then show ?case by (auto simp: walk.simps(2) split: node.splits)
  next
    case (2 k fs cur d cs)
    then show ?case
      by (auto simp: walk.simps(2) split: if_splits option.splits node.splits)
  qed
  ultimately show ?thesis
    using assms unfolding realpath_def
    by (metis append_butlast_last_id not_None_eq)
qed

text \<open>One more component after a resolved prefix.\<close>

lemma walk_snoc:
  "walk k False fs cur cs = Some q \<Longrightarrow> fs_get fs q = Some Dir \<Longrightarrow>
     walk k False fs cur (cs @ [DOTDOT]) = Some (butlast q)"
proof (induction k False fs cur cs rule: walk.induct)
  case (1 k fs cur)
  then show ?case by (simp add: walk.simps(2))
next
  case (2 k fs cur d cs)
  then show ?case
    by (auto simp: walk.simps(2) split: if_splits option.splits node.splits)
qed

lemma creatable_step:
  assumes "realpath fs p = Some q" and "wf_fs fs"
  shows "creatable fs (q @ [c]) =
     (if fs_get fs q \<noteq> Some Dir then None
      else if c = DOTDOT then Some (butlast q)
      else case fs_get fs (q @ [c]) of
             Some (Link t) \<Rightarrow> walk MAX_LINKS True fs q [c] | _ \<Rightarrow> Some (q @ [c]))"
proof -
  from realpath_real [OF assms(1)] obtain n where
    q: "real_dirs fs q" "fs_get fs q = Some n" "\<not> is_link_node (Some n)" by auto
  have "DOTDOT \<notin> set q" using wf_fs_entry [OF assms(2), of q] q(2) by (cases "q = []") auto
  then have "creatable fs (q @ [c]) = walk MAX_LINKS True fs q [c]"
    using walk_through [of fs "[]" q n MAX_LINKS True "[c]"] q by (simp add: creatable_def)
  then show ?thesis by (auto simp: walk.simps(2) split: option.splits node.splits)
qed

text \<open>A write to an accepted path replaces exactly that entry.\<close>

lemma resolved_write:
  assumes "wf_fs fs" and "resolve_within fs base cand = Inr t" and "write_bytes fs t b = Inr fs'"
  shows "fs' = fs_put t (File b) fs \<and> t \<noteq> [] \<and> fs_get fs (butlast t) = Some Dir
    \<and> fs_get fs t \<noteq> Some Dir \<and> DOTDOT \<notin> set t"
proof -
  let ?raw = "base @ path_parts cand"
  from assms(3) obtain r where r: "creatable fs t = Some r" "fs_get fs r \<noteq> Some Dir"
    "fs' = fs_put r (File b) fs"
    by (auto simp: write_bytes_def split: option.splits if_splits)
  from assms(2) have t: "realpath fs ?raw = Some t \<or> (realpath fs ?raw = None \<and>
          (\<exists>q. realpath fs (butlast ?raw) = Some q \<and> t = q @ [last ?raw]))"
    and sym: "\<not> is_symlink fs ?raw"
    by (metis resolve_within_Inr)+
  from t show ?thesis
  proof (elim disjE conjE exE)
    assume "realpath fs ?raw = Some t"
    note rt = realpath_real [OF this]
    then obtain n where n: "fs_get fs t = Some n" by blast
    have ne: "t \<noteq> []" using r rt
      by (auto simp: creatable_def)
    from wf_fs_entry [OF assms(1) _ ne] n
    have w: "fs_get fs (butlast t) = Some Dir" "DOTDOT \<notin> set t" by auto
    have "creatable fs t = Some t" using rt w by (intro creatable_self) auto
    with r w ne show ?thesis by simp
  next
    fix q
    assume none: "realpath fs ?raw = None" and q: "realpath fs (butlast ?raw) = Some q"
      and tq: "t = q @ [last ?raw]"
    have ne: "?raw \<noteq> []" using none by (auto simp: realpath_def)
    from r(1) tq creatable_step [OF q assms(1), of "last ?raw"]
    have d: "fs_get fs q = Some Dir" by (auto split: if_splits)
    have nd: "last ?raw \<noteq> DOTDOT"
    proof
      assume "last ?raw = DOTDOT"
      then have "realpath fs ?raw = Some (butlast q)"
        using walk_snoc [OF q [unfolded realpath_def] d] ne unfolding realpath_def
        by (metis append_butlast_last_id)
      with none show False by simp
    qed
    have "fs_get fs t = None" using realpath_parent [OF none q ne nd d sym] tq by simp
    moreover have "creatable fs t = Some t"
      using creatable_step [OF q assms(1), of "last ?raw"] d nd tq \<open>fs_get fs t = None\<close> by simp
    moreover have "DOTDOT \<notin> set t"
      using wf_fs_entry [OF assms(1), of q] d tq nd by (cases "q = []") auto
    moreover have "t \<noteq> []" "butlast t = q" using tq by simp_all
    ultimately show ?thesis using r d by simp
  qed
qed

lemma resolve_within_target:
  assumes "wf_fs fs" and "resolve_within fs base cand = Inr t"
  shows "(\<exists>rr. realpath fs base = Some rr \<and> startswith t rr)
    \<and> (\<forall>i<length t. fs_get fs (take i t) \<noteq> None \<and> \<not> is_link_node (fs_get fs (take i t)))
    \<and> \<not> is_link_node (fs_get fs t)"
proof -
  let ?raw = "base @ path_parts cand"
  from assms(2) obtain rr where rr: "realpath fs base = Some rr" "startswith t rr"
    and t: "realpath fs ?raw = Some t \<or> (realpath fs ?raw = None \<and>
          (\<exists>q. realpath fs (butlast ?raw) = Some q \<and> t = q @ [last ?raw]))"
    and sym: "\<not> is_symlink fs ?raw"
    by (rule resolve_within_Inr)
  from t have "(\<forall>i<length t. fs_get fs (take i t) \<noteq> None \<and> \<not> is_link_node (fs_get fs (take i t)))
    \<and> \<not> is_link_node (fs_get fs t)"
  proof (elim disjE conjE exE)
    assume "realpath fs ?raw = Some t"
    from realpath_real [OF this] show ?thesis by (auto simp: real_dirs_nodes)
  next
    fix q
    assume none: "realpath fs ?raw = None" and q: "realpath fs (butlast ?raw) = Some q"
      and tq: "t = q @ [last ?raw]"
    have ne: "?raw \<noteq> []" using none by (auto simp: realpath_def)
    note rq = realpath_real [OF q]
    have "\<not> is_link_node (fs_get fs t)"
    proof (cases "fs_get fs t")
      case (Some n)
      with wf_fs_entry [OF assms(1), of t] tq
      have "fs_get fs q = Some Dir" "last ?raw \<noteq> DOTDOT" by auto
      from realpath_parent [OF none q ne this(2,1) sym] Some tq show ?thesis by simp
    qed simp
    moreover have "fs_get fs (take i t) \<noteq> None \<and> \<not> is_link_node (fs_get fs (take i t))"
      if "i < length t" for i
    proof (cases "i = length q")
      case True
      with rq tq show ?thesis by simp
    next
      case False
      with that tq have "i < length q" by simp
      with rq tq show ?thesis by (simp add: real_dirs_nodes)
    qed
    ultimately show ?thesis by blast
  qed
  with rr show ?thesis by blast
qed

text \<open>A well-shaped path through real directories is accepted and names itself.\<close>

lemma resolve_within_plain:
  assumes "require_nested_relative_file cand = Inr ps"
    and "real_dirs fs (base @ ps)" and "DOTDOT \<notin> set base"
    and "\<not> is_link_node (fs_get fs (base @ ps))"
  shows "resolve_within fs base cand = Inr (base @ ps)"
proof -
  note rn = assms(1) [unfolded require_nested_split]
  have pp: "path_parts cand = ps" by (rule require_nested_parts [OF assms(1)])
  from rn obtain q c where q: "ps = q @ [c]" by (cases ps rule: rev_cases) auto
  have dd: "DOTDOT \<notin> set (base @ ps)" using rn assms(3) by auto
  have rel: "\<not> is_absolute cand"
  proof
    assume "is_absolute cand"
    then obtain rest where "split_on 47 cand = [] # rest" using absolute_split by blast
    with rn have "[] \<in> set ps" by (metis list.set_intros(1))
    with rn show False by blast
  qed
  have "47 \<in> set cand"
  proof (rule ccontr)
    assume "47 \<notin> set cand"
    with rn have "ps = [cand]" using split_on_single by metis
    with rn show False by simp
  qed
  then have ne: "strip cand \<noteq> []" by (auto simp: strip_eq_Nil is_space_def intro!: bexI [of _ 47])
  have parent: "real_dirs fs (base @ q)" "fs_get fs (base @ q) = Some Dir"
    using assms(2) q by (simp_all add: append_assoc [symmetric] real_dirs_snoc del: append_assoc)
  have rp: "realpath fs (base @ q) = Some (base @ q)"
    using realpath_self [OF parent(1) _ parent(2)] dd q by simp
  have "fs_get fs base = Some Dir"
    using assms(2) q rn by (cases q) (auto dest: real_dirs_prefix)
  moreover have "real_dirs fs base" using assms(2) by (rule real_dirs_append)
  ultimately have rr: "realpath fs base = Some base"
    using realpath_self [of fs base Dir] assms(3) by simp
  have sym: "\<not> is_symlink fs (base @ ps)"
    using lnode_real [OF assms(2) dd] q assms(4) by (simp add: is_symlink_def)
  show ?thesis
  proof (cases "fs_get fs (base @ ps)")
    case None
    have "realpath fs (base @ ps) = None"
      unfolding realpath_def using walk_missing [of fs "[]" "base @ ps"] assms(2) dd None q by simp
    moreover have "butlast (base @ ps) = base @ q" "last (base @ ps) = c" using q by (simp_all add: butlast_append)
    ultimately show ?thesis
      using ne rel sym rr rp q
      by (simp add: resolve_within_def Let_def pp resolve_strict_def exists_at_def)
  next
    case (Some n)
    then have "realpath fs (base @ ps) = Some (base @ ps)"
      using realpath_self [OF assms(2) dd Some] assms(4) by simp
    then show ?thesis
      using ne rel sym rr
      by (simp add: resolve_within_def Let_def pp resolve_strict_def exists_at_def)
  qed
qed

section \<open>Properties\<close>

text \<open>The shape rule is exactly this: the text splits at its slashes into at least two
  components, none of them empty, a dot or a double dot; the components returned are those.\<close>

theorem require_nested_iff:
  "require_nested_relative_file cand = Inr ps \<longleftrightarrow>
     split_on 47 cand = ps \<and> 2 \<le> length ps
     \<and> (\<forall>p\<in>set ps. p \<noteq> [] \<and> p \<noteq> u ''.'' \<and> p \<noteq> DOTDOT)"
  by (rule require_nested_split)

theorem require_nested_iff_witness:
  "require_nested_relative_file (u ''src/a.py'') = Inr [u ''src'', u ''a.py'']"
proof -
  have "split_on 47 (u ''src/a.py'') = [u ''src'', u ''a.py'']" by code_simp
  then show ?thesis using require_nested_iff [of "u ''src/a.py''"] by (simp add: u_def DOTDOT_def)
qed

definition climb_fs :: fs where
  "climb_fs = [([u ''w''], Dir), ([u ''w'', u ''src''], Dir),
     ([u ''w'', u ''test_loop_oracle.py''], File [])]"



text \<open>The prior shape check is what keeps the oracle test out of reach: the climbing path
  \<open>src/../test_loop_oracle.py\<close> is contained, resolves to the oracle file itself, and only the
  shape rule refuses it.\<close>

theorem climbing_path_needs_shape_rule:
  "resolve_within climb_fs [u ''w''] (u ''src/../test_loop_oracle.py'')
     = Inr [u ''w'', u ''test_loop_oracle.py'']
   \<and> require_nested_relative_file (u ''src/../test_loop_oracle.py'')
     = Inl (Value_Error (Not_Nested_Relative_File (u ''src/../test_loop_oracle.py'')))"
  by code_simp

end
