(* ===== verification/Edits.thy ===== *)
theory Edits
  imports Paths Utf8
begin

text \<open>
  Whole-file extraction and the containment write of \<open>src/claude_local/edits.py\<close>.
\<close>

section \<open>Extraction\<close>

record whole_file_reply =
  reply_path :: pystr
  payload :: bytes

definition WHOLE_FILE_REPLY_PREFIX :: pystr where
  "WHOLE_FILE_REPLY_PREFIX = u ''FILE: ''"

definition FENCE :: pystr where "FENCE = [96, 96, 96]"

definition is_fence_opener :: "pystr \<Rightarrow> bool" where
  "is_fence_opener line =
     (let t = rstrip line in startswith t FENCE \<and> \<not> occurs_in FENCE (drop 3 t))"

definition is_blank :: "pystr \<Rightarrow> bool" where
  "is_blank l \<longleftrightarrow> strip l = []"

definition unwrap_fence :: "pystr \<Rightarrow> pystr" where
  "unwrap_fence p =
     (let lines = split_on NL p; kept = rstrip_with is_blank lines; n = length kept in
      if n < 2 \<or> \<not> is_fence_opener (hd lines) \<or> strip (last kept) \<noteq> FENCE then p
      else let body = join [NL] (butlast (tl kept)) in
           if body = [] then [] else body @ [NL])"

definition extract_file :: "pystr \<Rightarrow> whole_file_reply option" where
  "extract_file t =
     (case partition_at [NL] (dropWhile (\<lambda>c. c = NL) t) of
        (header, found, rest) \<Rightarrow>
          if \<not> found \<or> CR \<in> set header \<or> \<not> startswith header WHOLE_FILE_REPLY_PREFIX then None
          else let path = removeprefix header WHOLE_FILE_REPLY_PREFIX in
            if strip path = [] then None
            else if \<not> encodable path then None
            else (case utf8_encode (unwrap_fence (removeprefix rest [NL])) of
                    None \<Rightarrow> None
                  | Some bs \<Rightarrow> Some \<lparr>reply_path = path, payload = bs\<rparr>))"

section \<open>The write\<close>

definition apply_file :: "fs \<Rightarrow> whole_file_reply \<Rightarrow> path \<Rightarrow> pystr \<Rightarrow> exn + path \<times> fs" where
  "apply_file fs reply base permitted =
     bindE (resolve_within fs base permitted) (\<lambda>permitted_target.
       bindE (resolve_within fs base (reply_path reply)) (\<lambda>target.
         if target \<noteq> permitted_target
         then Inl (Keep_Only_Violation (reply_path reply) Not_The_Permitted_Path)
         else bindE (write_bytes fs target (payload reply)) (\<lambda>fs'. Inr (target, fs'))))"

section \<open>Lemmas on extraction\<close>

lemma partition_char_prefix: "partition_at [c] xs = (a, f, b) \<Longrightarrow> c \<notin> set a"
proof (induction xs arbitrary: a f b)
  case Nil
  then show ?case by simp
next
  case (Cons x xs)
  obtain a' f' b' where p: "partition_at [c] xs = (a', f', b')" by (metis prod_cases3)
  show ?case
  proof (cases "x = c")
    case True
    with Cons.prems show ?thesis by (simp add: startswith_def)
  next
    case False
    with Cons.prems p have "a = x # a'" by (simp add: startswith_def)
    with Cons.IH [OF p] False show ?thesis by simp
  qed
qed

lemma set_removeprefix: "set (removeprefix xs p) \<subseteq> set xs"
  by (auto simp: removeprefix_def dest: in_set_dropD)

lemma extract_file_decodes:
  assumes "extract_file t = Some r"
  shows "(\<exists>s. utf8_encode s = Some (payload r) \<and> decode_strict (payload r) = Some s)
     \<and> strip (reply_path r) \<noteq> [] \<and> encodable (reply_path r)
     \<and> NL \<notin> set (reply_path r) \<and> CR \<notin> set (reply_path r)"
proof -
  obtain header f rest where p: "partition_at [NL] (dropWhile (\<lambda>c. c = NL) t) = (header, f, rest)"
    by (metis prod_cases3)
  define path where "path = removeprefix header WHOLE_FILE_REPLY_PREFIX"
  from assms p obtain bs where "CR \<notin> set header" "strip path \<noteq> []" "encodable path"
    and bs: "utf8_encode (unwrap_fence (removeprefix rest [NL])) = Some bs"
    and r: "r = \<lparr>reply_path = path, payload = bs\<rparr>"
    by (auto simp: extract_file_def Let_def path_def [symmetric] split: if_splits option.splits)
  moreover have "NL \<notin> set path" "CR \<notin> set path"
    using partition_char_prefix [OF p] \<open>CR \<notin> set header\<close>
      set_removeprefix [of header WHOLE_FILE_REPLY_PREFIX]
    by (auto simp: path_def)
  ultimately show ?thesis using decode_strict_encode [OF bs] by auto
qed

lemma extract_framed:
  assumes "NL \<notin> set path" and "CR \<notin> set path" and "strip path \<noteq> []" and "encodable path"
    and "encodable (unwrap_fence (removeprefix rest [NL]))"
  shows "extract_file (replicate k NL @ WHOLE_FILE_REPLY_PREFIX @ path @ NL # rest) =
    Some \<lparr>reply_path = path, payload = utf8_bytes (unwrap_fence (removeprefix rest [NL]))\<rparr>"
proof -
  let ?h = "WHOLE_FILE_REPLY_PREFIX @ path"
  have pre: "NL \<notin> set WHOLE_FILE_REPLY_PREFIX" "CR \<notin> set WHOLE_FILE_REPLY_PREFIX"
    by (simp_all add: WHOLE_FILE_REPLY_PREFIX_def u_def)
  have "dropWhile (\<lambda>c. c = NL) (replicate k NL @ ?h @ NL # rest) = ?h @ NL # rest"
    by (induction k) (simp_all add: WHOLE_FILE_REPLY_PREFIX_def u_def)
  moreover have "partition_at [NL] (?h @ NL # rest) = (?h, True, rest)"
    using partition_at_char [of NL ?h rest] pre assms(1) by simp
  ultimately show ?thesis
    using assms pre by (simp add: extract_file_def utf8_encode_def)
qed

lemma unwrap_fence_plain: "\<not> startswith p FENCE \<Longrightarrow> unwrap_fence p = p"
proof -
  assume a: "\<not> startswith p FENCE"
  have "\<not> is_fence_opener (hd (split_on NL p))"
  proof
    assume o: "is_fence_opener (hd (split_on NL p))"
    let ?l = "hd (split_on NL p)"
    obtain ys where "?l = rstrip ?l @ ys"
      using rstrip_with_prefix [of ?l is_space] by (auto simp: rstrip_def)
    moreover obtain zs where "rstrip ?l = FENCE @ zs"
      using o by (auto simp: is_fence_opener_def Let_def startswith_iff)
    ultimately have "?l = FENCE @ zs @ ys" by simp
    moreover obtain rest where "p = ?l @ rest"
      using join_split_on [of NL p] join_Cons [of "tl (split_on NL p)" "[NL]" ?l]
      by (cases "tl (split_on NL p)") (metis append_Nil2 join.simps(2) list.collapse split_on_ne,
          metis list.collapse list.distinct(1) split_on_ne)
    ultimately have "p = FENCE @ zs @ ys @ rest" by simp
    with a show False by (simp add: startswith_iff)
  qed
  then show ?thesis by (simp add: unwrap_fence_def Let_def)
qed

lemma split_on_blank: "\<forall>c\<in>set s. is_space c \<Longrightarrow> l \<in> set (split_on d s) \<Longrightarrow> is_blank l"
proof (induction s arbitrary: l)
  case Nil
  then show ?case by (simp add: is_blank_def strip_eq_Nil)
next
  case (Cons c s)
  obtain y ys where y: "split_on d s = y # ys"
    using split_on_Cons_ex [of d s] by blast
  have "is_blank y" using Cons y by simp
  then have "is_blank (c # y)" "is_blank []"
    using Cons.prems(1) by (simp_all add: is_blank_def strip_eq_Nil)
  moreover have "\<forall>l\<in>set (y # ys). is_blank l" using Cons y by simp
  ultimately show ?case using Cons.prems(2) y by (auto split: if_splits)
qed

lemma rstrip_with_tail:
  "\<forall>y\<in>set ys. p y \<Longrightarrow> \<not> p x \<Longrightarrow> rstrip_with p (xs @ x # ys) = xs @ [x]"
  by (simp add: rstrip_with_def dropWhile_append3)

text \<open>A fence around the whole payload, with only white space after the closer, is removed.\<close>

lemma unwrap_fence_wrapped:
  assumes "NL \<notin> set opener" and "is_fence_opener opener"
    and "NL \<notin> set cl" and "strip cl = FENCE"
    and "blanks = [] \<or> hd blanks = NL" and "\<forall>c\<in>set blanks. is_space c"
  shows "unwrap_fence (opener @ NL # body @ NL # cl @ blanks)
     = (if body = [] then [] else body @ [NL])"
proof -
  define ls where "ls = (if blanks = [] then [] else split_on NL (tl blanks))"
  have bl: "\<forall>l\<in>set ls. is_blank l"
    using assms(6) split_on_blank [of "tl blanks" _ NL]
    by (cases blanks) (auto simp: ls_def)
  have tail: "split_on NL (cl @ blanks) = cl # ls"
  proof (cases blanks)
    case Nil
    with assms(3) show ?thesis by (simp add: ls_def split_on_single)
  next
    case (Cons b bs)
    with assms(3,5) show ?thesis by (simp add: ls_def split_on_append_sep split_on_single)
  qed
  have lines: "split_on NL (opener @ NL # body @ NL # cl @ blanks)
      = (opener # split_on NL body) @ cl # ls"
    using assms(1) tail split_on_append_sep [of NL opener "body @ NL # cl @ blanks"]
      split_on_append_sep [of NL body "cl @ blanks"]
    by (simp add: split_on_single)
  have "\<not> is_blank cl" using assms(4) by (simp add: is_blank_def FENCE_def)
  with bl have kept: "rstrip_with is_blank ((opener # split_on NL body) @ cl # ls)
      = (opener # split_on NL body) @ [cl]"
    by (intro rstrip_with_tail) auto
  obtain y ys where y: "split_on NL body = y # ys"
    using split_on_Cons_ex [of NL body] by blast
  have "join [NL] (split_on NL body) = body" by simp
  then have "butlast (tl ((opener # split_on NL body) @ [cl])) = split_on NL body"
    by simp
  moreover have "length ((opener # split_on NL body) @ [cl]) \<ge> 2" by simp
  moreover have "hd ((opener # split_on NL body) @ cl # ls) = opener"
    "last ((opener # split_on NL body) @ [cl]) = cl" by simp_all
  ultimately show ?thesis
    unfolding unwrap_fence_def Let_def lines kept
    using assms(2,4) by simp
qed

lemma opener_starts:
  assumes "is_fence_opener opener"
  shows "\<exists>ys. opener = FENCE @ ys"
proof -
  obtain ys where "opener = rstrip opener @ ys"
    using rstrip_with_prefix [of opener is_space] by (auto simp: rstrip_def)
  moreover obtain zs where "rstrip opener = FENCE @ zs"
    using assms by (auto simp: is_fence_opener_def Let_def startswith_iff)
  ultimately have "opener = FENCE @ zs @ ys" by simp
  then show ?thesis by blast
qed

text \<open>Only a framed reply is accepted.\<close>

lemma extract_file_framed:
  assumes "extract_file t = Some r"
  shows "\<exists>k rest. t = replicate k NL @ WHOLE_FILE_REPLY_PREFIX @ reply_path r @ NL # rest
     \<and> utf8_encode (unwrap_fence (removeprefix rest [NL])) = Some (payload r)"
proof -
  let ?t = "dropWhile (\<lambda>c. c = NL) t"
  obtain header f rest where p: "partition_at [NL] ?t = (header, f, rest)"
    by (metis prod_cases3)
  from assms p have f: "f" and s: "startswith header WHOLE_FILE_REPLY_PREFIX"
    and r: "utf8_encode (unwrap_fence (removeprefix rest [NL])) = Some (payload r)"
      "reply_path r = removeprefix header WHOLE_FILE_REPLY_PREFIX"
    by (auto simp: extract_file_def Let_def split: if_splits option.splits)
  have "t = takeWhile (\<lambda>c. c = NL) t @ ?t" by simp
  moreover have "takeWhile (\<lambda>c. c = NL) t = replicate (length (takeWhile (\<lambda>c. c = NL) t)) NL"
    by (rule replicate_length_same [symmetric]) (auto dest: set_takeWhileD)
  moreover have "?t = header @ NL # rest"
    using p f partition_at_found [of "[NL]" ?t header rest] by simp
  moreover have "header = WHOLE_FILE_REPLY_PREFIX @ reply_path r"
    using s r(2) by (auto simp: removeprefix_def startswith_iff)
  ultimately show ?thesis using r(1) by (metis append.assoc append_Cons)
qed

section \<open>Properties\<close>

text \<open>C29. A file survives its transport.  A reply in the form the card asks for, behind any number of
  newlines, yields the file byte for byte, be it empty, opened by newlines or without a last one, as
  long as it does not itself open with a fence; without the blank line it does so too unless its
  first character is a newline, which is then the one taken for the blank line and lost; and a reply
  wrapped in a fence, with an info string, with or without the blank line before it and with
  blank text after it, yields what is between the fences, ended by one newline.  A reply that is
  accepted at all has that frame around it.\<close>

theorem edits_reply_forms:
  assumes "NL \<notin> set path" and "CR \<notin> set path" and "strip path \<noteq> []" and "encodable path"
    and "encodable file" and "\<not> startswith file FENCE"
    and "NL \<notin> set opener" and "is_fence_opener opener" and "NL \<notin> set cl" and "strip cl = FENCE"
    and "encodable body" and "blanks = [] \<or> hd blanks = NL" and "\<forall>c\<in>set blanks. is_space c"
    and "gap = [] \<or> gap = [NL]"
  shows "extract_file (replicate k NL @ WHOLE_FILE_REPLY_PREFIX @ path @ NL # NL # file)
       = Some \<lparr>reply_path = path, payload = utf8_bytes file\<rparr>
   \<and> (\<not> startswith file [NL] \<longrightarrow>
       extract_file (replicate k NL @ WHOLE_FILE_REPLY_PREFIX @ path @ NL # file)
       = Some \<lparr>reply_path = path, payload = utf8_bytes file\<rparr>)
   \<and> extract_file (replicate k NL @ WHOLE_FILE_REPLY_PREFIX @ path @ NL # gap
         @ opener @ NL # body @ NL # cl @ blanks)
       = Some \<lparr>reply_path = path, payload = utf8_bytes (if body = [] then [] else body @ [NL])\<rparr>
   \<and> (\<forall>t r. extract_file t = Some r \<longrightarrow>
       (\<exists>j rest. t = replicate j NL @ WHOLE_FILE_REPLY_PREFIX @ reply_path r @ NL # rest))"
proof (intro conjI impI allI)
  have plain: "unwrap_fence file = file" by (rule unwrap_fence_plain [OF assms(6)])
  have "removeprefix (NL # file) [NL] = file" by (simp add: removeprefix_def startswith_def)
  then show "extract_file (replicate k NL @ WHOLE_FILE_REPLY_PREFIX @ path @ NL # NL # file)
       = Some \<lparr>reply_path = path, payload = utf8_bytes file\<rparr>"
    using extract_framed [OF assms(1-4), of "NL # file" k] assms(5) plain by simp
  show "extract_file (replicate k NL @ WHOLE_FILE_REPLY_PREFIX @ path @ NL # file)
       = Some \<lparr>reply_path = path, payload = utf8_bytes file\<rparr>" if "\<not> startswith file [NL]"
  proof -
    have "removeprefix file [NL] = file" using that by (simp add: removeprefix_def)
    then show ?thesis using extract_framed [OF assms(1-4), of "file" k] assms(5) plain by simp
  qed
  let ?rest = "opener @ NL # body @ NL # cl @ blanks"
  obtain ys where "opener = FENCE @ ys" using opener_starts [OF assms(8)] by blast
  then have g: "removeprefix (gap @ ?rest) [NL] = ?rest"
    using assms(14) by (auto simp: removeprefix_def startswith_def FENCE_def)
  have "unwrap_fence ?rest = (if body = [] then [] else body @ [NL])"
    by (rule unwrap_fence_wrapped [OF assms(7,8,9,10,12,13)])
  moreover have "encodable (if body = [] then [] else body @ [NL])"
    using assms(11) by (simp add: encodable_def is_scalar_def)
  ultimately show "extract_file (replicate k NL @ WHOLE_FILE_REPLY_PREFIX @ path @ NL # gap
         @ opener @ NL # body @ NL # cl @ blanks)
       = Some \<lparr>reply_path = path, payload = utf8_bytes (if body = [] then [] else body @ [NL])\<rparr>"
    using extract_framed [OF assms(1-4), of "gap @ ?rest" k] g by simp
  show "\<exists>j rest. t = replicate j NL @ WHOLE_FILE_REPLY_PREFIX @ reply_path r @ NL # rest"
    if "extract_file t = Some r" for t r
    using extract_file_framed [OF that] by blast
qed

theorem edits_reply_forms_witness:
  "extract_file (NL # WHOLE_FILE_REPLY_PREFIX @ u ''src/a.py'' @ NL # NL # NL # u ''x = 1'')
     = Some \<lparr>reply_path = u ''src/a.py'', payload = utf8_bytes (NL # u ''x = 1'')\<rparr>
   \<and> extract_file (NL # WHOLE_FILE_REPLY_PREFIX @ u ''src/a.py'' @ NL # u ''```python'' @ NL #
      (u ''x = 1'' @ [NL, NL] @ u ''```'') @ NL # FENCE)
     = Some \<lparr>reply_path = u ''src/a.py'', payload = utf8_bytes (u ''x = 1'' @ [NL, NL] @ u ''```'' @ [NL])\<rparr>"
proof -
  have c: "strip (u ''src/a.py'') \<noteq> []" "is_fence_opener (u ''```python'')" "strip FENCE = FENCE"
    "encodable (u ''src/a.py'')" "encodable (NL # u ''x = 1'')" "encodable (u ''x = 1'' @ [NL, NL] @ u ''```'')"
    by code_simp+
  have "NL \<notin> set (u ''src/a.py'')" "CR \<notin> set (u ''src/a.py'')" "NL \<notin> set (u ''```python'')" "NL \<notin> set FENCE"
    "\<not> startswith (NL # u ''x = 1'') FENCE" by (simp_all add: u_def startswith_def FENCE_def)
  from edits_reply_forms [OF this(1,2) c(1,4,5) this(5,3) c(2) this(4) c(3,6), of "[]" "[]" 1] show ?thesis
    by (simp add: u_def)
qed

lemma apply_file_effect:
  assumes "wf_fs fs" and "apply_file fs reply base permitted = Inr (t, fs')"
  shows "resolve_within fs base permitted = Inr t \<and> t \<noteq> [] \<and> fs_get fs (butlast t) = Some Dir
    \<and> fs_get fs t \<noteq> Some Dir \<and> fs' = fs_put t (File (payload reply)) fs \<and> wf_fs fs'"
proof -
  from assms(2) have r: "resolve_within fs base permitted = Inr t"
    and w: "write_bytes fs t (payload reply) = Inr fs'"
    by (auto simp: apply_file_def bindE_eq_Inr split: if_splits)
  from resolved_write [OF assms(1) r w] have
    t: "fs' = fs_put t (File (payload reply)) fs" "t \<noteq> []" "fs_get fs (butlast t) = Some Dir"
      "fs_get fs t \<noteq> Some Dir" "DOTDOT \<notin> set t" by auto
  then show ?thesis using r wf_fs_put_file [OF assms(1) t(2-5)] by simp
qed

text \<open>The keep-only boundary: an applied reply replaces the one permitted file and nothing
  else, an extracted reply that targets anything else leaves the violation as its only effect,
  and the bytes written are the reply's.\<close>

theorem apply_file_keeps_only:
  assumes "wf_fs fs" and "apply_file fs reply base permitted = Inr (t, fs')"
  shows "resolve_within fs base permitted = Inr t
    \<and> (\<forall>q. fs_get fs' q = (if q = t then Some (File (payload reply)) else fs_get fs q))
    \<and> wf_fs fs'"
  using apply_file_effect [OF assms] by (auto simp: fs_get_put)

definition edit_fs :: fs where
  "edit_fs = [([u ''w''], Dir), ([u ''w'', u ''src''], Dir),
     ([u ''w'', u ''test_loop_oracle.py''], File [1])]"

theorem apply_file_keeps_only_witness:
  "\<exists>fs'. apply_file edit_fs \<lparr>reply_path = u ''./src//a.py'', payload = [7]\<rparr> [u ''w''] (u ''src/a.py'')
       = Inr ([u ''w'', u ''src'', u ''a.py''], fs')
     \<and> fs_get fs' [u ''w'', u ''test_loop_oracle.py''] = Some (File [1])"
proof -
  have w: "wf_fs edit_fs" by (simp add: wf_fs_def edit_fs_def fs_get_def DOTDOT_def u_def)
  define fs' where "fs' = edit_fs @ [([u ''w'', u ''src'', u ''a.py''], File [7])]"
  have a: "apply_file edit_fs \<lparr>reply_path = u ''./src//a.py'', payload = [7]\<rparr> [u ''w''] (u ''src/a.py'')
       = Inr ([u ''w'', u ''src'', u ''a.py''], fs')" unfolding fs'_def by code_simp
  have "fs_get edit_fs [u ''w'', u ''test_loop_oracle.py''] = Some (File [1])" by code_simp
  with apply_file_keeps_only [OF w a] a show ?thesis by (auto simp: u_def)
qed

end
