(* ===== verification/Sandbox.thy ===== *)
theory Sandbox
  imports Filesystem
begin

text \<open>
  The confinement of \<open>src/claude_local/sandbox.py\<close> as far as it is the package's own code: the
  profile's text, the environment, the bounded stream tails and how a child's end is read.  The
  child itself (the kernel sandbox running pytest) is a parameter.
\<close>

section \<open>How a child ended\<close>

text \<open>What the operating system reports: the wait timed out, or the process left with a return
  code, negative for a signal.  With it the raw bytes of both streams.\<close>

datatype child_end = Wait_Timed_Out | Returned int

record child =
  c_end :: child_end
  c_stdout :: bytes
  c_stderr :: bytes

text \<open>\<open>SandboxKilled\<close> with its message and tails, or the pair of tails.\<close>

datatype spawn_result = Spawned bytes bytes | Killed pystr bytes bytes | Spawn_Failed exn

definition CAPTURE_TAIL_BYTES :: nat where "CAPTURE_TAIL_BYTES = 65536"
definition SIGXCPU :: nat where "SIGXCPU = 24"

definition read_tail :: "bytes \<Rightarrow> bytes" where
  "read_tail s = drop (length s - CAPTURE_TAIL_BYTES) s"

definition signal_death :: "(nat \<Rightarrow> pystr option) \<Rightarrow> nat \<Rightarrow> pystr" where
  "signal_death signal_name signum =
     (let name = (case signal_name signum of Some n \<Rightarrow> n | None \<Rightarrow> u ''signal '' @ str_nat signum) in
      if signum = SIGXCPU
      then u ''oracle was killed by '' @ name @ u '': it exceeded the 60s CPU-time cap''
      else u ''oracle was killed by '' @ name @ u '' before producing a verdict'')"

text \<open>\<open>fmt_g\<close> renders the deadline with Python's \<open>:g\<close> format.\<close>

definition sandboxed_spawn ::
  "bool \<Rightarrow> (nat \<Rightarrow> pystr option) \<Rightarrow> (pyfloat \<Rightarrow> pystr) \<Rightarrow> pyfloat \<Rightarrow> child \<Rightarrow> spawn_result" where
  "sandboxed_spawn available signal_name fmt_g timeout_s ch =
     (if \<not> available then Spawn_Failed Sandbox_Unavailable
      else let out = read_tail (c_stdout ch); err = read_tail (c_stderr ch) in
        case c_end ch of
          Wait_Timed_Out \<Rightarrow>
            Killed (u ''oracle exceeded its '' @ fmt_g timeout_s @ u ''s deadline'') out err
        | Returned rc \<Rightarrow>
            if rc < 0 then Killed (signal_death signal_name (nat (- rc))) out err
            else Spawned out err)"

section \<open>The profile's text\<close>

text \<open>\<open>str.replace\<close> of one character, applied twice: backslashes first, then quotes.\<close>

definition replace_char :: "nat \<Rightarrow> pystr \<Rightarrow> pystr \<Rightarrow> pystr" where
  "replace_char c r s = concat (map (\<lambda>x. if x = c then r else [x]) s)"

definition sbpl_quote :: "pystr \<Rightarrow> pystr" where
  "sbpl_quote p = replace_char 34 [92, 34] (replace_char 92 [92, 92] p)"

text \<open>How an SBPL string literal reads: up to the first quote that no backslash escapes.\<close>

fun sbpl_string :: "pystr \<Rightarrow> (pystr \<times> pystr) option" where
  "sbpl_string [] = None"
| "sbpl_string (c # cs) =
     (if c = 34 then Some ([], cs)
      else if c = 92 then (case cs of
          [] \<Rightarrow> None
        | e # r \<Rightarrow> map_option (\<lambda>(s, z). (e # s, z)) (sbpl_string r))
      else map_option (\<lambda>(s, z). (c # s, z)) (sbpl_string cs))"

definition sandbox_path :: "pystr \<Rightarrow> pystr" where
  "sandbox_path sys_prefix =
     join (u '':'') [sys_prefix @ u ''/bin'', u ''/opt/homebrew/bin'', u ''/usr/local/bin'',
                     u ''/usr/bin'', u ''/bin'']"

definition sandbox_env ::
  "pystr \<Rightarrow> (pystr \<rightharpoonup> pystr) \<Rightarrow> pystr \<Rightarrow> (pystr \<times> pystr) list" where
  "sandbox_env sys_prefix environ box =
     [(u ''PATH'', sandbox_path sys_prefix), (u ''HOME'', box),
      (u ''LANG'', case environ (u ''LANG'') of Some l \<Rightarrow> l | None \<Rightarrow> u ''en_US.UTF-8''),
      (u ''TMPDIR'', box), (u ''PYTHONDONTWRITEBYTECODE'', u ''1''),
      (u ''PYTHONHASHSEED'', u ''0'')]"

lemma read_tail_bound: "length (read_tail s) \<le> CAPTURE_TAIL_BYTES \<and> (\<exists>p. s = p @ read_tail s)"
  by (auto simp: read_tail_def) (metis append_take_drop_id)

lemma sbpl_quote_Cons:
  "sbpl_quote (c # p) = (if c = 34 \<or> c = 92 then [92, c] else [c]) @ sbpl_quote p"
  by (simp add: sbpl_quote_def replace_char_def)

section \<open>Properties\<close>

text \<open>No path can break out of the profile: read as an SBPL string literal, the quoted path
  followed by the closing quote gives the path back and leaves exactly the rest of the profile,
  whatever quotes and backslashes the path contains.\<close>

theorem sbpl_quote_roundtrip: "sbpl_string (sbpl_quote p @ 34 # rest) = Some (p, rest)"
proof (induction p)
  case Nil
  show ?case by (simp add: sbpl_quote_def replace_char_def)
next
  case (Cons c p)
  then show ?case by (simp add: sbpl_quote_Cons)
qed

end
