(* ===== verification/Runner.thy ===== *)
theory Runner
  imports Sandbox
begin

text \<open>
  The oracle of \<open>src/claude_local/runner.py\<close>: the JUnit report's counts against the pinned number
  of tests, and \<open>TestRunner.run\<close> over its injected \<open>spawn\<close>.  \<open>ET.fromstring\<close> is a parameter that
  yields the element tree, or nothing where it raises \<open>ParseError\<close>.
\<close>

section \<open>Scores\<close>

record test_score =
  passed :: int
  failed :: int
  errors :: int
  collected :: int
  skipped :: int
  expected :: int

definition is_valid :: "test_score \<Rightarrow> bool" where
  "is_valid s \<longleftrightarrow> collected s = expected s"

definition is_green :: "test_score \<Rightarrow> bool" where
  "is_green s \<longleftrightarrow> is_valid s \<and> failed s = 0 \<and> errors s = 0"

record oracle_run =
  run_score :: test_score
  run_output :: pystr

datatype xml = Elem (tag: pystr) (attrs: "(pystr \<times> pystr) list") (kids: "xml list")

text \<open>\<open>root.iter(tag)\<close>: the element and its descendants, in document order.\<close>

fun xml_iter :: "pystr \<Rightarrow> xml \<Rightarrow> xml list" where
  "xml_iter t (Elem n as ks) =
     (if n = t then [Elem n as ks] else []) @ concat (map (xml_iter t) ks)"

text \<open>\<open>int(text)\<close>: surrounding white space, a sign, ASCII digits with single underscores between
  them; more digits than the conversion limit raise too.\<close>

fun digit_groups :: "pystr \<Rightarrow> bool" where
  "digit_groups [] = False"
| "digit_groups [d] = is_digit d"
| "digit_groups (d # e # ds) =
     (is_digit d \<and> (if e = 95 then digit_groups ds else digit_groups (e # ds)))"

definition py_int :: "pystr \<Rightarrow> exn + int" where
  "py_int t =
     (let s = strip t; neg = startswith s (u ''-'');
          body = (if neg \<or> startswith s (u ''+'') then drop 1 s else s);
          ds = filter (\<lambda>c. c \<noteq> 95) body
      in if \<not> digit_groups body then Inl (Value_Error (Bad_Int_Literal t))
         else if int_max_str_digits < length ds then Inl Int_Digits_Error
         else Inr (if neg then - int (dec_value ds) else int (dec_value ds)))"

definition int_attr :: "xml \<Rightarrow> string \<Rightarrow> exn + int" where
  "int_attr e k = py_int (case map_of (attrs e) (u k) of None \<Rightarrow> u ''0'' | Some v \<Rightarrow> v)"

text \<open>The loop over the suites: tests, failures, errors and skipped, summed.\<close>

fun sum_suites :: "xml list \<Rightarrow> int \<times> int \<times> int \<times> int \<Rightarrow> exn + int \<times> int \<times> int \<times> int" where
  "sum_suites [] acc = Inr acc"
| "sum_suites (e # es) (t, f, r, s) =
     bindE (int_attr e ''tests'') (\<lambda>dt.
     bindE (int_attr e ''failures'') (\<lambda>df.
     bindE (int_attr e ''errors'') (\<lambda>dr.
     bindE (int_attr e ''skipped'') (\<lambda>ds.
       sum_suites es (t + dt, f + df, r + dr, s + ds)))))"

datatype score_error = Parse_Error | Score_Raised exn

definition score_junit ::
  "(pystr \<Rightarrow> xml option) \<Rightarrow> pystr \<Rightarrow> int \<Rightarrow> score_error + test_score" where
  "score_junit parse xml_text n =
     (case parse xml_text of
        None \<Rightarrow> Inl Parse_Error
      | Some doc \<Rightarrow>
          (case sum_suites (xml_iter (u ''testsuite'') doc) (0, 0, 0, 0) of
             Inl e \<Rightarrow> Inl (Score_Raised e)
           | Inr (t, f, r, s) \<Rightarrow>
               Inr \<lparr>passed = t - f - r - s, failed = f, errors = r, collected = t - s,
                    skipped = s, expected = n\<rparr>))"

section \<open>TestRunner.run\<close>

definition decode_output :: "bytes \<Rightarrow> bytes \<Rightarrow> pystr" where
  "decode_output out err = decode_replace out @ decode_replace err"

definition broken_oracle :: "pystr \<Rightarrow> pystr \<Rightarrow> pystr" where
  "broken_oracle reason diagnostics =
     (if strip diagnostics = [] then reason @ u '', and wrote nothing to stdout or stderr''
      else reason @ u ''. Its output was:'' @ [NL] @ diagnostics)"

definition oracle_argument :: "fs \<Rightarrow> path \<Rightarrow> path \<Rightarrow> pystr" where
  "oracle_argument fs test_path worktree =
     (let rt = resolve fs test_path; rw = resolve fs worktree in
      if \<not> startswith rt rw then str_path test_path else as_posix False (drop (length rw) rt))"

definition oracle_command :: "pystr \<Rightarrow> pystr \<Rightarrow> pystr \<Rightarrow> pystr list" where
  "oracle_command executable argument report =
     [executable, u ''-m'', u ''pytest'', argument, u ''--junit-xml='' @ report, u ''-o'',
      u ''junit_family=xunit2'', u ''-p'', u ''no:cacheprovider'', u ''--no-header'']"

text \<open>What \<open>spawn\<close> leaves behind: its result and the report file in the disposable directory.\<close>

type_synonym spawn = "pystr list \<Rightarrow> path \<Rightarrow> path \<Rightarrow> spawn_result \<times> bytes option"

definition zero_score :: "int \<Rightarrow> test_score" where
  "zero_score n = \<lparr>passed = 0, failed = 0, errors = 0, collected = 0, skipped = 0, expected = n\<rparr>"

definition endswith_nl :: "pystr \<Rightarrow> bool" where
  "endswith_nl s \<longleftrightarrow> s \<noteq> [] \<and> last s = NL"

definition killed_run :: "pystr \<Rightarrow> bytes \<Rightarrow> bytes \<Rightarrow> int \<Rightarrow> oracle_run" where
  "killed_run message out err n =
     (let diagnostics = decode_output out err;
          separator = (if diagnostics \<noteq> [] \<and> \<not> endswith_nl diagnostics then [NL] else [])
      in \<lparr>run_score = zero_score n, run_output = diagnostics @ separator @ message\<rparr>)"

record oracle_env =
  o_executable :: pystr
  o_spawn :: spawn
  o_parse :: "pystr \<Rightarrow> xml option"
  o_tmp :: path

text \<open>From the report to the verdict, after the child has ended.\<close>

definition judge_report ::
  "(pystr \<Rightarrow> xml option) \<Rightarrow> int \<Rightarrow> pystr \<Rightarrow> bytes option \<Rightarrow> exn + oracle_run" where
  "judge_report parse n diagnostics written =
     (case written of
        None \<Rightarrow> Inl (Oracle_Error
                  (broken_oracle (u ''pytest produced no JUnit report'') diagnostics))
      | Some bs \<Rightarrow>
          bindE (decode_text bs) (\<lambda>xml_text.
            (case score_junit parse xml_text n of
               Inl Parse_Error \<Rightarrow> Inl (Oracle_Error
                 (broken_oracle (u ''pytest wrote a malformed JUnit report'') diagnostics))
             | Inl (Score_Raised e) \<Rightarrow> Inl e
             | Inr score \<Rightarrow> Inr \<lparr>run_score = score, run_output = diagnostics\<rparr>)))"

definition run_oracle :: "oracle_env \<Rightarrow> fs \<Rightarrow> path \<Rightarrow> path \<Rightarrow> int \<Rightarrow> exn + oracle_run" where
  "run_oracle env fs test_path worktree n =
     (let report = o_tmp env @ [u ''oracle.xml''];
          cmd = oracle_command (o_executable env) (oracle_argument fs test_path worktree)
                  (str_path report)
      in case o_spawn env cmd worktree (o_tmp env) of
           (Spawn_Failed e, _) \<Rightarrow> Inl e
         | (Killed message out err, _) \<Rightarrow> Inr (killed_run message out err n)
         | (Spawned out err, written) \<Rightarrow>
             judge_report (o_parse env) n (decode_output out err) written)"

section \<open>The contract the loop relies on\<close>

text \<open>An oracle judges against the number it was given, and calls a run green only when exactly
  that many tests passed.\<close>

locale verdict_source =
  fixes judge :: "'e \<Rightarrow> fs \<Rightarrow> path \<Rightarrow> path \<Rightarrow> int \<Rightarrow> exn + oracle_run"
  assumes judged_against: "judge e fs t w n = Inr r \<Longrightarrow> expected (run_score r) = n"
    and counts_add: "judge e fs t w n = Inr r \<Longrightarrow>
      passed (run_score r) = collected (run_score r) - failed (run_score r) - errors (run_score r)"
begin

lemma green_passes_all:
  "judge e fs t w n = Inr r \<Longrightarrow>
     is_green (run_score r) \<longleftrightarrow> passed (run_score r) = n \<and> failed (run_score r) = 0
       \<and> errors (run_score r) = 0"
  using counts_add [of e fs t w n r] judged_against [of e fs t w n r]
  by (auto simp: is_green_def is_valid_def)

end

lemma score_junit_counts:
  "score_junit parse t n = Inr s \<Longrightarrow>
     expected s = n \<and> passed s = collected s - failed s - errors s"
  by (auto simp: score_junit_def split: option.splits sum.splits)

lemma judge_report_score:
  assumes "judge_report parse n d written = Inr r"
  obtains bs t s where "written = Some bs" and "decode_text bs = Inr t"
    and "score_junit parse t n = Inr s" and "r = \<lparr>run_score = s, run_output = d\<rparr>"
proof -
  from assms obtain bs t where w: "written = Some bs" "decode_text bs = Inr t"
    by (auto simp: judge_report_def bindE_eq_Inr split: option.splits)
  show thesis
  proof (cases "score_junit parse t n")
    case (Inl e)
    with assms w show thesis by (cases e) (simp_all add: judge_report_def)
  next
    case (Inr s)
    with assms w that show thesis by (simp add: judge_report_def)
  qed
qed

lemma judge_report_error:
  assumes "judge_report parse n d None = Inl e"
  shows "e = Oracle_Error (broken_oracle (u ''pytest produced no JUnit report'') d)"
  using assms by (simp add: judge_report_def)

lemma run_oracle_score:
  assumes "run_oracle env fs t w n = Inr r"
  shows "expected (run_score r) = n
    \<and> passed (run_score r) = collected (run_score r) - failed (run_score r) - errors (run_score r)"
proof -
  let ?sp = "o_spawn env (oracle_command (o_executable env) (oracle_argument fs t w)
    (str_path (o_tmp env @ [u ''oracle.xml'']))) w (o_tmp env)"
  obtain res written where sp: "?sp = (res, written)" by (cases ?sp)
  show ?thesis
  proof (cases res)
    case (Spawned out err)
    with assms sp have "judge_report (o_parse env) n (decode_output out err) written = Inr r"
      by (simp add: run_oracle_def Let_def)
    then show ?thesis by (rule judge_report_score) (auto dest: score_junit_counts)
  qed (use assms sp in \<open>auto simp: run_oracle_def Let_def killed_run_def zero_score_def\<close>)
qed

interpretation junit_oracle: verdict_source run_oracle
  by unfold_locales (auto dest: run_oracle_score)

section \<open>Properties\<close>


definition sample_report :: xml where
  "sample_report = Elem (u ''testsuites'') []
     [Elem (u ''testsuite'') [(u ''tests'', u ''3''), (u ''failures'', u ''0''),
        (u ''errors'', u ''0''), (u ''skipped'', u ''1'')] []]"

definition sample_oracle :: oracle_env where
  "sample_oracle = \<lparr>o_executable = u ''python'',
     o_spawn = (\<lambda>cmd cwd box. (Spawned (ascii ''2 passed'') [], Some (ascii ''<x/>''))),
     o_parse = (\<lambda>_. Some sample_report), o_tmp = [u ''tmp'']\<rparr>"


text \<open>A child the sandbox killed is a repairable attempt, not a harness fault: the run returns
  an invalid, non-green zero verdict whose output ends with the cause of death; a child that left
  no report is never a verdict but the oracle's error.\<close>

theorem oracle_child_deaths:
  assumes "0 < n"
    and "o_spawn env (oracle_command (o_executable env) (oracle_argument fs t w)
           (str_path (o_tmp env @ [u ''oracle.xml'']))) w (o_tmp env) = (result, written)"
  shows "(result = Killed message out err \<longrightarrow>
            (\<exists>r before. run_oracle env fs t w n = Inr r \<and> \<not> is_valid (run_score r)
               \<and> \<not> is_green (run_score r) \<and> run_output r = before @ message))
    \<and> (result = Spawned out err \<and> written = None \<longrightarrow>
            (\<exists>m. run_oracle env fs t w n = Inl (Oracle_Error m)))"
  using assms
  by (auto simp: run_oracle_def Let_def killed_run_def zero_score_def is_green_def is_valid_def
      judge_report_def)

theorem oracle_child_deaths_witness:
  "\<exists>r. run_oracle (sample_oracle\<lparr>o_spawn := (\<lambda>_ _ _. (Killed (u ''dead'') [] [], None))\<rparr>)
      [] [] [] 3 = Inr r \<and> \<not> is_green (run_score r)"
  using oracle_child_deaths [of 3
      "sample_oracle\<lparr>o_spawn := (\<lambda>_ _ _. (Killed (u ''dead'') [] [], None))\<rparr>" "[]" "[]" "[]"
      "Killed (u ''dead'') [] []" None "u ''dead''" "[]" "[]"]
  by auto

text \<open>A report whose count is not an integer literal ends the run with the \<open>ValueError\<close> of
  \<open>int\<close>, although a broken report is promised to surface as the oracle's own error.\<close>

theorem bad_count_is_not_an_oracle_error:
  "run_oracle (sample_oracle\<lparr>o_parse := (\<lambda>_. Some (Elem (u ''testsuite'')
       [(u ''tests'', u ''three'')] []))\<rparr>) [] [] [] 3
     = Inl (Value_Error (Bad_Int_Literal (u ''three'')))"
  by code_simp

end
