(* ===== verification/Snapshot.thy ===== *)
theory Snapshot
  imports Paths Runner
begin

text \<open>
  The best-snapshot store of \<open>src/claude_local/snapshot.py\<close>: ranking of the captured attempts,
  capture of the permitted subtree, and its restoration to exactly the best capture.
\<close>

section \<open>Ranking\<close>

record snapshot_entry =
  entry_index :: int
  entry_score :: test_score
  entry_files :: "(path \<times> bytes) list"

text \<open>The tuple \<open>(-passed, errors, failed, index)\<close> under Python's lexicographic order.\<close>

datatype rank = Rank int int int int

instantiation rank :: linorder
begin

fun less_rank :: "rank \<Rightarrow> rank \<Rightarrow> bool" where
  "less_rank (Rank a b c d) (Rank a' b' c' d') \<longleftrightarrow>
     a < a' \<or> (a = a' \<and> (b < b' \<or> (b = b' \<and> (c < c' \<or> (c = c' \<and> d < d')))))"

definition less_eq_rank :: "rank \<Rightarrow> rank \<Rightarrow> bool" where
  "less_eq_rank r s \<longleftrightarrow> r < s \<or> r = s"

instance
proof
  fix x y z :: rank
  show "(x < y) = (x \<le> y \<and> \<not> y \<le> x)"
    by (cases x; cases y) (auto simp: less_eq_rank_def)
  show "x \<le> x" by (simp add: less_eq_rank_def)
  show "x \<le> y \<Longrightarrow> y \<le> z \<Longrightarrow> x \<le> z"
    by (cases x; cases y; cases z) (auto simp: less_eq_rank_def)
  show "x \<le> y \<Longrightarrow> y \<le> x \<Longrightarrow> x = y"
    by (cases x; cases y) (auto simp: less_eq_rank_def)
  show "x \<le> y \<or> y \<le> x"
    by (cases x; cases y) (auto simp: less_eq_rank_def)
qed

end

definition rank_key :: "snapshot_entry \<Rightarrow> rank" where
  "rank_key e = Rank (- passed (entry_score e)) (errors (entry_score e)) (failed (entry_score e))
     (entry_index e)"

record store =
  subtree :: path
  entries :: "snapshot_entry list"

definition best :: "store \<Rightarrow> snapshot_entry option" where
  "best st = min_by rank_key (entries st)"

section \<open>Capture\<close>

definition mk_store :: "fs \<Rightarrow> path \<Rightarrow> pystr \<Rightarrow> exn + store" where
  "mk_store fs base permitted =
     bindE (resolve_within fs base permitted) (\<lambda>t. Inr \<lparr>subtree = t, entries = []\<rparr>)"

definition capture :: "fs \<Rightarrow> path \<Rightarrow> exn + (path \<times> bytes) list" where
  "capture fs d =
     mapE (\<lambda>p. bindE (read_bytes fs p) (\<lambda>b. Inr (drop (length d) p, b)))
       (filter (is_file fs) (rglob fs d))"

definition record_attempt :: "fs \<Rightarrow> int \<Rightarrow> test_score \<Rightarrow> store \<Rightarrow> exn + store" where
  "record_attempt fs index score st =
     bindE (capture fs (subtree st)) (\<lambda>files.
       Inr (st\<lparr>entries := entries st @
              [\<lparr>entry_index = index, entry_score = score, entry_files = files\<rparr>]\<rparr>))"

section \<open>Restoration\<close>

definition write_wanted :: "path \<Rightarrow> path \<times> bytes \<Rightarrow> fs \<Rightarrow> exn + fs" where
  "write_wanted d f fs =
     (let target = d @ fst f in
      bindE (mkdirs fs (butlast target)) (\<lambda>fs'. write_bytes fs' target (snd f)))"

definition remove_extra :: "path set \<Rightarrow> path \<Rightarrow> fs \<Rightarrow> exn + fs" where
  "remove_extra wanted p fs = (if is_file fs p \<and> p \<notin> wanted then unlink fs p else Inr fs)"

definition prune_dir :: "path \<Rightarrow> fs \<Rightarrow> exn + fs" where
  "prune_dir p fs =
     (case realpath fs p of
        Some r \<Rightarrow> if fs_get fs r = Some Dir \<and> children fs r = [] then rmdir fs p else Inr fs
      | None \<Rightarrow> Inr fs)"

definition prune_empty_dirs :: "path \<Rightarrow> fs \<Rightarrow> exn + fs" where
  "prune_empty_dirs d fs =
     foldE prune_dir (sort_key (\<lambda>p. - int (length p)) (rglob fs d)) fs"

definition restore_best :: "store \<Rightarrow> fs \<Rightarrow> exn + fs" where
  "restore_best st fs =
     (case best st of
        None \<Rightarrow> Inr fs
      | Some e \<Rightarrow>
          (let d = subtree st; wanted = (\<lambda>f. d @ fst f) ` set (entry_files e) in
           bindE (foldE (write_wanted d) (entry_files e) fs) (\<lambda>fs1.
             bindE (foldE (remove_extra wanted) (rglob fs1 d) fs1) (\<lambda>fs2.
               prune_empty_dirs d fs2))))"

section \<open>The ranking contract\<close>

text \<open>A keeper of the best entry: adding one replaces the best exactly when it ranks strictly
  before it.\<close>

locale best_keeper =
  fixes top :: "'s \<Rightarrow> 'e option" and add :: "'e \<Rightarrow> 's \<Rightarrow> 's" and key :: "'e \<Rightarrow> 'k::linorder"
  assumes add_top: "top (add e s) = (case top s of None \<Rightarrow> Some e
      | Some b \<Rightarrow> if key e < key b then Some e else Some b)"
begin

lemma add_keeps: "top s = Some b \<Longrightarrow> \<exists>b'. top (add e s) = Some b' \<and> key b' \<le> key b"
  by (auto simp: add_top)

lemma add_le: "\<exists>b. top (add e s) = Some b \<and> key b \<le> key e"
  by (auto simp: add_top split: option.splits)

lemma fold_top_le:
  "top (fold add es s) = Some b \<Longrightarrow> (\<forall>e\<in>set es. key b \<le> key e)
     \<and> (\<forall>b0. top s = Some b0 \<longrightarrow> key b \<le> key b0)"
proof (induction es arbitrary: s)
  case Nil
  then show ?case by simp
next
  case (Cons e es)
  then have t: "top (fold add es (add e s)) = Some b" by simp
  note ih = Cons.IH [OF t]
  obtain b1 where b1: "top (add e s) = Some b1" "key b1 \<le> key e" using add_le by blast
  have "key b \<le> key b1" using ih b1(1) by blast
  moreover have "key b1 \<le> key b0" if "top s = Some b0" for b0
    using add_keeps [OF that, of e] b1(1) by auto
  ultimately show ?case using ih b1(2) by (auto intro: order_trans)
qed

end

definition add_entry :: "snapshot_entry \<Rightarrow> store \<Rightarrow> store" where
  "add_entry e st = st\<lparr>entries := entries st @ [e]\<rparr>"

interpretation snapshots: best_keeper best add_entry rank_key
  by unfold_locales (simp add: best_def add_entry_def min_by_snoc)

lemma record_attempt_adds:
  "record_attempt fs i sc st = Inr st' \<Longrightarrow>
     \<exists>files. capture fs (subtree st) = Inr files
       \<and> st' = add_entry \<lparr>entry_index = i, entry_score = sc, entry_files = files\<rparr> st"
  by (auto simp: record_attempt_def bindE_eq_Inr add_entry_def)

end
