(* ===== verification/Restore.thy ===== *)
theory Restore
  imports Snapshot
begin

text \<open>
  Restoring a snapshot is exact: the three passes of \<open>restore_best\<close> over a subtree without links
  leave the captured files, no others and no empty directory.
\<close>

section \<open>Subtrees without links\<close>

definition plain :: "fs \<Rightarrow> path \<Rightarrow> bool" where
  "plain fs d \<longleftrightarrow> wf_fs fs \<and> fs_get fs d = Some Dir
     \<and> (\<forall>p. startswith p d \<longrightarrow> \<not> is_link_node (fs_get fs p))"

lemma below_iff: "below d p \<longleftrightarrow> (\<exists>r. r \<noteq> [] \<and> p = d @ r)"
  by (auto simp: below_def startswith_iff)

lemma below_startswith: "below d p \<Longrightarrow> startswith p d"
  by (simp add: below_def)

lemma plain_wf: "plain fs d \<Longrightarrow> wf_fs fs"
  by (simp add: plain_def)

lemma plain_nolink: "plain fs d \<Longrightarrow> startswith p d \<Longrightarrow> \<not> is_link_node (fs_get fs p)"
  by (simp add: plain_def)

lemma plain_root: "plain fs d \<Longrightarrow> real_dirs fs d \<and> DOTDOT \<notin> set d"
  using wf_fs_real_dirs [of fs d] wf_fs_entry [of fs d]
  by (cases "d = []") (auto simp: plain_def)

lemma existing_ok: "wf_fs fs \<Longrightarrow> fs_get fs p \<noteq> None \<Longrightarrow> real_dirs fs p \<and> DOTDOT \<notin> set p"
  using wf_fs_real_dirs [of fs p] wf_fs_entry [of fs p] by (cases "p = []") auto

lemma plain_realpath:
  assumes "plain fs d" and "startswith p d" and "fs_get fs p \<noteq> None"
  shows "realpath fs p = Some p"
proof -
  from assms(3) obtain n where n: "fs_get fs p = Some n" by blast
  have "\<not> is_link_node (Some n)" using plain_nolink [OF assms(1,2)] n by simp
  then show ?thesis using existing_ok [OF plain_wf [OF assms(1)] assms(3)] n
    by (intro realpath_self) auto
qed

lemma plain_prefix_nolink:
  assumes "plain fs d" and "startswith p d"
  shows "\<not> is_link_node (fs_get fs (take i p))"
proof (cases "i < length d")
  case True
  with assms plain_root [OF assms(1)] show ?thesis by (auto simp: startswith_iff real_dirs_def)
next
  case False
  with assms(2) have "startswith (take i p) d" by (auto simp: startswith_iff)
  with plain_nolink [OF assms(1)] show ?thesis by blast
qed

lemma plain_realpath_self:
  assumes "plain fs d" and "startswith p d" and "DOTDOT \<notin> set p" and "realpath fs p = Some r"
  shows "r = p"
  using walk_linkfree [of MAX_LINKS False fs "[]" p r] plain_prefix_nolink [OF assms(1,2)] assms(3,4)
  by (simp add: realpath_def)

lemma realpath_None:
  "real_dirs fs p \<Longrightarrow> DOTDOT \<notin> set p \<Longrightarrow> fs_get fs p = None \<Longrightarrow> realpath fs p = None"
  unfolding realpath_def using walk_missing [of fs "[]" p] by (cases "p = []") auto

lemma mkdir1_plain:
  assumes "wf_fs fs" and "p = [] \<or> fs_get fs (butlast p) = Some Dir" and "DOTDOT \<notin> set p"
    and "\<not> is_link_node (fs_get fs p)"
  shows "mkdir1 fs p = (case fs_get fs p of
     Some Dir \<Rightarrow> Inr fs | Some _ \<Rightarrow> Inl OS_Error | None \<Rightarrow> Inr (fs_put p Dir fs))"
proof (cases "p = []")
  case True
  have "realpath fs [] = Some []" by (simp add: realpath_def)
  with True show ?thesis by (simp add: mkdir1_def is_dir_def)
next
  case False
  with assms(1,2) have rd: "real_dirs fs p"
    using existing_ok [of fs "butlast p"] real_dirs_snoc [of fs "butlast p" "last p"] by simp
  have l: "lnode fs p = fs_get fs p" by (rule lnode_real [OF rd assms(3) False])
  have c: "creatable fs p = Some p" by (rule creatable_self [OF rd assms(3,4)])
  show ?thesis
  proof (cases "fs_get fs p")
    case None
    with realpath_None [OF rd assms(3)] l c show ?thesis by (simp add: mkdir1_def is_dir_def)
  next
    case (Some n)
    have "realpath fs p = Some p"
      using assms(4) Some by (intro realpath_self [OF rd assms(3)]) auto
    with Some l assms(4) show ?thesis
      by (cases n) (simp_all add: mkdir1_def is_dir_def)
  qed
qed

text \<open>What creating a directory changes: missing ancestors become directories.\<close>

definition grown :: "path \<Rightarrow> fs \<Rightarrow> fs \<Rightarrow> bool" where
  "grown p fs fs' \<longleftrightarrow> (\<forall>q. fs_get fs' q = fs_get fs q
     \<or> (fs_get fs q = None \<and> fs_get fs' q = Some Dir \<and> startswith p q))"

lemma grown_step:
  assumes "grown p fs1 fs'" and "\<And>q. fs_get fs1 q = (if q = dn then Some Dir else fs_get fs q)"
    and "fs_get fs dn = None \<or> fs_get fs dn = Some Dir" and "startswith p dn"
  shows "grown p fs fs'"
  unfolding grown_def
proof
  fix q
  have g: "fs_get fs' q = fs_get fs1 q
      \<or> (fs_get fs1 q = None \<and> fs_get fs' q = Some Dir \<and> startswith p q)"
    using assms(1) by (simp add: grown_def)
  show "fs_get fs' q = fs_get fs q
      \<or> (fs_get fs q = None \<and> fs_get fs' q = Some Dir \<and> startswith p q)"
  proof (cases "q = dn")
    case True
    with g assms(2) have "fs_get fs' q = Some Dir" by simp
    with True assms(3,4) show ?thesis by auto
  next
    case False
    with g assms(2) show ?thesis by simp
  qed
qed

lemma mkdirs_from_plain:
  assumes "mkdirs_from fs dn cs = Inr fs'" and "wf_fs fs"
    and "dn = [] \<or> fs_get fs (butlast dn) = Some Dir" and "DOTDOT \<notin> set (dn @ cs)"
    and "\<forall>i. length dn \<le> i \<longrightarrow> \<not> is_link_node (fs_get fs (take i (dn @ cs)))"
  shows "wf_fs fs' \<and> grown (dn @ cs) fs fs' \<and> fs_get fs' (dn @ cs) = Some Dir"
  using assms
proof (induction fs dn cs rule: mkdirs_from.induct)
  case (1 fs dn)
  have nl: "\<not> is_link_node (fs_get fs dn)" using "1.prems"(5) by auto
  note m = mkdir1_plain [OF "1.prems"(2,3) _ nl]
  show ?case
  proof (cases "fs_get fs dn")
    case None
    then have ne: "dn \<noteq> []" by auto
    have "fs' = fs_put dn Dir fs" using "1.prems"(1,4) m None by simp
    with "1.prems" ne None wf_fs_put [of fs dn Dir] show ?thesis
      by (auto simp: fs_get_put grown_def)
  next
    case (Some n)
    with "1.prems"(1,4) m have "n = Dir" "fs' = fs" by (cases n; simp)+
    with "1.prems"(2) Some show ?thesis by (simp add: grown_def)
  qed
next
  case (2 fs dn c cs)
  have nl: "\<not> is_link_node (fs_get fs dn)"
    using "2.prems"(5) by (auto dest: spec [of _ "length dn"])
  have dd: "DOTDOT \<notin> set dn" using "2.prems"(4) by simp
  note m = mkdir1_plain [OF "2.prems"(2,3) dd nl]
  obtain fs1 where fs1: "mkdir1 fs dn = Inr fs1" "mkdirs_from fs1 (dn @ [c]) cs = Inr fs'"
    using "2.prems"(1) by (auto simp: bindE_eq_Inr)
  have d: "fs_get fs1 dn = Some Dir \<and> wf_fs fs1 \<and>
      (\<forall>q. fs_get fs1 q = (if q = dn then Some Dir else fs_get fs q))
      \<and> (fs_get fs dn = None \<or> fs_get fs dn = Some Dir)"
  proof (cases "fs_get fs dn")
    case None
    then have "dn \<noteq> []" by auto
    with None fs1(1) m "2.prems"(2,3) dd wf_fs_put [of fs dn Dir] show ?thesis
      by (auto simp: fs_get_put)
  next
    case (Some n)
    with fs1(1) m have "n = Dir" "fs1 = fs" by (cases n; simp)+
    with Some "2.prems"(2) show ?thesis by simp
  qed
  have "wf_fs fs' \<and> grown ((dn @ [c]) @ cs) fs1 fs' \<and> fs_get fs' ((dn @ [c]) @ cs) = Some Dir"
  proof (rule "2.IH" [OF fs1(2)])
    show "\<forall>i. length (dn @ [c]) \<le> i \<longrightarrow>
        \<not> is_link_node (fs_get fs1 (take i ((dn @ [c]) @ cs)))"
    proof (intro allI impI)
      fix i assume i: "length (dn @ [c]) \<le> i"
      then have "length (take i (dn @ c # cs)) > length dn" by simp
      then have "take i (dn @ c # cs) \<noteq> dn" by (metis less_irrefl)
      with d have "fs_get fs1 (take i (dn @ c # cs)) = fs_get fs (take i (dn @ c # cs))" by simp
      with "2.prems"(5) i show "\<not> is_link_node (fs_get fs1 (take i ((dn @ [c]) @ cs)))" by simp
    qed
  qed (use d "2.prems"(4) in simp_all)
  then have g: "wf_fs fs'" "grown (dn @ c # cs) fs1 fs'" "fs_get fs' (dn @ c # cs) = Some Dir"
    by simp_all
  have "grown (dn @ c # cs) fs fs'"
    by (rule grown_step [OF g(2)]) (use d in auto)
  with g show ?case by simp
qed

lemma mkdirs_plain:
  assumes "plain fs d" and "startswith p d" and "DOTDOT \<notin> set p" and "mkdirs fs p = Inr fs'"
  shows "plain fs' d \<and> grown p fs fs' \<and> fs_get fs' p = Some Dir"
proof -
  have nl: "\<not> is_link_node (fs_get fs (take i p))" for i
    by (rule plain_prefix_nolink [OF assms(1,2)])
  have r: "wf_fs fs' \<and> grown p fs fs' \<and> fs_get fs' p = Some Dir"
  proof (cases "is_dir fs p")
    case True
    then have "fs_get fs p \<noteq> None"
    proof -
      from True obtain r where r: "realpath fs p = Some r" "fs_get fs r = Some Dir"
        by (auto simp: is_dir_def split: option.splits)
      show ?thesis
      proof
        assume n: "fs_get fs p = None"
        have "r = p" by (rule plain_realpath_self [OF assms(1-3) r(1)])
        with r(2) n show False by simp
      qed
    qed
    with plain_realpath [OF assms(1,2)] True have "fs_get fs p = Some Dir"
      by (simp add: is_dir_def)
    moreover have "fs' = fs" using True assms(4) by (simp add: mkdirs_def)
    ultimately show ?thesis using assms(1) by (simp add: plain_def grown_def)
  next
    case False
    with assms(4) have "mkdirs_from fs [] p = Inr fs'" by (simp add: mkdirs_def)
    from mkdirs_from_plain [OF this plain_wf [OF assms(1)]] nl assms(3) show ?thesis by simp
  qed
  moreover have "plain fs' d"
    unfolding plain_def
  proof (intro conjI allI impI)
    show "fs_get fs' d = Some Dir" using r assms(1) unfolding grown_def plain_def by (metis option.distinct(1))
    fix q assume "startswith q d"
    with plain_nolink [OF assms(1)] r show "\<not> is_link_node (fs_get fs' q)"
      unfolding grown_def by (metis is_link_node_simps(3))
  qed (use r in blast)
  ultimately show ?thesis by blast
qed

section \<open>Pass one: writing the captured files\<close>

lemma write_bytes_plain:
  assumes "plain fs d" and "below d p" and "DOTDOT \<notin> set p" and "fs_get fs (butlast p) = Some Dir"
    and "write_bytes fs p b = Inr fs'"
  shows "fs' = fs_put p (File b) fs \<and> fs_get fs p \<noteq> Some Dir \<and> plain fs' d"
proof -
  have ne: "p \<noteq> []" using assms(2) by (auto simp: below_def)
  then have "real_dirs fs p"
    using existing_ok [OF plain_wf [OF assms(1)], of "butlast p"] assms(4)
      real_dirs_snoc [of fs "butlast p" "last p"] by simp
  then have "creatable fs p = Some p"
    using assms(3) plain_nolink [OF assms(1) below_startswith [OF assms(2)]]
    by (intro creatable_self) auto
  with assms(5) have f: "fs' = fs_put p (File b) fs" "fs_get fs p \<noteq> Some Dir"
    by (auto simp: write_bytes_def split: if_splits)
  have "p \<noteq> d" using assms(2) by (auto simp: below_def)
  with f wf_fs_put_file [OF plain_wf [OF assms(1)] ne assms(4) f(2) assms(3)] assms(1) ne
  show ?thesis by (auto simp: plain_def fs_get_put)
qed

lemma write_wanted_plain:
  assumes "plain fs d" and "r \<noteq> []" and "DOTDOT \<notin> set r" and "write_wanted d (r, b) fs = Inr fs'"
  shows "plain fs' d \<and> fs_get fs' (d @ r) = Some (File b) \<and>
    (\<forall>q. q \<noteq> d @ r \<longrightarrow> fs_get fs' q = fs_get fs q
       \<or> (fs_get fs q = None \<and> fs_get fs' q = Some Dir \<and> below d q))"
proof -
  let ?t = "d @ r"
  obtain fs1 where fs1: "mkdirs fs (butlast ?t) = Inr fs1" "write_bytes fs1 ?t b = Inr fs'"
    using assms(4) by (auto simp: write_wanted_def Let_def bindE_eq_Inr)
  have bl: "butlast ?t = d @ butlast r" using assms(2) by (simp add: butlast_append)
  have dd: "DOTDOT \<notin> set ?t" using assms(3) plain_root [OF assms(1)] by simp
  have "startswith (butlast ?t) d" by (simp add: bl)
  moreover have "DOTDOT \<notin> set (butlast ?t)" using dd in_set_butlastD by fastforce
  ultimately have m: "plain fs1 d" "grown (butlast ?t) fs fs1" "fs_get fs1 (butlast ?t) = Some Dir"
    using mkdirs_plain [OF assms(1) _ _ fs1(1)] by auto
  have "below d ?t" using assms(2) by (auto simp: below_iff)
  from write_bytes_plain [OF m(1) this dd m(3) fs1(2)]
  have w: "fs' = fs_put ?t (File b) fs1" "plain fs' d" by auto
  have "below d q" if "fs_get fs q = None" "startswith (butlast ?t) q" for q
  proof -
    have "length q > length d"
    proof (rule ccontr)
      assume "\<not> length d < length q"
      with that(2) bl obtain z where "d = q @ z"
        by (auto simp: startswith_iff append_eq_append_conv2)
      moreover have "real_dirs fs d" "fs_get fs d = Some Dir"
        using plain_root [OF assms(1)] assms(1) by (auto simp: plain_def)
      ultimately have "fs_get fs q = Some Dir" by (cases z) (auto dest: real_dirs_prefix)
      with that(1) show False by simp
    qed
    with that(2) bl show ?thesis
      by (auto simp: below_def startswith_iff append_eq_append_conv2)
  qed
  with m(2) w assms(2) show ?thesis by (auto simp: fs_get_put grown_def)
qed

definition ok_files :: "(path \<times> bytes) list \<Rightarrow> bool" where
  "ok_files files \<longleftrightarrow> distinct (map fst files)
     \<and> (\<forall>r \<in> fst ` set files. r \<noteq> [] \<and> DOTDOT \<notin> set r)"

lemma write_all_plain:
  assumes "foldE (write_wanted d) files fs = Inr fs1" and "plain fs d" and "ok_files files"
  shows "plain fs1 d
    \<and> (\<forall>r b. map_of files r = Some b \<longrightarrow> fs_get fs1 (d @ r) = Some (File b))
    \<and> (\<forall>q. (\<forall>r\<in>fst ` set files. q \<noteq> d @ r) \<longrightarrow> fs_get fs1 q = fs_get fs q
         \<or> (fs_get fs q = None \<and> fs_get fs1 q = Some Dir \<and> below d q))"
  using assms
proof (induction files arbitrary: fs)
  case Nil
  then show ?case by simp
next
  case (Cons f files)
  obtain r b where f: "f = (r, b)" by (cases f)
  obtain fs2 where fs2: "write_wanted d (r, b) fs = Inr fs2"
    "foldE (write_wanted d) files fs2 = Inr fs1"
    using Cons.prems(1) by (auto simp: f bindE_eq_Inr)
  have ok: "r \<noteq> []" "DOTDOT \<notin> set r" "ok_files files" "r \<notin> fst ` set files"
    using Cons.prems(3) by (auto simp: ok_files_def f)
  from write_wanted_plain [OF Cons.prems(2) ok(1,2) fs2(1)] have
    w1: "plain fs2 d" and w2: "fs_get fs2 (d @ r) = Some (File b)" and
    w3: "\<And>q. q \<noteq> d @ r \<Longrightarrow> fs_get fs2 q = fs_get fs q
       \<or> (fs_get fs q = None \<and> fs_get fs2 q = Some Dir \<and> below d q)" by blast+
  from Cons.IH [OF fs2(2) w1 ok(3)] have
    ih1: "plain fs1 d" and
    ih2: "\<And>r b. map_of files r = Some b \<Longrightarrow> fs_get fs1 (d @ r) = Some (File b)" and
    ih3: "\<And>q. \<forall>r\<in>fst ` set files. q \<noteq> d @ r \<Longrightarrow> fs_get fs1 q = fs_get fs2 q
         \<or> (fs_get fs2 q = None \<and> fs_get fs1 q = Some Dir \<and> below d q)" by blast+
  have "\<forall>r'\<in>fst ` set files. d @ r \<noteq> d @ r'" using ok(4) by auto
  from ih3 [OF this] w2 have here: "fs_get fs1 (d @ r) = Some (File b)" by simp
  have rest: "fs_get fs1 q = fs_get fs q
      \<or> (fs_get fs q = None \<and> fs_get fs1 q = Some Dir \<and> below d q)"
    if "\<forall>r'\<in>fst ` set (f # files). q \<noteq> d @ r'" for q
  proof -
    from that have q: "\<forall>r'\<in>fst ` set files. q \<noteq> d @ r'" "q \<noteq> d @ r" by (simp_all add: f)
    from ih3 [OF q(1)] w3 [OF q(2)] show ?thesis by (metis option.distinct(1))
  qed
  have "fs_get fs1 (d @ r') = Some (File b')" if "map_of (f # files) r' = Some b'" for r' b'
    using that here ih2 by (cases "r' = r") (simp_all add: f)
  with ih1 rest show ?case by blast
qed

section \<open>Pass two: removing the files a worse attempt added\<close>

definition is_file_node :: "node option \<Rightarrow> bool" where
  "is_file_node n = (case n of Some (File _) \<Rightarrow> True | _ \<Rightarrow> False)"

lemma plain_resolves:
  assumes "plain fs d" and "startswith p d" and "DOTDOT \<notin> set p" and "realpath fs p = Some r"
  shows "r = p"
proof -
  have nl: "\<not> is_link_node (fs_get fs (take i p))" for i
  proof (cases "i < length d")
    case True
    with assms(2) plain_root [OF assms(1)] show ?thesis
      by (auto simp: startswith_iff real_dirs_def)
  next
    case False
    with assms(2) have "startswith (take i p) d" by (auto simp: startswith_iff)
    with plain_nolink [OF assms(1)] show ?thesis by blast
  qed
  show ?thesis using walk_linkfree [of MAX_LINKS False fs "[]" p r] assms(3,4) nl
    by (simp add: realpath_def)
qed

lemma is_file_plain:
  assumes "plain fs d" and "startswith p d" and "DOTDOT \<notin> set p"
  shows "is_file fs p = is_file_node (fs_get fs p)"
proof (cases "fs_get fs p")
  case (Some n)
  with plain_realpath [OF assms(1,2)] show ?thesis by (simp add: is_file_def is_file_node_def)
next
  case None
  have "realpath fs p = None \<or> (\<exists>r. realpath fs p = Some r \<and> \<not> is_file_node (fs_get fs r))"
  proof (cases "realpath fs p")
    case (Some r)
    from plain_resolves [OF assms Some] have "r = p" .
    with Some None show ?thesis by (simp add: is_file_node_def)
  qed simp
  with None show ?thesis by (auto simp: is_file_def is_file_node_def split: node.splits option.splits)
qed

lemma unlink_plain:
  assumes "plain fs d" and "below d p" and "is_file_node (fs_get fs p)"
  shows "unlink fs p = Inr (fs_del p fs) \<and> plain (fs_del p fs) d"
proof -
  have ne: "p \<noteq> []" using assms(2) by (auto simp: below_def)
  obtain b where b: "fs_get fs p = Some (File b)"
    using assms(3) by (auto simp: is_file_node_def split: option.splits node.splits)
  then have e: "fs_get fs (butlast p) = Some Dir" "DOTDOT \<notin> set p"
    using wf_fs_entry [OF plain_wf [OF assms(1)], of p] ne by auto
  have sw: "startswith (butlast p) d"
    using assms(2) by (auto simp: below_iff startswith_iff butlast_append)
  have "realpath fs (butlast p) = Some (butlast p)"
    using plain_realpath [OF assms(1) sw] e by simp
  moreover have "butlast p @ [last p] = p" using ne by simp
  ultimately have u: "unlink fs p = Inr (fs_del p fs)" using b by (simp add: unlink_def)
  have "\<forall>q. q \<noteq> [] \<and> fs_get fs q \<noteq> None \<longrightarrow> butlast q \<noteq> p"
    using wf_fs_entry [OF plain_wf [OF assms(1)]] b by fastforce
  from wf_fs_del [OF plain_wf [OF assms(1)] ne this] have "wf_fs (fs_del p fs)" .
  moreover have "p \<noteq> d" using assms(2) by (auto simp: below_def)
  ultimately have "plain (fs_del p fs) d"
    using assms(1) ne by (auto simp: plain_def fs_get_del)
  with u show ?thesis by blast
qed

lemma rglob_set: "p \<in> set (rglob fs d) \<longleftrightarrow> below d p \<and> fs_get fs p \<noteq> None"
proof -
  have "below d p \<Longrightarrow> p \<noteq> []" by (auto simp: below_def)
  moreover have "map_of fs p \<noteq> None \<longleftrightarrow> p \<in> fst ` set fs" by (simp add: map_of_eq_None_iff)
  ultimately show ?thesis by (auto simp: rglob_def fs_get_def simp del: not_None_eq)
qed

lemma remove_all_plain:
  assumes "plain fs d" and "\<forall>p\<in>set ps. below d p \<and> DOTDOT \<notin> set p"
  shows "\<exists>fs'. foldE (remove_extra W) ps fs = Inr fs' \<and> plain fs' d
    \<and> (\<forall>q. fs_get fs' q =
         (if q \<in> set ps \<and> q \<notin> W \<and> is_file_node (fs_get fs q) then None else fs_get fs q))"
  using assms
proof (induction ps arbitrary: fs)
  case Nil
  then show ?case by simp
next
  case (Cons p ps)
  have p: "below d p" "DOTDOT \<notin> set p" using Cons.prems(2) by simp_all
  have ne: "p \<noteq> []" using p(1) by (auto simp: below_def)
  have isf: "is_file fs p = is_file_node (fs_get fs p)"
    by (rule is_file_plain [OF Cons.prems(1) below_startswith [OF p(1)] p(2)])
  show ?case
  proof (cases "is_file_node (fs_get fs p) \<and> p \<notin> W")
    case True
    note un = unlink_plain [OF Cons.prems(1) p(1)]
    then have r: "remove_extra W p fs = Inr (fs_del p fs)" "plain (fs_del p fs) d"
      using True isf by (simp_all add: remove_extra_def)
    from Cons.IH [OF r(2)] Cons.prems(2) obtain fs' where
      i: "foldE (remove_extra W) ps (fs_del p fs) = Inr fs'" "plain fs' d"
      "\<And>q. fs_get fs' q = (if q \<in> set ps \<and> q \<notin> W \<and> is_file_node (fs_get (fs_del p fs) q)
         then None else fs_get (fs_del p fs) q)" by auto
    have "fs_get fs' q = (if q \<in> set (p # ps) \<and> q \<notin> W \<and> is_file_node (fs_get fs q)
         then None else fs_get fs q)" for q
      using i(3) [of q] ne True by (cases "q = p") (simp_all add: fs_get_del)
    with i(1,2) r(1) show ?thesis by auto
  next
    case False
    then have r: "remove_extra W p fs = Inr fs" using isf by (auto simp: remove_extra_def)
    from Cons.IH [OF Cons.prems(1)] Cons.prems(2) obtain fs' where
      i: "foldE (remove_extra W) ps fs = Inr fs'" "plain fs' d"
      "\<And>q. fs_get fs' q = (if q \<in> set ps \<and> q \<notin> W \<and> is_file_node (fs_get fs q)
         then None else fs_get fs q)" by auto
    have "fs_get fs' q = (if q \<in> set (p # ps) \<and> q \<notin> W \<and> is_file_node (fs_get fs q)
         then None else fs_get fs q)" for q
      using i(3) [of q] False by (cases "q = p") auto
    with i(1,2) r show ?thesis by auto
  qed
qed

section \<open>Pass three: pruning the directories left empty\<close>

definition has_child :: "fs \<Rightarrow> path \<Rightarrow> bool" where
  "has_child fs p \<longleftrightarrow> (\<exists>c. fs_get fs (p @ [c]) \<noteq> None)"

lemma children_iff: "wf_fs fs \<Longrightarrow> children fs p = [] \<longleftrightarrow> \<not> has_child fs p"
proof -
  assume "wf_fs fs"
  have "children fs p \<noteq> [] \<longleftrightarrow> (\<exists>q\<in>fst ` set fs. q \<noteq> [] \<and> butlast q = p)"
    by (auto simp: children_def filter_empty_conv)
  also have "\<dots> \<longleftrightarrow> (\<exists>c. p @ [c] \<in> fst ` set fs)"
    by (metis append_butlast_last_id append_is_Nil_conv butlast_snoc not_Cons_self2)
  also have "\<dots> \<longleftrightarrow> has_child fs p" by (auto simp: has_child_def fs_get_def map_of_eq_None_iff)
  finally show ?thesis by blast
qed

lemma prune_dir_plain:
  assumes "plain fs d" and "below d p" and "DOTDOT \<notin> set p"
  shows "prune_dir p fs =
    (if fs_get fs p = Some Dir \<and> \<not> has_child fs p then Inr (fs_del p fs) else Inr fs)"
proof (cases "fs_get fs p")
  case None
  have "realpath fs p = None \<or> (\<exists>r. realpath fs p = Some r \<and> fs_get fs r = None)"
    using is_file_plain [OF assms(1) below_startswith [OF assms(2)] assms(3)]
      plain_resolves [OF assms(1) below_startswith [OF assms(2)] assms(3)] None
    by (cases "realpath fs p") auto
  with None show ?thesis by (auto simp: prune_dir_def)
next
  case (Some n)
  have r: "realpath fs p = Some p"
    using plain_realpath [OF assms(1) below_startswith [OF assms(2)]] Some by simp
  have ne: "p \<noteq> []" using assms(2) by (auto simp: below_def)
  have "real_dirs fs p" using existing_ok [OF plain_wf [OF assms(1)]] Some by simp
  from lnode_real [OF this assms(3) ne] have "lnode fs p = fs_get fs p" .
  with r Some ne show ?thesis
    by (simp add: prune_dir_def rmdir_def children_iff [OF plain_wf [OF assms(1)]])
qed

text \<open>Deepest first: a directory kept because it has a child keeps that child, since only
  directories at most as deep are visited afterwards.\<close>

lemma prune_all_plain:
  assumes "plain fs d" and "\<forall>p\<in>set ps. below d p \<and> DOTDOT \<notin> set p"
    and "sorted (map (\<lambda>p. - int (length p)) (ds @ ps))"
    and "\<forall>p\<in>set ds. fs_get fs p = Some Dir \<longrightarrow> has_child fs p"
  shows "\<exists>fs'. foldE prune_dir ps fs = Inr fs' \<and> plain fs' d
    \<and> (\<forall>q. fs_get fs' q = fs_get fs q
         \<or> (fs_get fs q = Some Dir \<and> fs_get fs' q = None \<and> below d q))
    \<and> (\<forall>p\<in>set (ds @ ps). fs_get fs' p = Some Dir \<longrightarrow> has_child fs' p)"
  using assms
proof (induction ps arbitrary: fs ds)
  case Nil
  then show ?case by simp
next
  case (Cons p ps)
  have p: "below d p" "DOTDOT \<notin> set p" using Cons.prems(2) by simp_all
  have ne: "p \<noteq> []" using p(1) by (auto simp: below_def)
  have sorted': "sorted (map (\<lambda>p. - int (length p)) ((ds @ [p]) @ ps))"
    using Cons.prems(3) by simp
  note pd = prune_dir_plain [OF Cons.prems(1) p]
  show ?case
  proof (cases "fs_get fs p = Some Dir \<and> \<not> has_child fs p")
    case True
    have wf: "wf_fs (fs_del p fs)"
    proof (rule wf_fs_del [OF plain_wf [OF Cons.prems(1)] ne], intro allI impI)
      fix q assume "q \<noteq> [] \<and> fs_get fs q \<noteq> None"
      with True show "butlast q \<noteq> p"
        unfolding has_child_def by (metis append_butlast_last_id)
    qed
    have "p \<noteq> d" using p(1) by (auto simp: below_def)
    with wf Cons.prems(1) ne have pl: "plain (fs_del p fs) d"
      by (auto simp: plain_def fs_get_del)
    have keep: "\<forall>q\<in>set (ds @ [p]). fs_get (fs_del p fs) q = Some Dir \<longrightarrow> has_child (fs_del p fs) q"
    proof (intro ballI impI)
      fix q assume q: "q \<in> set (ds @ [p])" and dir: "fs_get (fs_del p fs) q = Some Dir"
      from dir ne have "q \<noteq> p" "fs_get fs q = Some Dir" by (auto simp: fs_get_del split: if_splits)
      with q Cons.prems(4) have "has_child fs q" by auto
      then obtain c where c: "fs_get fs (q @ [c]) \<noteq> None" unfolding has_child_def by blast
      have "int (length p) \<le> int (length q)"
        using q Cons.prems(3) by (auto simp: sorted_append)
      then have "q @ [c] \<noteq> p" by auto
      with c ne show "has_child (fs_del p fs) q" by (auto simp: has_child_def fs_get_del)
    qed
    from Cons.IH [OF pl _ sorted' keep] Cons.prems(2) obtain fs' where
      i: "foldE prune_dir ps (fs_del p fs) = Inr fs'" "plain fs' d"
        "\<And>q. fs_get fs' q = fs_get (fs_del p fs) q
         \<or> (fs_get (fs_del p fs) q = Some Dir \<and> fs_get fs' q = None \<and> below d q)"
        "\<forall>q\<in>set ((ds @ [p]) @ ps). fs_get fs' q = Some Dir \<longrightarrow> has_child fs' q" by auto
    have "fs_get fs' q = fs_get fs q
         \<or> (fs_get fs q = Some Dir \<and> fs_get fs' q = None \<and> below d q)" for q
      using i(3) [of q] True p(1) ne by (cases "q = p") (auto simp: fs_get_del)
    with i(1,2,4) pd True show ?thesis by auto
  next
    case False
    then have keep: "\<forall>q\<in>set (ds @ [p]). fs_get fs q = Some Dir \<longrightarrow> has_child fs q"
      using Cons.prems(4) by auto
    from Cons.IH [OF Cons.prems(1) _ sorted' keep] Cons.prems(2) obtain fs' where
      i: "foldE prune_dir ps fs = Inr fs'" "plain fs' d"
        "\<And>q. fs_get fs' q = fs_get fs q
         \<or> (fs_get fs q = Some Dir \<and> fs_get fs' q = None \<and> below d q)"
        "\<forall>q\<in>set ((ds @ [p]) @ ps). fs_get fs' q = Some Dir \<longrightarrow> has_child fs' q" by auto
    have "prune_dir p fs = Inr fs" using pd False by auto
    with i show ?thesis by auto
  qed
qed

section \<open>The whole restoration\<close>

lemma capture_plain:
  assumes "plain fs d" and "capture fs d = Inr files"
  shows "ok_files files \<and>
    (\<forall>r b. r \<noteq> [] \<longrightarrow> (map_of files r = Some b \<longleftrightarrow> fs_get fs (d @ r) = Some (File b)))"
proof -
  let ?ps = "filter (is_file fs) (rglob fs d)"
  have ps: "p \<in> set ?ps \<longleftrightarrow> below d p \<and> is_file_node (fs_get fs p)" for p
  proof (cases "fs_get fs p = None")
    case True
    then show ?thesis by (simp add: rglob_set is_file_node_def)
  next
    case False
    with existing_ok [OF plain_wf [OF assms(1)] False]
      is_file_plain [OF assms(1) below_startswith, of p]
    show ?thesis by (auto simp: rglob_set)
  qed
  have step: "read_bytes fs p = Inr b \<longleftrightarrow> fs_get fs p = Some (File b)"
    if "p \<in> set ?ps" for p b
  proof -
    from that ps have "below d p" "fs_get fs p \<noteq> None"
      by (auto simp: is_file_node_def split: option.splits)
    with plain_realpath [OF assms(1) below_startswith] show ?thesis
      by (auto simp: read_bytes_def split: node.splits)
  qed
  let ?g = "\<lambda>p. (drop (length d) p, case fs_get fs p of Some (File b) \<Rightarrow> b | _ \<Rightarrow> [])"
  have gen: "mapE (\<lambda>p. bindE (read_bytes fs p) (\<lambda>b. Inr (drop (length d) p, b))) ps = Inr files'
      \<Longrightarrow> set ps \<subseteq> set ?ps \<Longrightarrow> files' = map ?g ps" for ps files'
  proof (induction ps arbitrary: files')
    case Nil
    then show ?case by simp
  next
    case (Cons p ps)
    then obtain b fl where "read_bytes fs p = Inr b" "files' = (drop (length d) p, b) # fl"
      "mapE (\<lambda>p. bindE (read_bytes fs p) (\<lambda>b. Inr (drop (length d) p, b))) ps = Inr fl"
      by (auto simp: bindE_eq_Inr)
    with Cons step [of p b] show ?case by simp
  qed
  have files: "files = map ?g ?ps"
    using gen [of ?ps files] assms(2) by (simp add: capture_def)
  have drops: "drop (length d) p \<noteq> [] \<and> p = d @ drop (length d) p \<and> DOTDOT \<notin> set p"
    if "p \<in> set ?ps" for p
  proof -
    from that ps have b: "below d p" "fs_get fs p \<noteq> None"
      by (auto simp: is_file_node_def split: option.splits)
    from existing_ok [OF plain_wf [OF assms(1)] b(2)] b(1) show ?thesis
      by (auto simp: below_iff)
  qed
  have inj: "inj_on (drop (length d)) (set ?ps)"
    by (rule inj_onI) (metis drops)
  have "distinct (map fst files)"
    using inj by (simp add: files comp_def distinct_map rglob_def)
  moreover have "\<forall>r\<in>fst ` set files. r \<noteq> [] \<and> DOTDOT \<notin> set r"
    using drops by (auto simp: files dest!: in_set_dropD)
  ultimately have ok: "ok_files files" by (simp add: ok_files_def)
  have "map_of files r = Some b \<longleftrightarrow> fs_get fs (d @ r) = Some (File b)" if "r \<noteq> []" for r b
  proof -
    have "map_of files r = Some b \<longleftrightarrow> (r, b) \<in> set files"
      using ok by (simp add: ok_files_def)
    also have "\<dots> \<longleftrightarrow> (\<exists>p\<in>set ?ps. (r, b) = ?g p)" by (auto simp: files)
    also have "\<dots> \<longleftrightarrow> fs_get fs (d @ r) = Some (File b)"
    proof
      assume "\<exists>p\<in>set ?ps. (r, b) = ?g p"
      then obtain p where p: "p \<in> set ?ps" "(r, b) = ?g p" by blast
      from drops [OF p(1)] p(2) have "p = d @ r" by simp
      with p ps [of p] show "fs_get fs (d @ r) = Some (File b)"
        by (auto simp: is_file_node_def split: option.splits node.splits)
    next
      assume f: "fs_get fs (d @ r) = Some (File b)"
      then have "d @ r \<in> set ?ps" using that ps [of "d @ r"] by (auto simp: below_iff is_file_node_def)
      moreover have "(r, b) = ?g (d @ r)" using f by simp
      ultimately show "\<exists>p\<in>set ?ps. (r, b) = ?g p" by blast
    qed
    finally show ?thesis .
  qed
  with ok show ?thesis by blast
qed

lemma restore_plain:
  assumes "plain fs (subtree st)" and "best st = Some e" and "ok_files (entry_files e)"
    and "restore_best st fs = Inr fs'"
  shows "plain fs' (subtree st)
    \<and> (\<forall>r b. r \<noteq> [] \<longrightarrow> (fs_get fs' (subtree st @ r) = Some (File b)
         \<longleftrightarrow> map_of (entry_files e) r = Some b))
    \<and> (\<forall>q. \<not> below (subtree st) q \<longrightarrow> fs_get fs' q = fs_get fs q)
    \<and> (\<forall>q. below (subtree st) q \<and> fs_get fs' q = Some Dir \<longrightarrow> has_child fs' q)"
proof -
  let ?d = "subtree st" and ?files = "entry_files e"
  let ?W = "(\<lambda>f. ?d @ fst f) ` set ?files"
  obtain fs1 fs2 where f1: "foldE (write_wanted ?d) ?files fs = Inr fs1"
    and f2: "foldE (remove_extra ?W) (rglob fs1 ?d) fs1 = Inr fs2"
    and f3: "prune_empty_dirs ?d fs2 = Inr fs'"
    using assms(2,4) by (auto simp: restore_best_def Let_def bindE_eq_Inr)
  from write_all_plain [OF f1 assms(1,3)] have
    p1: "plain fs1 ?d" and
    w1: "\<And>r b. map_of ?files r = Some b \<Longrightarrow> fs_get fs1 (?d @ r) = Some (File b)" and
    w2: "\<And>q. \<forall>r\<in>fst ` set ?files. q \<noteq> ?d @ r \<Longrightarrow> fs_get fs1 q = fs_get fs q
         \<or> (fs_get fs q = None \<and> fs_get fs1 q = Some Dir \<and> below ?d q)" by blast+
  have listed: "\<forall>p\<in>set (rglob gs ?d). below ?d p \<and> DOTDOT \<notin> set p" if "wf_fs gs" for gs
    using existing_ok [OF that] by (simp add: rglob_set)
  from remove_all_plain [OF p1 listed [OF plain_wf [OF p1]], of ?W] f2 have
    p2: "plain fs2 ?d" and
    d2: "\<And>q. fs_get fs2 q = (if q \<in> set (rglob fs1 ?d) \<and> q \<notin> ?W \<and> is_file_node (fs_get fs1 q)
         then None else fs_get fs1 q)" by auto
  let ?l = "sort_key (\<lambda>p. - int (length p)) (rglob fs2 ?d)"
  have "\<forall>p\<in>set ?l. below ?d p \<and> DOTDOT \<notin> set p" using listed [OF plain_wf [OF p2]] by simp
  from prune_all_plain [OF p2 this, of "[]"] f3 have
    p3: "plain fs' ?d" and
    d3: "\<And>q. fs_get fs' q = fs_get fs2 q
         \<or> (fs_get fs2 q = Some Dir \<and> fs_get fs' q = None \<and> below ?d q)" and
    c3: "\<And>q. q \<in> set ?l \<Longrightarrow> fs_get fs' q = Some Dir \<Longrightarrow> has_child fs' q"
    by (auto simp: prune_empty_dirs_def)
  have inW: "?d @ r \<in> ?W \<longleftrightarrow> r \<in> fst ` set ?files" for r by auto
  have "fs_get fs' (?d @ r) = Some (File b) \<longleftrightarrow> map_of ?files r = Some b" if "r \<noteq> []" for r b
  proof -
    have "fs_get fs' (?d @ r) = Some (File b) \<longleftrightarrow> fs_get fs2 (?d @ r) = Some (File b)"
      using d3 [of "?d @ r"] by auto
    also have "\<dots> \<longleftrightarrow> r \<in> fst ` set ?files \<and> fs_get fs1 (?d @ r) = Some (File b)"
      using d2 [of "?d @ r"] that inW [of r]
      by (auto simp: rglob_set below_iff is_file_node_def)
    also have "\<dots> \<longleftrightarrow> map_of ?files r = Some b"
    proof (cases "map_of ?files r")
      case None
      then have "r \<notin> fst ` set ?files" by (simp add: map_of_eq_None_iff)
      with None show ?thesis by simp
    next
      case (Some b')
      then have "r \<in> fst ` set ?files" using map_of_SomeD by force
      with w1 [OF Some] Some show ?thesis by auto
    qed
    finally show ?thesis .
  qed
  moreover have "fs_get fs' q = fs_get fs q" if "\<not> below ?d q" for q
  proof -
    have "\<forall>r\<in>fst ` set ?files. q \<noteq> ?d @ r"
      using that assms(3) by (auto simp: below_iff ok_files_def)
    with w2 [of q] d2 [of q] d3 [of q] that show ?thesis by (auto simp: rglob_set)
  qed
  moreover have "has_child fs' q" if "below ?d q" "fs_get fs' q = Some Dir" for q
  proof (rule c3 [OF _ that(2)])
    have "fs_get fs2 q \<noteq> None" using d3 [of q] that(2) by (metis option.distinct(1))
    with that(1) show "q \<in> set ?l" by (simp add: rglob_set)
  qed
  ultimately show ?thesis using p3 by blast
qed

section \<open>Properties\<close>

text \<open>The best capture is the one that passed most, then errored least, then failed least,
  then came first, and it is one of the recorded attempts; every other attempt ranks after it in
  that order.\<close>

theorem best_ranks_first:
  "best st = Some e \<Longrightarrow> e \<in> set (entries st) \<and>
     (\<forall>e'\<in>set (entries st). let s = entry_score e; s' = entry_score e' in
        passed s' \<le> passed s \<and> (passed s' = passed s \<longrightarrow>
          errors s \<le> errors s' \<and> (errors s' = errors s \<longrightarrow>
            failed s \<le> failed s' \<and> (failed s' = failed s \<longrightarrow> entry_index e \<le> entry_index e'))))"
proof (intro conjI ballI)
  assume b: "best st = Some e"
  then show "e \<in> set (entries st)" by (simp add: best_def min_by_in)
  fix e' assume "e' \<in> set (entries st)"
  with b have "rank_key e \<le> rank_key e'" by (simp add: best_def min_by_le)
  then show "let s = entry_score e; s' = entry_score e' in
        passed s' \<le> passed s \<and> (passed s' = passed s \<longrightarrow>
          errors s \<le> errors s' \<and> (errors s' = errors s \<longrightarrow>
            failed s \<le> failed s' \<and> (failed s' = failed s \<longrightarrow> entry_index e \<le> entry_index e')))"
    by (auto simp: rank_key_def less_eq_rank_def Let_def)
qed

definition entry3 :: "int \<Rightarrow> int \<Rightarrow> int \<Rightarrow> snapshot_entry" where
  "entry3 i p f = \<lparr>entry_index = i, entry_score = \<lparr>passed = p, failed = f, errors = 0,
     collected = p + f, skipped = 0, expected = 3\<rparr>, entry_files = []\<rparr>"

theorem best_ranks_first_witness:
  "best \<lparr>subtree = [], entries = [entry3 0 1 2, entry3 1 2 1, entry3 2 2 1]\<rparr> = Some (entry3 1 2 1)
   \<and> list_all (\<lambda>e'. passed (entry_score e') \<le> 2) [entry3 0 1 2, entry3 1 2 1, entry3 2 2 1]"
proof
  show b: "best \<lparr>subtree = [], entries = [entry3 0 1 2, entry3 1 2 1, entry3 2 2 1]\<rparr>
      = Some (entry3 1 2 1)" by code_simp
  show "list_all (\<lambda>e'. passed (entry_score e') \<le> 2) [entry3 0 1 2, entry3 1 2 1, entry3 2 2 1]"
    using best_ranks_first [OF b] by (auto simp: entry3_def Let_def)
qed

text \<open>The ranking looks at the number of passing tests and not at validity, so an attempt that
  ran more tests than were pinned outranks one whose verdict is green.\<close>

theorem overcollected_outranks_green:
  "best \<lparr>subtree = [], entries = [entry3 0 4 0, entry3 1 3 0]\<rparr> = Some (entry3 0 4 0)
   \<and> is_green (entry_score (entry3 1 3 0)) \<and> \<not> is_green (entry_score (entry3 0 4 0))"
  by code_simp

text \<open>C21. Restoration is exact: after a restore that returns, the files of the subtree and their
  bytes are those of the state the best attempt was captured in, whatever later attempts wrote,
  added or removed; no directory of the subtree is empty and nothing outside it has changed.\<close>

theorem restore_is_exact:
  assumes "plain fs0 (subtree st)" and "capture fs0 (subtree st) = Inr (entry_files e)"
    and "best st = Some e" and "plain fs (subtree st)" and "restore_best st fs = Inr fs'"
  shows "(\<forall>r b. r \<noteq> [] \<longrightarrow> (fs_get fs' (subtree st @ r) = Some (File b)
            \<longleftrightarrow> fs_get fs0 (subtree st @ r) = Some (File b)))
    \<and> (\<forall>q. \<not> below (subtree st) q \<longrightarrow> fs_get fs' q = fs_get fs q)
    \<and> (\<forall>q. below (subtree st) q \<and> fs_get fs' q = Some Dir \<longrightarrow> has_child fs' q)"
proof -
  note c = capture_plain [OF assms(1,2)]
  from c have "ok_files (entry_files e)" by blast
  from restore_plain [OF assms(4,3) this assms(5)] c show ?thesis by simp
qed

definition snap_fs :: "bytes \<Rightarrow> fs" where
  "snap_fs b = [([u ''s''], Dir), ([u ''s'', u ''a''], File b)]"

definition snap_store :: store where
  "snap_store = \<lparr>subtree = [u ''s''], entries = [\<lparr>entry_index = 0, entry_score = zero_score 3,
     entry_files = [([u ''a''], [1])]\<rparr>]\<rparr>"

lemma plain_snap_fs: "plain (snap_fs b) [u ''s'']"
  unfolding plain_def
proof (intro conjI allI impI)
  show "wf_fs (snap_fs b)" by (simp add: wf_fs_def snap_fs_def fs_get_def DOTDOT_def u_def)
  show "fs_get (snap_fs b) [u ''s''] = Some Dir" by (simp add: snap_fs_def fs_get_def)
  show "\<not> is_link_node (fs_get (snap_fs b) p)" for p
    by (simp add: snap_fs_def fs_get_def)
qed

theorem restore_is_exact_witness:
  "\<exists>fs'. restore_best snap_store ((([u ''s'', u ''b''], File [5])) # snap_fs [2]) = Inr fs'
     \<and> fs_get fs' [u ''s'', u ''a''] = Some (File [1])"
proof -
  define fs where "fs = ([u ''s'', u ''b''], File [5]) # snap_fs [2]"
  define fs' where "fs' = snap_fs [1]"
  have p: "plain fs (subtree snap_store)"
    unfolding plain_def
  proof (intro conjI allI impI)
    show "wf_fs fs" by (simp add: wf_fs_def fs_def snap_fs_def fs_get_def DOTDOT_def u_def)
    show "fs_get fs (subtree snap_store) = Some Dir"
      by (simp add: fs_def snap_fs_def fs_get_def snap_store_def u_def)
    show "\<not> is_link_node (fs_get fs p)" for p by (simp add: fs_def snap_fs_def fs_get_def)
  qed
  have e: "best snap_store = Some (hd (entries snap_store))" by code_simp
  have c: "capture (snap_fs [1]) (subtree snap_store) = Inr (entry_files (hd (entries snap_store)))"
    by code_simp
  have r: "restore_best snap_store fs = Inr fs'" unfolding fs_def fs'_def by code_simp
  have "plain (snap_fs [1]) (subtree snap_store)" using plain_snap_fs by (simp add: snap_store_def)
  from restore_is_exact [OF this c e p r]
  have "fs_get fs' [u ''s'', u ''a''] = Some (File [1])"
    by (auto simp: snap_store_def snap_fs_def fs_get_def u_def dest: spec [of _ "[u ''a'']"])
  with r show ?thesis unfolding fs_def by blast
qed

end
