(* ===== verification/Prompt.thy ===== *)
theory Prompt
  imports Runner
begin

text \<open>
  Prompt assembly of \<open>src/claude_local/prompt.py\<close>: the byte-stable prefix, the capped repair
  brief, the nudge ladder and the reframe.  The three regular expressions that strip run facts
  are matchers for one position, driven by one left-to-right substitution; \<open>\d\<close> is read as an
  ASCII digit.  The card's digest (SHA-256) is a parameter.
\<close>

section \<open>Constants\<close>

definition FEEDBACK_BYTE_CAP :: nat where "FEEDBACK_BYTE_CAP = 4096"
definition FEEDBACK_TAIL_LINES :: nat where "FEEDBACK_TAIL_LINES = 40"
definition PREVIOUS_SOURCE_BYTE_CAP :: nat where "PREVIOUS_SOURCE_BYTE_CAP = 8192"
definition UNSCORABLE_REPLY_BYTE_CAP :: nat where "UNSCORABLE_REPLY_BYTE_CAP = 512"
definition STALL_EVIDENCE_BYTE_CAP :: nat where "STALL_EVIDENCE_BYTE_CAP = 512"
definition DIGEST_CHARS :: nat where "DIGEST_CHARS = 12"

lemmas cap_defs = FEEDBACK_BYTE_CAP_def PREVIOUS_SOURCE_BYTE_CAP_def UNSCORABLE_REPLY_BYTE_CAP_def
  STALL_EVIDENCE_BYTE_CAP_def

definition TRUNCATION_MARKER :: pystr where
  "TRUNCATION_MARKER =
    [NL] @ u ''[...truncated]''"

definition PREVIOUS_SOURCE_HEADER :: pystr where
  "PREVIOUS_SOURCE_HEADER =
    u ''## Your previous attempt '' @ [8212] @ u '' the complete file you wrote, scored below.''"

definition REFRAME :: pystr where
  "REFRAME =
    u ''That reply produced no file. Nothing was written and nothing was run, so '' @
    u ''the task stands exactly where it did before you answered. There is nothing '' @
    u ''here to explore and no tool for you to call: every file you are permitted '' @
    u ''to read is already above, and that is all of them. Answer with the implementation '' @
    u ''file itself, framed exactly as the rules above require, and with nothing '' @
    u ''else around it.''"

definition UNSCORABLE_REPLY_HEADER :: pystr where
  "UNSCORABLE_REPLY_HEADER =
    u ''## What you sent back '' @ [8212] @ u '' verbatim, and it is not a file.''"

definition STALL_EVIDENCE_HEADER :: pystr where
  "STALL_EVIDENCE_HEADER =
    u ''## What your file actually does '' @ [8212] @
    u '' the first failure, verbatim from the run.''"

definition FAILING_STATEMENT_MARKER :: pystr where
  "FAILING_STATEMENT_MARKER =
    u ''> ''"

definition FAILURE_DETAIL_MARKER :: pystr where
  "FAILURE_DETAIL_MARKER =
    u ''E ''"

definition SPEC_HEADER :: pystr where
  "SPEC_HEADER =
    u ''## Implementation task''"

definition TARGET_FILE_LABEL :: pystr where
  "TARGET_FILE_LABEL =
    u ''Target file:''"

definition CONTEXT_HEADER :: pystr where
  "CONTEXT_HEADER =
    u ''## Existing files '' @ [8212] @
    u '' read-only, integrate with them, do NOT reimplement or output them.''"

definition TEST_HEADER :: pystr where
  "TEST_HEADER =
    u ''## The test '' @ [8212] @ u '' immutable; do not modify or import it away. Make it pass.''"

definition PLAN_HEADER :: pystr where
  "PLAN_HEADER =
    u ''## Your plan '' @ [8212] @
    u '' you wrote this before implementing; follow it or better it.''"

definition PLAN_REQUEST :: pystr where
  "PLAN_REQUEST =
    u ''Before writing any code, plan the implementation. Name the functions or '' @
    u ''classes the test requires, the data each one holds, and the order you will '' @
    u ''build them in. Work from the test'' @ [39] @ u ''s assertions '' @ [8212] @
    u '' they define what must exist. Be brief and concrete, and write no code: '' @
    u ''this is the approach, and you will be asked for the file itself next.''"

definition REPR_ADDRESS_PLACEHOLDER :: pystr where
  "REPR_ADDRESS_PLACEHOLDER =
    u ''0x<addr>''"

definition NUDGE_1 :: pystr where
  "NUDGE_1 =
    u ''Your last attempt scored no better than the best you have already reached, '' @
    u ''so whatever you changed did not reach the failure. Writing it that way '' @
    u ''again cannot change that. Fix the failure shown directly above: make that '' @
    u ''path produce the value the test expects, and change nothing that already '' @
    u ''passes.''"

definition NUDGE_2 :: pystr where
  "NUDGE_2 =
    u ''You have now failed to improve twice, so narrowing has failed and what '' @
    u ''is wrong is the approach, not a detail inside it. Abandon the structure '' @
    u ''you have been writing. Read the test'' @ [39] @
    u ''s failing assertions in order and build the implementation up from what '' @
    u ''they require '' @ [8212] @ u '' a different shape, not the same one restated.''"

definition NUDGE_LADDER :: "pystr list" where
  "NUDGE_LADDER = [NUDGE_1, NUDGE_2]"

definition PARA :: pystr where "PARA = [NL, NL]"

section \<open>The stable prefix\<close>

record prompt_builder =
  card :: pystr
  card_digest :: pystr

definition mk_builder :: "(bytes \<Rightarrow> pystr) \<Rightarrow> pystr \<Rightarrow> exn + prompt_builder" where
  "mk_builder sha256_hex card_text =
     (let c = rstrip_with (\<lambda>x. x = NL) card_text in
      case utf8_encode c of
        None \<Rightarrow> Inl Unicode_Encode_Error
      | Some bs \<Rightarrow> Inr \<lparr>card = c, card_digest = take DIGEST_CHARS (sha256_hex bs)\<rparr>)"

definition context_section :: "context_file list \<Rightarrow> pystr" where
  "context_section cfs =
     (if cfs = [] then []
      else CONTEXT_HEADER @ PARA @
        concat (map (\<lambda>cf. u ''### '' @ cf_path cf @ PARA @ cf_content cf @ PARA) cfs))"

definition plan_section :: "pystr \<Rightarrow> pystr" where
  "plan_section plan = (if plan = [] then [] else [NL] @ PLAN_HEADER @ PARA @ plan @ [NL])"

definition stable_prefix :: "prompt_builder \<Rightarrow> task_spec \<Rightarrow> pystr \<Rightarrow> pystr" where
  "stable_prefix pb spec plan =
     card pb @ PARA @ SPEC_HEADER @ [NL] @ TARGET_FILE_LABEL @ u '' '' @ impl_path spec @ PARA
     @ spec_text spec @ PARA @ context_section (context_files spec)
     @ TEST_HEADER @ PARA @ test_text spec @ [NL] @ plan_section plan"

definition nudge_for :: "nat \<Rightarrow> pystr option" where
  "nudge_for stall_count =
     (if stall_count < 1 \<or> stall_count > length NUDGE_LADDER then None
      else Some (NUDGE_LADDER ! (stall_count - 1)))"

section \<open>Byte caps\<close>

definition cap_bytes :: "pystr \<Rightarrow> nat \<Rightarrow> exn + pystr" where
  "cap_bytes t cap =
     (case utf8_encode t of
        None \<Rightarrow> Inl Unicode_Encode_Error
      | Some bs \<Rightarrow>
          if length bs \<le> cap then Inr t
          else Inr (decode_ignore (take (cap - length (utf8_bytes TRUNCATION_MARKER)) bs)
                    @ TRUNCATION_MARKER))"

definition reframe_for :: "pystr \<Rightarrow> exn + pystr" where
  "reframe_for raw_output =
     bindE (cap_bytes raw_output UNSCORABLE_REPLY_BYTE_CAP) (\<lambda>shown.
       Inr (UNSCORABLE_REPLY_HEADER @ PARA @ shown @ PARA @ REFRAME))"

section \<open>Run facts\<close>

text \<open>\<open>re.sub\<close>: a matcher sees the text before the position, reversed, and the text from it, and
  answers with the positive length it matches.\<close>

function re_sub :: "(pystr \<Rightarrow> pystr \<Rightarrow> nat option) \<Rightarrow> pystr \<Rightarrow> pystr \<Rightarrow> pystr \<Rightarrow> pystr" where
  "re_sub m r before [] = []"
| "re_sub m r before (c # cs) =
     (case m before (c # cs) of
        None \<Rightarrow> c # re_sub m r (c # before) cs
      | Some n \<Rightarrow> r @ re_sub m r (rev (take n (c # cs)) @ before) (drop (n - 1) cs))"
  by pat_completeness auto
termination by (relation "measure (\<lambda>(m, r, b, s). length s)") auto

declare re_sub.simps(2) [simp del]

text \<open>\<open>(?:^|(?<=\s)|(?<=[(=]))/(?:[^/\s:()]+/)+\<close>, multi-line.\<close>

definition path_char :: "nat \<Rightarrow> bool" where
  "path_char c \<longleftrightarrow> c \<noteq> 47 \<and> \<not> is_space c \<and> c \<noteq> 58 \<and> c \<noteq> 40 \<and> c \<noteq> 41"

function path_segments :: "pystr \<Rightarrow> nat" where
  "path_segments s =
     (let seg = takeWhile path_char s; r = dropWhile path_char s in
      if seg \<noteq> [] \<and> r \<noteq> [] \<and> hd r = 47
      then length seg + 1 + path_segments (tl r) else 0)"
  by pat_completeness auto
termination
proof (relation "measure length", simp)
  fix s :: pystr and x r
  assume "x = takeWhile path_char s" "r = dropWhile path_char s" "x \<noteq> [] \<and> r \<noteq> [] \<and> hd r = 47"
  then have "length (tl r) < length r" "length r \<le> length s" by (auto simp: length_dropWhile_le)
  then show "(tl r, s) \<in> measure length" by simp
qed

declare path_segments.simps [simp del]

definition match_abs_path :: "pystr \<Rightarrow> pystr \<Rightarrow> nat option" where
  "match_abs_path before s =
     (case s of
        [] \<Rightarrow> None
      | c # cs \<Rightarrow>
          if c = 47 \<and> (before = [] \<or> is_space (hd before) \<or> hd before = 40 \<or> hd before = 61)
             \<and> path_segments cs > 0
          then Some (1 + path_segments cs) else None)"

text \<open>\<open>(?<= )in \d+(?:\.\d+)?s(?: \(\d+:\d{2}:\d{2}\))?(?= *=)\<close>.\<close>

definition footer_ahead :: "pystr \<Rightarrow> bool" where
  "footer_ahead s = (let r = dropWhile (\<lambda>c. c = 32) s in r \<noteq> [] \<and> hd r = 61)"

definition clock_group :: "pystr \<Rightarrow> nat option" where
  "clock_group s =
     (if startswith s (u '' ('') then
        (let hs = takeWhile is_digit (drop 2 s); r = drop (2 + length hs) s in
         case r of
           a # b # c # d # e # f # g # _ \<Rightarrow>
             if hs \<noteq> [] \<and> a = 58 \<and> is_digit b \<and> is_digit c \<and> d = 58 \<and> is_digit e \<and> is_digit f
                \<and> g = 41
             then Some (9 + length hs) else None
         | _ \<Rightarrow> None)
      else None)"

definition seconds_len :: "pystr \<Rightarrow> nat option" where
  "seconds_len s =
     (let w = takeWhile is_digit s; r = drop (length w) s;
          f = (if startswith r [46] then takeWhile is_digit (drop 1 r) else []);
          n = (if f = [] then length w else length w + 1 + length f)
      in if w \<noteq> [] \<and> startswith (drop n s) (u ''s'') then Some (n + 1) else None)"

definition match_duration :: "pystr \<Rightarrow> pystr \<Rightarrow> nat option" where
  "match_duration before s =
     (if startswith before (u '' '') \<and> startswith s (u ''in '') then
        (case seconds_len (drop 3 s) of
           None \<Rightarrow> None
         | Some n \<Rightarrow>
             (let m = 3 + n; plain = (if footer_ahead (drop m s) then Some m else None) in
              case clock_group (drop m s) of
                None \<Rightarrow> plain
              | Some g \<Rightarrow> if footer_ahead (drop (m + g) s) then Some (m + g) else plain))
      else None)"

text \<open>\<open>(?<= at )0x[0-9a-fA-F]+(?=>)\<close>.\<close>

definition is_hex :: "nat \<Rightarrow> bool" where
  "is_hex c \<longleftrightarrow> is_digit c \<or> (97 \<le> c \<and> c \<le> 102) \<or> (65 \<le> c \<and> c \<le> 70)"

definition match_address :: "pystr \<Rightarrow> pystr \<Rightarrow> nat option" where
  "match_address before s =
     (if startswith before (rev (u '' at '')) \<and> startswith s (u ''0x'') then
        (let h = takeWhile is_hex (drop 2 s) in
         if h \<noteq> [] \<and> startswith (drop (2 + length h) s) [62] then Some (2 + length h) else None)
      else None)"

definition strip_run_facts :: "pystr \<Rightarrow> pystr" where
  "strip_run_facts raw_output =
     (let without_paths = re_sub match_abs_path [] [] raw_output;
          without_durations = re_sub match_duration [] [] without_paths
      in re_sub match_address REPR_ADDRESS_PLACEHOLDER [] without_durations)"

section \<open>The repair brief\<close>

definition score_header :: "test_score \<Rightarrow> pystr" where
  "score_header s =
     u ''Result: '' @ str_int (passed s) @ u ''/'' @ str_int (expected s) @ u '' passed, ''
     @ str_int (failed s) @ u '' failed, '' @ str_int (errors s) @ u '' errored; collected ''
     @ str_int (collected s) @ u '' of '' @ str_int (expected s) @ u ''. ''
     @ u ''Make the failing tests pass without modifying the test file.''"

definition failing_node_ids :: "pystr \<Rightarrow> pystr" where
  "failing_node_ids t =
     join [NL] (filter (\<lambda>l. startswith l (u ''FAILED'') \<or> startswith l (u ''ERROR''))
                 (splitlines t))"

definition last_lines :: "pystr \<Rightarrow> nat \<Rightarrow> pystr" where
  "last_lines t count =
     (let ls = splitlines t in join [NL] (drop (length ls - count) ls))"

definition failure_brief :: "test_score \<Rightarrow> pystr \<Rightarrow> exn + pystr" where
  "failure_brief s raw_output =
     (let stripped = strip_run_facts raw_output;
          node_ids = failing_node_ids stripped;
          tail0 = last_lines stripped FEEDBACK_TAIL_LINES;
          tail = (if node_ids = [] then tail0
                  else join [NL] (filter (\<lambda>l. l \<notin> set (splitlines node_ids)) (splitlines tail0)));
          sections = [score_header s] @ (if node_ids = [] then [] else [node_ids])
                     @ (if strip tail = [] then [] else [tail])
      in cap_bytes (join PARA sections) FEEDBACK_BYTE_CAP)"

definition first_failure_evidence :: "pystr \<Rightarrow> pystr" where
  "first_failure_evidence t =
     (let ls = splitlines t; is_detail = (\<lambda>l. startswith l FAILURE_DETAIL_MARKER);
          before = takeWhile (\<lambda>l. \<not> is_detail l) ls; from = dropWhile (\<lambda>l. \<not> is_detail l) ls in
      if from = [] then []
      else let detail = takeWhile is_detail from;
               statement = (case find (\<lambda>l. startswith l FAILING_STATEMENT_MARKER) (rev before) of
                              None \<Rightarrow> [] | Some l \<Rightarrow> l)
           in join [NL] (filter (\<lambda>l. l \<noteq> []) (statement # detail)))"

definition stall_escalation :: "pystr \<Rightarrow> pystr \<Rightarrow> exn + pystr" where
  "stall_escalation nudge raw_output =
     (let evidence = first_failure_evidence (strip_run_facts raw_output) in
      if evidence = [] then Inr nudge
      else bindE (cap_bytes evidence STALL_EVIDENCE_BYTE_CAP) (\<lambda>capped.
             Inr (STALL_EVIDENCE_HEADER @ PARA @ capped @ PARA @ nudge)))"

definition distill_feedback ::
  "test_score \<Rightarrow> pystr \<Rightarrow> pystr \<Rightarrow> pystr \<Rightarrow> exn + pystr" where
  "distill_feedback s raw_output previous_source nudge =
     bindE (if previous_source = [] then Inr []
            else bindE (cap_bytes previous_source PREVIOUS_SOURCE_BYTE_CAP) (\<lambda>shown.
                   Inr [PREVIOUS_SOURCE_HEADER @ PARA @ shown]))
       (\<lambda>source_part.
          bindE (failure_brief s raw_output) (\<lambda>brief.
            bindE (if nudge = [] then Inr []
                   else bindE (stall_escalation nudge raw_output) (\<lambda>e. Inr [e]))
              (\<lambda>nudge_part. Inr (join PARA (source_part @ [brief] @ nudge_part)))))"

section \<open>Lemmas: caps and encodability\<close>

lemma utf8_encode_Some: "encodable t \<Longrightarrow> utf8_encode t = Some (utf8_bytes t)"
  by (simp add: utf8_encode_def)

lemma marker_encodable: "encodable TRUNCATION_MARKER"
  by (simp add: encodable_def TRUNCATION_MARKER_def u_def is_scalar_def)

lemma marker_length: "length (utf8_bytes TRUNCATION_MARKER) = 15"
  by (simp add: utf8_bytes_def TRUNCATION_MARKER_def u_def encode_cp_def encode_nat_def)

lemma cap_bytes_result:
  assumes "encodable t" and "15 \<le> cap"
  shows "\<exists>r. cap_bytes t cap = Inr r \<and> encodable r \<and> length (utf8_bytes r) \<le> cap
    \<and> (if length (utf8_bytes t) \<le> cap then r = t else \<exists>n. r = take n t @ TRUNCATION_MARKER)"
proof (cases "length (utf8_bytes t) \<le> cap")
  case True
  with assms show ?thesis by (simp add: cap_bytes_def utf8_encode_Some)
next
  case False
  obtain n where n: "decode_ignore (take (cap - 15) (utf8_bytes t)) = take n t"
    "length (utf8_bytes (take n t)) \<le> cap - 15"
    using decode_ignore_take [OF assms(1)] by blast
  have "cap_bytes t cap = Inr (take n t @ TRUNCATION_MARKER)"
    using False assms(1) n(1) by (simp add: cap_bytes_def utf8_encode_Some marker_length)
  moreover have "length (utf8_bytes (take n t @ TRUNCATION_MARKER)) \<le> cap"
    using n(2) assms(2) by (simp add: utf8_bytes_append marker_length)
  moreover have "encodable (take n t @ TRUNCATION_MARKER)"
    using encodable_take [OF assms(1)] marker_encodable by simp
  ultimately show ?thesis using False by auto
qed

lemma cap_bytes_error: "cap_bytes t cap = Inl e \<longleftrightarrow> \<not> encodable t \<and> e = Unicode_Encode_Error"
  by (auto simp: cap_bytes_def utf8_encode_def split: if_splits)

lemma encodable_iff: "encodable t \<longleftrightarrow> (\<forall>c\<in>set t. is_scalar c)"
  by (simp add: encodable_def list_all_iff)

lemma set_re_sub: "set (re_sub m r before s) \<subseteq> set r \<union> set s"
proof (induction m r before s rule: re_sub.induct)
  case (1 m r before)
  show ?case by simp
next
  case (2 m r before c cs)
  show ?case
  proof (cases "m before (c # cs)")
    case None
    with 2 show ?thesis by (auto simp: re_sub.simps(2))
  next
    case (Some n)
    have "set (drop (n - 1) cs) \<subseteq> set cs" by (rule set_drop_subset)
    with 2 Some show ?thesis by (auto simp: re_sub.simps(2))
  qed
qed

lemma strip_encodable: "encodable t \<Longrightarrow> encodable (strip_run_facts t)"
proof -
  assume a: "encodable t"
  have p: "\<forall>c\<in>set REPR_ADDRESS_PLACEHOLDER. is_scalar c"
    by (simp add: REPR_ADDRESS_PLACEHOLDER_def u_def is_scalar_def)
  have "set (strip_run_facts t) \<subseteq> set REPR_ADDRESS_PLACEHOLDER \<union> set t"
    unfolding strip_run_facts_def Let_def
    using set_re_sub [of match_address REPR_ADDRESS_PLACEHOLDER "[]"
        "re_sub match_duration [] [] (re_sub match_abs_path [] [] t)"]
      set_re_sub [of match_duration "[]" "[]" "re_sub match_abs_path [] [] t"]
      set_re_sub [of match_abs_path "[]" "[]" t] by auto
  with a p show ?thesis unfolding encodable_iff by blast
qed

lemma set_splitlines_acc: "l \<in> set (splitlines_acc acc s) \<Longrightarrow> set l \<subseteq> set acc \<union> set s"
proof (induction acc s arbitrary: l rule: splitlines_acc.induct)
  case (1 acc)
  then show ?case by (auto split: if_splits)
next
  case (2 acc c)
  then show ?case by (auto split: if_splits)
next
  case (3 acc c d cs)
  then show ?case by (fastforce split: if_splits)
qed

lemma splitlines_encodable: "encodable t \<Longrightarrow> l \<in> set (splitlines t) \<Longrightarrow> encodable l"
  using set_splitlines_acc [of l "[]" t] unfolding splitlines_def encodable_iff by auto

lemma join_encodable:
  "encodable sep \<Longrightarrow> \<forall>l\<in>set ls. encodable l \<Longrightarrow> encodable (join sep ls)"
  by (induction sep ls rule: join.induct) (simp_all add: encodable_def)

lemma nl_encodable: "encodable [NL]" "encodable PARA" "encodable []"
  by (simp_all add: encodable_def is_scalar_def PARA_def)

lemma filter_lines_encodable:
  "\<forall>l\<in>set ls. encodable l \<Longrightarrow> encodable (join [NL] (filter P ls))"
  by (rule join_encodable [OF nl_encodable(1)]) auto

lemma str_int_encodable: "encodable (str_int i)"
  using dec_digits_range
  by (force simp: str_int_def encodable_iff is_scalar_def u_def)

lemma u_encodable: "\<forall>c\<in>set s. of_char c < (128::nat) \<Longrightarrow> encodable (u s)"
  by (auto simp: encodable_iff u_def is_scalar_def)

lemma score_header_encodable: "encodable (score_header s)"
  by (simp add: score_header_def str_int_encodable)
     (simp add: encodable_iff u_def is_scalar_def)

lemma failing_node_ids_encodable: "encodable t \<Longrightarrow> encodable (failing_node_ids t)"
  unfolding failing_node_ids_def by (rule filter_lines_encodable) (auto dest: splitlines_encodable)

lemma last_lines_encodable: "encodable t \<Longrightarrow> encodable (last_lines t n)"
  unfolding last_lines_def Let_def
  by (rule join_encodable [OF nl_encodable(1)])
     (auto dest: splitlines_encodable in_set_dropD)

lemma failure_brief_result:
  assumes "encodable out"
  shows "\<exists>r. failure_brief s out = Inr r \<and> encodable r \<and> length (utf8_bytes r) \<le> FEEDBACK_BYTE_CAP"
proof -
  let ?st = "strip_run_facts out"
  have st: "encodable ?st" by (rule strip_encodable [OF assms])
  define ids where "ids = failing_node_ids ?st"
  define tail where "tail = (if ids = [] then last_lines ?st FEEDBACK_TAIL_LINES
    else join [NL] (filter (\<lambda>l. l \<notin> set (splitlines ids))
           (splitlines (last_lines ?st FEEDBACK_TAIL_LINES))))"
  have ids: "encodable ids" unfolding ids_def by (rule failing_node_ids_encodable [OF st])
  have tl: "encodable tail"
  proof (cases "ids = []")
    case True
    then show ?thesis using last_lines_encodable [OF st] by (simp add: tail_def)
  next
    case False
    have "\<forall>l\<in>set (splitlines (last_lines ?st FEEDBACK_TAIL_LINES)). encodable l"
      using splitlines_encodable [OF last_lines_encodable [OF st]] by blast
    with False show ?thesis using filter_lines_encodable by (simp add: tail_def)
  qed
  have "encodable (join PARA ([score_header s] @ (if ids = [] then [] else [ids])
      @ (if strip tail = [] then [] else [tail])))"
    by (rule join_encodable [OF nl_encodable(2)]) (auto simp: ids tl score_header_encodable)
  from cap_bytes_result [OF this, of FEEDBACK_BYTE_CAP] show ?thesis
    unfolding failure_brief_def Let_def ids_def [symmetric] tail_def [symmetric]
    by (auto simp: FEEDBACK_BYTE_CAP_def)
qed

lemma find_in_set: "find P xs = Some x \<Longrightarrow> x \<in> set xs"
  by (induction xs) (auto split: if_splits)

lemma evidence_encodable: "encodable t \<Longrightarrow> encodable (first_failure_evidence t)"
proof -
  assume a: "encodable t"
  let ?ls = "splitlines t" and ?is = "\<lambda>l. startswith l FAILURE_DETAIL_MARKER"
  define before where "before = takeWhile (\<lambda>l. \<not> ?is l) ?ls"
  define detail where "detail = takeWhile ?is (dropWhile (\<lambda>l. \<not> ?is l) ?ls)"
  define statement where "statement =
    (case find (\<lambda>l. startswith l FAILING_STATEMENT_MARKER) (rev before) of None \<Rightarrow> [] | Some l \<Rightarrow> l)"
  have sub: "l \<in> set ?ls \<Longrightarrow> encodable l" for l by (rule splitlines_encodable [OF a])
  have "statement = [] \<or> statement \<in> set before"
    using find_in_set [of _ "rev before"]
    by (auto simp: statement_def split: option.splits)
  moreover have "set before \<subseteq> set ?ls" "set detail \<subseteq> set ?ls"
    by (auto simp: before_def detail_def dest!: set_takeWhileD set_dropWhileD)
  ultimately have "\<forall>l\<in>set (statement # detail). encodable l"
    using sub nl_encodable(3) by auto
  then have "encodable (join [NL] (filter (\<lambda>l. l \<noteq> []) (statement # detail)))"
    by (rule filter_lines_encodable)
  then show ?thesis
    using nl_encodable(3)
    by (simp add: first_failure_evidence_def Let_def before_def [symmetric] statement_def [symmetric]
        detail_def [symmetric])
qed

lemma constants_encodable:
  "encodable PREVIOUS_SOURCE_HEADER" "encodable STALL_EVIDENCE_HEADER" "encodable NUDGE_1"
  "encodable NUDGE_2" "encodable UNSCORABLE_REPLY_HEADER" "encodable REFRAME"
  by (simp_all add: PREVIOUS_SOURCE_HEADER_def STALL_EVIDENCE_HEADER_def NUDGE_1_def NUDGE_2_def
      UNSCORABLE_REPLY_HEADER_def REFRAME_def)
     (simp_all add: encodable_iff u_def is_scalar_def)

lemma nudge_encodable: "nudge_for k = Some n \<Longrightarrow> encodable n \<and> n \<noteq> []"
  by (auto simp: nudge_for_def NUDGE_LADDER_def constants_encodable less_Suc_eq nth_Cons'
      split: if_splits) (simp_all add: NUDGE_1_def NUDGE_2_def u_def)

lemma stall_escalation_result:
  assumes "encodable nudge" and "encodable out"
  shows "\<exists>r. stall_escalation nudge out = Inr r \<and> encodable r
    \<and> (\<exists>p. r = p @ nudge) \<and> length (utf8_bytes r) \<le>
        length (utf8_bytes STALL_EVIDENCE_HEADER) + 4 + STALL_EVIDENCE_BYTE_CAP
          + length (utf8_bytes nudge)"
proof (cases "first_failure_evidence (strip_run_facts out) = []")
  case True
  with assms(1) show ?thesis by (auto simp: stall_escalation_def Let_def)
next
  case False
  have "encodable (first_failure_evidence (strip_run_facts out))"
    by (rule evidence_encodable [OF strip_encodable [OF assms(2)]])
  from cap_bytes_result [OF this, of STALL_EVIDENCE_BYTE_CAP] obtain c where
    c: "cap_bytes (first_failure_evidence (strip_run_facts out)) STALL_EVIDENCE_BYTE_CAP = Inr c"
      "encodable c" "length (utf8_bytes c) \<le> STALL_EVIDENCE_BYTE_CAP"
    by (auto simp: STALL_EVIDENCE_BYTE_CAP_def)
  have "length (utf8_bytes PARA) = 2"
    by (simp add: PARA_def utf8_bytes_def encode_cp_def encode_nat_def)
  with False c assms(1) show ?thesis
    by (auto simp: stall_escalation_def Let_def utf8_bytes_append constants_encodable nl_encodable)
qed

lemma distill_total:
  assumes "encodable out" and "encodable src" and "encodable nudge"
  shows "\<exists>r brief. distill_feedback sc out src nudge = Inr r \<and> encodable r
    \<and> failure_brief sc out = Inr brief
    \<and> length (utf8_bytes r) \<le> length (utf8_bytes PREVIOUS_SOURCE_HEADER)
        + PREVIOUS_SOURCE_BYTE_CAP + FEEDBACK_BYTE_CAP
        + length (utf8_bytes STALL_EVIDENCE_HEADER) + STALL_EVIDENCE_BYTE_CAP
        + length (utf8_bytes nudge) + 10
    \<and> (\<exists>p s. r = p @ brief @ s) \<and> (\<exists>p. nudge = [] \<or> r = p @ nudge)"
proof -
  have pl: "length (utf8_bytes PARA) = 2"
    by (simp add: PARA_def utf8_bytes_def encode_cp_def encode_nat_def)
  obtain b where b: "failure_brief sc out = Inr b" "encodable b"
    "length (utf8_bytes b) \<le> FEEDBACK_BYTE_CAP"
    using failure_brief_result [OF assms(1)] by blast
  obtain e where e: "stall_escalation nudge out = Inr e" "encodable e" "\<exists>p. e = p @ nudge"
    "length (utf8_bytes e) \<le> length (utf8_bytes STALL_EVIDENCE_HEADER) + 4
        + STALL_EVIDENCE_BYTE_CAP + length (utf8_bytes nudge)"
    using stall_escalation_result [OF assms(3,1)] by blast
  obtain c where c: "cap_bytes src PREVIOUS_SOURCE_BYTE_CAP = Inr c" "encodable c"
    "length (utf8_bytes c) \<le> PREVIOUS_SOURCE_BYTE_CAP"
    using cap_bytes_result [OF assms(2), of PREVIOUS_SOURCE_BYTE_CAP]
    by (auto simp: PREVIOUS_SOURCE_BYTE_CAP_def)
  define sp where "sp = (if src = [] then [] else [PREVIOUS_SOURCE_HEADER @ PARA @ c])"
  define np where "np = (if nudge = [] then [] else [e])"
  have d: "distill_feedback sc out src nudge = Inr (join PARA (sp @ [b] @ np))"
    using b(1) c(1) e(1) by (simp add: distill_feedback_def sp_def np_def)
  have "encodable (join PARA (sp @ [b] @ np))"
    by (rule join_encodable [OF nl_encodable(2)])
       (auto simp: sp_def np_def b c e constants_encodable nl_encodable)
  moreover have "join PARA (sp @ [b] @ np) =
      (if src = [] then [] else PREVIOUS_SOURCE_HEADER @ PARA @ c @ PARA) @ b
      @ (if nudge = [] then [] else PARA @ e)"
    by (simp add: sp_def np_def)
  moreover from this have "length (utf8_bytes (join PARA (sp @ [b] @ np))) \<le>
      length (utf8_bytes PREVIOUS_SOURCE_HEADER)
        + PREVIOUS_SOURCE_BYTE_CAP + FEEDBACK_BYTE_CAP
        + length (utf8_bytes STALL_EVIDENCE_HEADER) + STALL_EVIDENCE_BYTE_CAP
        + length (utf8_bytes nudge) + 10"
    using b(3) c(3) e(4) pl by (simp add: utf8_bytes_append)
  moreover have "\<exists>p. nudge = [] \<or> join PARA (sp @ [b] @ np) = p @ nudge"
  proof (cases "nudge = []")
    case False
    from e(3) obtain p where "e = p @ nudge" by blast
    with False calculation(2) show ?thesis
      by (intro exI [of _ "(if src = [] then [] else PREVIOUS_SOURCE_HEADER @ PARA @ c @ PARA)
        @ b @ PARA @ p"]) simp
  qed simp
  moreover have "\<exists>p s. join PARA (sp @ [b] @ np) = p @ b @ s" using calculation(2) by blast
  ultimately show ?thesis using d b(1) by blast
qed

section \<open>Properties\<close>

text \<open>C30. The repair brief of a run that can be encoded always exists and stays bounded, whatever
  the size of the test output or of the previous file: at most 13,000 bytes (12,800 for the three
  capped sections, the rest for headers and separators) and the nudge; it ends with the nudge, when
  one is owed, and contains the failure brief whole.\<close>

theorem repair_brief_total_and_bounded:
  assumes "encodable out" and "encodable src" and "nudge_for k = Some nudge \<or> nudge = []"
  shows "\<exists>r brief. distill_feedback sc out src nudge = Inr r \<and> encodable r
    \<and> length (utf8_bytes r) \<le> 13000 + length (utf8_bytes nudge)
    \<and> failure_brief sc out = Inr brief \<and> (\<exists>p s. r = p @ brief @ s)
    \<and> (\<exists>p. r = p @ nudge)"
proof -
  have "encodable nudge" using assms(3) nudge_encodable nl_encodable(3) by auto
  from distill_total [OF assms(1,2) this, of sc] obtain r brief where
    r: "distill_feedback sc out src nudge = Inr r" "encodable r" "failure_brief sc out = Inr brief"
      "length (utf8_bytes r) \<le> length (utf8_bytes PREVIOUS_SOURCE_HEADER)
        + PREVIOUS_SOURCE_BYTE_CAP + FEEDBACK_BYTE_CAP
        + length (utf8_bytes STALL_EVIDENCE_HEADER) + STALL_EVIDENCE_BYTE_CAP
        + length (utf8_bytes nudge) + 10"
      "\<exists>p s. r = p @ brief @ s" "\<exists>p. nudge = [] \<or> r = p @ nudge" by blast
  have "length (utf8_bytes PREVIOUS_SOURCE_HEADER) \<le> 80" "length (utf8_bytes STALL_EVIDENCE_HEADER) \<le> 80"
    by (simp_all add: PREVIOUS_SOURCE_HEADER_def STALL_EVIDENCE_HEADER_def utf8_bytes_def u_def
        encode_cp_def encode_nat_def)
  with r(4) have "length (utf8_bytes r) \<le> 13000 + length (utf8_bytes nudge)"
    by (simp add: cap_defs)
  moreover have "\<exists>p. r = p @ nudge" using r(6) by auto
  ultimately show ?thesis using r by blast
qed

theorem repair_brief_total_and_bounded_witness:
  "\<exists>r. distill_feedback (zero_score 3) (u ''E assert 1'') (u ''x = 1'') NUDGE_1 = Inr r
     \<and> (\<exists>p. r = p @ NUDGE_1)"
proof -
  have e: "encodable (u ''E assert 1'')" "encodable (u ''x = 1'')"
    by (simp_all add: encodable_iff u_def is_scalar_def)
  have n: "nudge_for 1 = Some NUDGE_1" by (simp add: nudge_for_def NUDGE_LADDER_def)
  show ?thesis
    using repair_brief_total_and_bounded [OF e disjI1 [OF n], of "zero_score 3"] by blast
qed

text \<open>The plan call warms the attempts' cache: the prefix sent with no plan is a strict prefix
  of the one sent with the frozen plan, in bytes as well as in characters, and both carry the
  immutable test.\<close>

theorem plan_prefix_is_strict:
  assumes "plan \<noteq> []"
  shows "\<exists>s. s \<noteq> [] \<and> stable_prefix pb spec plan = stable_prefix pb spec [] @ s
    \<and> utf8_bytes (stable_prefix pb spec plan) = utf8_bytes (stable_prefix pb spec []) @ utf8_bytes s
    \<and> occurs_in (test_text spec) (stable_prefix pb spec [])"
proof (intro exI conjI)
  show "plan_section plan \<noteq> []" using assms by (simp add: plan_section_def)
  show p: "stable_prefix pb spec plan = stable_prefix pb spec [] @ plan_section plan"
    by (simp add: stable_prefix_def plan_section_def)
  show "utf8_bytes (stable_prefix pb spec plan)
      = utf8_bytes (stable_prefix pb spec []) @ utf8_bytes (plan_section plan)"
    unfolding p by (rule utf8_bytes_append)
  show "occurs_in (test_text spec) (stable_prefix pb spec [])"
    unfolding occurs_in_iff stable_prefix_def
    by (intro exI [of _ "card pb @ PARA @ SPEC_HEADER @ [NL] @ TARGET_FILE_LABEL @ u '' '' @
        impl_path spec @ PARA @ spec_text spec @ PARA @ context_section (context_files spec)
        @ TEST_HEADER @ PARA"] exI [of _ "[NL] @ plan_section []"]) simp
qed

definition sample_task :: task_spec where
  "sample_task = \<lparr>impl_path = u ''src/a.py'', spec_text = u ''spec'', test_text = u ''assert 1'',
     expected_tests = 1, task_budget = \<lparr>max_attempts = 4, max_tokens = 1000,
     generation_timeout_s = Fin 60, oracle_timeout_s = Fin 10\<rparr>, context_files = [],
     plan_first = False\<rparr>"

theorem plan_prefix_is_strict_witness:
  "\<exists>s. s \<noteq> [] \<and> stable_prefix \<lparr>card = u ''card'', card_digest = []\<rparr> sample_task (u ''plan'')
     = stable_prefix \<lparr>card = u ''card'', card_digest = []\<rparr> sample_task [] @ s"
proof -
  have "u ''plan'' \<noteq> []" by (simp add: u_def)
  from plan_prefix_is_strict [OF this, of "\<lparr>card = u ''card'', card_digest = []\<rparr>" sample_task]
  show ?thesis by blast
qed

text \<open>A reply with no file is quoted back bounded and whole-charactered, except that a reply
  holding an unpaired surrogate, which JSON can deliver, raises the encoding error instead of
  being corrected.\<close>

theorem reframe_outcomes:
  "(encodable reply \<longrightarrow> (\<exists>shown. reframe_for reply =
        Inr (UNSCORABLE_REPLY_HEADER @ PARA @ shown @ PARA @ REFRAME)
      \<and> length (utf8_bytes shown) \<le> 512
      \<and> (shown = reply \<or> (\<exists>n. shown = take n reply @ TRUNCATION_MARKER))))
   \<and> (\<not> encodable reply \<longrightarrow> reframe_for reply = Inl Unicode_Encode_Error)
   \<and> json_loads (u ''\"'' @ [92] @ u ''ud800\"'') = Inr (JStr [55296]) \<and> \<not> encodable [55296]"
proof (intro conjI impI)
  assume "encodable reply"
  from cap_bytes_result [OF this, of UNSCORABLE_REPLY_BYTE_CAP]
  show "\<exists>shown. reframe_for reply = Inr (UNSCORABLE_REPLY_HEADER @ PARA @ shown @ PARA @ REFRAME)
      \<and> length (utf8_bytes shown) \<le> 512
      \<and> (shown = reply \<or> (\<exists>n. shown = take n reply @ TRUNCATION_MARKER))"
    by (auto simp: reframe_for_def UNSCORABLE_REPLY_BYTE_CAP_def split: if_splits)
next
  assume "\<not> encodable reply"
  then show "reframe_for reply = Inl Unicode_Encode_Error"
    by (simp add: reframe_for_def cap_bytes_def utf8_encode_def)
next
  show "json_loads (u ''\"'' @ [92] @ u ''ud800\"'') = Inr (JStr [55296])" by code_simp
  show "\<not> encodable [55296]" by (simp add: encodable_iff is_scalar_def)
qed

theorem reframe_outcomes_witness:
  "reframe_for [55296] = Inl Unicode_Encode_Error
   \<and> (\<exists>shown. reframe_for (u ''hi'') = Inr (UNSCORABLE_REPLY_HEADER @ PARA @ shown @ PARA @ REFRAME))"
  using reframe_outcomes [of "[55296]"] reframe_outcomes [of "u ''hi''"]
  by (auto simp: encodable_iff u_def is_scalar_def)

end
