(* ===== verification/Telemetry.thy ===== *)
theory Telemetry
  imports Client Filesystem
begin

text \<open>
  The local economy record of \<open>src/claude_local/telemetry.py\<close>: aggregation of a run's timeline, the
  model slug and the file a record is written to.  The clock of \<open>write\<close> and the rendering of
  \<open>json.dumps\<close> are parameters.
\<close>

section \<open>The slug\<close>

definition safe_char :: "nat \<Rightarrow> bool" where
  "safe_char c \<longleftrightarrow> (65 \<le> c \<and> c \<le> 90) \<or> (97 \<le> c \<and> c \<le> 122) \<or> (48 \<le> c \<and> c \<le> 57)
     \<or> c = 46 \<or> c = 95 \<or> c = 45"

text \<open>Every maximal run of unsafe characters becomes one dash.\<close>

fun collapse :: "bool \<Rightarrow> pystr \<Rightarrow> pystr" where
  "collapse inside [] = []"
| "collapse inside (c # cs) =
     (if safe_char c then c # collapse False cs
      else if inside then collapse True cs
      else 45 # collapse True cs)"

definition strip_dashes :: "pystr \<Rightarrow> pystr" where
  "strip_dashes s = rstrip_with (\<lambda>c. c = 45) (dropWhile (\<lambda>c. c = 45) s)"

definition slug_model_id :: "pystr \<Rightarrow> pystr" where
  "slug_model_id model = strip_dashes (collapse False model)"

section \<open>The record\<close>

record economy_record =
  er_model :: pystr
  er_digest :: pystr
  er_plan_first :: bool
  er_total_calls :: nat
  er_tokens :: int
  er_seconds :: rat
  er_mean :: "rat option"
  er_estimated :: bool
  er_length_capped :: nat
  er_status :: status
  er_attempts :: nat

definition from_run ::
  "pystr \<Rightarrow> pystr \<Rightarrow> bool \<Rightarrow> generation_result list \<Rightarrow> nat \<Rightarrow> nat \<Rightarrow> status \<Rightarrow> economy_record" where
  "from_run model digest plan results calls attempts st =
     (let tokens = sum_list (map completion_tokens results);
          seconds = sum_list (map r_seconds results)
      in \<lparr>er_model = model, er_digest = digest, er_plan_first = plan, er_total_calls = calls,
          er_tokens = tokens, er_seconds = seconds,
          er_mean = mean_tokens_per_second tokens seconds,
          er_estimated = list_ex tokens_estimated results,
          er_length_capped = length (filter is_length_capped results),
          er_status = st, er_attempts = attempts\<rparr>)"

definition record_name :: "economy_record \<Rightarrow> nat \<Rightarrow> pystr" where
  "record_name r millis = slug_model_id (er_model r) @ u ''-'' @ str_nat millis @ u ''.json''"

text \<open>\<open>_as_dict\<close>: the JSON-ready mapping; the status becomes its value.\<close>

definition as_dict :: "economy_record \<Rightarrow> (pystr \<times> json) list" where
  "as_dict r =
     [(u ''model'', JStr (er_model r)), (u ''rules_card_digest'', JStr (er_digest r)),
      (u ''plan_first'', JBool (er_plan_first r)), (u ''total_calls'', JInt (int (er_total_calls r))),
      (u ''total_completion_tokens'', JInt (er_tokens r)),
      (u ''total_model_seconds'', JFloat (Fin (er_seconds r))),
      (u ''mean_tokens_per_second'', case er_mean r of None \<Rightarrow> JNull | Some m \<Rightarrow> JFloat (Fin m)),
      (u ''tokens_estimated'', JBool (er_estimated r)),
      (u ''length_capped'', JInt (int (er_length_capped r))),
      (u ''status'', JStr (status_value (er_status r))), (u ''attempts'', JInt (int (er_attempts r)))]"

definition write_record ::
  "(json \<Rightarrow> pystr) \<Rightarrow> nat \<Rightarrow> economy_record \<Rightarrow> path \<Rightarrow> fs \<Rightarrow> exn + path \<times> fs" where
  "write_record dumps millis r directory fs =
     bindE (mkdirs fs directory) (\<lambda>fs1.
       (let p = directory @ [record_name r millis] in
        bindE (write_text fs1 p (dumps (JObj (as_dict r)))) (\<lambda>fs2. Inr (p, fs2))))"

section \<open>Nothing is lost in the mapping\<close>

lemma status_value_inject: "status_value s = status_value t \<longleftrightarrow> s = t"
  by (cases s; cases t; simp add: status_value_def u_def)

lemma as_dict_inject: "as_dict r = as_dict r' \<longleftrightarrow> r = r'"
proof
  assume "as_dict r = as_dict r'"
  then show "r = r'"
    by (cases r; cases r') (auto simp: as_dict_def status_value_inject split: option.splits)
qed simp

section \<open>Lemmas on the slug\<close>

lemma collapse_safe: "c \<in> set (collapse b s) \<Longrightarrow> safe_char c"
  by (induction b s rule: collapse.induct) (auto simp: safe_char_def split: if_splits)

lemma collapse_fixed: "\<forall>c\<in>set s. safe_char c \<Longrightarrow> collapse b s = s"
  by (induction s arbitrary: b) auto

lemma rstrip_with_set: "set (rstrip_with p s) \<subseteq> set s"
  using set_dropWhileD [of _ p "rev s"] by (auto simp: rstrip_with_def)

lemma strip_dashes_set: "set (strip_dashes s) \<subseteq> set s"
  using rstrip_with_set [of "\<lambda>c. c = 45" "dropWhile (\<lambda>c. c = 45) s"] set_dropWhileD [of _ "\<lambda>c. c = 45" s]
  by (auto simp: strip_dashes_def)

lemma rstrip_with_last: "rstrip_with p s \<noteq> [] \<Longrightarrow> \<not> p (last (rstrip_with p s))"
  unfolding rstrip_with_def using hd_dropWhile [of p "rev s"] by (simp add: last_rev)

lemma strip_dashes_ends:
  assumes "strip_dashes s \<noteq> []"
  shows "hd (strip_dashes s) \<noteq> 45 \<and> last (strip_dashes s) \<noteq> 45"
proof -
  let ?d = "dropWhile (\<lambda>c. c = 45) s"
  obtain ys where ys: "?d = strip_dashes s @ ys"
    using rstrip_with_prefix [of ?d "\<lambda>c. c = 45"] by (auto simp: strip_dashes_def)
  with assms have "?d \<noteq> []" "hd ?d = hd (strip_dashes s)" by auto
  moreover from this(1) have "hd ?d \<noteq> 45" using hd_dropWhile [of "\<lambda>c. c = 45" s] by auto
  ultimately show ?thesis
    using rstrip_with_last [of "\<lambda>c. c = 45" ?d] assms by (simp add: strip_dashes_def)
qed

lemma strip_dashes_fixed:
  "s = [] \<or> (hd s \<noteq> 45 \<and> last s \<noteq> 45) \<Longrightarrow> strip_dashes s = s"
proof (cases s rule: rev_cases)
  case Nil
  then show ?thesis by (simp add: strip_dashes_def rstrip_with_def)
next
  case (snoc ys y)
  assume "s = [] \<or> (hd s \<noteq> 45 \<and> last s \<noteq> 45)"
  with snoc have h: "hd s \<noteq> 45" "y \<noteq> 45" by auto
  from h(1) have "dropWhile (\<lambda>c. c = 45) s = s" by (cases s) simp_all
  with snoc h show ?thesis by (simp add: strip_dashes_def rstrip_with_def)
qed

section \<open>Properties\<close>

text \<open>A slug is one flat, safe file-name segment: only letters, digits, dots, underscores and
  dashes, no dash at either end, and slugging it again changes nothing; a model id that already
  is such a segment is kept.\<close>

theorem slug_is_flat_and_stable:
  "list_all safe_char (slug_model_id m) \<and> \<not> safe_char 47
   \<and> slug_model_id (slug_model_id m) = slug_model_id m
   \<and> slug_model_id (u ''mlx-community/Qwen2.5-Coder:7B'') = u ''mlx-community-Qwen2.5-Coder-7B''"
proof (intro conjI)
  have s: "\<forall>c\<in>set (slug_model_id m). safe_char c"
    using collapse_safe strip_dashes_set by (force simp: slug_model_id_def)
  then show "list_all safe_char (slug_model_id m)" by (simp add: list_all_iff)
  show "\<not> safe_char 47" by (simp add: safe_char_def)
  have "strip_dashes (slug_model_id m) = slug_model_id m"
    by (rule strip_dashes_fixed) (use strip_dashes_ends in \<open>auto simp: slug_model_id_def\<close>)
  then show "slug_model_id (slug_model_id m) = slug_model_id m"
    using collapse_fixed [OF s] by (simp add: slug_model_id_def [of "slug_model_id m"])
  show "slug_model_id (u ''mlx-community/Qwen2.5-Coder:7B'') = u ''mlx-community-Qwen2.5-Coder-7B''"
    by code_simp
qed

definition blank_record :: "pystr \<Rightarrow> status \<Rightarrow> economy_record" where
  "blank_record m st = from_run m [] False [] 0 0 st"

definition status_dump :: "json \<Rightarrow> pystr" where
  "status_dump j =
     (case j of
        JObj kvs \<Rightarrow> (case obj_get kvs ''status'' of Some (JStr s) \<Rightarrow> s | _ \<Rightarrow> [])
      | _ \<Rightarrow> [])"

text \<open>Two records written in the same millisecond go to one file whenever their models slug
  alike, and the second replaces the first: the file name does not keep concurrent tasks apart.\<close>

theorem concurrent_records_clobber:
  "\<exists>p fs1 fs2. write_record status_dump 7 (blank_record (u ''a/b'') Done) [u ''d''] []
       = Inr (p, fs1)
     \<and> fs_get fs1 p = Some (File (ascii ''done''))
     \<and> write_record status_dump 7 (blank_record (u ''a:b'') Faulted) [u ''d''] fs1
       = Inr (p, fs2)
     \<and> fs_get fs2 p = Some (File (ascii ''faulted''))"
proof -
  define p where "p = [u ''d'', u ''a-b-7.json'']"
  define fs1 where "fs1 = [([u ''d''], Dir), (p, File (ascii ''done''))]"
  define fs2 where "fs2 = [([u ''d''], Dir), (p, File (ascii ''faulted''))]"
  have "write_record status_dump 7 (blank_record (u ''a/b'') Done) [u ''d''] []
       = Inr (p, fs1)" unfolding p_def fs1_def by code_simp
  moreover have "fs_get fs1 p = Some (File (ascii ''done''))"
    "fs_get fs2 p = Some (File (ascii ''faulted''))"
    by (simp_all add: fs1_def fs2_def p_def fs_get_def)
  moreover have "write_record status_dump 7 (blank_record (u ''a:b'') Faulted)
      [u ''d''] fs1 = Inr (p, fs2)" unfolding p_def fs1_def fs2_def by code_simp
  ultimately show ?thesis by blast
qed

end
