(* ===== verification/Loop.thy ===== *)
theory Loop
  imports Client Runner Snapshot Prompt Telemetry Edits
begin

text \<open>
  \<open>loop.py\<close>: the orchestrator.  One iteration of \<open>Loop.run\<close> is \<open>attempt\<close>, from the next tail to
  the decision whether to go on; \<open>attempts_from\<close> is the bounded loop, \<open>run\<close> the whole method.
  The collaborators are the models of the other modules.  What lies outside the code is in the
  record \<open>engine\<close>: the clock, the transport, and for each attempt the environment the oracle's
  child process meets, which sees the file system and cannot write to it (its sandbox opens only
  the disposable report directory).  Every \<open>raise\<close> that escapes is a \<open>Crash\<close>.
\<close>

section \<open>Constants and the plateau\<close>

definition ORACLE_TEST_FILENAME :: pystr where "ORACLE_TEST_FILENAME = u ''test_loop_oracle.py''"
definition PLAN_MAX_TOKENS :: int where "PLAN_MAX_TOKENS = 512"
definition PLATEAU_ATTEMPTS :: nat where "PLATEAU_ATTEMPTS = 2"

record plateau =
  best_passed :: int
  misses :: nat

definition new_plateau :: plateau where
  "new_plateau = \<lparr>best_passed = -1, misses = 0\<rparr>"

definition plateau_record :: "test_score option \<Rightarrow> plateau \<Rightarrow> plateau" where
  "plateau_record score p =
     (case score of
        None \<Rightarrow> p
      | Some s \<Rightarrow> \<lparr>best_passed = max (best_passed p) (passed s),
                   misses = (if passed s > best_passed p then 0 else misses p + 1)\<rparr>)"

definition plateau_reached :: "plateau \<Rightarrow> bool" where
  "plateau_reached p \<longleftrightarrow> misses p \<ge> PLATEAU_ATTEMPTS"

section \<open>What an attempt yields\<close>

text \<open>The two structural reasons, by what their message says.\<close>

datatype block_reason = No_Frame | Refused pystr keep_reason

record attempt_progress =
  p_attempt :: nat
  p_generation :: generation_result
  p_score :: "test_score option"
  p_repeats :: bool
  p_plateaued :: bool
  p_nudged :: bool
  p_blocked_reason :: "block_reason option"

definition p_blocked :: "attempt_progress \<Rightarrow> bool" where
  "p_blocked p \<longleftrightarrow> p_score p = None \<and> r_fault (p_generation p) = None
     \<and> r_derail (p_generation p) = None"

record scored_attempt =
  sa_source :: pystr
  sa_run :: oracle_run

record attempt_result =
  ar_scored :: "scored_attempt option"
  ar_blocked_reason :: "block_reason option"

record loop_result =
  lr_status :: status
  lr_best_score :: "test_score option"
  lr_record :: economy_record
  lr_fault :: "sse_message option"
  lr_derail :: "derail_reason option"

definition has_scored_edit :: "loop_result \<Rightarrow> bool" where
  "has_scored_edit r \<longleftrightarrow> lr_best_score r \<noteq> None"

section \<open>The terminal status\<close>

definition classify_terminal :: "test_score option \<Rightarrow> bool \<Rightarrow> bool \<Rightarrow> bool \<Rightarrow> status" where
  "classify_terminal best_score faulted derailed blocked =
     (if (case best_score of None \<Rightarrow> False | Some s \<Rightarrow> is_green s) then Done
      else if faulted then Faulted
      else if derailed then Derailed
      else if blocked then Blocked
      else Exhausted)"

definition terminal_status ::
  "generation_result option \<Rightarrow> bool \<Rightarrow> test_score option \<Rightarrow> status" where
  "terminal_status final scored best_score =
     (let derailed = (case final of None \<Rightarrow> False | Some g \<Rightarrow> r_derail g \<noteq> None);
          faulted = (case final of None \<Rightarrow> False | Some g \<Rightarrow> r_fault g \<noteq> None);
          blocked = (final \<noteq> None \<and> \<not> scored \<and> \<not> derailed \<and> \<not> faulted)
      in classify_terminal best_score faulted derailed blocked)"

section \<open>The collaborators\<close>

record 'b engine =
  e_clk :: "nat \<Rightarrow> rat"
  e_gen :: "'b \<Rightarrow> pystr \<Rightarrow> pystr \<Rightarrow> budget \<Rightarrow> 'b \<times> (exn + byte_stream)"
  e_prompt :: prompt_builder
  e_oracle :: "int \<Rightarrow> fs \<Rightarrow> oracle_env"
  e_model :: pystr

record 'b world =
  w_client :: "'b client"
  w_clock :: nat
  w_fs :: fs
  w_store :: store

definition ask ::
  "'b engine \<Rightarrow> pystr \<Rightarrow> pystr \<Rightarrow> budget \<Rightarrow> 'b world \<Rightarrow> 'b world \<times> (exn + generation_result)" where
  "ask e prefix tail b w =
     (case generate (e_clk e) (derail_ops (e_clk e)) (e_gen e) (w_client w) (w_clock w) prefix tail b of
        (cl, r, _, k) \<Rightarrow> (w\<lparr>w_client := cl, w_clock := k\<rparr>, r))"

section \<open>The plan\<close>

definition plan_budget :: "task_spec \<Rightarrow> budget" where
  "plan_budget spec =
     (task_budget spec)\<lparr>max_tokens := min (max_tokens (task_budget spec)) PLAN_MAX_TOKENS\<rparr>"

definition plan_step ::
  "'b engine \<Rightarrow> task_spec \<Rightarrow> 'b world \<Rightarrow> 'b world \<times> (exn + generation_result list \<times> pystr)" where
  "plan_step e spec w =
     (if \<not> plan_first spec then (w, Inr ([], []))
      else case ask e (stable_prefix (e_prompt e) spec []) PLAN_REQUEST (plan_budget spec) w of
             (w', Inl x) \<Rightarrow> (w', Inl x)
           | (w', Inr planning) \<Rightarrow> (w', Inr ([planning], strip (r_text planning))))"

section \<open>Scoring one attempt\<close>

definition score_attempt ::
  "'b engine \<Rightarrow> generation_result \<Rightarrow> int \<Rightarrow> task_spec \<Rightarrow> path \<Rightarrow> path \<Rightarrow> 'b world
     \<Rightarrow> 'b world \<times> (exn + attempt_result)" where
  "score_attempt e generation index spec worktree oracle_path w =
     (if r_fault generation \<noteq> None \<or> r_derail generation \<noteq> None
      then (w, Inr \<lparr>ar_scored = None, ar_blocked_reason = None\<rparr>)
      else case extract_file (r_text generation) of
        None \<Rightarrow> (w, Inr \<lparr>ar_scored = None, ar_blocked_reason = Some No_Frame\<rparr>)
      | Some reply \<Rightarrow>
          (case apply_file (w_fs w) reply worktree (impl_path spec) of
             Inl (Keep_Only_Violation candidate reason) \<Rightarrow>
               (w, Inr \<lparr>ar_scored = None, ar_blocked_reason = Some (Refused candidate reason)\<rparr>)
           | Inl x \<Rightarrow> (w, Inl x)
           | Inr (_, fs) \<Rightarrow>
               (let w1 = w\<lparr>w_fs := fs\<rparr> in
                case run_oracle (e_oracle e index fs) fs oracle_path worktree (expected_tests spec) of
                  Inl x \<Rightarrow> (w1, Inl x)
                | Inr run \<Rightarrow>
                    (case record_attempt fs index (run_score run) (w_store w1) of
                       Inl x \<Rightarrow> (w1, Inl x)
                     | Inr st \<Rightarrow>
                         (w1\<lparr>w_store := st\<rparr>,
                          case decode_strict (payload reply) of
                            None \<Rightarrow> Inl Unicode_Decode_Error
                          | Some source \<Rightarrow>
                              Inr \<lparr>ar_scored = Some \<lparr>sa_source = source, sa_run = run\<rparr>,
                                   ar_blocked_reason = None\<rparr>)))))"

section \<open>Between two attempts\<close>

definition next_tail ::
  "scored_attempt option \<Rightarrow> pystr \<Rightarrow> pystr \<Rightarrow> exn + pystr \<times> bool" where
  "next_tail previous nudge reframe =
     (case previous of
        None \<Rightarrow> Inr (reframe, False)
      | Some a \<Rightarrow>
          bindE (distill_feedback (run_score (sa_run a)) (run_output (sa_run a)) (sa_source a) nudge)
            (\<lambda>t. Inr (t, nudge \<noteq> [])))"

definition correction :: "generation_result \<Rightarrow> bool \<Rightarrow> exn + pystr option" where
  "correction generation corrected =
     (if r_fault generation \<noteq> None \<or> r_derail generation \<noteq> None then Inr None
      else if corrected then Inr None
      else bindE (reframe_for (r_text generation)) (\<lambda>t. Inr (Some t)))"

definition escalation :: "bool \<Rightarrow> nat \<Rightarrow> pystr option" where
  "escalation stalled stalls = (if \<not> stalled then Some [] else nudge_for stalls)"

section \<open>The loop\<close>

record 'b run_state =
  rs_world :: "'b world"
  results :: "generation_result list"
  last_attempt :: "scored_attempt option"
  nudge :: pystr
  reframe :: pystr
  stalls :: nat
  plateau :: plateau
  progress :: "attempt_progress list"

datatype flow = Go | Halt | Crash exn

definition fresh_state :: "'b world \<Rightarrow> 'b run_state" where
  "fresh_state w = \<lparr>rs_world = w, results = [], last_attempt = None, nudge = [], reframe = [],
     stalls = 0, plateau = new_plateau, progress = []\<rparr>"

text \<open>The end of an iteration, after the attempt has been reported.\<close>

definition settle :: "generation_result \<Rightarrow> bool \<Rightarrow> 'b run_state \<Rightarrow> 'b run_state \<times> flow" where
  "settle generation repeats_previous s =
     (case last_attempt s of
        None \<Rightarrow>
          (case correction generation (reframe s \<noteq> []) of
             Inl x \<Rightarrow> (s, Crash x)
           | Inr None \<Rightarrow> (s, Halt)
           | Inr (Some t) \<Rightarrow> (s\<lparr>reframe := t\<rparr>, Go))
      | Some a \<Rightarrow>
          if is_green (run_score (sa_run a)) then (s, Halt)
          else (let stalled = (repeats_previous \<or> plateau_reached (plateau s));
                    s' = s\<lparr>stalls := stalls s + (if stalled then 1 else 0)\<rparr>
                in case escalation stalled (stalls s') of
                     None \<Rightarrow> (s', Halt)
                   | Some n \<Rightarrow> (s'\<lparr>nudge := n\<rparr>, Go)))"

text \<open>The fold of one scored or unscored generation into the run, with its report.\<close>

definition report ::
  "generation_result \<Rightarrow> bool \<Rightarrow> bool \<Rightarrow> attempt_result \<Rightarrow> 'b world \<Rightarrow> 'b run_state \<Rightarrow> 'b run_state"
  where
  "report generation repeats_previous nudged attempted w s =
     (let score = map_option (\<lambda>a. run_score (sa_run a)) (ar_scored attempted);
          p = plateau_record score (plateau s);
          n = length (results s) + 1
      in s\<lparr>rs_world := w, results := results s @ [generation], last_attempt := ar_scored attempted,
           plateau := p,
           progress := progress s @ [\<lparr>p_attempt = n, p_generation = generation, p_score = score,
             p_repeats = repeats_previous, p_plateaued = plateau_reached p, p_nudged = nudged,
             p_blocked_reason = ar_blocked_reason attempted\<rparr>]\<rparr>)"

definition attempt ::
  "'b engine \<Rightarrow> task_spec \<Rightarrow> path \<Rightarrow> pystr \<Rightarrow> nat \<Rightarrow> 'b run_state \<Rightarrow> 'b run_state \<times> flow" where
  "attempt e spec worktree prefix index s =
     (case next_tail (last_attempt s) (nudge s) (reframe s) of
        Inl x \<Rightarrow> (s, Crash x)
      | Inr (tail, nudged) \<Rightarrow>
          (case ask e prefix tail (task_budget spec) (rs_world s) of
             (w, Inl x) \<Rightarrow> (s\<lparr>rs_world := w\<rparr>, Crash x)
           | (w, Inr generation) \<Rightarrow>
               (let repeats_previous = (results s \<noteq> [] \<and> r_text generation = r_text (last (results s)));
                    oracle_path = worktree @ [ORACLE_TEST_FILENAME]
                in case score_attempt e generation (int index) spec worktree oracle_path w of
                     (w', Inl x) \<Rightarrow>
                       (s\<lparr>rs_world := w', results := results s @ [generation]\<rparr>, Crash x)
                   | (w', Inr attempted) \<Rightarrow>
                       settle generation repeats_previous
                         (report generation repeats_previous nudged attempted w' s))))"

fun attempts_from ::
  "'b engine \<Rightarrow> task_spec \<Rightarrow> path \<Rightarrow> pystr \<Rightarrow> nat \<Rightarrow> nat \<Rightarrow> 'b run_state \<Rightarrow> 'b run_state \<times> exn option"
  where
  "attempts_from e spec worktree prefix 0 index s = (s, None)"
| "attempts_from e spec worktree prefix (Suc n) index s =
     (case attempt e spec worktree prefix index s of
        (s', Go) \<Rightarrow> attempts_from e spec worktree prefix n (index + 1) s'
      | (s', Halt) \<Rightarrow> (s', None)
      | (s', Crash x) \<Rightarrow> (s', Some x))"

section \<open>The exit\<close>

definition finish ::
  "'b engine \<Rightarrow> generation_result list \<Rightarrow> bool \<Rightarrow> 'b run_state \<Rightarrow> 'b run_state \<times> (exn + loop_result)"
  where
  "finish e planning plan s =
     (let w = rs_world s in
      case restore_best (w_store w) (w_fs w) of
        Inl x \<Rightarrow> (s, Inl x)
      | Inr fs \<Rightarrow>
          (let best_score = map_option entry_score (best (w_store w));
               final = (if results s = [] then None else Some (last (results s)));
               st = terminal_status final (last_attempt s \<noteq> None) best_score;
               rec = from_run (e_model e) (card_digest (e_prompt e)) plan (planning @ results s)
                       (total_calls (w_client w)) (length (results s)) st
           in (s\<lparr>rs_world := w\<lparr>w_fs := fs\<rparr>\<rparr>,
               Inr \<lparr>lr_status = st, lr_best_score = best_score, lr_record = rec,
                    lr_fault = (case final of None \<Rightarrow> None | Some g \<Rightarrow> r_fault g),
                    lr_derail = (case final of None \<Rightarrow> None | Some g \<Rightarrow> r_derail g)\<rparr>)))"

definition loop_run ::
  "'b engine \<Rightarrow> task_spec \<Rightarrow> path \<Rightarrow> 'b world \<Rightarrow> 'b run_state \<times> (exn + loop_result)" where
  "loop_run e spec worktree w =
     (case plan_step e spec w of
        (w1, Inl x) \<Rightarrow> (fresh_state w1, Inl x)
      | (w1, Inr (planning, plan)) \<Rightarrow>
          (let prefix = stable_prefix (e_prompt e) spec plan;
               oracle_path = worktree @ [ORACLE_TEST_FILENAME]
           in case write_text (w_fs w1) oracle_path (test_text spec) of
                Inl x \<Rightarrow> (fresh_state w1, Inl x)
              | Inr fs \<Rightarrow>
                  (case attempts_from e spec worktree prefix (nat (max_attempts (task_budget spec))) 0
                          (fresh_state (w1\<lparr>w_fs := fs\<rparr>)) of
                     (s, Some x) \<Rightarrow> (s, Inl x)
                   | (s, None) \<Rightarrow> finish e planning (plan_first spec) s)))"

end
