(* ===== verification/Loop_Control.thy ===== *)
theory Loop_Control
  imports Loop
begin

text \<open>
  The control flow of the loop.  \<open>reached\<close> is the step relation of the iterations that go on;
  its invariants are proved by rule induction and \<open>attempts_end\<close> carries them to every end of a
  run.  The abstract view of a run is its log of progress reports: \<open>goes_on\<close> decides from the log
  alone whether a further attempt is owed, and the loop implements it.
\<close>

section \<open>The ladder contract\<close>

text \<open>What the loop relies on in an escalation: the rungs are numbered from one, without gaps, up
  to a height.\<close>

locale ladder =
  fixes rung :: "nat \<Rightarrow> 'a option" and height :: nat
  assumes rung_iff: "rung k = None \<longleftrightarrow> k < 1 \<or> height < k"
begin

lemma rung_climb: "rung k \<noteq> None \<Longrightarrow> 1 \<le> k \<and> k \<le> height"
  using rung_iff [of k] by auto

lemma rung_lower: "rung k \<noteq> None \<Longrightarrow> 1 \<le> j \<Longrightarrow> j \<le> k \<Longrightarrow> rung j \<noteq> None"
  using rung_iff [of k] rung_iff [of j] by auto

lemma rungs_finite: "finite {k. rung k \<noteq> None}"
  by (rule finite_subset [of _ "{..height}"]) (use rung_climb in blast, simp)

end

interpretation nudges: ladder nudge_for "length NUDGE_LADDER"
  by unfold_locales (auto simp: nudge_for_def)

lemma ladder_height: "length NUDGE_LADDER = 2"
  by (simp add: NUDGE_LADDER_def)

lemma nudge_not_blank: "nudge_for k = Some n \<Longrightarrow> n \<noteq> []"
  by (auto simp: nudge_for_def NUDGE_LADDER_def NUDGE_1_def NUDGE_2_def u_def nth_Cons'
      split: if_splits)

lemma escalation_Some:
  "escalation stalled k = Some n \<longleftrightarrow> (if stalled then nudge_for k = Some n else n = [])"
  by (auto simp: escalation_def)

lemma escalation_None: "escalation stalled k = None \<longleftrightarrow> stalled \<and> (k < 1 \<or> 2 < k)"
  using nudges.rung_iff [of k] by (simp add: escalation_def ladder_height)

section \<open>One iteration\<close>

abbreviation repeats :: "generation_result \<Rightarrow> 'b run_state \<Rightarrow> bool" where
  "repeats g s \<equiv> results s \<noteq> [] \<and> r_text g = r_text (last (results s))"

abbreviation oracle_file :: "path \<Rightarrow> path" where
  "oracle_file worktree \<equiv> worktree @ [ORACLE_TEST_FILENAME]"

text \<open>An iteration either raises before its report, or is reported and then settled.\<close>

lemma attempt_cases [consumes 1, case_names early reported]:
  assumes "attempt e spec wt pre i s = (s', f)"
  obtains x where "f = Crash x" and "progress s' = progress s" and "last_attempt s' = last_attempt s"
    and "results s' = results s \<or> (\<exists>g. results s' = results s @ [g])"
  | tail nudged w g w' ar rep where
    "next_tail (last_attempt s) (nudge s) (reframe s) = Inr (tail, nudged)"
    and "ask e pre tail (task_budget spec) (rs_world s) = (w, Inr g)"
    and "rep = repeats g s"
    and "score_attempt e g (int i) spec wt (oracle_file wt) w = (w', Inr ar)"
    and "settle g rep (report g rep nudged ar w' s) = (s', f)"
proof (cases "next_tail (last_attempt s) (nudge s) (reframe s)")
  case (Inl x)
  with assms show ?thesis by (intro that(1) [of x]) (simp_all add: attempt_def)
next
  case (Inr tn)
  obtain tail nudged where tn: "tn = (tail, nudged)" by fastforce
  obtain w rg where a: "ask e pre tail (task_budget spec) (rs_world s) = (w, rg)" by fastforce
  show ?thesis
  proof (cases rg)
    case (Inl x)
    with assms Inr tn a show ?thesis by (intro that(1) [of x]) (auto simp: attempt_def)
  next
    case g: (Inr g)
    obtain w' rr where sc: "score_attempt e g (int i) spec wt (oracle_file wt) w = (w', rr)"
      by fastforce
    show ?thesis
    proof (cases rr)
      case (Inl x)
      with assms Inr tn a g sc show ?thesis
        by (intro that(1) [of x]) (auto simp: attempt_def Let_def)
    next
      case ar: (Inr ar)
      with assms Inr tn a g sc show ?thesis
        by (intro that(2) [of tail nudged w g "repeats g s" w' ar]) (auto simp: attempt_def Let_def)
    qed
  qed
qed

lemma attempt_returns:
  assumes "attempt e spec wt pre i s = (s', f)" and "\<And>x. f \<noteq> Crash x"
  obtains tail nudged w g w' ar rep where
    "next_tail (last_attempt s) (nudge s) (reframe s) = Inr (tail, nudged)"
    and "ask e pre tail (task_budget spec) (rs_world s) = (w, Inr g)"
    and "rep = repeats g s"
    and "score_attempt e g (int i) spec wt (oracle_file wt) w = (w', Inr ar)"
    and "settle g rep (report g rep nudged ar w' s) = (s', f)"
  using assms(1)
proof (cases rule: attempt_cases)
  case (early x)
  with assms(2) show ?thesis by blast
qed (rule that)

text \<open>The end of an iteration changes only the two texts and the stall count.\<close>

lemma settle_frame:
  assumes "settle g rep s = (s', f)"
  shows "rs_world s' = rs_world s \<and> results s' = results s \<and> last_attempt s' = last_attempt s
    \<and> plateau s' = plateau s \<and> progress s' = progress s"
  using assms by (auto simp: settle_def Let_def split: option.splits sum.splits if_splits)

lemma settle_go:
  assumes "settle g rep s = (s', Go)"
  shows "case last_attempt s of
      None \<Rightarrow> r_fault g = None \<and> r_derail g = None \<and> reframe s = [] \<and>
        (\<exists>t. reframe_for (r_text g) = Inr t \<and> s' = s\<lparr>reframe := t\<rparr>)
    | Some a \<Rightarrow> \<not> is_green (run_score (sa_run a)) \<and>
        (\<exists>n. s' = s\<lparr>stalls := stalls s + (if rep \<or> plateau_reached (plateau s) then 1 else 0),
                     nudge := n\<rparr>
           \<and> (rep \<or> plateau_reached (plateau s) \<longrightarrow> stalls s + 1 \<le> 2))"
  using assms
  by (auto simp: settle_def correction_def bindE_eq_Inr Let_def escalation_Some escalation_def
      dest: nudges.rung_climb split: option.splits sum.splits if_splits simp: ladder_height
      nudge_for_def)

lemma settle_halt:
  assumes "settle g rep s = (s', Halt)"
  shows "case last_attempt s of
      None \<Rightarrow> r_fault g \<noteq> None \<or> r_derail g \<noteq> None \<or> reframe s \<noteq> []
    | Some a \<Rightarrow> is_green (run_score (sa_run a)) \<or>
        ((rep \<or> plateau_reached (plateau s)) \<and> 2 < stalls s + 1)"
  using assms
  by (auto simp: settle_def correction_def bindE_eq_Inr Let_def escalation_None
      split: option.splits sum.splits if_splits)

lemma reframe_not_blank: "reframe_for t = Inr r \<Longrightarrow> r \<noteq> []"
  by (auto simp: reframe_for_def bindE_eq_Inr UNSCORABLE_REPLY_HEADER_def u_def)

section \<open>Reached states\<close>

inductive reached ::
  "'b engine \<Rightarrow> task_spec \<Rightarrow> path \<Rightarrow> pystr \<Rightarrow> 'b run_state \<Rightarrow> nat \<Rightarrow> 'b run_state \<Rightarrow> bool"
  for e spec wt pre s0 where
  reached_start: "reached e spec wt pre s0 0 s0"
| reached_step: "reached e spec wt pre s0 (Suc i) s'"
    if "reached e spec wt pre s0 i s" and "attempt e spec wt pre i s = (s', Go)"

inductive_cases reached_SucE: "reached e spec wt pre s0 (Suc i) s"
inductive_simps reached_0: "reached e spec wt pre s0 0 s"

text \<open>However the loop ends, it ends right after a reached state: the budget is spent there, or the
  next iteration halts or crashes.\<close>

lemma attempts_end:
  assumes "attempts_from e spec wt pre n i s = (s', r)" and "reached e spec wt pre s0 i s"
  obtains j sj where "reached e spec wt pre s0 j sj" and "i \<le> j" and "j \<le> i + n"
    and "r = None \<and> s' = sj \<and> j = i + n
       \<or> r = None \<and> attempt e spec wt pre j sj = (s', Halt) \<and> j < i + n
       \<or> (\<exists>x. r = Some x \<and> attempt e spec wt pre j sj = (s', Crash x)) \<and> j < i + n"
  using assms
proof (induction n arbitrary: i s thesis)
  case 0
  then show ?case by auto
next
  case (Suc n)
  obtain s1 f where a: "attempt e spec wt pre i s = (s1, f)" by fastforce
  show ?case
  proof (cases f)
    case Go
    with a Suc.prems(3) have "reached e spec wt pre s0 (Suc i) s1" by (auto intro: reached_step)
    moreover have "attempts_from e spec wt pre n (Suc i) s1 = (s', r)" using Suc.prems(2) a Go by simp
    ultimately obtain j sj where "reached e spec wt pre s0 j sj" "Suc i \<le> j" "j \<le> Suc i + n"
      "r = None \<and> s' = sj \<and> j = Suc i + n
       \<or> r = None \<and> attempt e spec wt pre j sj = (s', Halt) \<and> j < Suc i + n
       \<or> (\<exists>x. r = Some x \<and> attempt e spec wt pre j sj = (s', Crash x)) \<and> j < Suc i + n"
      using Suc.IH by blast
    then show ?thesis using Suc.prems(1) [of j sj] by auto
  next
    case Halt
    with a Suc.prems show ?thesis by (intro Suc.prems(1) [of i s]) auto
  next
    case (Crash x)
    with a Suc.prems show ?thesis by (intro Suc.prems(1) [of i s]) auto
  qed
qed

section \<open>The log decides\<close>

definition plateau_of :: "attempt_progress list \<Rightarrow> plateau" where
  "plateau_of ps = fold plateau_record (map p_score ps) new_plateau"

definition scored_count :: "attempt_progress list \<Rightarrow> nat" where
  "scored_count ps = length (filter (\<lambda>p. p_score p \<noteq> None) ps)"

definition unscored_count :: "attempt_progress list \<Rightarrow> nat" where
  "unscored_count ps = length (filter (\<lambda>p. p_score p = None) ps)"

definition stall_count :: "attempt_progress list \<Rightarrow> nat" where
  "stall_count ps =
     length (filter (\<lambda>p. p_score p \<noteq> None \<and> (p_repeats p \<or> p_plateaued p)) ps)"

lemmas log_counts = plateau_of_def scored_count_def unscored_count_def stall_count_def

lemma log_counts_snoc [simp]:
  "plateau_of (ps @ [p]) = plateau_record (p_score p) (plateau_of ps)"
  "scored_count (ps @ [p]) = scored_count ps + (if p_score p = None then 0 else 1)"
  "unscored_count (ps @ [p]) = unscored_count ps + (if p_score p = None then 1 else 0)"
  "stall_count (ps @ [p]) = stall_count ps
     + (if p_score p \<noteq> None \<and> (p_repeats p \<or> p_plateaued p) then 1 else 0)"
  by (simp_all add: log_counts)

lemma plateau_of_one [simp]: "plateau_of [p] = plateau_record (p_score p) new_plateau"
  by (simp add: plateau_of_def)

lemma log_counts_Nil [simp]:
  "plateau_of [] = new_plateau" "scored_count [] = 0" "unscored_count [] = 0" "stall_count [] = 0"
  by (simp_all add: log_counts)

lemma count_split: "length ps = scored_count ps + unscored_count ps"
  by (induction ps rule: rev_induct) auto

text \<open>The abstract policy: after the report \<open>p\<close>, preceded by \<open>ps\<close>, another attempt is owed to a
  first structural block, to a red verdict that made progress, and to a stall while a rung is
  left.\<close>

definition goes_on :: "attempt_progress list \<Rightarrow> attempt_progress \<Rightarrow> bool" where
  "goes_on ps p \<longleftrightarrow>
     (case p_score p of
        None \<Rightarrow> p_blocked p \<and> unscored_count ps = 0
      | Some v \<Rightarrow> \<not> is_green v \<and>
          ((p_repeats p \<or> p_plateaued p) \<longrightarrow> stall_count ps < length NUDGE_LADDER))"

fun log_allowed :: "attempt_progress list \<Rightarrow> attempt_progress list \<Rightarrow> bool" where
  "log_allowed before [] = True"
| "log_allowed before (p # ps) = (goes_on before p \<and> log_allowed (before @ [p]) ps)"

lemma log_allowed_snoc:
  "log_allowed before (ps @ [p]) \<longleftrightarrow> log_allowed before ps \<and> goes_on (before @ ps) p"
  by (induction before ps rule: log_allowed.induct) auto

text \<open>The two progress flags of a report say what they are documented to say.\<close>

fun flags_true :: "attempt_progress list \<Rightarrow> attempt_progress list \<Rightarrow> bool" where
  "flags_true before [] = True"
| "flags_true before (p # ps) =
     ((p_plateaued p \<longleftrightarrow> plateau_reached (plateau_of (before @ [p])))
      \<and> (p_repeats p \<longleftrightarrow> before \<noteq> []
           \<and> r_text (p_generation p) = r_text (p_generation (last before)))
      \<and> flags_true (before @ [p]) ps)"

lemma flags_true_snoc:
  "flags_true before (ps @ [p]) \<longleftrightarrow> flags_true before ps
     \<and> (p_plateaued p \<longleftrightarrow> plateau_reached (plateau_of (before @ ps @ [p])))
     \<and> (p_repeats p \<longleftrightarrow> before @ ps \<noteq> []
           \<and> r_text (p_generation p) = r_text (p_generation (last (before @ ps))))"
  by (induction before ps rule: flags_true.induct) auto

text \<open>What ties a state of the loop to its log.\<close>

definition in_step :: "'b run_state \<Rightarrow> bool" where
  "in_step s \<longleftrightarrow> map p_generation (progress s) = results s
     \<and> plateau s = plateau_of (progress s)
     \<and> map_option (\<lambda>a. run_score (sa_run a)) (last_attempt s)
         = (if progress s = [] then None else p_score (last (progress s)))
     \<and> map p_attempt (progress s) = [1..<Suc (length (progress s))]
     \<and> flags_true [] (progress s)"

definition loop_inv :: "nat \<Rightarrow> 'b run_state \<Rightarrow> bool" where
  "loop_inv n s \<longleftrightarrow> in_step s \<and> length (progress s) = n \<and> log_allowed [] (progress s)
     \<and> stalls s = stall_count (progress s)
     \<and> (reframe s = [] \<longleftrightarrow> unscored_count (progress s) = 0)"

lemma loop_inv_fresh: "loop_inv 0 (fresh_state w)"
  by (simp add: loop_inv_def in_step_def fresh_state_def)

abbreviation reported ::
  "generation_result \<Rightarrow> bool \<Rightarrow> bool \<Rightarrow> attempt_result \<Rightarrow> 'b world \<Rightarrow> 'b run_state
     \<Rightarrow> attempt_progress" where
  "reported g rep nudged ar w s \<equiv> last (progress (report g rep nudged ar w s))"

lemma report_log:
  shows "progress (report g rep nudged ar w s) = progress s @ [(reported g rep nudged ar w s)]"
  and "p_generation (reported g rep nudged ar w s) = g"
  and "p_repeats (reported g rep nudged ar w s) = rep"
  and "p_nudged (reported g rep nudged ar w s) = nudged"
  and "p_attempt (reported g rep nudged ar w s) = Suc (length (results s))"
  and "p_score (reported g rep nudged ar w s) = map_option (\<lambda>a. run_score (sa_run a)) (ar_scored ar)"
  and "p_plateaued (reported g rep nudged ar w s) = plateau_reached (plateau (report g rep nudged ar w s))"
  and "plateau (report g rep nudged ar w s) = plateau_record (p_score (reported g rep nudged ar w s)) (plateau s)"
  and "results (report g rep nudged ar w s) = results s @ [g]"
  and "last_attempt (report g rep nudged ar w s) = ar_scored ar"
  and "stalls (report g rep nudged ar w s) = stalls s"
  and "reframe (report g rep nudged ar w s) = reframe s"
  and "rs_world (report g rep nudged ar w s) = w"
  by (simp_all add: report_def Let_def)

text \<open>One returning iteration: its report, and whether the policy owes another.\<close>

lemma attempt_step:
  assumes "attempt e spec wt pre i s = (s', f)" and "\<And>x. f \<noteq> Crash x" and "loop_inv i s"
  shows "\<exists>p. progress s' = progress s @ [p] \<and> in_step s' \<and> length (progress s') = Suc i
    \<and> (f = Go \<longleftrightarrow> goes_on (progress s) p) \<and> (f = Go \<longrightarrow> loop_inv (Suc i) s')"
proof -
  from attempt_returns [OF assms(1,2)] obtain tail nudged w g w' ar rep where
    rep: "rep = repeats g s"
    and st: "settle g rep (report g rep nudged ar w' s) = (s', f)" .
  let ?r = "report g rep nudged ar w' s"
  have i: "in_step s" "length (progress s) = i" "log_allowed [] (progress s)"
    "stalls s = stall_count (progress s)" "(reframe s = []) = (unscored_count (progress s) = 0)"
    using assms(3) by (auto simp: loop_inv_def)
  let ?p = "reported g rep nudged ar w' s"
  define p where "p = ?p"
  have p: "progress ?r = progress s @ [p]" "p_generation p = g" "p_repeats p = rep"
    "p_nudged p = nudged" "p_attempt p = Suc (length (results s))"
    "p_score p = map_option (\<lambda>a. run_score (sa_run a)) (ar_scored ar)"
    "p_plateaued p = plateau_reached (plateau ?r)"
    "plateau ?r = plateau_record (p_score p) (plateau s)" "results ?r = results s @ [g]"
    "last_attempt ?r = ar_scored ar" "stalls ?r = stalls s" "reframe ?r = reframe s"
    "rs_world ?r = w'"
    unfolding p_def by (rule report_log)+
  have sc: "p_score p = map_option (\<lambda>a. run_score (sa_run a)) (last_attempt ?r)"
    using p(6,10) by simp
  from settle_frame [OF st] have fr: "progress s' = progress ?r" "results s' = results ?r"
    "last_attempt s' = last_attempt ?r" "plateau s' = plateau ?r" by auto
  have len: "length (results s) = i" using i(1,2) unfolding in_step_def by (metis length_map)
  have mg: "map p_generation (progress s) = results s" using i(1) by (simp add: in_step_def)
  then have "results s = [] \<longleftrightarrow> progress s = []"
    and "progress s \<noteq> [] \<Longrightarrow> last (results s) = p_generation (last (progress s))"
    by (metis map_is_Nil_conv, metis last_map)
  with i(1) p(2,3,7,8) rep have flags: "flags_true [] (progress s @ [p])"
    by (cases "progress s = []") (simp_all add: flags_true_snoc in_step_def)
  have step: "in_step s'"
    using i(1,2) p(1,2,5,8,9) sc fr len flags by (simp add: in_step_def)
  have go: "goes_on (progress s) p \<and> loop_inv (Suc i) s'" if "f = Go"
  proof (cases "last_attempt ?r")
    case None
    with settle_go [OF st [unfolded that]] p(2,11,12) sc i have
      "r_fault g = None" "r_derail g = None" "unscored_count (progress s) = 0" "p_score p = None"
      "reframe s' \<noteq> []" "stalls s' = stalls s" by (auto dest: reframe_not_blank)
    with step p(1,2) i fr(1) show ?thesis
      by (simp add: goes_on_def p_blocked_def loop_inv_def log_allowed_snoc)
  next
    case (Some a)
    with settle_go [OF st [unfolded that]] p(3,7,11,12) have
      "\<not> is_green (run_score (sa_run a))" "reframe s' = reframe s"
      "stalls s' = stalls s + (if p_repeats p \<or> p_plateaued p then 1 else 0)"
      "p_repeats p \<or> p_plateaued p \<longrightarrow> stalls s < length NUDGE_LADDER"
      by (auto simp: ladder_height)
    with Some step p(1) sc i fr(1) show ?thesis
      by (simp add: goes_on_def loop_inv_def log_allowed_snoc)
  qed
  moreover have "\<not> goes_on (progress s) p" if "f = Halt"
  proof (cases "last_attempt ?r")
    case None
    with settle_halt [OF st [unfolded that]] p(2,12) sc i(5) show ?thesis
      by (auto simp: goes_on_def p_blocked_def)
  next
    case (Some a)
    with settle_halt [OF st [unfolded that]] p(3,7,11) sc i(4) show ?thesis
      by (auto simp: goes_on_def ladder_height)
  qed
  moreover have "f = Go \<or> f = Halt" using assms(2) by (cases f) auto
  ultimately show ?thesis using step fr(1) p(1) i(2) by (metis length_append_singleton)
qed

lemma reached_inv:
  assumes "reached e spec wt pre s0 n s" and "loop_inv 0 s0"
  shows "loop_inv n s"
  using assms
proof (induction rule: reached.induct)
  case (reached_step i s s')
  then show ?case using attempt_step [of e spec wt pre i s s' Go] by auto
qed simp

section \<open>Passes, plateaus and the length of a run\<close>

definition passes :: "attempt_progress list \<Rightarrow> int list" where
  "passes ps = map passed (somes (map p_score ps))"

definition best_pass :: "int list \<Rightarrow> int" where
  "best_pass xs = Max (insert (-1) (set xs))"

lemma somes_snoc: "somes (xs @ [x]) = somes xs @ (case x of None \<Rightarrow> [] | Some y \<Rightarrow> [y])"
  by (induction xs rule: somes.induct) (auto split: option.splits)

lemma passes_snoc:
  "passes (ps @ [p]) = passes ps @ (case p_score p of None \<Rightarrow> [] | Some v \<Rightarrow> [passed v])"
  by (simp add: passes_def somes_snoc split: option.splits)

lemma best_pass_snoc: "best_pass (xs @ [x]) = max x (best_pass xs)"
  by (simp add: best_pass_def insert_commute max.left_commute)

lemma best_passed_of: "best_passed (plateau_of ps) = best_pass (passes ps)"
proof (induction ps rule: rev_induct)
  case Nil
  then show ?case by (simp add: new_plateau_def passes_def best_pass_def)
next
  case (snoc p ps)
  then show ?case
    by (simp add: passes_snoc plateau_record_def best_pass_snoc max.commute split: option.splits)
qed

lemma missed_once:
  "1 \<le> misses (plateau_of ps) \<longleftrightarrow> (\<exists>xs a. passes ps = xs @ [a] \<and> a \<le> best_pass xs)"
proof (induction ps rule: rev_induct)
  case Nil
  then show ?case by (simp add: new_plateau_def passes_def)
next
  case (snoc p ps)
  then show ?case
    by (cases "p_score p") (auto simp: passes_snoc plateau_record_def best_passed_of not_less)
qed

lemma missed_twice:
  "plateau_reached (plateau_of ps) \<longleftrightarrow>
     (\<exists>xs a b. passes ps = xs @ [a, b] \<and> a \<le> best_pass xs \<and> b \<le> best_pass xs)"
proof (induction ps rule: rev_induct)
  case Nil
  then show ?case by (simp add: new_plateau_def passes_def plateau_reached_def PLATEAU_ATTEMPTS_def)
next
  case (snoc p ps)
  show ?case
  proof (cases "p_score p")
    case None
    with snoc show ?thesis by (simp add: passes_snoc plateau_record_def)
  next
    case (Some v)
    have "plateau_reached (plateau_of (ps @ [p])) \<longleftrightarrow>
        passed v \<le> best_pass (passes ps) \<and> 1 \<le> misses (plateau_of ps)"
      using Some by (simp add: plateau_record_def plateau_reached_def PLATEAU_ATTEMPTS_def
          best_passed_of not_less)
    also have "\<dots> \<longleftrightarrow> (\<exists>xs a. passes ps = xs @ [a] \<and> a \<le> best_pass xs \<and> passed v \<le> best_pass xs)"
      unfolding missed_once by (auto simp: best_pass_snoc)
    also have "\<dots> \<longleftrightarrow> (\<exists>xs a b. passes (ps @ [p]) = xs @ [a, b] \<and> a \<le> best_pass xs \<and> b \<le> best_pass xs)"
      using Some by (auto simp: passes_snoc)
    finally show ?thesis .
  qed
qed

text \<open>Every scored attempt raises the best, is the first miss after a raise, or is a stall.\<close>

lemma scored_bound:
  "flags_true [] ps \<Longrightarrow>
     int (scored_count ps) \<le> 2 * (best_passed (plateau_of ps) + 1)
       + (if 1 \<le> misses (plateau_of ps) then 1 else 0) + int (stall_count ps)"
proof (induction ps rule: rev_induct)
  case Nil
  then show ?case by (simp add: new_plateau_def)
next
  case (snoc p ps)
  from snoc.prems have f: "flags_true [] ps"
    "p_plateaued p \<longleftrightarrow> plateau_reached (plateau_record (p_score p) (plateau_of ps))"
    by (auto simp: flags_true_snoc)
  show ?case
  proof (cases "p_score p")
    case None
    with snoc.IH [OF f(1)] show ?thesis by (simp add: plateau_record_def)
  next
    case (Some v)
    let ?q = "plateau_of ps"
    consider "passed v > best_passed ?q" | "passed v \<le> best_passed ?q" "misses ?q = 0"
      | "passed v \<le> best_passed ?q" "1 \<le> misses ?q" by linarith
    then show ?thesis
      using snoc.IH [OF f(1)] f(2) Some
      by cases (auto simp: plateau_record_def plateau_reached_def PLATEAU_ATTEMPTS_def
          split: if_splits)
  qed
qed

lemma stalls_allowed: "log_allowed [] ps \<Longrightarrow> stall_count ps \<le> 2"
proof (induction ps rule: rev_induct)
  case (snoc p ps)
  then show ?case
    by (auto simp: log_allowed_snoc goes_on_def ladder_height split: option.splits)
qed simp

lemma unscored_allowed: "log_allowed [] ps \<Longrightarrow> unscored_count ps \<le> 1"
proof (induction ps rule: rev_induct)
  case (snoc p ps)
  then show ?case by (auto simp: log_allowed_snoc goes_on_def split: option.splits)
qed simp

lemma log_length:
  assumes "log_allowed [] ps" and "flags_true [] ps" and "best_pass (passes ps) \<le> int n"
  shows "length ps \<le> 2 * n + 6"
proof -
  have "int (scored_count ps) \<le> 2 * (int n + 1) + 1 + 2"
    using scored_bound [OF assms(2)] assms(3) stalls_allowed [OF assms(1)]
    by (auto simp: best_passed_of split: if_splits)
  with unscored_allowed [OF assms(1)] count_split [of ps] show ?thesis by simp
qed

section \<open>Verdicts come from the oracle, calls are counted\<close>

lemma score_attempt_frame:
  "score_attempt e g i spec wt op w = (w', r) \<Longrightarrow> w_client w' = w_client w \<and> w_clock w' = w_clock w"
  by (auto simp: score_attempt_def Let_def split: if_splits option.splits sum.splits exn.splits)

lemma score_attempt_verdict:
  "score_attempt e g i spec wt op w = (w', Inr ar) \<Longrightarrow> ar_scored ar = Some a \<Longrightarrow>
     \<exists>fs. run_oracle (e_oracle e i fs) fs op wt (expected_tests spec) = Inr (sa_run a)"
  by (fastforce simp: score_attempt_def Let_def split: if_splits option.splits sum.splits exn.splits)

lemma ask_counts:
  "ask e pre tail b w = (w', r) \<Longrightarrow>
     total_calls (w_client w') = total_calls (w_client w) + 1 \<and> w_fs w' = w_fs w \<and> w_store w' = w_store w"
  using generate_counts [of "e_clk e" "derail_ops (e_clk e)" "e_gen e" "w_client w" "w_clock w" pre tail b]
  by (auto simp: ask_def split: prod.splits)

definition judged ::
  "(int \<Rightarrow> fs \<Rightarrow> oracle_env) \<Rightarrow> task_spec \<Rightarrow> path \<Rightarrow> attempt_progress list \<Rightarrow> bool" where
  "judged orc spec wt ps \<longleftrightarrow> (\<forall>p\<in>set ps. \<forall>v. p_score p = Some v \<longrightarrow>
     (\<exists>i fs run. run_oracle (orc i fs) fs (oracle_file wt) wt (expected_tests spec) = Inr run
        \<and> v = run_score run))"

lemma attempt_judged:
  assumes "attempt e spec wt pre i s = (s', f)" and "judged (e_oracle e) spec wt (progress s)"
  shows "judged (e_oracle e) spec wt (progress s')"
  using assms(1)
proof (cases rule: attempt_cases)
  case (early x)
  with assms(2) show ?thesis by simp
next
  case (reported tail nudged w g w' ar rep)
  have "progress s' = progress s @ [reported g rep nudged ar w' s]"
    using settle_frame [OF reported(5)] report_log(1) by metis
  moreover have "p_score (reported g rep nudged ar w' s)
      = map_option (\<lambda>a. run_score (sa_run a)) (ar_scored ar)" by (rule report_log(6))
  ultimately show ?thesis
    using assms(2) score_attempt_verdict [OF reported(4)] unfolding judged_def
    by (auto; blast)
qed

definition called :: "nat \<Rightarrow> 'b run_state \<Rightarrow> bool" where
  "called n s \<longleftrightarrow> total_calls (w_client (rs_world s)) = n + length (progress s)"

lemma attempt_called:
  assumes "attempt e spec wt pre i s = (s', f)" and "\<And>x. f \<noteq> Crash x" and "called n s"
  shows "called n s'"
  using assms(1,2)
proof (cases rule: attempt_returns)
  case (1 tail nudged w g w' ar rep)
  have "rs_world s' = w'" "length (progress s') = Suc (length (progress s))"
    using settle_frame [OF 1(5)] report_log(1,13) by (metis, metis length_append_singleton)
  then show ?thesis
    using assms(3) ask_counts [OF 1(2)] score_attempt_frame [OF 1(4)] by (simp add: called_def)
qed

text \<open>What every returning iteration preserves holds wherever a bounded loop returns.\<close>

lemma reached_keep:
  assumes "reached e spec wt pre s0 n s" and "loop_inv 0 s0" and "P s0"
    and step: "\<And>i s s' f. attempt e spec wt pre i s = (s', f) \<Longrightarrow> (\<And>x. f \<noteq> Crash x) \<Longrightarrow>
      i = length (progress s) \<Longrightarrow> P s \<Longrightarrow> P s'"
  shows "P s"
  using assms(1-3)
proof (induction rule: reached.induct)
  case (reached_step i s s')
  from reached_inv [OF reached_step.hyps(1) reached_step.prems(1)] have "i = length (progress s)"
    by (simp add: loop_inv_def)
  with step [OF reached_step.hyps(2)] reached_step show ?case by simp
qed simp

lemma attempts_keep:
  assumes "attempts_from e spec wt pre n 0 (fresh_state w) = (s, None)" and "P (fresh_state w)"
    and step: "\<And>i s s' f. attempt e spec wt pre i s = (s', f) \<Longrightarrow> (\<And>x. f \<noteq> Crash x) \<Longrightarrow>
      i = length (progress s) \<Longrightarrow> P s \<Longrightarrow> P s'"
  shows "P s"
proof -
  from attempts_end [OF assms(1) reached_start] obtain j sj where
    j: "reached e spec wt pre (fresh_state w) j sj" "0 \<le> j" "j \<le> 0 + n" and
    e: "(None :: exn option) = None \<and> s = sj \<and> j = 0 + n
       \<or> (None :: exn option) = None \<and> attempt e spec wt pre j sj = (s, Halt) \<and> j < 0 + n
       \<or> (\<exists>x. (None :: exn option) = Some x \<and> attempt e spec wt pre j sj = (s, Crash x)) \<and> j < 0 + n"
    .
  have p: "P sj"
    using j(1) loop_inv_fresh assms(2) by (rule reached_keep [of e spec wt pre _ j sj P]) (rule step)
  have "j = length (progress sj)"
    using reached_inv [OF j(1) loop_inv_fresh] by (simp add: loop_inv_def)
  with e p step [of j sj s Halt] show ?thesis by auto
qed

lemma reached_called:
  assumes "reached e spec wt pre s0 n s" and "called k s0" and "judged (e_oracle e) spec wt (progress s0)"
  shows "called k s \<and> judged (e_oracle e) spec wt (progress s)"
  using assms
proof (induction rule: reached.induct)
  case (reached_step i s s')
  then show ?case using attempt_called [of e spec wt pre i s s' Go] attempt_judged by blast
qed simp

section \<open>The whole run\<close>

lemma fresh_called: "called (total_calls (w_client w)) (fresh_state w)"
  and fresh_judged: "judged (e_oracle e) spec wt (progress (fresh_state w))"
  by (simp_all add: called_def judged_def fresh_state_def)

lemma plan_step_calls:
  "plan_step e spec w = (w1, Inr (planning, plan)) \<Longrightarrow>
     total_calls (w_client w1) = total_calls (w_client w) + length planning
     \<and> length planning = (if plan_first spec then 1 else 0)
     \<and> w_fs w1 = w_fs w \<and> w_store w1 = w_store w"
  by (auto simp: plan_step_def dest: ask_counts split: if_splits prod.splits sum.splits)

lemma attempt_extends:
  assumes "attempt e spec wt pre i s = (s', f)"
  shows "\<exists>qs. progress s' = progress s @ qs \<and> length qs \<le> 1"
  using assms
proof (cases rule: attempt_cases)
  case (early x)
  then show ?thesis by simp
next
  case (reported tail nudged w g w' ar rep)
  then have "progress s' = progress s @ [reported g rep nudged ar w' s]"
    using settle_frame report_log(1) by metis
  then show ?thesis by simp
qed

text \<open>What a bounded loop from a fresh state leaves, however it ends: a log the policy allows, and
  at most one report more.\<close>

lemma attempts_any:
  assumes "attempts_from e spec wt pre n 0 (fresh_state w) = (s, r)"
  obtains ps qs where "progress s = ps @ qs" and "length qs \<le> 1" and "log_allowed [] ps"
    and "flags_true [] ps" and "judged (e_oracle e) spec wt (progress s)" and "length (progress s) \<le> n"
proof -
  from attempts_end [OF assms reached_start] obtain j sj where
    j: "reached e spec wt pre (fresh_state w) j sj" "j \<le> 0 + n" and
    e: "r = None \<and> s = sj \<and> j = 0 + n
       \<or> r = None \<and> attempt e spec wt pre j sj = (s, Halt) \<and> j < 0 + n
       \<or> (\<exists>x. r = Some x \<and> attempt e spec wt pre j sj = (s, Crash x)) \<and> j < 0 + n" .
  from reached_inv [OF j(1) loop_inv_fresh] have
    i: "length (progress sj) = j" "log_allowed [] (progress sj)" "flags_true [] (progress sj)"
    by (auto simp: loop_inv_def in_step_def)
  have q: "judged (e_oracle e) spec wt (progress sj)"
    using reached_called [OF j(1) fresh_called fresh_judged] by blast
  from e consider "s = sj" | f where "attempt e spec wt pre j sj = (s, f)" "j < n" by auto
  then show ?thesis
  proof cases
    case 1
    with i q j(2) show ?thesis by (intro that [of "progress sj" "[]"]) auto
  next
    case 2
    with attempt_extends obtain qs where "progress s = progress sj @ qs" "length qs \<le> 1" by blast
    with i attempt_judged [OF 2(1) q] 2(2) show ?thesis by (intro that [of "progress sj" qs]) auto
  qed
qed

lemma attempts_return:
  assumes "attempts_from e spec wt pre n 0 (fresh_state w) = (s, None)" and "0 < n"
  obtains ps p where "progress s = ps @ [p]" and "log_allowed [] ps" and "in_step s"
    and "goes_on ps p \<Longrightarrow> length (progress s) = n"
    and "called (total_calls (w_client w)) s"
proof -
  from attempts_end [OF assms(1) reached_start] obtain j sj where
    j: "reached e spec wt pre (fresh_state w) j sj" "0 \<le> j" "j \<le> 0 + n" and
    e0: "(None :: exn option) = None \<and> s = sj \<and> j = 0 + n
       \<or> (None :: exn option) = None \<and> attempt e spec wt pre j sj = (s, Halt) \<and> j < 0 + n
       \<or> (\<exists>x. (None :: exn option) = Some x \<and> attempt e spec wt pre j sj = (s, Crash x)) \<and> j < 0 + n"
    .
  from e0 have e: "s = sj \<and> j = n \<or> attempt e spec wt pre j sj = (s, Halt)" by auto
  have i: "loop_inv j sj" by (rule reached_inv [OF j(1) loop_inv_fresh])
  have c: "called (total_calls (w_client w)) sj"
    using reached_called [OF j(1) fresh_called fresh_judged] by blast
  from e show ?thesis
  proof
    assume "s = sj \<and> j = n"
    with i assms(2) have "progress s \<noteq> []" "in_step s" "length (progress s) = n"
      "log_allowed [] (progress s)" by (auto simp: loop_inv_def)
    with c \<open>s = sj \<and> j = n\<close> log_allowed_snoc [of "[]" "butlast (progress s)" "last (progress s)"]
    show ?thesis by (intro that [of "butlast (progress s)" "last (progress s)"]) auto
  next
    assume h: "attempt e spec wt pre j sj = (s, Halt)"
    from attempt_step [OF h _ i] obtain p where
      "progress s = progress sj @ [p]" "in_step s" "\<not> goes_on (progress sj) p" by auto
    with attempt_called [OF h _ c] i show ?thesis
      by (intro that [of "progress sj" p]) (auto simp: loop_inv_def)
  qed
qed

lemma loop_run_returns:
  assumes "loop_run e spec wt w = (s, Inr r)"
  obtains w1 planning plan fs sl where "plan_step e spec w = (w1, Inr (planning, plan))"
    and "write_text (w_fs w1) (oracle_file wt) (test_text spec) = Inr fs"
    and "attempts_from e spec wt (stable_prefix (e_prompt e) spec plan)
           (nat (max_attempts (task_budget spec))) 0 (fresh_state (w1\<lparr>w_fs := fs\<rparr>)) = (sl, None)"
    and "finish e planning (plan_first spec) sl = (s, Inr r)"
  using assms by (auto simp: loop_run_def Let_def split: prod.splits sum.splits option.splits)

lemma finish_frame:
  "finish e planning plan s = (s', r) \<Longrightarrow> progress s' = progress s \<and> results s' = results s
     \<and> last_attempt s' = last_attempt s \<and> w_client (rs_world s') = w_client (rs_world s)
     \<and> w_store (rs_world s') = w_store (rs_world s)"
  by (auto simp: finish_def Let_def split: sum.splits)

text \<open>The end of a returning run, in terms of its log.\<close>

lemma run_end:
  assumes "loop_run e spec wt w = (s, Inr r)" and "0 < max_attempts (task_budget spec)"
  obtains ps p planning where "progress s = ps @ [p]" and "log_allowed [] ps"
    and "flags_true [] (progress s)" and "judged (e_oracle e) spec wt (progress s)"
    and "length (progress s) \<le> nat (max_attempts (task_budget spec))"
    and "goes_on ps p \<Longrightarrow> length (progress s) = nat (max_attempts (task_budget spec))"
    and "map p_generation (progress s) = results s"
    and "map p_attempt (progress s) = [1..<Suc (length (progress s))]"
    and "total_calls (w_client (rs_world s)) = total_calls (w_client w) + length planning + length (progress s)"
    and "length planning = (if plan_first spec then 1 else 0)"
    and "map_option (\<lambda>a. run_score (sa_run a)) (last_attempt s) = p_score p"
    and "lr_best_score r = map_option entry_score (best (w_store (rs_world s)))"
    and "lr_status r = terminal_status (Some (p_generation p)) (p_score p \<noteq> None) (lr_best_score r)"
    and "lr_fault r = r_fault (p_generation p)" and "lr_derail r = r_derail (p_generation p)"
    and "lr_record r = from_run (e_model e) (card_digest (e_prompt e)) (plan_first spec)
           (planning @ results s) (total_calls (w_client (rs_world s))) (length (progress s)) (lr_status r)"
    and "\<exists>w1 plan. plan_step e spec w = (w1, Inr (planning, plan))"
proof -
  from loop_run_returns [OF assms(1)] obtain w1 planning plan fs sl where
    pl: "plan_step e spec w = (w1, Inr (planning, plan))" and
    at: "attempts_from e spec wt (stable_prefix (e_prompt e) spec plan)
           (nat (max_attempts (task_budget spec))) 0 (fresh_state (w1\<lparr>w_fs := fs\<rparr>)) = (sl, None)" and
    fi: "finish e planning (plan_first spec) sl = (s, Inr r)" .
  have n: "0 < nat (max_attempts (task_budget spec))" using assms(2) by simp
  from attempts_return [OF at n] obtain ps p where
    p: "progress sl = ps @ [p]" "log_allowed [] ps" "in_step sl"
    "goes_on ps p \<Longrightarrow> length (progress sl) = nat (max_attempts (task_budget spec))"
    "called (total_calls (w_client w1)) sl" by (auto simp: called_def)
  from attempts_any [OF at] have
    q: "judged (e_oracle e) spec wt (progress sl)" "length (progress sl) \<le> nat (max_attempts (task_budget spec))"
    by blast+
  note fr = finish_frame [OF fi]
  have ms: "map p_generation (progress sl) = results sl" and
    la: "map_option (\<lambda>a. run_score (sa_run a)) (last_attempt sl) = p_score p"
    using p(1,3) by (auto simp: in_step_def)
  then have re: "results sl \<noteq> []" "last (results sl) = p_generation p"
    "length (results sl) = length (progress sl)"
    using p(1) by (auto simp flip: ms)
  have ls: "last_attempt sl \<noteq> None \<longleftrightarrow> p_score p \<noteq> None" by (simp flip: la)
  have rr: "lr_best_score r = map_option entry_score (best (w_store (rs_world s)))"
    "lr_status r = terminal_status (Some (p_generation p)) (p_score p \<noteq> None) (lr_best_score r)"
    "lr_fault r = r_fault (p_generation p)" "lr_derail r = r_derail (p_generation p)"
    "lr_record r = from_run (e_model e) (card_digest (e_prompt e)) (plan_first spec)
           (planning @ results s) (total_calls (w_client (rs_world s))) (length (progress s)) (lr_status r)"
    using fi re ls by (auto simp: finish_def Let_def split: sum.splits)
  have planned: "\<exists>w1 plan. plan_step e spec w = (w1, Inr (planning, plan))" using pl by blast
  show ?thesis
    using that [of ps p planning] p q fr ms la rr plan_step_calls [OF pl] planned
    by (simp add: in_step_def called_def)
qed

lemma run_facts:
  assumes "loop_run e spec wt w = (s, Inr r)" and "0 < max_attempts (task_budget spec)"
  shows "length (progress s) \<le> nat (max_attempts (task_budget spec))"
    and "judged (e_oracle e) spec wt (progress s)"
    and "lr_best_score r = map_option entry_score (best (w_store (rs_world s)))"
    and "\<exists>g scored. lr_status r = terminal_status (Some g) scored (lr_best_score r)"
  by (rule run_end [OF assms], assumption, rule run_end [OF assms], assumption,
      rule run_end [OF assms], assumption, rule run_end [OF assms], blast)

end
