(* ===== verification/Loop_Worktree.thy ===== *)
theory Loop_Worktree
  imports Loop_Control Restore
begin

text \<open>
  The loop and its worktree.  In a worktree without symbolic links every iteration keeps an
  invariant: the oracle test on disk is the one the task brought, and each snapshot in the store
  holds, at the permitted path, the very bytes the attempt of its index replied with.  Restoring
  the best snapshot then puts exactly that reply back.
\<close>

section \<open>One write\<close>

lemma nested_shape:
  assumes "require_nested_relative_file cand = Inr ps"
  shows "2 \<le> length ps" and "DOTDOT \<notin> set ps"
  using assms [unfolded require_nested_split] by blast+

lemma resolve_plain:
  assumes "plain fs wt" and "path_parts cand = ps" and "ps \<noteq> []" and "DOTDOT \<notin> set ps"
    and "resolve_within fs wt cand = Inr t"
  shows "t = wt @ ps"
proof -
  note pp = assms(2) and ne = assms(3)
  have dd: "DOTDOT \<notin> set (wt @ ps)" using assms(4) plain_root [OF assms(1)] by simp
  from assms(5) have "realpath fs (wt @ ps) = Some t
      \<or> (\<exists>q. realpath fs (butlast (wt @ ps)) = Some q \<and> t = q @ [last (wt @ ps)])"
    by (rule resolve_within_Inr) (auto simp: pp)
  then consider "realpath fs (wt @ ps) = Some t"
    | q where "realpath fs (butlast (wt @ ps)) = Some q" "t = q @ [last (wt @ ps)]" by blast
  then show ?thesis
  proof cases
    case 1
    with plain_realpath_self [OF assms(1) _ dd] show ?thesis by simp
  next
    case 2
    have b: "butlast (wt @ ps) = wt @ butlast ps" using ne by (simp add: butlast_append)
    have "DOTDOT \<notin> set (wt @ butlast ps)" using dd by (auto dest: in_set_butlastD)
    with 2(1) b plain_realpath_self [OF assms(1), of "wt @ butlast ps" q] have "q = wt @ butlast ps"
      by simp
    with 2(2) ne show ?thesis by simp
  qed
qed

lemma plain_put:
  assumes "plain fs d" and "wf_fs (fs_put p (File b) fs)" and "p \<noteq> []" and "p \<noteq> d"
  shows "plain (fs_put p (File b) fs) d"
  using assms by (auto simp: plain_def fs_get_put)

lemma apply_plain:
  assumes "plain fs wt" and "require_nested_relative_file cand = Inr ps"
    and "apply_file fs reply wt cand = Inr (t, fs')"
  shows "plain fs' wt \<and> fs_get fs (butlast (wt @ ps)) = Some Dir
    \<and> (\<forall>q. fs_get fs' q = (if q = wt @ ps then Some (File (payload reply)) else fs_get fs q))"
proof -
  note e = apply_file_effect [OF plain_wf [OF assms(1)] assms(3)]
  have ne: "ps \<noteq> []" using nested_shape(1) [OF assms(2)] by auto
  have t: "t = wt @ ps"
    using resolve_plain [OF assms(1) require_nested_parts [OF assms(2)] ne nested_shape(2) [OF assms(2)]] e
    by blast
  have fs': "fs' = fs_put (wt @ ps) (File (payload reply)) fs" using e t by blast
  have wf: "wf_fs fs'" using e by blast
  have "plain fs' wt"
    unfolding fs' by (rule plain_put [OF assms(1) wf [unfolded fs']]) (use ne in simp_all)
  moreover have "fs_get fs' q = (if q = wt @ ps then Some (File (payload reply)) else fs_get fs q)" for q
    using e t by (simp add: fs_get_put)
  ultimately show ?thesis using e t by simp
qed

section \<open>What one iteration does to the disk and to the store\<close>

lemma score_attempt_fs:
  "score_attempt e g i spec wt op w = (w', r) \<Longrightarrow> w_fs w' = w_fs w
     \<or> (\<exists>reply t. apply_file (w_fs w) reply wt (impl_path spec) = Inr (t, w_fs w'))"
  by (auto simp: score_attempt_def Let_def split: if_splits option.splits sum.splits exn.splits)

lemma score_attempt_result:
  assumes "score_attempt e g i spec wt op w = (w', Inr ar)"
  shows "case ar_scored ar of
      None \<Rightarrow> w' = w
    | Some a \<Rightarrow> r_fault g = None \<and> r_derail g = None \<and> ar_blocked_reason ar = None \<and>
        (\<exists>reply t files. extract_file (r_text g) = Some reply
          \<and> apply_file (w_fs w) reply wt (impl_path spec) = Inr (t, w_fs w')
          \<and> decode_strict (payload reply) = Some (sa_source a)
          \<and> capture (w_fs w') (subtree (w_store w)) = Inr files
          \<and> w_store w' = add_entry \<lparr>entry_index = i, entry_score = run_score (sa_run a),
                                     entry_files = files\<rparr> (w_store w))"
  using assms
  by (auto simp: score_attempt_def Let_def dest!: record_attempt_adds
      split: if_splits option.splits sum.splits exn.splits)

lemma reported_world:
  assumes "settle g rep (report g rep nudged ar w' s) = (s', f)"
  shows "rs_world s' = w'" and "progress s' = progress s @ [reported g rep nudged ar w' s]"
  using settle_frame [OF assms] report_log(1,13) by metis+

section \<open>The store is the log of the scored attempts\<close>

definition stored :: "'b run_state \<Rightarrow> bool" where
  "stored s \<longleftrightarrow>
     (\<forall>x\<in>set (entries (w_store (rs_world s))). \<exists>i<length (progress s).
        entry_index x = int i \<and> p_score (progress s ! i) = Some (entry_score x))
   \<and> (\<forall>i<length (progress s). \<forall>v. p_score (progress s ! i) = Some v \<longrightarrow>
        (\<exists>x\<in>set (entries (w_store (rs_world s))). entry_index x = int i \<and> entry_score x = v))"

lemma entries_add: "entries (add_entry x st) = entries st @ [x]" "subtree (add_entry x st) = subtree st"
  by (simp_all add: add_entry_def)

lemma stored_extend:
  assumes "stored s" and "progress s' = progress s @ [p]"
    and "entries (w_store (rs_world s')) = entries (w_store (rs_world s))
      @ (case p_score p of None \<Rightarrow> []
         | Some v \<Rightarrow> [\<lparr>entry_index = int (length (progress s)), entry_score = v, entry_files = fl\<rparr>])"
  shows "stored s'"
proof (cases "p_score p")
  case None
  with assms show ?thesis unfolding stored_def by (auto simp: nth_append less_Suc_eq)
next
  case (Some v)
  with assms show ?thesis unfolding stored_def by (auto simp: nth_append less_Suc_eq; fastforce)
qed

lemma attempt_stored:
  assumes "attempt e spec wt pre i s = (s', f)" and "\<And>x. f \<noteq> Crash x" and "i = length (progress s)"
    and "stored s"
  shows "stored s'"
  using assms(1,2)
proof (cases rule: attempt_returns)
  case (1 tail nudged w g w' ar rep)
  note rw = reported_world [OF 1(5)]
  have sc: "p_score (reported g rep nudged ar w' s) = map_option (\<lambda>a. run_score (sa_run a)) (ar_scored ar)"
    by (rule report_log(6))
  have st: "w_store w = w_store (rs_world s)" using ask_counts [OF 1(2)] by simp
  show ?thesis
  proof (cases "ar_scored ar")
    case None
    with score_attempt_result [OF 1(4)] have "w' = w" by simp
    with None sc rw st assms(4) show ?thesis by (intro stored_extend [OF assms(4) rw(2)]) simp
  next
    case (Some a)
    with score_attempt_result [OF 1(4)] obtain files where
      "w_store w' = add_entry \<lparr>entry_index = int i, entry_score = run_score (sa_run a),
         entry_files = files\<rparr> (w_store w)" by auto
    with Some sc rw st assms(3) show ?thesis
      by (intro stored_extend [OF assms(4) rw(2), of files]) (simp add: entries_add)
  qed
qed

section \<open>The worktree invariant\<close>

text \<open>A snapshot holds the reply of the attempt it was taken after.\<close>

definition snapshot_of :: "path \<Rightarrow> attempt_progress list \<Rightarrow> snapshot_entry \<Rightarrow> bool" where
  "snapshot_of rest ps x \<longleftrightarrow> ok_files (entry_files x) \<and> (\<exists>i<length ps. entry_index x = int i
     \<and> (\<exists>reply. extract_file (r_text (p_generation (ps ! i))) = Some reply
          \<and> map_of (entry_files x) rest = Some (payload reply)))"

lemma snapshot_of_append: "snapshot_of rest ps x \<Longrightarrow> snapshot_of rest (ps @ qs) x"
  by (auto simp: snapshot_of_def nth_append)

definition disk_ok :: "path \<Rightarrow> pystr \<Rightarrow> bytes \<Rightarrow> fs \<Rightarrow> fs \<Rightarrow> bool" where
  "disk_ok wt dir tb fs0 fs \<longleftrightarrow> plain fs wt \<and> fs_get fs (wt @ [dir]) = Some Dir
     \<and> fs_get fs (oracle_file wt) = Some (File tb)
     \<and> (\<forall>q. \<not> below (wt @ [dir]) q \<and> q \<noteq> oracle_file wt \<longrightarrow> fs_get fs q = fs_get fs0 q)"

definition tree_inv :: "path \<Rightarrow> pystr \<Rightarrow> path \<Rightarrow> bytes \<Rightarrow> fs \<Rightarrow> 'b run_state \<Rightarrow> bool" where
  "tree_inv wt dir rest tb fs0 s \<longleftrightarrow> disk_ok wt dir tb fs0 (w_fs (rs_world s))
     \<and> subtree (w_store (rs_world s)) = wt @ [dir]
     \<and> (\<forall>x\<in>set (entries (w_store (rs_world s))). snapshot_of rest (progress s) x)"

lemma plain_sub:
  assumes "plain fs wt" and "fs_get fs (wt @ p) = Some Dir"
  shows "plain fs (wt @ p)"
  using assms by (auto simp: plain_def startswith_iff)

lemma apply_disk_ok:
  assumes "disk_ok wt dir tb fs0 fs" and "require_nested_relative_file cand = Inr (dir # rest)"
    and "apply_file fs reply wt cand = Inr (t, fs')"
  shows "disk_ok wt dir tb fs0 fs' \<and> fs_get fs' (wt @ dir # rest) = Some (File (payload reply))"
proof -
  from assms(1) have p: "plain fs wt" "fs_get fs (wt @ [dir]) = Some Dir"
    "fs_get fs (oracle_file wt) = Some (File tb)" by (simp_all add: disk_ok_def)
  have ne: "rest \<noteq> []" using nested_shape(1) [OF assms(2)] by auto
  then have "below (wt @ [dir]) (wt @ dir # rest)" by (simp add: below_iff)
  with ne apply_plain [OF p(1) assms(2,3)] p(2,3) assms(1) show ?thesis
    by (auto simp: disk_ok_def)
qed

lemma attempt_tree:
  assumes "attempt e spec wt pre i s = (s', f)" and "\<And>x. f \<noteq> Crash x" and "i = length (progress s)"
    and "require_nested_relative_file (impl_path spec) = Inr (dir # rest)" and "tree_inv wt dir rest tb fs0 s"
  shows "tree_inv wt dir rest tb fs0 s'"
  using assms(1,2)
proof (cases rule: attempt_returns)
  case (1 tail nudged w g w' ar rep)
  note rw = reported_world [OF 1(5)]
  let ?p = "reported g rep nudged ar w' s"
  have aw: "w_fs w = w_fs (rs_world s)" "w_store w = w_store (rs_world s)"
    using ask_counts [OF 1(2)] by simp_all
  from assms(5) have d: "disk_ok wt dir tb fs0 (w_fs w)" "subtree (w_store w) = wt @ [dir]"
    "\<forall>x\<in>set (entries (w_store w)). snapshot_of rest (progress s) x"
    by (simp_all add: tree_inv_def aw)
  then have old: "\<forall>x\<in>set (entries (w_store w)). snapshot_of rest (progress s @ [?p]) x"
    by (blast intro: snapshot_of_append)
  show ?thesis
  proof (cases "ar_scored ar")
    case None
    with score_attempt_result [OF 1(4)] have "w' = w" by simp
    with d old rw show ?thesis by (simp add: tree_inv_def)
  next
    case (Some a)
    with score_attempt_result [OF 1(4)] d(2) obtain reply t files where
      r: "extract_file (r_text g) = Some reply"
      "apply_file (w_fs w) reply wt (impl_path spec) = Inr (t, w_fs w')"
      "capture (w_fs w') (wt @ [dir]) = Inr files"
      "w_store w' = add_entry \<lparr>entry_index = int i, entry_score = run_score (sa_run a),
         entry_files = files\<rparr> (w_store w)" by auto
    from apply_disk_ok [OF d(1) assms(4) r(2)] have
      d': "disk_ok wt dir tb fs0 (w_fs w')" "fs_get (w_fs w') (wt @ dir # rest) = Some (File (payload reply))"
      by blast+
    then have "plain (w_fs w') (wt @ [dir])" by (intro plain_sub) (simp_all add: disk_ok_def)
    note c = capture_plain [OF this r(3)]
    have "rest \<noteq> []" using nested_shape(1) [OF assms(4)] by auto
    with c d'(2) have "ok_files files" "map_of files rest = Some (payload reply)" by simp_all
    moreover have "p_generation ?p = g" by (rule report_log(2))
    ultimately have "snapshot_of rest (progress s @ [?p]) \<lparr>entry_index = int i,
        entry_score = run_score (sa_run a), entry_files = files\<rparr>"
      using r(1) assms(3) by (auto simp: snapshot_of_def intro!: exI [of _ "length (progress s)"])
    with d(2) d'(1) old rw r(4) show ?thesis by (simp add: tree_inv_def entries_add)
  qed
qed

section \<open>Each score is the verdict on its own reply\<close>

text \<open>The report of attempt \<open>i\<close>: its score, when it has one, is the oracle's verdict over a file
  system that holds, at the target, this attempt's own reply and, in the oracle file, the task's
  test.\<close>

definition judged_on ::
  "(int \<Rightarrow> fs \<Rightarrow> oracle_env) \<Rightarrow> task_spec \<Rightarrow> path \<Rightarrow> path \<Rightarrow> nat \<Rightarrow> attempt_progress \<Rightarrow> bool" where
  "judged_on orc spec wt target i p \<longleftrightarrow> (\<forall>v. p_score p = Some v \<longrightarrow>
     (\<exists>fs run reply. extract_file (r_text (p_generation p)) = Some reply
        \<and> fs_get fs target = Some (File (payload reply))
        \<and> fs_get fs (oracle_file wt) = Some (File (utf8_bytes (test_text spec)))
        \<and> run_oracle (orc (int i) fs) fs (oracle_file wt) wt (expected_tests spec) = Inr run
        \<and> v = run_score run))"

definition all_judged ::
  "(int \<Rightarrow> fs \<Rightarrow> oracle_env) \<Rightarrow> task_spec \<Rightarrow> path \<Rightarrow> path \<Rightarrow> attempt_progress list \<Rightarrow> bool" where
  "all_judged orc spec wt target ps \<longleftrightarrow> (\<forall>i<length ps. judged_on orc spec wt target i (ps ! i))"

lemma all_judged_snoc:
  "all_judged orc spec wt target (ps @ [p])
     \<longleftrightarrow> all_judged orc spec wt target ps \<and> judged_on orc spec wt target (length ps) p"
  by (auto simp: all_judged_def nth_append less_Suc_eq)

lemma score_attempt_oracle:
  assumes "score_attempt e g i spec wt op w = (w', Inr ar)" and "ar_scored ar = Some a"
  shows "run_oracle (e_oracle e i (w_fs w')) (w_fs w') op wt (expected_tests spec) = Inr (sa_run a)"
  using assms
  by (auto simp: score_attempt_def Let_def dest!: record_attempt_adds
      split: if_splits option.splits sum.splits exn.splits)

lemma attempt_all_judged:
  assumes "attempt e spec wt pre i s = (s', f)" and "\<And>x. f \<noteq> Crash x" and "i = length (progress s)"
    and "require_nested_relative_file (impl_path spec) = Inr (dir # rest)"
    and "tree_inv wt dir rest (utf8_bytes (test_text spec)) fs0 s"
    and "all_judged (e_oracle e) spec wt (wt @ dir # rest) (progress s)"
  shows "all_judged (e_oracle e) spec wt (wt @ dir # rest) (progress s')"
  using assms(1,2)
proof (cases rule: attempt_returns)
  case (1 tail nudged w g w' ar rep)
  let ?p = "reported g rep nudged ar w' s"
  have pg: "p_generation ?p = g" and ps: "p_score ?p = map_option (\<lambda>a. run_score (sa_run a)) (ar_scored ar)"
    by (rule report_log(2), rule report_log(6))
  have d: "disk_ok wt dir (utf8_bytes (test_text spec)) fs0 (w_fs w)"
    using assms(5) ask_counts [OF 1(2)] by (simp add: tree_inv_def)
  have "judged_on (e_oracle e) spec wt (wt @ dir # rest) i ?p"
  proof (cases "ar_scored ar")
    case None
    then show ?thesis by (simp add: judged_on_def ps)
  next
    case (Some a)
    with score_attempt_result [OF 1(4)] obtain reply t where
      "extract_file (r_text g) = Some reply"
      "apply_file (w_fs w) reply wt (impl_path spec) = Inr (t, w_fs w')" by auto
    with apply_disk_ok [OF d assms(4)] score_attempt_oracle [OF 1(4) Some] Some show ?thesis
      unfolding judged_on_def pg ps by (fastforce simp: disk_ok_def)
  qed
  then show ?thesis
    using assms(6) reported_world(2) [OF 1(5)] assms(3) by (simp add: all_judged_snoc)
qed

section \<open>From the first write to the restored tree\<close>

lemma oracle_write:
  assumes "plain fs wt" and "fs_get fs (wt @ [dir]) = Some Dir" and "dir \<noteq> ORACLE_TEST_FILENAME"
    and "write_text fs (oracle_file wt) t = Inr fs'"
  shows "disk_ok wt dir (utf8_bytes t) fs fs'"
proof -
  from assms(4) have w: "write_bytes fs (oracle_file wt) (utf8_bytes t) = Inr fs'"
    by (auto simp: write_text_def utf8_encode_def split: if_splits)
  have dd: "DOTDOT \<notin> set (oracle_file wt)"
    using plain_root [OF assms(1)] by (simp add: ORACLE_TEST_FILENAME_def DOTDOT_def u_def)
  have "fs_get fs (butlast (oracle_file wt)) = Some Dir" using assms(1) by (simp add: plain_def)
  from write_bytes_plain [OF assms(1) _ dd this w] have
    "fs' = fs_put (oracle_file wt) (File (utf8_bytes t)) fs" "plain fs' wt"
    unfolding below_iff by blast+
  moreover from this(1) have "fs_get fs' (wt @ [dir]) = Some Dir"
    "fs_get fs' (oracle_file wt) = Some (File (utf8_bytes t))"
    "\<forall>q. q \<noteq> oracle_file wt \<longrightarrow> fs_get fs' q = fs_get fs q"
    using assms(2,3) by (simp_all add: fs_get_put)
  ultimately show ?thesis by (simp add: disk_ok_def)
qed

lemma returned_stored:
  assumes "loop_run e spec wt w = (s, Inr r)" and "entries (w_store w) = []"
  shows "stored s"
proof -
  from loop_run_returns [OF assms(1)] obtain w1 planning plan fs sl where
    pl: "plan_step e spec w = (w1, Inr (planning, plan))" and
    at: "attempts_from e spec wt (stable_prefix (e_prompt e) spec plan)
           (nat (max_attempts (task_budget spec))) 0 (fresh_state (w1\<lparr>w_fs := fs\<rparr>)) = (sl, None)" and
    fi: "finish e planning (plan_first spec) sl = (s, Inr r)" .
  have "stored (fresh_state (w1\<lparr>w_fs := fs\<rparr>))"
    using plan_step_calls [OF pl] assms(2) by (simp add: stored_def fresh_state_def)
  then have "stored sl"
    by (rule attempts_keep [of e spec wt _ _ _ sl stored, OF at]) (rule attempt_stored)
  with finish_frame [OF fi] show ?thesis by (simp add: stored_def)
qed

lemma unscored_store:
  assumes "stored s"
  shows "map_option entry_score (best (w_store (rs_world s))) = None
    \<longleftrightarrow> (\<forall>p\<in>set (progress s). p_score p = None)"
proof -
  let ?es = "entries (w_store (rs_world s))"
  have b: "map_option entry_score (best (w_store (rs_world s))) = None \<longleftrightarrow> ?es = []"
    by (simp add: best_def)
  show ?thesis
  proof (cases ?es)
    case Nil
    with assms b show ?thesis by (auto simp: stored_def in_set_conv_nth)
  next
    case (Cons x xs)
    then have "x \<in> set ?es" by simp
    with assms obtain i where "i < length (progress s)" "p_score (progress s ! i) = Some (entry_score x)"
      unfolding stored_def by blast
    with nth_mem have "\<exists>p\<in>set (progress s). p_score p \<noteq> None" by fastforce
    with b Cons show ?thesis by auto
  qed
qed

text \<open>A returning run from an empty store in a link-free worktree.\<close>

definition ready :: "task_spec \<Rightarrow> path \<Rightarrow> pystr \<Rightarrow> path \<Rightarrow> 'b world \<Rightarrow> bool" where
  "ready spec wt dir rest w \<longleftrightarrow> plain (w_fs w) wt \<and> fs_get (w_fs w) (wt @ [dir]) = Some Dir
     \<and> require_nested_relative_file (impl_path spec) = Inr (dir # rest)
     \<and> dir \<noteq> ORACLE_TEST_FILENAME
     \<and> w_store w = \<lparr>subtree = wt @ [dir], entries = []\<rparr>"

lemma started_tree:
  assumes "plan_step e spec w = (w1, Inr (planning, plan))"
    and "write_text (w_fs w1) (oracle_file wt) (test_text spec) = Inr fs" and "ready spec wt dir rest w"
  shows "tree_inv wt dir rest (utf8_bytes (test_text spec)) (w_fs w) (fresh_state (w1\<lparr>w_fs := fs\<rparr>))"
proof -
  from plan_step_calls [OF assms(1)] have w1: "w_fs w1 = w_fs w" "w_store w1 = w_store w" by simp_all
  from assms(3) have rd: "plain (w_fs w) wt" "fs_get (w_fs w) (wt @ [dir]) = Some Dir"
    "dir \<noteq> ORACLE_TEST_FILENAME" "w_store w = \<lparr>subtree = wt @ [dir], entries = []\<rparr>"
    by (simp_all add: ready_def)
  from oracle_write [OF rd(1-3) assms(2) [unfolded w1]] rd(4) w1 show ?thesis
    by (simp add: tree_inv_def fresh_state_def)
qed

lemma returned_tree:
  assumes "loop_run e spec wt w = (s, Inr r)" and "ready spec wt dir rest w"
  obtains sl planning where "finish e planning (plan_first spec) sl = (s, Inr r)"
    and "tree_inv wt dir rest (utf8_bytes (test_text spec)) (w_fs w) sl"
proof -
  from loop_run_returns [OF assms(1)] obtain w1 planning plan fs sl where
    pl: "plan_step e spec w = (w1, Inr (planning, plan))" and
    wr: "write_text (w_fs w1) (oracle_file wt) (test_text spec) = Inr fs" and
    at: "attempts_from e spec wt (stable_prefix (e_prompt e) spec plan)
           (nat (max_attempts (task_budget spec))) 0 (fresh_state (w1\<lparr>w_fs := fs\<rparr>)) = (sl, None)" and
    fi: "finish e planning (plan_first spec) sl = (s, Inr r)" .
  have rq: "require_nested_relative_file (impl_path spec) = Inr (dir # rest)"
    using assms(2) by (simp add: ready_def)
  note t0 = started_tree [OF pl wr assms(2)]
  have "tree_inv wt dir rest (utf8_bytes (test_text spec)) (w_fs w) sl"
    by (rule attempts_keep [of e spec wt _ _ _ sl "tree_inv wt dir rest (utf8_bytes (test_text spec)) (w_fs w)",
          OF at t0]) (rule attempt_tree [OF _ _ _ rq])
  then show ?thesis using that [OF fi] by blast
qed

lemma returned_all_judged:
  assumes "loop_run e spec wt w = (s, Inr r)" and "ready spec wt dir rest w"
  shows "all_judged (e_oracle e) spec wt (wt @ dir # rest) (progress s)"
proof -
  from loop_run_returns [OF assms(1)] obtain w1 planning plan fs sl where
    pl: "plan_step e spec w = (w1, Inr (planning, plan))" and
    wr: "write_text (w_fs w1) (oracle_file wt) (test_text spec) = Inr fs" and
    at: "attempts_from e spec wt (stable_prefix (e_prompt e) spec plan)
           (nat (max_attempts (task_budget spec))) 0 (fresh_state (w1\<lparr>w_fs := fs\<rparr>)) = (sl, None)" and
    fi: "finish e planning (plan_first spec) sl = (s, Inr r)" .
  let ?inv = "\<lambda>s. tree_inv wt dir rest (utf8_bytes (test_text spec)) (w_fs w) s
    \<and> all_judged (e_oracle e) spec wt (wt @ dir # rest) (progress s)"
  have rq: "require_nested_relative_file (impl_path spec) = Inr (dir # rest)"
    using assms(2) by (simp add: ready_def)
  have "?inv (fresh_state (w1\<lparr>w_fs := fs\<rparr>))"
    using started_tree [OF pl wr assms(2)] by (simp add: all_judged_def fresh_state_def)
  then have "?inv sl"
    by (rule attempts_keep [of e spec wt _ _ _ sl ?inv, OF at])
      (blast intro: attempt_tree [OF _ _ _ rq] attempt_all_judged [OF _ _ _ rq])
  with finish_frame [OF fi] show ?thesis by simp
qed

lemma finish_restores:
  "finish e planning plan s = (s', Inr r) \<Longrightarrow>
     restore_best (w_store (rs_world s)) (w_fs (rs_world s)) = Inr (w_fs (rs_world s'))
     \<and> lr_best_score r = map_option entry_score (best (w_store (rs_world s)))"
  by (auto simp: finish_def Let_def split: sum.splits)

lemma restored_reply:
  assumes "loop_run e spec wt w = (s, Inr r)" and "ready spec wt dir rest w"
    and "lr_best_score r = Some v"
  shows "\<exists>i<length (progress s). \<exists>reply. p_score (progress s ! i) = Some v
    \<and> extract_file (r_text (p_generation (progress s ! i))) = Some reply
    \<and> fs_get (w_fs (rs_world s)) (wt @ dir # rest) = Some (File (payload reply))
    \<and> (\<forall>j<length (progress s). \<forall>v'. p_score (progress s ! j) = Some v' \<longrightarrow> passed v' \<le> passed v)"
proof -
  from returned_tree [OF assms(1,2)] obtain sl planning where
    fi: "finish e planning (plan_first spec) sl = (s, Inr r)" and
    t: "tree_inv wt dir rest (utf8_bytes (test_text spec)) (w_fs w) sl" .
  note fr = finish_frame [OF fi] and rs = finish_restores [OF fi]
  have "entries (w_store w) = []" using assms(2) by (simp add: ready_def)
  note st = returned_stored [OF assms(1) this]
  from t have tr: "disk_ok wt dir (utf8_bytes (test_text spec)) (w_fs w) (w_fs (rs_world sl))"
    "subtree (w_store (rs_world sl)) = wt @ [dir]"
    "\<forall>x\<in>set (entries (w_store (rs_world sl))). snapshot_of rest (progress sl) x"
    by (simp_all add: tree_inv_def)
  from rs assms(3) have "map_option entry_score (best (w_store (rs_world sl))) = Some v" by metis
  then obtain x where b: "best (w_store (rs_world sl)) = Some x" "entry_score x = v" by auto
  then have x: "x \<in> set (entries (w_store (rs_world sl)))" by (simp add: best_def min_by_in)
  with tr(3) obtain i reply where i: "ok_files (entry_files x)" "i < length (progress sl)"
    "entry_index x = int i" "extract_file (r_text (p_generation (progress sl ! i))) = Some reply"
    "map_of (entry_files x) rest = Some (payload reply)" unfolding snapshot_of_def by blast
  have "plain (w_fs (rs_world sl)) (subtree (w_store (rs_world sl)))"
    unfolding tr(2) using tr(1) by (intro plain_sub) (simp_all add: disk_ok_def)
  from restore_plain [OF this b(1) i(1) conjunct1 [OF rs]] i(5) tr(2) have
    "rest \<noteq> [] \<Longrightarrow> fs_get (w_fs (rs_world s)) (wt @ dir # rest) = Some (File (payload reply))" by simp
  moreover have "rest \<noteq> []"
    using nested_shape(1) [of "impl_path spec" "dir # rest"] assms(2) by (auto simp: ready_def)
  moreover from st x fr have "\<exists>k<length (progress s). entry_index x = int k
      \<and> p_score (progress s ! k) = Some (entry_score x)" unfolding stored_def by simp
  then have "p_score (progress s ! i) = Some v" using i(3) b(2) by auto
  moreover have "passed v' \<le> passed v" if "j < length (progress s)" "p_score (progress s ! j) = Some v'" for j v'
  proof -
    from st that fr obtain y where "y \<in> set (entries (w_store (rs_world sl)))" "entry_score y = v'"
      unfolding stored_def by metis
    with b have "rank_key x \<le> rank_key y" by (simp add: best_def min_by_le)
    with b(2) \<open>entry_score y = v'\<close> show ?thesis by (auto simp: rank_key_def less_eq_rank_def)
  qed
  ultimately show ?thesis using i(2,4) fr by auto
qed

lemma restored_tree:
  assumes "tree_inv wt dir rest tb fs0 sl"
    and "restore_best (w_store (rs_world sl)) (w_fs (rs_world sl)) = Inr fs'"
  shows "plain fs' wt \<and> (\<forall>q. \<not> below (wt @ [dir]) q \<longrightarrow> fs_get fs' q = fs_get (w_fs (rs_world sl)) q)"
proof (cases "best (w_store (rs_world sl))")
  case None
  with assms show ?thesis by (simp add: restore_best_def tree_inv_def disk_ok_def)
next
  case (Some x)
  let ?fs = "w_fs (rs_world sl)"
  from assms(1) have tr: "disk_ok wt dir tb fs0 ?fs" "subtree (w_store (rs_world sl)) = wt @ [dir]"
    "\<forall>x\<in>set (entries (w_store (rs_world sl))). snapshot_of rest (progress sl) x"
    by (simp_all add: tree_inv_def)
  from Some have "x \<in> set (entries (w_store (rs_world sl)))" by (simp add: best_def min_by_in)
  with tr(3) have ok: "ok_files (entry_files x)" by (auto simp: snapshot_of_def)
  have p: "plain ?fs wt" using tr(1) by (simp add: disk_ok_def)
  have "plain ?fs (subtree (w_store (rs_world sl)))"
    unfolding tr(2) using tr(1) by (intro plain_sub) (simp_all add: disk_ok_def)
  from restore_plain [OF this Some ok assms(2)] tr(2) have
    r: "plain fs' (wt @ [dir])" "\<And>q. \<not> below (wt @ [dir]) q \<Longrightarrow> fs_get fs' q = fs_get ?fs q" by simp_all
  have "plain fs' wt"
    unfolding plain_def
  proof (intro conjI allI impI)
    show "wf_fs fs'" by (rule plain_wf [OF r(1)])
    have "\<not> below (wt @ [dir]) wt" by (auto simp: below_iff)
    with r(2) p show "fs_get fs' wt = Some Dir" by (simp add: plain_def)
    fix q assume q: "startswith q wt"
    show "\<not> is_link_node (fs_get fs' q)"
    proof (cases "below (wt @ [dir]) q")
      case True
      with plain_nolink [OF r(1)] below_startswith show ?thesis by blast
    next
      case False
      with r(2) plain_nolink [OF p q] show ?thesis by simp
    qed
  qed
  with r(2) show ?thesis by blast
qed

lemma returned_plain:
  assumes "loop_run e spec wt w = (s, Inr r)" and "ready spec wt dir rest w"
  shows "plain (w_fs (rs_world s)) wt"
proof -
  from returned_tree [OF assms(1,2)] obtain sl planning where
    "finish e planning (plan_first spec) sl = (s, Inr r)"
    "tree_inv wt dir rest (utf8_bytes (test_text spec)) (w_fs w) sl" .
  with restored_tree finish_restores show ?thesis by blast
qed

lemma run_outside:
  assumes "loop_run e spec wt w = (s, Inr r)" and "ready spec wt dir rest w"
  shows "fs_get (w_fs (rs_world s)) (oracle_file wt) = Some (File (utf8_bytes (test_text spec)))
    \<and> (\<forall>q. \<not> below (wt @ [dir]) q \<and> q \<noteq> oracle_file wt \<longrightarrow>
          fs_get (w_fs (rs_world s)) q = fs_get (w_fs w) q)"
proof -
  from returned_tree [OF assms(1,2)] obtain sl planning where
    fi: "finish e planning (plan_first spec) sl = (s, Inr r)" and
    t: "tree_inv wt dir rest (utf8_bytes (test_text spec)) (w_fs w) sl" .
  from restored_tree [OF t conjunct1 [OF finish_restores [OF fi]]] have
    "\<And>q. \<not> below (wt @ [dir]) q \<Longrightarrow> fs_get (w_fs (rs_world s)) q = fs_get (w_fs (rs_world sl)) q"
    by blast
  moreover have "\<not> below (wt @ [dir]) (oracle_file wt)" by (auto simp: below_iff)
  ultimately show ?thesis using t by (simp add: tree_inv_def disk_ok_def)
qed

end
