(* ===== verification/Loop_Properties.thy ===== *)
theory Loop_Properties
  imports Loop_Worktree
begin

text \<open>
  What a run of the loop guarantees, and a small run of it over the replay transport on which the
  properties are instantiated.
\<close>

section \<open>A small run\<close>

definition chat_reply :: "bytes \<Rightarrow> bytes" where
  "chat_reply content = ascii ''data: {\"choices\":[{\"delta\":{\"content\":\"'' @ content
     @ ascii ''\"}}]}'' @ [10, 10]"

definition file_reply :: "string \<Rightarrow> bytes" where
  "file_reply body = chat_reply (ascii ''FILE: src/a.py'' @ [92, 110] @ ascii body)"

definition demo_oracle :: "int \<Rightarrow> fs \<Rightarrow> oracle_env" where
  "demo_oracle i fs = \<lparr>o_executable = u ''python'',
     o_spawn = (\<lambda>cmd cwd box. (Spawned [] [], Some
       (if fs_get fs [u ''w'', u ''src'', u ''a.py''] = Some (File (ascii ''ok''))
        then ascii ''0'' else ascii ''1''))),
     o_parse = (\<lambda>t. Some (Elem (u ''testsuite'') [(u ''tests'', u ''1''), (u ''failures'', t)] [])),
     o_tmp = [u ''tmp'']\<rparr>"

definition demo_engine :: "replay_backend engine" where
  "demo_engine = \<lparr>e_clk = (\<lambda>_. 0), e_gen = replay_generate,
     e_prompt = \<lparr>card = u ''card'', card_digest = u ''d''\<rparr>, e_oracle = demo_oracle, e_model = u ''m''\<rparr>"

definition demo_fs :: fs where
  "demo_fs = [([u ''w''], Dir), ([u ''w'', u ''src''], Dir)]"

definition demo_world :: "bytes list \<Rightarrow> replay_backend world" where
  "demo_world ss = \<lparr>w_client = \<lparr>backend = new_replay ss, total_calls = 0\<rparr>, w_clock = 0,
     w_fs = demo_fs, w_store = \<lparr>subtree = [u ''w'', u ''src''], entries = []\<rparr>\<rparr>"

definition demo_run :: "bytes list \<Rightarrow> replay_backend run_state \<times> (exn + loop_result)" where
  "demo_run ss = loop_run demo_engine sample_task [u ''w''] (demo_world ss)"

text \<open>A reply without a frame, which earns the correction, then a file that passes.\<close>

definition demo_scripts :: "bytes list" where
  "demo_scripts = [chat_reply (ascii ''hm''), file_reply ''ok'']"

lemma demo_run_summary:
  "case demo_run demo_scripts of (s, Inl _) \<Rightarrow> False
   | (s, Inr r) \<Rightarrow> lr_status r = Done \<and> map p_score (progress s) =
        [None, Some \<lparr>passed = 1, failed = 0, errors = 0, collected = 1, skipped = 0, expected = 1\<rparr>]
       \<and> map (p_blocked_reason) (progress s) = [Some No_Frame, None]"
  by code_simp

lemma demo_run_returns:
  obtains s r where "loop_run demo_engine sample_task [u ''w''] (demo_world demo_scripts) = (s, Inr r)"
    and "lr_status r = Done" and "length (progress s) = 2"
    and "p_score (progress s ! 1) =
      Some \<lparr>passed = 1, failed = 0, errors = 0, collected = 1, skipped = 0, expected = 1\<rparr>"
proof -
  obtain s x where d: "demo_run demo_scripts = (s, x)" by fastforce
  with demo_run_summary obtain r where x: "x = Inr r" "lr_status r = Done"
    "map p_score (progress s) =
        [None, Some \<lparr>passed = 1, failed = 0, errors = 0, collected = 1, skipped = 0, expected = 1\<rparr>]"
    by (auto split: sum.splits)
  have "length (progress s) = 2" using arg_cong [OF x(3), of length] by simp
  moreover from this have "p_score (progress s ! 1) = map p_score (progress s) ! 1" by simp
  ultimately show ?thesis using that [of s r] d x by (simp add: demo_run_def)
qed

lemma demo_ready: "ready sample_task [u ''w''] (u ''src'') [u ''a.py''] (demo_world ss)"
proof -
  have "plain demo_fs [u ''w'']"
    unfolding plain_def
  proof (intro conjI allI impI)
    show "wf_fs demo_fs" by (simp add: wf_fs_def demo_fs_def fs_get_def DOTDOT_def u_def)
    show "fs_get demo_fs [u ''w''] = Some Dir" by (simp add: demo_fs_def fs_get_def)
    show "\<not> is_link_node (fs_get demo_fs p)" for p by (simp add: demo_fs_def fs_get_def)
  qed
  moreover have "require_nested_relative_file (impl_path sample_task) = Inr [u ''src'', u ''a.py'']"
    by code_simp
  ultimately show ?thesis
    by (simp add: ready_def demo_world_def demo_fs_def fs_get_def ORACLE_TEST_FILENAME_def u_def)
qed

text \<open>A run that plans first: one call for the plan, one for the file that passes.\<close>

definition planned_task :: task_spec where
  "planned_task = sample_task\<lparr>plan_first := True\<rparr>"

definition plan_scripts :: "bytes list" where
  "plan_scripts = [chat_reply (ascii ''plan''), file_reply ''ok'']"

lemma planned_run_summary:
  "case loop_run demo_engine planned_task [u ''w''] (demo_world plan_scripts) of
     (s, Inl _) \<Rightarrow> False
   | (s, Inr r) \<Rightarrow> er_tokens (lr_record r) = 6 \<and> er_total_calls (lr_record r) = 2"
  by code_simp

section \<open>Properties\<close>

text \<open>C4. The loop refines the policy of its log: when a run returns, every report but the last was
  one after which another attempt is owed (a first structural block, a red verdict that raised
  the best score, or a stall with a rung of the ladder left), the reports are numbered from one
  and their flags are true, and the run stopped either because nothing more was owed or because
  the attempts were spent.\<close>

theorem loop_follows_policy:
  assumes "loop_run e spec wt w = (s, Inr r)" and "0 < max_attempts (task_budget spec)"
  shows "\<exists>ps p. progress s = ps @ [p] \<and> log_allowed [] ps \<and> flags_true [] (progress s)
    \<and> map p_attempt (progress s) = [1..<Suc (length (progress s))]
    \<and> length (progress s) \<le> nat (max_attempts (task_budget spec))
    \<and> (\<not> goes_on ps p \<or> length (progress s) = nat (max_attempts (task_budget spec)))"
  by (rule run_end [OF assms]) blast

theorem loop_follows_policy_witness:
  "\<exists>s r ps p. loop_run demo_engine sample_task [u ''w''] (demo_world demo_scripts) = (s, Inr r)
     \<and> progress s = ps @ [p] \<and> log_allowed [] ps \<and> \<not> goes_on ps p"
proof (rule demo_run_returns)
  fix s r assume d: "loop_run demo_engine sample_task [u ''w''] (demo_world demo_scripts) = (s, Inr r)"
    and l: "length (progress s) = 2"
  have "0 < max_attempts (task_budget sample_task)" by (simp add: sample_task_def)
  from loop_follows_policy [OF d this] l show ?thesis
    using d by (fastforce simp: sample_task_def)
qed

text \<open>C5. Termination does not rest on the attempt budget: however many attempts are allowed and
  however the model answers, and also when the run ends in an exception, an oracle that never
  passes more than n tests sees the loop end within 2n + 7 attempts.\<close>

theorem loop_ends_by_itself:
  assumes "\<forall>i fs run. run_oracle (e_oracle e i fs) fs (oracle_file wt) wt (expected_tests spec) = Inr run
      \<longrightarrow> passed (run_score run) \<le> int n"
    and "loop_run e spec wt w = (s, r)"
  shows "length (progress s) \<le> 2 * n + 7"
proof -
  have bound: "length (progress sl) \<le> 2 * n + 7"
    if "attempts_from e spec wt pre m 0 (fresh_state w') = (sl, x)" for pre m w' sl x
  proof (rule attempts_any [OF that])
    fix ps qs
    assume q: "progress sl = ps @ qs" "length qs \<le> 1" "log_allowed [] ps" "flags_true [] ps"
      "judged (e_oracle e) spec wt (progress sl)"
    have "v \<le> int n" if "v \<in> set (passes ps)" for v
    proof -
      from that obtain sc where sc: "Some sc \<in> set (map p_score ps)" "v = passed sc"
        by (auto simp: passes_def set_somes)
      from sc(1) obtain p where p: "p \<in> set ps" "Some sc = p_score p" by auto
      from q(5) p(1) q(1) p(2) [symmetric] obtain i fs run where
        "run_oracle (e_oracle e i fs) fs (oracle_file wt) wt (expected_tests spec) = Inr run"
        "sc = run_score run" unfolding judged_def by fastforce
      with assms(1) sc(2) show ?thesis by blast
    qed
    then have "best_pass (passes ps) \<le> int n" by (simp add: best_pass_def)
    from log_length [OF q(3,4) this] q(1,2) show ?thesis by simp
  qed
  have "progress (fresh_state w') = []" for w' :: "'a world" by (simp add: fresh_state_def)
  with assms(2) show ?thesis
    by (auto simp: loop_run_def Let_def
        dest!: bound finish_frame split: prod.splits sum.splits option.splits)
qed

lemma demo_oracle_bound:
  assumes "run_oracle (demo_oracle i fs) fs' t wt n = Inr run"
  shows "passed (run_score run) \<le> 1"
proof -
  have d: "decode_text [48] = Inr [48]" "decode_text [49] = Inr [49]"
    "py_int [48] = Inr 0" "py_int [49] = Inr 1" by code_simp+
  have "score_junit (\<lambda>t. Some (Elem (u ''testsuite'') [(u ''tests'', u ''1''), (u ''failures'', t)] [])) [c] n
      = Inr \<lparr>passed = (if c = 48 then 1 else 0), failed = (if c = 48 then 0 else 1), errors = 0,
          collected = 1, skipped = 0, expected = n\<rparr>" if "c = 48 \<or> c = 49" for c
    using that d by (auto simp: score_junit_def int_attr_def u_def)
  then show ?thesis
    using assms d by (auto simp: run_oracle_def demo_oracle_def judge_report_def ascii_def split: if_splits)
qed

theorem loop_ends_by_itself_witness:
  "length (progress (fst (loop_run demo_engine sample_task [u ''w''] (demo_world demo_scripts)))) \<le> 2 * 1 + 7"
proof -
  have "\<forall>i fs run. run_oracle (e_oracle demo_engine i fs) fs (oracle_file [u ''w'']) [u ''w'']
      (expected_tests sample_task) = Inr run \<longrightarrow> passed (run_score run) \<le> int 1"
    by (simp add: demo_engine_def demo_oracle_bound)
  moreover obtain s r where
    "loop_run demo_engine sample_task [u ''w''] (demo_world demo_scripts) = (s, r)" by fastforce
  ultimately show ?thesis using loop_ends_by_itself by (metis fst_conv)
qed

text \<open>C11. A status names one cause, by strict precedence, and the cause is read off the last
  attempt: a green best snapshot is DONE whatever ended the run, else an upstream fault, else a
  derail, else a structural block, else exhaustion; the fault and the derail reason reported are
  those of the last generation.\<close>

theorem loop_status_precedence:
  assumes "loop_run e spec wt w = (s, Inr r)" and "0 < max_attempts (task_budget spec)"
  shows "progress s \<noteq> [] \<and> (let p = last (progress s); g = p_generation p in
      lr_fault r = r_fault g \<and> lr_derail r = r_derail g
    \<and> lr_best_score r = map_option entry_score (best (w_store (rs_world s)))
    \<and> lr_status r =
        (if (case lr_best_score r of None \<Rightarrow> False | Some v \<Rightarrow> is_green v) then Done
         else if r_fault g \<noteq> None then Faulted
         else if r_derail g \<noteq> None then Derailed
         else if p_blocked p then Blocked else Exhausted))"
proof (rule run_end [OF assms])
  fix ps p
  assume "progress s = ps @ [p]"
    and "lr_best_score r = map_option entry_score (best (w_store (rs_world s)))"
    and "lr_status r = terminal_status (Some (p_generation p)) (p_score p \<noteq> None) (lr_best_score r)"
    and "lr_fault r = r_fault (p_generation p)" and "lr_derail r = r_derail (p_generation p)"
  then show ?thesis
    by (auto simp: Let_def terminal_status_def classify_terminal_def p_blocked_def)
qed

theorem loop_status_precedence_witness:
  "\<exists>s r. loop_run demo_engine sample_task [u ''w''] (demo_world demo_scripts) = (s, Inr r)
     \<and> lr_fault r = r_fault (p_generation (last (progress s)))"
proof (rule demo_run_returns)
  fix s r assume d: "loop_run demo_engine sample_task [u ''w''] (demo_world demo_scripts) = (s, Inr r)"
  have "0 < max_attempts (task_budget sample_task)" by (simp add: sample_task_def)
  from loop_status_precedence [OF d this] d show ?thesis by (auto simp: Let_def)
qed

text \<open>C18. The economy record counts what the run cost: one attempt per report; one call per attempt,
  and one more when a plan was asked for; and the tokens of all of them, where the plan's are those
  of the very generation the client returned for the plan request this run made first.\<close>

theorem loop_accounts:
  assumes "loop_run e spec wt w = (s, Inr r)" and "0 < max_attempts (task_budget spec)"
  shows "er_attempts (lr_record r) = length (progress s)
    \<and> er_status (lr_record r) = lr_status r
    \<and> (if plan_first spec
       then \<exists>w1 g. ask e (stable_prefix (e_prompt e) spec []) PLAN_REQUEST (plan_budget spec) w = (w1, Inr g)
         \<and> er_total_calls (lr_record r) = total_calls (w_client w) + 1 + length (progress s)
         \<and> er_tokens (lr_record r) = completion_tokens g
             + sum_list (map (completion_tokens \<circ> p_generation) (progress s))
       else er_total_calls (lr_record r) = total_calls (w_client w) + length (progress s)
         \<and> er_tokens (lr_record r) = sum_list (map (completion_tokens \<circ> p_generation) (progress s)))"
proof (rule run_end [OF assms])
  fix ps p and planning :: "generation_result list"
  assume h: "map p_generation (progress s) = results s"
    "total_calls (w_client (rs_world s)) = total_calls (w_client w) + length planning + length (progress s)"
    "lr_record r = from_run (e_model e) (card_digest (e_prompt e)) (plan_first spec)
           (planning @ results s) (total_calls (w_client (rs_world s))) (length (progress s)) (lr_status r)"
    and pl: "\<exists>w1 plan. plan_step e spec w = (w1, Inr (planning, plan))"
  have "sum_list (map completion_tokens (results s))
      = sum_list (map (completion_tokens \<circ> p_generation) (progress s))"
    by (simp flip: h(1))
  then have tk: "er_tokens (lr_record r) = sum_list (map completion_tokens planning)
            + sum_list (map (completion_tokens \<circ> p_generation) (progress s))"
    by (simp add: h(3) from_run_def Let_def)
  have fields: "er_attempts (lr_record r) = length (progress s)"
    "er_total_calls (lr_record r) = total_calls (w_client w) + length planning + length (progress s)"
    "er_status (lr_record r) = lr_status r"
    by (simp_all add: h(2,3) from_run_def Let_def)
  from pl have "if plan_first spec
      then \<exists>w1 g. ask e (stable_prefix (e_prompt e) spec []) PLAN_REQUEST (plan_budget spec) w = (w1, Inr g)
         \<and> planning = [g]
      else planning = []"
    by (auto simp: plan_step_def split: if_splits prod.splits sum.splits)
  with tk fields show ?thesis by (auto split: if_splits)
qed

theorem loop_accounts_witness:
  "\<exists>s r w1 g. loop_run demo_engine planned_task [u ''w''] (demo_world plan_scripts) = (s, Inr r)
     \<and> ask demo_engine (stable_prefix (e_prompt demo_engine) planned_task []) PLAN_REQUEST
         (plan_budget planned_task) (demo_world plan_scripts) = (w1, Inr g)
     \<and> er_total_calls (lr_record r) = 2 \<and> er_tokens (lr_record r) = 6
     \<and> 6 = completion_tokens g + sum_list (map (completion_tokens \<circ> p_generation) (progress s))"
proof -
  obtain s x where d: "loop_run demo_engine planned_task [u ''w''] (demo_world plan_scripts) = (s, x)"
    by fastforce
  with planned_run_summary obtain r where
    x: "x = Inr r" "er_tokens (lr_record r) = 6" "er_total_calls (lr_record r) = 2"
    by (auto split: sum.splits)
  have "0 < max_attempts (task_budget planned_task)" "plan_first planned_task"
    by (simp_all add: planned_task_def sample_task_def)
  from loop_accounts [OF d [unfolded x(1)] this(1)] this(2) d x show ?thesis by auto
qed

text \<open>The plateau detector, which keeps a watermark and a counter, says exactly this: among the
  attempts that reached the oracle, the last two passed no more tests than the best before
  them.\<close>

theorem plateau_is_two_misses:
  "plateau_reached (fold plateau_record (map p_score ps) new_plateau) \<longleftrightarrow>
     (\<exists>xs a b. passes ps = xs @ [a, b] \<and> a \<le> best_pass xs \<and> b \<le> best_pass xs)"
  using missed_twice [of ps] by (simp add: plateau_of_def)

lemma red_before:
  "log_allowed [] ps \<Longrightarrow> i < length ps \<Longrightarrow> p_score (ps ! i) = Some v \<Longrightarrow> \<not> is_green v"
proof (induction ps rule: rev_induct)
  case (snoc p ps)
  then show ?case
    by (cases "i < length ps") (auto simp: log_allowed_snoc goes_on_def nth_append less_Suc_eq)
qed simp

lemma judged_green:
  assumes "judged (e_oracle e) spec wt ps" and "p \<in> set ps" and "p_score p = Some v"
  shows "is_green v \<longleftrightarrow> passed v = expected_tests spec \<and> failed v = 0 \<and> errors v = 0"
proof -
  from assms obtain i fs run where
    "run_oracle (e_oracle e i fs) fs (oracle_file wt) wt (expected_tests spec) = Inr run"
    "v = run_score run" unfolding judged_def by blast
  then show ?thesis by (simp add: junit_oracle.green_passes_all)
qed

definition sane_score :: "int \<Rightarrow> attempt_progress \<Rightarrow> bool" where
  "sane_score n p \<longleftrightarrow> (case p_score p of None \<Rightarrow> True
     | Some v \<Rightarrow> passed v \<le> n \<and> 0 \<le> errors v \<and> 0 \<le> failed v)"

text \<open>C10. A green verdict ends the run at once, and the run is then DONE, provided no attempt
  reports more passes than the tests the task pins (such an attempt would be restored in its
  place).\<close>

theorem green_ends_the_run:
  assumes "loop_run e spec wt w = (s, Inr r)" and "0 < max_attempts (task_budget spec)"
    and "entries (w_store w) = []" and "i < length (progress s)"
    and "p_score (progress s ! i) = Some v" and "is_green v"
  shows "Suc i = length (progress s)
    \<and> (list_all (sane_score (expected_tests spec)) (progress s) \<longrightarrow> lr_status r = Done)"
proof (rule run_end [OF assms(1,2)])
  fix ps p
  assume h: "progress s = ps @ [p]" "log_allowed [] ps" "judged (e_oracle e) spec wt (progress s)"
    "lr_best_score r = map_option entry_score (best (w_store (rs_world s)))"
    "lr_status r = terminal_status (Some (p_generation p)) (p_score p \<noteq> None) (lr_best_score r)"
  have "\<not> i < length ps" using red_before [OF h(2)] assms(5,6) h(1) by (auto simp: nth_append)
  with assms(4) h(1) have last: "Suc i = length (progress s)" by simp
  have "lr_status r = Done" if ok: "list_all (sane_score (expected_tests spec)) (progress s)"
  proof -
    let ?st = "w_store (rs_world s)"
    from returned_stored [OF assms(1,3)] assms(4,5) obtain g where
      g: "g \<in> set (entries ?st)" "entry_score g = v" unfolding stored_def by blast
    then have "best ?st \<noteq> None" by (auto simp: best_def)
    then obtain b where b: "best ?st = Some b" by blast
    then have "b \<in> set (entries ?st)" by (simp add: best_def min_by_in)
    with returned_stored [OF assms(1,3)] obtain j where
      j: "j < length (progress s)" "p_score (progress s ! j) = Some (entry_score b)"
      unfolding stored_def by blast
    have "rank_key b \<le> rank_key g" using b g(1) by (simp add: best_def min_by_le)
    moreover have "passed v = expected_tests spec" "failed v = 0" "errors v = 0"
      using judged_green [OF h(3) nth_mem [OF assms(4)] assms(5)] assms(6) by auto
    moreover have "passed (entry_score b) \<le> expected_tests spec" "0 \<le> errors (entry_score b)"
      "0 \<le> failed (entry_score b)"
      using ok j by (auto simp: list_all_length sane_score_def dest!: spec [of _ j])
    ultimately have "passed (entry_score b) = expected_tests spec" "failed (entry_score b) = 0"
      "errors (entry_score b) = 0"
      using g(2) by (auto simp: rank_key_def less_eq_rank_def)
    then have "is_green (entry_score b)" using judged_green [OF h(3) nth_mem [OF j(1)] j(2)] by simp
    with h(4,5) b show ?thesis by (simp add: terminal_status_def classify_terminal_def Let_def)
  qed
  with last show ?thesis by blast
qed

theorem green_ends_the_run_witness:
  "\<exists>s r. loop_run demo_engine sample_task [u ''w''] (demo_world demo_scripts) = (s, Inr r)
     \<and> Suc 1 = length (progress s)"
proof (rule demo_run_returns)
  fix s r assume d: "loop_run demo_engine sample_task [u ''w''] (demo_world demo_scripts) = (s, Inr r)"
    and l: "length (progress s) = 2" and v: "p_score (progress s ! 1) =
      Some \<lparr>passed = 1, failed = 0, errors = 0, collected = 1, skipped = 0, expected = 1\<rparr>"
  have "0 < max_attempts (task_budget sample_task)" by (simp add: sample_task_def)
  moreover have "entries (w_store (demo_world demo_scripts)) = []" by (simp add: demo_world_def)
  moreover have "1 < length (progress s)" using l by simp
  moreover have "is_green \<lparr>passed = 1, failed = 0, errors = 0, collected = 1, skipped = 0, expected = 1\<rparr>"
    by (simp add: is_green_def is_valid_def)
  ultimately show ?thesis using green_ends_the_run [OF d _ _ _ v] d by blast
qed

text \<open>C1. What the run leaves on disk is what it reports: when a best score exists, some attempt
  earned exactly it, no attempt passed more tests, and the implementation file holds, byte for
  byte, the file that attempt replied with, whatever later attempts wrote over it.\<close>

theorem disk_holds_the_best_reply:
  assumes "loop_run e spec wt w = (s, Inr r)" and "ready spec wt dir rest w"
    and "lr_best_score r = Some v"
  shows "\<exists>i<length (progress s). \<exists>reply. p_score (progress s ! i) = Some v
    \<and> extract_file (r_text (p_generation (progress s ! i))) = Some reply
    \<and> fs_get (w_fs (rs_world s)) (wt @ dir # rest) = Some (File (payload reply))
    \<and> (\<forall>j<length (progress s). \<forall>v'. p_score (progress s ! j) = Some v' \<longrightarrow> passed v' \<le> passed v)"
  by (rule restored_reply [OF assms])

theorem disk_holds_the_best_reply_witness:
  "\<exists>s r. \<exists>reply :: whole_file_reply. loop_run demo_engine sample_task [u ''w''] (demo_world demo_scripts) = (s, Inr r)
     \<and> fs_get (w_fs (rs_world s)) ([u ''w''] @ u ''src'' # [u ''a.py'']) = Some (File (payload reply))"
proof (rule demo_run_returns)
  fix s r assume d: "loop_run demo_engine sample_task [u ''w''] (demo_world demo_scripts) = (s, Inr r)"
    and "lr_status r = Done"
  have "0 < max_attempts (task_budget sample_task)" by (simp add: sample_task_def)
  then obtain g scored where "lr_status r = terminal_status (Some g) scored (lr_best_score r)"
    by (rule run_end [OF d]) blast
  with \<open>lr_status r = Done\<close> obtain v where "lr_best_score r = Some v"
    by (auto simp: terminal_status_def classify_terminal_def Let_def split: if_splits option.splits)
  from disk_holds_the_best_reply [OF d demo_ready this] d show ?thesis by blast
qed

text \<open>C2. A run writes in two places only: the oracle test, which after the run still holds the test
  the task brought, and the subtree the store was opened on; every other path is as it was.\<close>

theorem run_writes_only_its_places:
  assumes "loop_run e spec wt w = (s, Inr r)" and "ready spec wt dir rest w"
  shows "fs_get (w_fs (rs_world s)) (oracle_file wt) = Some (File (utf8_bytes (test_text spec)))
    \<and> (\<forall>q. \<not> below (wt @ [dir]) q \<and> q \<noteq> oracle_file wt \<longrightarrow>
          fs_get (w_fs (rs_world s)) q = fs_get (w_fs w) q)"
  by (rule run_outside [OF assms])

theorem run_writes_only_its_places_witness:
  "\<exists>s r. loop_run demo_engine sample_task [u ''w''] (demo_world demo_scripts) = (s, Inr r)
     \<and> fs_get (w_fs (rs_world s)) [u ''w'', ORACLE_TEST_FILENAME] = Some (File (ascii ''assert 1''))"
proof (rule demo_run_returns)
  fix s r assume d: "loop_run demo_engine sample_task [u ''w''] (demo_world demo_scripts) = (s, Inr r)"
  have "utf8_bytes (test_text sample_task) = ascii ''assert 1''" by code_simp
  with run_writes_only_its_places [OF d demo_ready] d show ?thesis by auto
qed

section \<open>A reply that cannot be encoded\<close>

text \<open>C19. A frame-less first reply that holds a lone surrogate, which one JSON escape produces, ends
  the run with \<open>UnicodeEncodeError\<close> instead of the correction it is owed: no result, no record
  and no restored tree, whatever budget is left.\<close>

theorem surrogate_reply_ends_the_run:
  assumes "\<not> plan_first spec" and "0 < max_attempts (task_budget spec)"
    and "write_text (w_fs w) (oracle_file wt) (test_text spec) = Inr fs"
    and "ask e (stable_prefix (e_prompt e) spec []) [] (task_budget spec) (w\<lparr>w_fs := fs\<rparr>) = (w', Inr g)"
    and "r_fault g = None" and "r_derail g = None"
    and "extract_file (r_text g) = None" and "\<not> encodable (r_text g)"
  shows "snd (loop_run e spec wt w) = Inl Unicode_Encode_Error"
proof -
  obtain m where m: "nat (max_attempts (task_budget spec)) = Suc m"
    using assms(2) by (cases "nat (max_attempts (task_budget spec))") auto
  have c: "cap_bytes (r_text g) n = Inl Unicode_Encode_Error" for n
    using assms(8) by (simp add: cap_bytes_def utf8_encode_def)
  show ?thesis
    using assms(1,3-7) c
    by (simp add: loop_run_def plan_step_def m attempt_def next_tail_def fresh_state_def
        score_attempt_def settle_def report_def correction_def reframe_for_def Let_def)
qed

definition surrogate_scripts :: "bytes list" where
  "surrogate_scripts = [chat_reply [92, 117, 100, 56, 48, 48]]"

definition surrogate_fs :: fs where
  "surrogate_fs = demo_fs @ [([u ''w'', u ''test_loop_oracle.py''], File (ascii ''assert 1''))]"

lemma surrogate_write:
  "write_text (w_fs (demo_world surrogate_scripts)) (oracle_file [u ''w'']) (test_text sample_task)
     = Inr surrogate_fs"
  by code_simp

lemma surrogate_ask:
  "case ask demo_engine (stable_prefix (e_prompt demo_engine) sample_task []) []
      (task_budget sample_task) ((demo_world surrogate_scripts)\<lparr>w_fs := surrogate_fs\<rparr>) of
     (_, Inl _) \<Rightarrow> False
   | (_, Inr g) \<Rightarrow> r_text g = [55296] \<and> r_fault g = None \<and> r_derail g = None"
  by code_simp

theorem surrogate_reply_ends_the_run_witness:
  "snd (loop_run demo_engine sample_task [u ''w''] (demo_world surrogate_scripts))
     = Inl Unicode_Encode_Error"
proof -
  let ?w = "(demo_world surrogate_scripts)\<lparr>w_fs := surrogate_fs\<rparr>"
  obtain w' x where a: "ask demo_engine (stable_prefix (e_prompt demo_engine) sample_task []) []
      (task_budget sample_task) ?w = (w', x)" by fastforce
  with surrogate_ask obtain g where g: "x = Inr g" "r_text g = [55296]" "r_fault g = None"
    "r_derail g = None" by (auto split: sum.splits)
  have "\<not> plan_first sample_task" "0 < max_attempts (task_budget sample_task)"
    by (simp_all add: sample_task_def)
  moreover have "extract_file [55296] = None" "\<not> encodable [55296]" by code_simp+
  ultimately show ?thesis
    using surrogate_reply_ends_the_run [OF _ _ surrogate_write a [unfolded g(1)] g(3,4)] g(2) by simp
qed

end
