(* ===== verification/Entrypoint.thy ===== *)
theory Entrypoint
  imports Loop_Worktree Backend
begin

text \<open>
  \<open>entrypoint.py\<close>: \<open>implement\<close>, the composition root, and the \<open>Outcome\<close> it returns.  The pieces
  are wired as the code wires them, over the \<open>httpx\<close> transport; the managed worktree is a fresh
  directory of the host whose name is a parameter, created before the run and removed, with
  everything in it, however the run ends.
\<close>

section \<open>Outcome\<close>

record outcome =
  oc_status :: status
  oc_code :: "pystr option"
  oc_impl_path :: pystr
  oc_files_changed :: "pystr list"
  oc_record :: economy_record
  oc_fault :: "sse_message option"
  oc_derail :: "derail_reason option"

text \<open>The text of an upstream error; \<open>py_str\<close> is Python's \<open>str\<close> of a decoded value.\<close>

definition message_text :: "(json \<Rightarrow> pystr) \<Rightarrow> sse_message \<Rightarrow> pystr" where
  "message_text py_str m =
     (case m of
        Malformed_Frame p \<Rightarrow> u ''malformed SSE frame: '' @ p
      | Unexpected_Frame t \<Rightarrow> u ''unexpected SSE frame shape: '' @ t
      | Unexpected_Shape f x t \<Rightarrow>
          u ''unexpected '' @ f @ u '' shape: expected '' @ x @ u '', got '' @ t
      | Upstream_Message s \<Rightarrow> s
      | Str_Of v \<Rightarrow> py_str v
      | Frame_Too_Large \<Rightarrow>
          u ''SSE frame exceeded '' @ str_nat MAX_FRAME_BYTES @ u '' bytes with no delimiter'')"

definition parenthesised :: "pystr \<Rightarrow> pystr" where
  "parenthesised t = (if t = [] then [] else u '' ('' @ t @ u '')'')"

definition outcome_summary :: "(json \<Rightarrow> pystr) \<Rightarrow> outcome \<Rightarrow> pystr" where
  "outcome_summary py_str oc =
     (case oc_status oc of
        Done \<Rightarrow> u ''Implemented '' @ oc_impl_path oc @ u ''; the oracle test passed.''
      | Exhausted \<Rightarrow> u ''Exhausted the attempt budget on '' @ oc_impl_path oc
          @ u ''; kept the best partial (the oracle test did not pass).''
      | Derailed \<Rightarrow> u ''Generation derailed on '' @ oc_impl_path oc @ u '' within the decode budget''
          @ parenthesised (case oc_derail oc of None \<Rightarrow> [] | Some r \<Rightarrow> derail_value r)
          @ u ''; produced no passing implementation.''
      | Blocked \<Rightarrow> u ''Blocked on '' @ oc_impl_path oc
          @ u '': the model returned no usable whole-file edit.''
      | Faulted \<Rightarrow> u ''Faulted on '' @ oc_impl_path oc @ u '': the model server returned an error''
          @ parenthesised (case oc_fault oc of None \<Rightarrow> [] | Some m \<Rightarrow> message_text py_str m)
          @ u ''; produced no passing implementation.'')"

section \<open>implement\<close>

definition writable_subtree :: "pystr \<Rightarrow> exn + pystr" where
  "writable_subtree path = bindE (require_nested_relative_file path) (\<lambda>ps. Inr (hd ps))"

text \<open>The host: what the wiring reaches that is not code.\<close>

record host =
  h_clk :: "nat \<Rightarrow> rat"
  h_post :: "nat \<Rightarrow> transport"
  h_oracle :: "int \<Rightarrow> fs \<Rightarrow> oracle_env"
  h_sha256 :: "bytes \<Rightarrow> pystr"
  h_tmp :: path

text \<open>The server may answer the same request differently each time: its answers are indexed by
  the number of the call.\<close>

definition call_generate ::
  "(nat \<Rightarrow> transport) \<Rightarrow> httpx_backend \<times> nat \<Rightarrow> pystr \<Rightarrow> pystr \<Rightarrow> budget
     \<Rightarrow> (httpx_backend \<times> nat) \<times> (exn + byte_stream)" where
  "call_generate post hb prefix tail b =
     (case httpx_generate (post (snd hb)) (fst hb) prefix tail b of
        (hb', r) \<Rightarrow> ((hb', snd hb + 1), r))"

definition remove_tree :: "path \<Rightarrow> fs \<Rightarrow> fs" where
  "remove_tree d fs = filter (\<lambda>(p, _). \<not> startswith p d) fs"

text \<open>The body of the \<open>with\<close> block.  First the parent directory, the wiring and the run; the left
  value is an exception before the loop, with the file system it met.\<close>

definition wired_run ::
  "host \<Rightarrow> task_spec \<Rightarrow> pystr \<Rightarrow> pystr \<Rightarrow> (pystr \<times> json) list \<Rightarrow> path \<Rightarrow> pystr \<Rightarrow> path \<Rightarrow> fs
     \<Rightarrow> fs \<times> exn + (httpx_backend \<times> nat) run_state \<times> (exn + loop_result)" where
  "wired_run h spec base_url model params card_path dir wt fs =
     (case mkdirs fs (wt @ butlast (path_parts (impl_path spec))) of
        Inl x \<Rightarrow> Inl (fs, x)
      | Inr fs1 \<Rightarrow>
          (case bindE (read_text fs1 card_path) (mk_builder (h_sha256 h)) of
             Inl x \<Rightarrow> Inl (fs1, x)
           | Inr pb \<Rightarrow>
               (case mk_store fs1 wt dir of
                  Inl x \<Rightarrow> Inl (fs1, x)
                | Inr st \<Rightarrow>
                    (let e = \<lparr>e_clk = h_clk h, e_gen = call_generate (h_post h), e_prompt = pb,
                               e_oracle = h_oracle h, e_model = model\<rparr>;
                         w = \<lparr>w_client = \<lparr>backend = (mk_httpx base_url model params, 0), total_calls = 0\<rparr>,
                              w_clock = 0, w_fs = fs1, w_store = st\<rparr>
                     in Inr (loop_run e spec wt w)))))"

text \<open>Then the read-back of the file and the outcome.\<close>

definition implement_in ::
  "host \<Rightarrow> task_spec \<Rightarrow> pystr \<Rightarrow> pystr \<Rightarrow> (pystr \<times> json) list \<Rightarrow> path \<Rightarrow> pystr \<Rightarrow> path \<Rightarrow> fs
     \<Rightarrow> fs \<times> (exn + outcome)" where
  "implement_in h spec base_url model params card_path dir wt fs =
     (case wired_run h spec base_url model params card_path dir wt fs of
        Inl (fs', x) \<Rightarrow> (fs', Inl x)
      | Inr (s, Inl x) \<Rightarrow> (w_fs (rs_world s), Inl x)
      | Inr (s, Inr r) \<Rightarrow>
          (w_fs (rs_world s),
           bindE (if has_scored_edit r
                  then bindE (read_text (w_fs (rs_world s)) (wt @ path_parts (impl_path spec)))
                         (\<lambda>t. Inr (Some t))
                  else Inr None)
             (\<lambda>code. Inr \<lparr>oc_status = lr_status r, oc_code = code,
                oc_impl_path = impl_path spec,
                oc_files_changed = (if code = None then [] else [impl_path spec]),
                oc_record = lr_record r, oc_fault = lr_fault r,
                oc_derail = lr_derail r\<rparr>)))"

text \<open>The log of that same run: what it reported of its attempts, in order.\<close>

definition attempt_log ::
  "host \<Rightarrow> task_spec \<Rightarrow> pystr \<Rightarrow> pystr \<Rightarrow> (pystr \<times> json) list \<Rightarrow> path \<Rightarrow> pystr \<Rightarrow> path \<Rightarrow> fs
     \<Rightarrow> attempt_progress list" where
  "attempt_log h spec base_url model params card_path dir wt fs =
     (case wired_run h spec base_url model params card_path dir wt fs of
        Inl _ \<Rightarrow> [] | Inr (s, _) \<Rightarrow> progress s)"

definition implement ::
  "host \<Rightarrow> task_spec \<Rightarrow> pystr \<Rightarrow> pystr \<Rightarrow> (pystr \<times> json) list \<Rightarrow> path \<Rightarrow> path option \<Rightarrow> fs
     \<Rightarrow> fs \<times> (exn + outcome)" where
  "implement h spec base_url model params card_path worktree fs =
     (case writable_subtree (impl_path spec) of
        Inl x \<Rightarrow> (fs, Inl x)
      | Inr dir \<Rightarrow>
          (case worktree of
             Some wt \<Rightarrow> implement_in h spec base_url model params card_path dir wt fs
           | None \<Rightarrow>
               (case implement_in h spec base_url model params card_path dir (h_tmp h)
                       (fs_put (h_tmp h) Dir fs) of
                  (fs', r) \<Rightarrow> (remove_tree (h_tmp h) fs', r))))"

section \<open>A prepared worktree is ready for the loop\<close>

lemma path_parts_segment:
  assumes "require_nested_relative_file cand = Inr (dir # rest)"
  shows "path_parts dir = [dir]"
proof -
  note rn = assms [unfolded require_nested_split]
  then have "47 \<notin> set dir" using split_on_no_sep [of dir 47 cand] by simp
  with rn show ?thesis by (simp add: path_parts_def split_on_single)
qed

lemma prepared_ready:
  assumes "plain fs wt" and "require_nested_relative_file (impl_path spec) = Inr (dir # rest)"
    and "mkdirs fs (wt @ butlast (dir # rest)) = Inr fs1" and "mk_store fs1 wt dir = Inr st"
  shows "plain fs1 wt \<and> fs_get fs1 (wt @ [dir]) = Some Dir
    \<and> st = \<lparr>subtree = wt @ [dir], entries = []\<rparr>
    \<and> (\<forall>q. \<not> below wt q \<longrightarrow> fs_get fs1 q = fs_get fs q)"
proof -
  have ne: "rest \<noteq> []" using nested_shape(1) [OF assms(2)] by auto
  have dd: "DOTDOT \<notin> set (wt @ butlast (dir # rest))"
    using nested_shape(2) [OF assms(2)] plain_root [OF assms(1)] by (auto dest: in_set_butlastD)
  from mkdirs_plain [OF assms(1) _ dd assms(3)] have
    m: "plain fs1 wt" "grown (wt @ butlast (dir # rest)) fs fs1"
      "fs_get fs1 (wt @ butlast (dir # rest)) = Some Dir" by simp_all
  have d: "fs_get fs1 (wt @ [dir]) = Some Dir"
  proof (cases "butlast rest")
    case Nil
    with m(3) ne show ?thesis by simp
  next
    case (Cons c cs)
    have "real_dirs fs1 (wt @ butlast (dir # rest))"
      using existing_ok [OF plain_wf [OF m(1)]] m(3) by simp
    with ne Cons real_dirs_prefix [of fs1 "wt @ [dir]" c cs] show ?thesis by simp
  qed
  have "DOTDOT \<notin> set [dir]" using nested_shape(2) [OF assms(2)] by simp
  from assms(4) resolve_plain [OF m(1) path_parts_segment [OF assms(2)] _ this] have
    "st = \<lparr>subtree = wt @ [dir], entries = []\<rparr>" by (auto simp: mk_store_def bindE_eq_Inr)
  moreover have "fs_get fs1 q = fs_get fs q" if "\<not> below wt q" for q
  proof (rule ccontr)
    assume c: "fs_get fs1 q \<noteq> fs_get fs q"
    with m(2) have q: "startswith (wt @ butlast (dir # rest)) q" "fs_get fs q = None"
      unfolding grown_def by blast+
    have "fs_get fs (take i wt) \<noteq> None" for i
      using assms(1) plain_root [OF assms(1)]
      by (cases "i < length wt") (auto simp: plain_def real_dirs_def)
    moreover have "q = take (length q) wt"
      using q(1) that by (auto simp: startswith_iff below_def append_eq_append_conv2)
    ultimately show False using q(2) by metis
  qed
  ultimately show ?thesis using m(1) d by blast
qed

lemma call_generation_source: "call_generate post hb p t b = (hb', r) \<Longrightarrow> \<exists>s. r = Inr s"
  by (auto simp: call_generate_def httpx_generate_def)

lemma implement_in_returns:
  assumes "implement_in h spec base_url model params card_path dir wt fs = (fs', Inr oc)"
  obtains fs1 pb st s r where "mkdirs fs (wt @ butlast (path_parts (impl_path spec))) = Inr fs1"
    and "mk_store fs1 wt dir = Inr st"
    and "loop_run \<lparr>e_clk = h_clk h, e_gen = call_generate (h_post h), e_prompt = pb,
             e_oracle = h_oracle h, e_model = model\<rparr> spec wt
           \<lparr>w_client = \<lparr>backend = (mk_httpx base_url model params, 0), total_calls = 0\<rparr>,
             w_clock = 0, w_fs = fs1, w_store = st\<rparr> = (s, Inr r)"
    and "attempt_log h spec base_url model params card_path dir wt fs = progress s"
    and "fs' = w_fs (rs_world s)"
    and "if lr_best_score r = None then oc_code oc = None
         else \<exists>c. oc_code oc = Some c \<and> read_text fs' (wt @ path_parts (impl_path spec)) = Inr c"
    and "oc_status oc = lr_status r" and "oc_record oc = lr_record r"
    and "oc_impl_path oc = impl_path spec"
    and "oc_files_changed oc = (if oc_code oc = None then [] else [impl_path spec])"
  using assms
  by (auto simp: implement_in_def wired_run_def attempt_log_def Let_def bindE_eq_Inr
      has_scored_edit_def split: sum.splits prod.splits if_splits)

lemma no_cr: "CR \<notin> set (universal_newlines t)"
  by (induction t rule: universal_newlines.induct) auto

lemma read_plain:
  assumes "plain fs wt" and "startswith p wt" and "fs_get fs p = Some (File b)"
  shows "read_bytes fs p = Inr b"
  using plain_realpath [OF assms(1,2)] assms(3) by (simp add: read_bytes_def)

lemma remove_tree_get:
  assumes "d \<noteq> []"
  shows "fs_get (remove_tree d fs) q = (if startswith q d then None else fs_get fs q)"
proof (cases "q = []")
  case True
  with assms show ?thesis by (simp add: startswith_iff)
next
  case False
  have "map_of (filter (\<lambda>(p, _). \<not> startswith p d) fs) q
      = (if startswith q d then None else map_of fs q)"
    by (induction fs) auto
  with False show ?thesis by (simp add: fs_get_def remove_tree_def)
qed

text \<open>A directory the host can create fresh.\<close>

definition fresh_dir :: "fs \<Rightarrow> path \<Rightarrow> bool" where
  "fresh_dir fs d \<longleftrightarrow> wf_fs fs \<and> d \<noteq> [] \<and> fs_get fs (butlast d) = Some Dir \<and> fs_get fs d = None
     \<and> DOTDOT \<notin> set d"

lemma fresh_below: "fresh_dir fs d \<Longrightarrow> startswith q d \<Longrightarrow> fs_get fs q = None"
proof (rule ccontr)
  assume f: "fresh_dir fs d" and s: "startswith q d" and "fs_get fs q \<noteq> None"
  then have "real_dirs fs q" by (auto simp: fresh_dir_def dest: wf_fs_real_dirs)
  with s f \<open>fs_get fs q \<noteq> None\<close> show False
    by (cases "q = d") (auto simp: fresh_dir_def startswith_iff real_dirs_def dest!: spec [of _ "length d"])
qed

lemma fresh_plain:
  assumes "fresh_dir fs d"
  shows "plain (fs_put d Dir fs) d"
proof -
  have "wf_fs (fs_put d Dir fs)" using assms by (intro wf_fs_put) (auto simp: fresh_dir_def)
  with assms fresh_below [OF assms] show ?thesis by (simp add: plain_def fs_get_put fresh_dir_def)
qed

lemma oracle_name_free:
  assumes "loop_run e spec wt w = (s, Inr r)" and "plain (w_fs w) wt"
    and "fs_get (w_fs w) (wt @ [dir]) = Some Dir"
  shows "dir \<noteq> ORACLE_TEST_FILENAME"
proof
  assume d: "dir = ORACLE_TEST_FILENAME"
  from loop_run_returns [OF assms(1)] obtain w1 planning plan fs sl where
    "plan_step e spec w = (w1, Inr (planning, plan))"
    "write_text (w_fs w1) (oracle_file wt) (test_text spec) = Inr fs" by metis
  then have "write_bytes (w_fs w) (oracle_file wt) (utf8_bytes (test_text spec)) = Inr fs"
    using plan_step_calls by (fastforce simp: write_text_def utf8_encode_def split: if_splits)
  moreover have "fs_get (w_fs w) (butlast (oracle_file wt)) = Some Dir"
    using assms(2) by (simp add: plain_def)
  moreover have "DOTDOT \<notin> set (oracle_file wt)"
    using plain_root [OF assms(2)] by (simp add: ORACLE_TEST_FILENAME_def DOTDOT_def u_def)
  moreover have "below wt (oracle_file wt)" by (simp add: below_iff)
  ultimately have "fs_get (w_fs w) (oracle_file wt) \<noteq> Some Dir"
    using write_bytes_plain [OF assms(2)] by blast
  with assms(3) d show False by simp
qed

lemma implement_ready:
  assumes "implement_in h spec base_url model params card_path dir wt fs = (fs', Inr oc)"
    and "plain fs wt" and "require_nested_relative_file (impl_path spec) = Inr (dir # rest)"
  obtains e :: "(httpx_backend \<times> nat) engine" and s r w where "loop_run e spec wt w = (s, Inr r)" and "ready spec wt dir rest w"
    and "e_oracle e = h_oracle h" and "fs' = w_fs (rs_world s)"
    and "attempt_log h spec base_url model params card_path dir wt fs = progress s"
    and "\<And>q. \<not> below wt q \<Longrightarrow> fs_get (w_fs w) q = fs_get fs q"
    and "if lr_best_score r = None then oc_code oc = None
         else \<exists>c. oc_code oc = Some c \<and> read_text fs' (wt @ dir # rest) = Inr c"
    and "oc_status oc = lr_status r" and "oc_record oc = lr_record r"
    and "oc_files_changed oc = (if oc_code oc = None then [] else [impl_path spec])"
  using assms(1)
proof (rule implement_in_returns)
  fix fs1 pb st s r
  assume mk: "mkdirs fs (wt @ butlast (path_parts (impl_path spec))) = Inr fs1"
    and st: "mk_store fs1 wt dir = Inr st"
    and run: "loop_run \<lparr>e_clk = h_clk h, e_gen = call_generate (h_post h), e_prompt = pb,
             e_oracle = h_oracle h, e_model = model\<rparr> spec wt
           \<lparr>w_client = \<lparr>backend = (mk_httpx base_url model params, 0), total_calls = 0\<rparr>,
             w_clock = 0, w_fs = fs1, w_store = st\<rparr> = (s, Inr r)"
    and lg: "attempt_log h spec base_url model params card_path dir wt fs = progress s"
    and rest: "fs' = w_fs (rs_world s)" "if lr_best_score r = None then oc_code oc = None
         else \<exists>c. oc_code oc = Some c \<and> read_text fs' (wt @ path_parts (impl_path spec)) = Inr c"
      "oc_status oc = lr_status r" "oc_record oc = lr_record r"
      "oc_files_changed oc = (if oc_code oc = None then [] else [impl_path spec])"
  let ?w = "\<lparr>w_client = \<lparr>backend = (mk_httpx base_url model params, 0 :: nat), total_calls = 0\<rparr>,
             w_clock = 0, w_fs = fs1, w_store = st\<rparr>"
  have pp: "path_parts (impl_path spec) = dir # rest" by (rule require_nested_parts [OF assms(3)])
  from prepared_ready [OF assms(2,3) mk [unfolded pp] st] have
    pr: "plain fs1 wt" "fs_get fs1 (wt @ [dir]) = Some Dir" "st = \<lparr>subtree = wt @ [dir], entries = []\<rparr>"
      "\<And>q. \<not> below wt q \<Longrightarrow> fs_get fs1 q = fs_get fs q" by blast+
  have "dir \<noteq> ORACLE_TEST_FILENAME" using oracle_name_free [OF run] pr(1,2) by simp
  with pr assms(3) have "ready spec wt dir rest ?w" by (simp add: ready_def)
  moreover have "\<And>q. \<not> below wt q \<Longrightarrow> fs_get (w_fs ?w) q = fs_get fs q" using pr(4) by simp
  ultimately show thesis using that [OF run _ _ rest(1) lg _ rest(2) [unfolded pp] rest(3-5)] by simp
qed

lemma implement_cases:
  assumes "implement h spec base_url model params card_path wto fs = (fs', Inr oc)"
  obtains dir rest where "require_nested_relative_file (impl_path spec) = Inr (dir # rest)"
    and "case wto of
        Some wt \<Rightarrow> implement_in h spec base_url model params card_path dir wt fs = (fs', Inr oc)
      | None \<Rightarrow> \<exists>fs1. implement_in h spec base_url model params card_path dir (h_tmp h)
            (fs_put (h_tmp h) Dir fs) = (fs1, Inr oc) \<and> fs' = remove_tree (h_tmp h) fs1"
proof -
  from assms obtain dir where d: "writable_subtree (impl_path spec) = Inr dir"
    by (cases "writable_subtree (impl_path spec)") (simp_all add: implement_def)
  then obtain ps where ps: "require_nested_relative_file (impl_path spec) = Inr ps" "hd ps = dir"
    by (auto simp: writable_subtree_def bindE_eq_Inr)
  with nested_shape(1) obtain rest where r: "ps = dir # rest" by (cases ps) fastforce+
  show ?thesis
    using that [of dir rest] assms d ps(1) r
    by (auto simp: implement_def split: option.splits prod.splits)
qed

end
