(* ===== verification/Entrypoint_Properties.thy ===== *)
theory Entrypoint_Properties
  imports Entrypoint Loop_Properties
begin

text \<open>
  What \<open>implement\<close> promises its caller, with one run of it over an HTTP transport evaluated.
\<close>

section \<open>A small task\<close>

definition demo_host :: host where
  "demo_host = \<lparr>h_clk = (\<lambda>_. 0),
     h_post = (\<lambda>n url body. Responded 200
        [chat_reply (ascii ''FILE: src/a.py'' @ [92, 110] @ ascii ''ok'' @ [92, 114])] None),
     h_oracle = (\<lambda>i fs. \<lparr>o_executable = u ''python'',
       o_spawn = (\<lambda>cmd cwd box. (Spawned [] [], Some (ascii ''0''))),
       o_parse = (\<lambda>t. Some (Elem (u ''testsuite'') [(u ''tests'', u ''1''), (u ''failures'', t)] [])),
       o_tmp = [u ''box'']\<rparr>),
     h_sha256 = (\<lambda>_. u ''0123456789abcdef''), h_tmp = [u ''t'']\<rparr>"

definition host_fs :: fs where
  "host_fs = [([u ''card''], File (ascii ''rules''))]"

abbreviation demo_implement :: "path option \<Rightarrow> fs \<Rightarrow> fs \<times> (exn + outcome)" where
  "demo_implement \<equiv> implement demo_host sample_task (u ''http://h/'') (u ''m'') [] [u ''card'']"

abbreviation demo_log :: "attempt_progress list" where
  "demo_log \<equiv> attempt_log demo_host sample_task (u ''http://h/'') (u ''m'') [] [u ''card'']
     (u ''src'') [u ''t''] (fs_put [u ''t''] Dir host_fs)"

lemma demo_in_summary:
  "case implement_in demo_host sample_task (u ''http://h/'') (u ''m'') [] [u ''card''] (u ''src'')
      [u ''t''] (fs_put [u ''t''] Dir host_fs) of
     (_, Inl _) \<Rightarrow> False
   | (fs, Inr oc) \<Rightarrow> oc_status oc = Done \<and> oc_code oc = Some (u ''ok'' @ [10])
       \<and> fs_get fs [u ''t'', u ''src'', u ''a.py''] = Some (File (ascii ''ok'' @ [13]))"
  by code_simp

lemma demo_in:
  obtains fs oc where "implement_in demo_host sample_task (u ''http://h/'') (u ''m'') [] [u ''card'']
      (u ''src'') [u ''t''] (fs_put [u ''t''] Dir host_fs) = (fs, Inr oc)"
    and "oc_status oc = Done" and "oc_code oc = Some (u ''ok'' @ [10])"
    and "fs_get fs [u ''t'', u ''src'', u ''a.py''] = Some (File (ascii ''ok'' @ [13]))"
  using demo_in_summary by (auto split: prod.splits sum.splits)

lemma demo_fresh: "fresh_dir host_fs [u ''t'']"
  by (simp add: fresh_dir_def host_fs_def wf_fs_def fs_get_def u_def DOTDOT_def)

lemma demo_nested: "require_nested_relative_file (impl_path sample_task) = Inr [u ''src'', u ''a.py'']"
  by code_simp

lemma implement_log:
  assumes "implement_in h spec base_url model params card_path dir wt fs = (fs', Inr oc)"
    and "plain fs wt" and "require_nested_relative_file (impl_path spec) = Inr (dir # rest)"
    and "0 < max_attempts (task_budget spec)"
    and "ps = attempt_log h spec base_url model params card_path dir wt fs"
  obtains e :: "(httpx_backend \<times> nat) engine" and s r w where "loop_run e spec wt w = (s, Inr r)"
    and "ready spec wt dir rest w" and "fs' = w_fs (rs_world s)" and "ps = progress s"
    and "ps \<noteq> []" and "length ps \<le> nat (max_attempts (task_budget spec))"
    and "all_judged (h_oracle h) spec wt (wt @ dir # rest) ps"
    and "oc_code oc = None \<longleftrightarrow> (\<forall>p\<in>set ps. p_score p = None)"
    and "oc_code oc = None \<longrightarrow> oc_status oc \<noteq> Done"
    and "oc_files_changed oc = (if oc_code oc = None then [] else [impl_path spec])"
    and "\<forall>c. oc_code oc = Some c \<longrightarrow> (\<exists>v. lr_best_score r = Some v) \<and> read_text fs' (wt @ dir # rest) = Inr c"
proof -
  obtain e :: "(httpx_backend \<times> nat) engine" and s r w where
    run: "loop_run e spec wt w = (s, Inr r)" and rd: "ready spec wt dir rest w"
    and eo: "e_oracle e = h_oracle h" and fs': "fs' = w_fs (rs_world s)"
    and lg: "attempt_log h spec base_url model params card_path dir wt fs = progress s"
    and code: "if lr_best_score r = None then oc_code oc = None
         else \<exists>c. oc_code oc = Some c \<and> read_text fs' (wt @ dir # rest) = Inr c"
    and stt: "oc_status oc = lr_status r"
    and fc: "oc_files_changed oc = (if oc_code oc = None then [] else [impl_path spec])"
    by (rule implement_ready [OF assms(1-3)]) blast
  note rf = run_facts [OF run assms(4)]
  have ne: "progress s \<noteq> []" by (rule run_end [OF run assms(4)]) simp
  have jd: "all_judged (h_oracle h) spec wt (wt @ dir # rest) (progress s)"
    using returned_all_judged [OF run rd] eo by simp
  have "entries (w_store w) = []" using rd by (simp add: ready_def)
  note st = returned_stored [OF run this]
  have bs: "lr_best_score r = None \<longleftrightarrow> (\<forall>p\<in>set (progress s). p_score p = None)"
    unfolding rf(3) by (rule unscored_store [OF st])
  have cn: "oc_code oc = None \<longleftrightarrow> lr_best_score r = None" using code by (auto split: if_splits)
  have nd: "oc_code oc = None \<Longrightarrow> oc_status oc \<noteq> Done"
    using rf(4) stt cn
    by (auto simp: terminal_status_def classify_terminal_def Let_def split: if_splits)
  have rc: "oc_code oc = Some c \<Longrightarrow> (\<exists>v. lr_best_score r = Some v) \<and> read_text fs' (wt @ dir # rest) = Inr c" for c
    using code by (auto split: if_splits)
  show ?thesis
    using that [OF run rd fs'] lg assms(5) ne rf(1) jd cn bs nd fc rc by simp
qed

section \<open>Properties\<close>

text \<open>C6. What \<open>implement\<close> returns as code is the best attempt's file.  Over a link-free worktree,
  and read off the log of the very run that \<open>implement\<close> makes: every score in it is the oracle's
  verdict over a tree with that attempt's reply and the task's test in place; code is absent exactly
  when no attempt was scored, and then the outcome is not DONE; otherwise the code is, with line
  endings translated, the text of the reply of a scored attempt that no other attempt passed more
  tests than, and that reply is what the target holds afterwards.\<close>

theorem implement_returns_best_reply:
  assumes "implement_in h spec base_url model params card_path dir wt fs = (fs', Inr oc)"
    and "plain fs wt" and "require_nested_relative_file (impl_path spec) = Inr (dir # rest)"
    and "0 < max_attempts (task_budget spec)"
  shows "let ps = attempt_log h spec base_url model params card_path dir wt fs in
      ps \<noteq> [] \<and> length ps \<le> nat (max_attempts (task_budget spec))
    \<and> all_judged (h_oracle h) spec wt (wt @ dir # rest) ps
    \<and> (oc_code oc = None \<longleftrightarrow> (\<forall>p\<in>set ps. p_score p = None))
    \<and> (case oc_code oc of
         None \<Rightarrow> oc_status oc \<noteq> Done \<and> oc_files_changed oc = []
       | Some c \<Rightarrow> oc_files_changed oc = [impl_path spec] \<and>
           (\<exists>i<length ps. \<exists>v reply t. p_score (ps ! i) = Some v
             \<and> extract_file (r_text (p_generation (ps ! i))) = Some reply
             \<and> fs_get fs' (wt @ dir # rest) = Some (File (payload reply))
             \<and> decode_strict (payload reply) = Some t \<and> c = universal_newlines t
             \<and> (\<forall>j<length ps. \<forall>v'. p_score (ps ! j) = Some v' \<longrightarrow> passed v' \<le> passed v)))"
proof -
  let ?ps = "attempt_log h spec base_url model params card_path dir wt fs"
  obtain e :: "(httpx_backend \<times> nat) engine" and s r w where
    run: "loop_run e spec wt w = (s, Inr r)" and rd: "ready spec wt dir rest w"
    and fs': "fs' = w_fs (rs_world s)" and lg: "?ps = progress s"
    and log: "?ps \<noteq> []" "length ?ps \<le> nat (max_attempts (task_budget spec))"
      "all_judged (h_oracle h) spec wt (wt @ dir # rest) ?ps"
    and cn: "oc_code oc = None \<longleftrightarrow> (\<forall>p\<in>set ?ps. p_score p = None)"
      "oc_code oc = None \<longrightarrow> oc_status oc \<noteq> Done"
      "oc_files_changed oc = (if oc_code oc = None then [] else [impl_path spec])"
    and rc: "\<forall>c. oc_code oc = Some c \<longrightarrow>
        (\<exists>v. lr_best_score r = Some v) \<and> read_text fs' (wt @ dir # rest) = Inr c"
    by (rule implement_log [OF assms refl]) (rule that; assumption)
  show ?thesis
  proof (cases "oc_code oc")
    case None
    with log cn show ?thesis unfolding Let_def by simp
  next
    case (Some c)
    with rc obtain v where v: "lr_best_score r = Some v" and c: "read_text fs' (wt @ dir # rest) = Inr c"
      by blast
    from restored_reply [OF run rd v] obtain i reply where
      i: "i < length ?ps" "p_score (?ps ! i) = Some v"
      "extract_file (r_text (p_generation (?ps ! i))) = Some reply"
      "fs_get fs' (wt @ dir # rest) = Some (File (payload reply))"
      "\<forall>j<length ?ps. \<forall>v'. p_score (?ps ! j) = Some v' \<longrightarrow> passed v' \<le> passed v"
      unfolding fs' lg by blast
    have "read_bytes fs' (wt @ dir # rest) = Inr (payload reply)"
      using read_plain [OF returned_plain [OF run rd] _ i(4) [unfolded fs']] fs' by simp
    with c obtain t where "decode_strict (payload reply) = Some t" "c = universal_newlines t"
      by (auto simp: read_text_def decode_text_def split: option.splits)
    with i Some log cn show ?thesis unfolding Let_def by simp blast
  qed
qed

theorem implement_returns_best_reply_witness:
  "\<exists>fs' oc i. implement_in demo_host sample_task (u ''http://h/'') (u ''m'') [] [u ''card'']
      (u ''src'') [u ''t''] (fs_put [u ''t''] Dir host_fs) = (fs', Inr oc)
     \<and> oc_code oc = Some (u ''ok'' @ [10])
     \<and> i < length demo_log \<and> p_score (demo_log ! i) \<noteq> None
     \<and> (\<exists>reply t. extract_file (r_text (p_generation (demo_log ! i))) = Some reply
          \<and> fs_get fs' [u ''t'', u ''src'', u ''a.py''] = Some (File (payload reply))
          \<and> decode_strict (payload reply) = Some t \<and> u ''ok'' @ [10] = universal_newlines t)"
proof (rule demo_in)
  fix fs oc
  assume d: "implement_in demo_host sample_task (u ''http://h/'') (u ''m'') [] [u ''card'']
      (u ''src'') [u ''t''] (fs_put [u ''t''] Dir host_fs) = (fs, Inr oc)"
    and c: "oc_code oc = Some (u ''ok'' @ [10])"
  have "0 < max_attempts (task_budget sample_task)" by (simp add: sample_task_def)
  from implement_returns_best_reply [OF d fresh_plain [OF demo_fresh] demo_nested this] c d
  show ?thesis unfolding Let_def by (fastforce simp del: fs_get_put)
qed


text \<open>C12. A managed run leaves the file system as it found it: whatever was written lay in the fresh
  directory, which is gone, and no other path has changed.\<close>

theorem managed_run_leaves_no_trace:
  assumes "implement h spec base_url model params card_path None fs = (fs', Inr oc)"
    and "fresh_dir fs (h_tmp h)"
  shows "fs_get fs' q = fs_get fs q"
proof -
  let ?d = "h_tmp h"
  obtain dir rest fs1 where
    nest: "require_nested_relative_file (impl_path spec) = Inr (dir # rest)" and
    im: "implement_in h spec base_url model params card_path dir ?d (fs_put ?d Dir fs) = (fs1, Inr oc)" and
    fs': "fs' = remove_tree ?d fs1"
    by (rule implement_cases [OF assms(1)]) auto
  have ne: "?d \<noteq> []" using assms(2) by (simp add: fresh_dir_def)
  obtain e :: "(httpx_backend \<times> nat) engine" and s r w where
    run: "loop_run e spec ?d w = (s, Inr r)" and rd: "ready spec ?d dir rest w"
    and fs1: "fs1 = w_fs (rs_world s)"
    and out: "\<And>q. \<not> below ?d q \<Longrightarrow> fs_get (w_fs w) q = fs_get (fs_put ?d Dir fs) q"
    by (rule implement_ready [OF im fresh_plain [OF assms(2)] nest]) blast
  show ?thesis
  proof (cases "startswith q ?d")
    case True
    with fs' ne fresh_below [OF assms(2)] show ?thesis by (simp add: remove_tree_get)
  next
    case False
    then have "\<not> below (?d @ [dir]) q" "q \<noteq> oracle_file ?d" "\<not> below ?d q" "q \<noteq> ?d"
      by (auto simp: below_iff startswith_iff)
    with run_outside [OF run rd] out fs1 fs' ne False show ?thesis
      by (simp add: remove_tree_get fs_get_put)
  qed
qed

theorem managed_run_leaves_no_trace_witness:
  "\<exists>fs' oc. demo_implement None host_fs = (fs', Inr oc) \<and> fs_get fs' [u ''t''] = None"
proof (rule demo_in)
  fix fs oc
  assume d: "implement_in demo_host sample_task (u ''http://h/'') (u ''m'') [] [u ''card'']
      (u ''src'') [u ''t''] (fs_put [u ''t''] Dir host_fs) = (fs, Inr oc)"
  have t: "h_tmp demo_host = [u ''t'']" by (simp add: demo_host_def)
  with d have i: "demo_implement None host_fs = (remove_tree [u ''t''] fs, Inr oc)"
    using demo_nested by (simp add: implement_def writable_subtree_def)
  from managed_run_leaves_no_trace [OF i] demo_fresh t have
    "fs_get (remove_tree [u ''t''] fs) [u ''t''] = fs_get host_fs [u ''t'']" by simp
  also have "\<dots> = None" using demo_fresh by (simp add: fresh_dir_def)
  finally show ?thesis using i by blast
qed


text \<open>The code of an outcome never holds a carriage return, although the file the oracle scored
  may: reading it back in text mode translates its line endings, so the outcome's code and the
  scored bytes differ for such a file.\<close>

theorem outcome_code_loses_carriage_returns:
  assumes "implement_in h spec base_url model params card_path dir wt fs = (fs', Inr oc)"
    and "oc_code oc = Some c"
  shows "CR \<notin> set c"
  using assms(1)
proof (rule implement_in_returns)
  fix r :: loop_result
  assume "if lr_best_score r = None then oc_code oc = None
         else \<exists>c. oc_code oc = Some c \<and> read_text fs' (wt @ path_parts (impl_path spec)) = Inr c"
  with assms(2) show ?thesis
    by (auto simp: read_text_def bindE_eq_Inr decode_text_def no_cr split: if_splits option.splits)
qed

theorem outcome_code_loses_carriage_returns_witness:
  "\<exists>fs' oc c. implement_in demo_host sample_task (u ''http://h/'') (u ''m'') [] [u ''card'']
      (u ''src'') [u ''t''] (fs_put [u ''t''] Dir host_fs) = (fs', Inr oc)
     \<and> fs_get fs' [u ''t'', u ''src'', u ''a.py''] = Some (File (ascii ''ok'' @ [13]))
     \<and> oc_code oc = Some c \<and> CR \<notin> set c"
proof (rule demo_in)
  fix fs oc
  assume d: "implement_in demo_host sample_task (u ''http://h/'') (u ''m'') [] [u ''card'']
      (u ''src'') [u ''t''] (fs_put [u ''t''] Dir host_fs) = (fs, Inr oc)"
    and c: "oc_code oc = Some (u ''ok'' @ [10])"
    and f: "fs_get fs [u ''t'', u ''src'', u ''a.py''] = Some (File (ascii ''ok'' @ [13]))"
  from outcome_code_loses_carriage_returns [OF d c] d c f show ?thesis by blast
qed


text \<open>An implementation path under a directory that bears the oracle test's name passes the shape
  rule and never yields an outcome: the directory is created first, and writing the test then
  fails.\<close>

theorem oracle_named_directory_never_returns:
  assumes "require_nested_relative_file (impl_path spec) = Inr (ORACLE_TEST_FILENAME # rest)"
    and "plain fs wt"
  shows "\<exists>x. snd (implement h spec base_url model params card_path (Some wt) fs) = Inl x"
proof (rule ccontr)
  assume "\<nexists>x. snd (implement h spec base_url model params card_path (Some wt) fs) = Inl x"
  then obtain fs' oc where r: "implement h spec base_url model params card_path (Some wt) fs = (fs', Inr oc)"
    by (metis obj_sumE prod.collapse)
  from implement_cases [OF r] assms(1) have
    "implement_in h spec base_url model params card_path ORACLE_TEST_FILENAME wt fs = (fs', Inr oc)"
    by auto
  from implement_ready [OF this assms(2,1)] show False by (auto simp: ready_def)
qed

theorem oracle_named_directory_never_returns_witness:
  "\<exists>x. snd (implement demo_host (sample_task\<lparr>impl_path := u ''test_loop_oracle.py/x.py''\<rparr>) [] [] []
          [u ''card''] (Some [u ''t'']) (fs_put [u ''t''] Dir host_fs)) = Inl x"
proof -
  have "require_nested_relative_file (impl_path (sample_task\<lparr>impl_path := u ''test_loop_oracle.py/x.py''\<rparr>))
      = Inr (ORACLE_TEST_FILENAME # [u ''x.py''])" by code_simp
  from oracle_named_directory_never_returns [OF this fresh_plain [OF demo_fresh]] show ?thesis by blast
qed


lemma summary_head:
  "hd (outcome_summary py_str oc) = (case oc_status oc of
     Done \<Rightarrow> 73 | Exhausted \<Rightarrow> 69 | Derailed \<Rightarrow> 71 | Blocked \<Rightarrow> 66 | Faulted \<Rightarrow> 70)"
  by (simp add: outcome_summary_def u_def split: status.split)

text \<open>The five summaries are told apart by their first word, whatever paths, bounds and messages
  they quote: equal summaries come from equal statuses.\<close>

theorem summary_names_the_status:
  assumes "outcome_summary py_str oc = outcome_summary py_str oc'"
  shows "oc_status oc = oc_status oc'"
  using arg_cong [OF assms, of hd] unfolding summary_head by (simp split: status.splits)

theorem summary_names_the_status_witness:
  "\<exists>oc oc' :: outcome. outcome_summary (\<lambda>_. []) oc = outcome_summary (\<lambda>_. []) oc' \<and> oc \<noteq> oc'
     \<and> oc_status oc = oc_status oc'"
proof -
  define oc where "oc = \<lparr>oc_status = Blocked, oc_code = None, oc_impl_path = u ''a'', oc_files_changed = [],
     oc_record = blank_record [] Blocked, oc_fault = None, oc_derail = None\<rparr>"
  let ?oc = "oc\<lparr>oc_derail := Some Silent\<rparr>"
  have e: "outcome_summary (\<lambda>_. []) oc = outcome_summary (\<lambda>_. []) ?oc"
    by (simp add: oc_def outcome_summary_def)
  moreover have "oc \<noteq> ?oc" by (simp add: oc_def)
  ultimately show ?thesis using summary_names_the_status [OF e] by blast
qed

end
