(* ===== verification/Model_Registry.thy ===== *)
theory Model_Registry
  imports Filesystem Runner Json
begin

text \<open>
  \<open>model_registry.py\<close>: the table of servable models, resolved against the store on disk.  The
  registry file is parsed lazily, as the generator \<open>_rows\<close> does: \<open>read_rows\<close> yields the rows
  before the first malformed one together with that error, and \<open>resolve_rows\<close> looks at the error
  only when no earlier row bears the name.
\<close>

section \<open>Errors and rows\<close>

datatype registry_error =
    Unknown_Model pystr "pystr list"
  | Model_Not_Present pystr path
  | Malformed_Row nat nat
  | Not_Key_Value pystr pystr
  | Unservable_Row pystr path
  | Unservable_Override pystr path
  | Bad_Port exn
  | Registry_Unreadable exn

definition HEADER_FIELD :: pystr where "HEADER_FIELD = u ''NAME''"
definition ABSENT :: pystr where "ABSENT = u ''-''"
definition FIELDS_PER_ROW :: nat where "FIELDS_PER_ROW = 8"
definition DRAFT_SUFFIX :: pystr where "DRAFT_SUFFIX = u ''-MTP''"
definition THINKING_BUDGET :: pystr where "THINKING_BUDGET = u ''thinking_budget''"

type_synonym params = "(pystr \<times> json) list"

definition is_unservable_combination :: "path option \<Rightarrow> params \<Rightarrow> bool" where
  "is_unservable_combination draft_path ps \<longleftrightarrow> THINKING_BUDGET \<in> fst ` set ps \<and> draft_path \<noteq> None"

fun read_rows :: "nat \<Rightarrow> pystr list \<Rightarrow> pystr list list \<times> registry_error option" where
  "read_rows n [] = ([], None)"
| "read_rows n (line # ls) =
     (let stripped = strip line in
      if stripped = [] \<or> startswith stripped (u ''#'') then read_rows (n + 1) ls
      else let fields = map strip (split_on 124 stripped) in
        if hd fields = HEADER_FIELD then read_rows (n + 1) ls
        else if length fields \<noteq> FIELDS_PER_ROW then ([], Some (Malformed_Row n (length fields)))
        else (case read_rows (n + 1) ls of (rows, e) \<Rightarrow> (fields # rows, e)))"

section \<open>Generation parameters\<close>

text \<open>A value that is no JSON text is taken verbatim; every \<open>ValueError\<close> counts as that, the one
  of an over-long integer included.\<close>

definition param_value :: "pystr \<Rightarrow> json" where
  "param_value v = (case json_loads v of Inl _ \<Rightarrow> JStr v | Inr j \<Rightarrow> j)"

fun params_loop :: "pystr \<Rightarrow> pystr list \<Rightarrow> params \<Rightarrow> registry_error + params" where
  "params_loop model [] ps = Inr ps"
| "params_loop model (token # ts) ps =
     (case partition_at [61] token of
        (key, separator, v) \<Rightarrow>
          if \<not> separator then Inl (Not_Key_Value model token)
          else params_loop model ts (AList.update key (param_value v) ps))"

definition generation_params :: "pystr \<Rightarrow> pystr \<Rightarrow> registry_error + params" where
  "generation_params declared model =
     (if declared = ABSENT then Inr [] else params_loop model (split_ws declared) [])"

datatype argument_error = Not_Json | Not_An_Object pystr

definition generation_params_from_json :: "pystr \<Rightarrow> argument_error + params" where
  "generation_params_from_json declared =
     (case json_loads declared of
        Inl _ \<Rightarrow> Inl Not_Json
      | Inr (JObj kvs) \<Rightarrow> Inr kvs
      | Inr v \<Rightarrow> Inl (Not_An_Object (type_name v)))"

section \<open>Resolution\<close>

record resolved_model =
  rm_name :: pystr
  rm_repo :: pystr
  rm_draft_repo :: "pystr option"
  rm_port :: int
  rm_flags :: "pystr list"
  rm_params :: params
  rm_path :: path
  rm_draft_path :: "path option"

text \<open>\<open>__post_init__\<close>: an unservable pairing is refused.\<close>

definition mk_resolved :: "resolved_model \<Rightarrow> registry_error + resolved_model" where
  "mk_resolved m =
     (case rm_draft_path m of
        Some d \<Rightarrow> if is_unservable_combination (Some d) (rm_params m)
                  then Inl (Unservable_Row (rm_name m) d) else Inr m
      | None \<Rightarrow> Inr m)"

definition generation_params_with ::
  "resolved_model \<Rightarrow> params option \<Rightarrow> registry_error + params" where
  "generation_params_with m override =
     (case override of
        None \<Rightarrow> Inr (rm_params m)
      | Some ps \<Rightarrow>
          (case rm_draft_path m of
             Some d \<Rightarrow> if is_unservable_combination (Some d) ps
                       then Inl (Unservable_Override (rm_name m) d) else Inr ps
           | None \<Rightarrow> Inr ps))"

text \<open>\<open>pathlib\<close>'s \<open>/\<close>: an absolute right operand replaces the left one.\<close>

definition join_path :: "path \<Rightarrow> pystr \<Rightarrow> path" where
  "join_path base p = (if is_absolute p then path_parts p else base @ path_parts p)"

record model_registry =
  registry_path :: path
  store_root :: path

definition default_registry :: "path \<Rightarrow> path \<Rightarrow> pystr option \<Rightarrow> model_registry" where
  "default_registry cwd repo_root env =
     (let override = strip (case env of None \<Rightarrow> [] | Some v \<Rightarrow> v) in
      \<lparr>registry_path = repo_root @ [u ''models'', u ''models.psv''],
       store_root = (if override \<noteq> [] then join_path cwd override else repo_root @ [u ''models''])\<rparr>)"

definition weights_path :: "model_registry \<Rightarrow> pystr \<Rightarrow> path" where
  "weights_path reg name = join_path (store_root reg) name"

definition resolve_row ::
  "model_registry \<Rightarrow> fs \<Rightarrow> pystr list \<Rightarrow> registry_error + resolved_model" where
  "resolve_row reg fs row =
     (let name = row ! 0; path = weights_path reg name in
      if \<not> is_dir fs path then Inl (Model_Not_Present name path)
      else let draft_repo = (if row ! 2 = ABSENT then None else Some (row ! 2));
               draft_path = join_path (store_root reg) (name @ DRAFT_SUFFIX)
           in case py_int (row ! 3) of
                Inl x \<Rightarrow> Inl (Bad_Port x)
              | Inr port \<Rightarrow>
                  bindE (generation_params (row ! 6) name) (\<lambda>ps.
                    mk_resolved \<lparr>rm_name = name, rm_repo = row ! 1, rm_draft_repo = draft_repo,
                      rm_port = port,
                      rm_flags = (if row ! 5 = ABSENT then [] else split_ws (row ! 5)),
                      rm_params = ps, rm_path = path,
                      rm_draft_path = (if draft_repo \<noteq> None \<and> draft_repo \<noteq> Some []
                          \<and> is_dir fs draft_path then Some draft_path else None)\<rparr>))"

definition names_of :: "pystr list \<Rightarrow> registry_error + pystr list" where
  "names_of ls =
     (case read_rows 1 ls of
        (rows, Some e) \<Rightarrow> Inl e
      | (rows, None) \<Rightarrow> Inr (map hd rows))"

definition resolve_rows ::
  "model_registry \<Rightarrow> fs \<Rightarrow> pystr list \<Rightarrow> pystr \<Rightarrow> registry_error + resolved_model" where
  "resolve_rows reg fs ls name =
     (case read_rows 1 ls of
        (rows, e) \<Rightarrow>
          (case find (\<lambda>row. row ! 0 = name) rows of
             Some row \<Rightarrow> resolve_row reg fs row
           | None \<Rightarrow> (case e of
                Some x \<Rightarrow> Inl x
              | None \<Rightarrow> Inl (Unknown_Model name (map hd rows)))))"

definition registry_lines :: "model_registry \<Rightarrow> fs \<Rightarrow> registry_error + pystr list" where
  "registry_lines reg fs =
     (case read_text fs (registry_path reg) of
        Inl x \<Rightarrow> Inl (Registry_Unreadable x) | Inr t \<Rightarrow> Inr (splitlines t))"

definition registry_names :: "model_registry \<Rightarrow> fs \<Rightarrow> registry_error + pystr list" where
  "registry_names reg fs = bindE (registry_lines reg fs) names_of"

definition servable_names :: "model_registry \<Rightarrow> fs \<Rightarrow> registry_error + pystr list" where
  "servable_names reg fs =
     bindE (registry_names reg fs) (\<lambda>ns. Inr (filter (\<lambda>n. is_dir fs (weights_path reg n)) ns))"

definition resolve_model :: "model_registry \<Rightarrow> fs \<Rightarrow> pystr \<Rightarrow> registry_error + resolved_model" where
  "resolve_model reg fs name = bindE (registry_lines reg fs) (\<lambda>ls. resolve_rows reg fs ls name)"

section \<open>Rows\<close>

lemma read_rows_shape: "row \<in> set (fst (read_rows n ls)) \<Longrightarrow> length row = FIELDS_PER_ROW"
  by (induction n ls rule: read_rows.induct) (auto simp: Let_def split: if_splits prod.splits)

lemma read_rows_append:
  "read_rows n (ls @ ms) =
     (case read_rows n ls of
        (rows, Some e) \<Rightarrow> (rows, Some e)
      | (rows, None) \<Rightarrow> (case read_rows (n + length ls) ms of (rows', e) \<Rightarrow> (rows @ rows', e)))"
  by (induction n ls rule: read_rows.induct) (auto simp: Let_def split: prod.splits option.splits)

lemma find_append: "find P (xs @ ys) = (case find P xs of Some x \<Rightarrow> Some x | None \<Rightarrow> find P ys)"
  by (induction xs) auto

lemma resolve_row_Inr:
  assumes "resolve_row reg fs row = Inr m"
  shows "rm_name m = row ! 0 \<and> rm_path m = weights_path reg (row ! 0) \<and> is_dir fs (rm_path m)
    \<and> (\<forall>d. rm_draft_path m = Some d \<longrightarrow> is_dir fs d \<and> rm_draft_repo m \<noteq> None)
    \<and> \<not> is_unservable_combination (rm_draft_path m) (rm_params m)"
  using assms
  by (auto simp: resolve_row_def Let_def mk_resolved_def bindE_eq_Inr is_unservable_combination_def
      split: if_splits sum.splits option.splits)

lemma params_loop_error: "params_loop model ts ps = Inl e \<Longrightarrow> \<exists>t. e = Not_Key_Value model t"
  by (induction model ts ps rule: params_loop.induct) (auto split: prod.splits if_splits)

lemma resolve_row_Inl:
  "resolve_row reg fs row = Inl e \<Longrightarrow>
     (\<exists>p. e = Model_Not_Present (row ! 0) p) = (\<not> is_dir fs (weights_path reg (row ! 0)))
     \<and> (\<forall>n ns. e \<noteq> Unknown_Model n ns)"
  by (auto simp: resolve_row_def Let_def mk_resolved_def bindE_eq_Inl generation_params_def
      dest!: params_loop_error split: if_splits sum.splits option.splits)

lemma find_row:
  assumes "find (\<lambda>row. row ! 0 = name) rows = Some row"
  shows "row \<in> set rows \<and> row ! 0 = name"
  using assms by (auto simp: find_Some_iff)

lemma resolve_rows_eq:
  "read_rows 1 ls = (rows, e) \<Longrightarrow> resolve_rows reg fs ls name =
     (case find (\<lambda>row. row ! 0 = name) rows of
        Some row \<Rightarrow> resolve_row reg fs row
      | None \<Rightarrow> (case e of Some x \<Rightarrow> Inl x | None \<Rightarrow> Inl (Unknown_Model name (map hd rows))))"
  by (simp add: resolve_rows_def)

lemma resolve_model_Inr:
  assumes "resolve_model reg fs name = Inr m"
  obtains ls row where "find (\<lambda>row. row ! 0 = name) (fst (read_rows 1 ls)) = Some row"
    and "resolve_row reg fs row = Inr m"
proof -
  from assms obtain ls where ls: "resolve_rows reg fs ls name = Inr m"
    by (auto simp: resolve_model_def bindE_eq_Inr)
  obtain rows e where r: "read_rows 1 ls = (rows, e)" by fastforce
  from ls resolve_rows_eq [OF r] that [of ls] r show ?thesis by (auto split: option.splits)
qed

lemma servable_names_Inr:
  assumes "servable_names reg fs = Inr ns"
  obtains ls rows where "registry_lines reg fs = Inr ls" and "read_rows 1 ls = (rows, None)"
    and "ns = filter (\<lambda>n. is_dir fs (weights_path reg n)) (map hd rows)"
proof -
  from assms obtain ls ns' where ls: "registry_lines reg fs = Inr ls" "names_of ls = Inr ns'"
    "ns = filter (\<lambda>n. is_dir fs (weights_path reg n)) ns'"
    by (auto simp: servable_names_def registry_names_def bindE_eq_Inr)
  obtain rows e where r: "read_rows 1 ls = (rows, e)" by fastforce
  with ls(2) have "e = None" "ns' = map hd rows" by (auto simp: names_of_def split: option.splits)
  with that [OF ls(1)] r ls(3) show ?thesis by simp
qed

section \<open>Cells\<close>

lemma split_ws_acc_word:
  "\<forall>c\<in>set w. \<not> is_space c \<Longrightarrow> split_ws_acc acc (w @ s) = split_ws_acc (rev w @ acc) s"
  by (induction w arbitrary: acc) auto

lemma is_space_blank: "is_space 32"
  by (simp add: is_space_def)

lemma split_ws_join:
  "\<forall>w\<in>set ws. w \<noteq> [] \<and> (\<forall>c\<in>set w. \<not> is_space c) \<Longrightarrow> split_ws (join [32] ws) = ws"
proof (induction ws rule: induct_list012)
  case 1
  then show ?case by (simp add: split_ws_def)
next
  case (2 w)
  then show ?case using split_ws_acc_word [of w "[]" "[]"] by (simp add: split_ws_def)
next
  case (3 w v ws)
  then have "split_ws (join [32] (v # ws)) = v # ws" by simp
  with 3(3) split_ws_acc_word [of w "[]" "32 # join [32] (v # ws)"] is_space_blank show ?case
    by (simp add: split_ws_def join_Cons)
qed

definition cell_token :: "pystr \<times> pystr \<Rightarrow> pystr" where
  "cell_token kv = fst kv @ [61] @ snd kv"

definition cell_ok :: "(pystr \<times> pystr) list \<Rightarrow> bool" where
  "cell_ok kvs \<longleftrightarrow> distinct (map fst kvs) \<and> kvs \<noteq> []
     \<and> (\<forall>(k, v)\<in>set kvs. 61 \<notin> set k \<and> (\<forall>c\<in>set k \<union> set v. \<not> is_space c))"

lemma params_loop_tokens:
  "distinct (map fst kvs) \<Longrightarrow> \<forall>(k, v)\<in>set kvs. 61 \<notin> set k \<Longrightarrow> fst ` set kvs \<inter> fst ` set acc = {} \<Longrightarrow>
     params_loop model (map cell_token kvs) acc = Inr (acc @ map (\<lambda>(k, v). (k, param_value v)) kvs)"
proof (induction kvs arbitrary: acc)
  case Nil
  then show ?case by simp
next
  case (Cons kv kvs)
  obtain k v where kv: "kv = (k, v)" by fastforce
  from Cons.prems kv have k: "61 \<notin> set k" "k \<notin> fst ` set acc" by auto
  have "partition_at [61] (k @ 61 # v) = (k, True, v)" using partition_at_char [OF k(1)] by simp
  moreover have "AList.update k (param_value v) acc = acc @ [(k, param_value v)]"
    using k(2) by (induction acc) auto
  moreover have "fst ` set kvs \<inter> fst ` set (acc @ [(k, param_value v)]) = {}"
    using Cons.prems(1,3) kv by auto
  ultimately show ?case using Cons.IH [of "acc @ [(k, param_value v)]"] Cons.prems(1,2) kv
    by (simp add: cell_token_def)
qed

section \<open>Properties\<close>

definition small_registry :: model_registry where
  "small_registry = \<lparr>registry_path = [u ''m.psv''], store_root = [u ''s'']\<rparr>"

definition small_store :: fs where
  "small_store = [([u ''m.psv''], File (ascii ''A|org/A|-|80|1G|-|k=false|n'')), ([u ''s''], Dir),
     ([u ''s'', u ''A''], Dir)]"

definition small_model :: resolved_model where
  "small_model = \<lparr>rm_name = u ''A'', rm_repo = u ''org/A'', rm_draft_repo = None, rm_port = 80,
     rm_flags = [], rm_params = [(u ''k'', JBool False)], rm_path = [u ''s'', u ''A''],
     rm_draft_path = None\<rparr>"

lemma small_resolves: "resolve_model small_registry small_store (u ''A'') = Inr small_model"
  by code_simp

text \<open>C35. A resolved model can be served: it bears the name asked for, its weights are a directory of
  the store, a draft it names is on disk and declared by its row, and neither its own parameters
  nor any override it lets through pair a thinking budget with draft weights.\<close>

theorem resolved_model_is_servable:
  assumes "resolve_model reg fs name = Inr m"
  shows "rm_name m = name \<and> rm_path m = weights_path reg name \<and> is_dir fs (rm_path m)
    \<and> (\<forall>d. rm_draft_path m = Some d \<longrightarrow> is_dir fs d \<and> rm_draft_repo m \<noteq> None)
    \<and> (\<forall>override ps. generation_params_with m override = Inr ps \<longrightarrow>
         \<not> is_unservable_combination (rm_draft_path m) ps)"
proof -
  from resolve_model_Inr [OF assms] obtain ls row where
    f: "find (\<lambda>row. row ! 0 = name) (fst (read_rows 1 ls)) = Some row" "resolve_row reg fs row = Inr m" .
  have "\<not> is_unservable_combination (rm_draft_path m) ps"
    if "generation_params_with m override = Inr ps" for override ps
    using that resolve_row_Inr [OF f(2)]
    by (auto simp: generation_params_with_def is_unservable_combination_def
        split: option.splits if_splits)
  with resolve_row_Inr [OF f(2)] find_row [OF f(1)] show ?thesis by auto
qed

theorem resolved_model_is_servable_witness:
  "resolve_model small_registry small_store (u ''A'') = Inr small_model
   \<and> is_dir small_store (rm_path small_model)"
  using resolved_model_is_servable [OF small_resolves] small_resolves by blast

text \<open>\<open>servable_names\<close> and \<open>resolve\<close> agree on what is present: over a registry that parses, a
  name is listed exactly when resolving it does not fail as unknown or as absent from the
  store.\<close>

theorem servable_names_agree_with_resolve:
  assumes "servable_names reg fs = Inr ns"
  shows "n \<in> set ns \<longleftrightarrow> \<not> (\<exists>e. resolve_model reg fs n = Inl e
    \<and> ((\<exists>p. e = Model_Not_Present n p) \<or> (\<exists>ms. e = Unknown_Model n ms)))"
proof -
  from servable_names_Inr [OF assms] obtain ls rows where
    ls: "registry_lines reg fs = Inr ls" "read_rows 1 ls = (rows, None)"
    and ns: "ns = filter (\<lambda>n. is_dir fs (weights_path reg n)) (map hd rows)" .
  have hd: "hd row = row ! 0" if "row \<in> set rows" for row
    using read_rows_shape [of row 1 ls] that ls(2) by (cases row) (auto simp: FIELDS_PER_ROW_def)
  show ?thesis
  proof (cases "find (\<lambda>row. row ! 0 = n) rows")
    case None
    then have "n \<notin> set (map hd rows)" using hd by (auto simp: find_None_iff)
    with None ls show ?thesis
      by (auto simp: resolve_model_def resolve_rows_def ns)
  next
    case (Some row)
    from find_row [OF Some] have r: "row \<in> set rows" "row ! 0 = n" by simp_all
    then have "n \<in> set (map hd rows)" using hd by force
    then have "n \<in> set ns \<longleftrightarrow> is_dir fs (weights_path reg n)" by (simp add: ns)
    moreover have "resolve_model reg fs n = resolve_row reg fs row"
      using Some ls by (simp add: resolve_model_def resolve_rows_def)
    ultimately show ?thesis
      using resolve_row_Inl [of reg fs row] resolve_row_Inr [of reg fs row] r(2)
      by (cases "resolve_row reg fs row") auto
  qed
qed

theorem servable_names_agree_with_resolve_witness:
  "servable_names small_registry small_store = Inr [u ''A'']
   \<and> (\<exists>e. resolve_model small_registry small_store (u ''B'') = Inl e)"
proof -
  have s: "servable_names small_registry small_store = Inr [u ''A'']" by code_simp
  have "u ''B'' \<notin> set [u ''A'']" by (simp add: u_def)
  with servable_names_agree_with_resolve [OF s, of "u ''B''"] s show ?thesis by blast
qed

text \<open>A PARAMS cell reads back what it was written from: the fields in order, each value as the
  JSON it spells, else verbatim.\<close>

theorem params_cell_roundtrip:
  assumes "cell_ok kvs"
  shows "generation_params (join [32] (map cell_token kvs)) model
    = Inr (map (\<lambda>(k, v). (k, param_value v)) kvs)"
proof -
  have eq: "\<not> is_space 61" by (simp add: is_space_def)
  have "cell_token kv \<noteq> [] \<and> (\<forall>c\<in>set (cell_token kv). \<not> is_space c)" if "kv \<in> set kvs" for kv
    using assms that eq by (cases kv) (fastforce simp: cell_ok_def cell_token_def)
  then have "split_ws (join [32] (map cell_token kvs)) = map cell_token kvs"
    by (intro split_ws_join) simp
  moreover have "61 \<in> set (join [32] (map cell_token kvs))"
    using assms by (cases kvs; cases "tl kvs") (auto simp: cell_ok_def cell_token_def join_Cons)
  then have "join [32] (map cell_token kvs) \<noteq> ABSENT" by (auto simp: ABSENT_def u_def)
  ultimately show ?thesis
    using params_loop_tokens [of kvs "[]" model] assms by (auto simp: generation_params_def cell_ok_def)
qed

theorem params_cell_roundtrip_witness:
  "generation_params (u ''enable_thinking=false effort=low'') (u ''m'')
    = Inr [(u ''enable_thinking'', JBool False), (u ''effort'', JStr (u ''low''))]"
proof -
  let ?kvs = "[(u ''enable_thinking'', u ''false''), (u ''effort'', u ''low'')]"
  have "cell_ok ?kvs" by (simp add: cell_ok_def u_def is_space_def)
  moreover have "join [32] (map cell_token ?kvs) = u ''enable_thinking=false effort=low''"
    by (simp add: cell_token_def u_def)
  moreover have "param_value (u ''false'') = JBool False" "param_value (u ''low'') = JStr (u ''low'')"
    by code_simp+
  ultimately show ?thesis using params_cell_roundtrip [of ?kvs "u ''m''"] by simp
qed

end
