(* ===== verification/Cli.thy ===== *)
theory Cli
  imports Entrypoint Model_Registry Telemetry
begin

text \<open>
  \<open>cli.py\<close>: the front door an orchestrator spawns.  The envelope is read and turned into a task,
  the server's coordinates are resolved, \<open>implement\<close> runs, and the outcome becomes an exit code.
  The parsed argument namespace is the input (\<open>argparse\<close> itself is not modelled); the result
  is an exit code, or the exception that leaves \<open>main\<close>.
\<close>

section \<open>Failures\<close>

text \<open>\<open>TaskRejected\<close> is a \<open>ValueError\<close>, so one raised while the task's fields are read is wrapped
  in another; \<open>Overflow\<close> is \<open>OverflowError\<close>, which is not a \<open>ValueError\<close>.\<close>

datatype rejection =
    Task_File_Unreadable path exn
  | No_Envelope
  | Envelope_Not_Json
  | Envelope_Not_Object pystr
  | Field_Type pystr pystr pystr
  | Entry_Type nat pystr
  | Blank_Test
  | Not_Runnable cli_error
  | Not_Configured pystr pystr
  | Refused exn
and cli_error = Rejected rejection | Raised exn | Overflow

fun is_cli_value_error :: "cli_error \<Rightarrow> bool" where
  "is_cli_value_error (Rejected _) = True"
| "is_cli_value_error (Raised x) = is_value_error x"
| "is_cli_value_error Overflow = False"

definition lift_exn :: "exn + 'a \<Rightarrow> cli_error + 'a" where
  "lift_exn r = (case r of Inl x \<Rightarrow> Inl (Raised x) | Inr v \<Rightarrow> Inr v)"

lemma lift_exn_simps [simp]:
  "lift_exn (Inl x) = Inl (Raised x)"
  "lift_exn (Inr v) = Inr v"
  by (simp_all add: lift_exn_def)

lemma lift_exn_Inr: "lift_exn r = Inr v \<longleftrightarrow> r = Inr v"
  by (cases r) simp_all

definition CONTRACT_VERSION :: pystr where "CONTRACT_VERSION = u ''claude-local/1''"
definition EXIT_REJECTED_TASK :: int where "EXIT_REJECTED_TASK = 7"
definition EXIT_HARNESS_FAULT :: int where "EXIT_HARNESS_FAULT = 8"
definition BASE_URL_ENV :: pystr where "BASE_URL_ENV = u ''CLAUDE_LOCAL_BASE_URL''"
definition MODEL_ENV :: pystr where "MODEL_ENV = u ''CLAUDE_LOCAL_MODEL''"

definition exit_code_for :: "status \<Rightarrow> int" where
  "exit_code_for s = (case s of Done \<Rightarrow> 0 | Exhausted \<Rightarrow> 3 | Derailed \<Rightarrow> 4 | Blocked \<Rightarrow> 5 | Faulted \<Rightarrow> 6)"

section \<open>The envelope\<close>

type_synonym envelope = "(pystr \<times> json) list"

definition kind :: "json option \<Rightarrow> pystr" where
  "kind v = (case v of None \<Rightarrow> u ''nothing'' | Some JNull \<Rightarrow> u ''nothing'' | Some j \<Rightarrow> type_name j)"

definition field_error :: "string \<Rightarrow> string \<Rightarrow> json option \<Rightarrow> cli_error" where
  "field_error key wanted v = Rejected (Field_Type (u key) (u wanted) (kind v))"

definition string_field :: "envelope \<Rightarrow> string \<Rightarrow> cli_error + pystr" where
  "string_field env key =
     (case obj_get env key of
        Some (JStr s) \<Rightarrow> Inr s
      | v \<Rightarrow> Inl (field_error key ''a string'' v))"

definition integer_field :: "envelope \<Rightarrow> string \<Rightarrow> cli_error + int" where
  "integer_field env key =
     (case obj_get env key of
        Some (JInt i) \<Rightarrow> Inr i
      | v \<Rightarrow> Inl (field_error key ''an integer'' v))"

text \<open>\<open>float(value)\<close> of an integer: past the largest finite float it raises.\<close>

definition float_of_int :: "int \<Rightarrow> cli_error + pyfloat" where
  "float_of_int i =
     (case float_of_rat (of_int i) of Fin q \<Rightarrow> Inr (Fin q) | _ \<Rightarrow> Inl Overflow)"

definition number_field :: "envelope \<Rightarrow> string \<Rightarrow> cli_error + pyfloat" where
  "number_field env key =
     (case obj_get env key of
        Some (JInt i) \<Rightarrow> float_of_int i
      | Some (JFloat f) \<Rightarrow> Inr f
      | v \<Rightarrow> Inl (field_error key ''a number'' v))"

definition budget_field :: "envelope \<Rightarrow> cli_error + budget" where
  "budget_field env =
     (case obj_get env ''budget'' of
        Some (JObj nested) \<Rightarrow>
          bindE (integer_field nested ''max_attempts'') (\<lambda>attempts.
          bindE (integer_field nested ''max_tokens'') (\<lambda>tokens.
          bindE (number_field nested ''generation_timeout_s'') (\<lambda>gen.
          bindE (number_field nested ''oracle_timeout_s'') (\<lambda>orc.
            lift_exn (mk_budget attempts tokens gen orc)))))
      | v \<Rightarrow> Inl (field_error ''budget'' ''an object'' v))"

fun context_entries :: "nat \<Rightarrow> json list \<Rightarrow> cli_error + context_file list" where
  "context_entries i [] = Inr []"
| "context_entries i (JObj entry # es) =
     bindE (string_field entry ''path'') (\<lambda>path.
     bindE (string_field entry ''content'') (\<lambda>content.
     bindE (lift_exn (mk_context_file path content)) (\<lambda>f.
     bindE (context_entries (i + 1) es) (\<lambda>fs. Inr (f # fs)))))"
| "context_entries i (entry # es) = Inl (Rejected (Entry_Type i (kind (Some entry))))"

definition context_files_field :: "envelope \<Rightarrow> cli_error + context_file list" where
  "context_files_field env =
     (case obj_get env ''context_files'' of
        None \<Rightarrow> Inr []
      | Some (JArr listed) \<Rightarrow> context_entries 0 listed
      | v \<Rightarrow> Inl (field_error ''context_files'' ''an array'' v))"

definition plan_first_field :: "envelope \<Rightarrow> cli_error + bool" where
  "plan_first_field env =
     (case obj_get env ''plan_first'' of
        None \<Rightarrow> Inr False
      | Some (JBool b) \<Rightarrow> Inr b
      | v \<Rightarrow> Inl (field_error ''plan_first'' ''a boolean'' v))"

definition decoded_object :: "pystr \<Rightarrow> cli_error + envelope" where
  "decoded_object raw =
     (case json_loads raw of
        Inl Int_Too_Long \<Rightarrow> Inl (Raised Int_Digits_Error)
      | Inl _ \<Rightarrow> Inl (Rejected Envelope_Not_Json)
      | Inr (JObj kvs) \<Rightarrow> Inr kvs
      | Inr v \<Rightarrow> Inl (Rejected (Envelope_Not_Object (kind (Some v)))))"

text \<open>The \<open>try\<close> around the construction: every \<open>ValueError\<close> is wrapped, nothing else is.\<close>

definition wrap_value_error :: "cli_error + 'a \<Rightarrow> cli_error + 'a" where
  "wrap_value_error r =
     (case r of
        Inl x \<Rightarrow> Inl (if is_cli_value_error x then Rejected (Not_Runnable x) else x)
      | Inr v \<Rightarrow> Inr v)"

definition task_of_envelope :: "envelope \<Rightarrow> cli_error + task_spec" where
  "task_of_envelope env =
     bindE (string_field env ''test_text'') (\<lambda>test.
       if strip test = [] then Inl (Rejected Blank_Test)
       else wrap_value_error
         (bindE (string_field env ''impl_path'') (\<lambda>path.
          bindE (string_field env ''spec_text'') (\<lambda>spec.
          bindE (integer_field env ''expected_tests'') (\<lambda>expected.
          bindE (budget_field env) (\<lambda>b.
          bindE (context_files_field env) (\<lambda>ctx.
          bindE (plan_first_field env) (\<lambda>plan.
            lift_exn (mk_task_spec path spec test expected b ctx plan)))))))))"

definition task_from_json :: "pystr \<Rightarrow> cli_error + task_spec" where
  "task_from_json raw = bindE (decoded_object raw) task_of_envelope"

section \<open>The invocation\<close>

record cli_args =
  a_contract_version :: bool
  a_task :: "path option"
  a_base_url :: "pystr option"
  a_model :: "pystr option"
  a_generation_params :: params
  a_worktree :: path
  a_record_dir :: "path option"

text \<open>What a dispatch passes: nothing, so every option has its default.\<close>

definition default_args :: "path \<Rightarrow> cli_args" where
  "default_args cwd = \<lparr>a_contract_version = False, a_task = None, a_base_url = None, a_model = None,
     a_generation_params = [], a_worktree = cwd, a_record_dir = None\<rparr>"

datatype stdin = Terminal | Piped "exn + pystr"

record cli_env =
  ce_getenv :: "pystr \<Rightarrow> pystr option"
  ce_stdin :: stdin
  ce_card :: path
  ce_host :: host
  ce_py_str :: "json \<Rightarrow> pystr"
  ce_dumps :: "json \<Rightarrow> pystr"
  ce_millis :: nat

datatype diagnostic =
    Outcome_Summary pystr
  | Self_Judged_Verdict
  | Record_Not_Written exn
  | Failure cli_error

definition read_envelope :: "cli_env \<Rightarrow> fs \<Rightarrow> path option \<Rightarrow> cli_error + pystr" where
  "read_envelope env fs task_file =
     (case task_file of
        Some p \<Rightarrow>
          (case read_text fs p of
             Inl OS_Error \<Rightarrow> Inl (Rejected (Task_File_Unreadable p OS_Error))
           | r \<Rightarrow> lift_exn r)
      | None \<Rightarrow>
          (case ce_stdin env of
             Terminal \<Rightarrow> Inl (Rejected No_Envelope)
           | Piped r \<Rightarrow> lift_exn r))"

definition required_setting ::
  "cli_env \<Rightarrow> pystr option \<Rightarrow> pystr \<Rightarrow> pystr \<Rightarrow> cli_error + pystr" where
  "required_setting env supplied env_var flag =
     (let v = (case supplied of Some s \<Rightarrow> s
                | None \<Rightarrow> (case ce_getenv env env_var of Some s \<Rightarrow> s | None \<Rightarrow> []))
      in if strip v = [] then Inl (Rejected (Not_Configured flag env_var)) else Inr v)"

definition is_keep_only :: "exn \<Rightarrow> bool" where
  "is_keep_only x = (case x of Keep_Only_Violation _ _ \<Rightarrow> True | _ \<Rightarrow> False)"

text \<open>A record that cannot be written costs the accounting; the directory \<open>write\<close> made stays.\<close>

definition write_outcome ::
  "cli_env \<Rightarrow> path option \<Rightarrow> outcome \<Rightarrow> fs \<Rightarrow> fs \<times> diagnostic list \<times> cli_error option" where
  "write_outcome env record_dir oc fs =
     (case record_dir of
        None \<Rightarrow> (fs, [], None)
      | Some d \<Rightarrow>
          (case write_record (ce_dumps env) (ce_millis env) (oc_record oc) d fs of
             Inr (_, fs') \<Rightarrow> (fs', [], None)
           | Inl x \<Rightarrow>
               (let fs' = (case mkdirs fs d of Inl _ \<Rightarrow> fs | Inr fs1 \<Rightarrow> fs1)
                in if x = OS_Error then (fs', [Record_Not_Written x], None)
                   else (fs', [], Some (Raised x)))))"

text \<open>Everything \<open>_run\<close> does before it calls \<open>implement\<close>.\<close>

definition prepare :: "cli_env \<Rightarrow> cli_args \<Rightarrow> fs \<Rightarrow> cli_error + task_spec \<times> pystr \<times> pystr" where
  "prepare env args fs =
     bindE (read_envelope env fs (a_task args)) (\<lambda>raw.
     bindE (task_from_json raw) (\<lambda>spec.
     bindE (required_setting env (a_base_url args) BASE_URL_ENV (u ''--base-url'')) (\<lambda>base_url.
     bindE (required_setting env (a_model args) MODEL_ENV (u ''--model'')) (\<lambda>model.
       Inr (spec, base_url, model)))))"

definition report ::
  "cli_env \<Rightarrow> cli_args \<Rightarrow> outcome \<Rightarrow> fs \<Rightarrow> fs \<times> diagnostic list \<times> (cli_error + int)" where
  "report env args oc fs =
     (let notes = Outcome_Summary (outcome_summary (ce_py_str env) oc)
            # (if oc_status oc = Done then [Self_Judged_Verdict] else [])
      in case write_outcome env (a_record_dir args) oc fs of
           (fs', ds, None) \<Rightarrow> (fs', notes @ ds, Inr (exit_code_for (oc_status oc)))
         | (fs', ds, Some x) \<Rightarrow> (fs', notes @ ds, Inl x))"

definition run_cli ::
  "cli_env \<Rightarrow> cli_args \<Rightarrow> fs \<Rightarrow> fs \<times> diagnostic list \<times> (cli_error + int)" where
  "run_cli env args fs =
     (case prepare env args fs of
        Inl x \<Rightarrow> (fs, [], Inl x)
      | Inr (spec, base_url, model) \<Rightarrow>
          (case implement (ce_host env) spec base_url model (a_generation_params args) (ce_card env)
                  (Some (a_worktree args)) fs of
             (fs1, Inl x) \<Rightarrow>
               (fs1, [], Inl (if is_value_error x \<or> is_keep_only x then Rejected (Refused x)
                              else Raised x))
           | (fs1, Inr oc) \<Rightarrow> report env args oc fs1))"

definition is_harness_fault :: "cli_error \<Rightarrow> bool" where
  "is_harness_fault x = (case x of
     Raised (Backend_Unavailable _ _ _) \<Rightarrow> True | Raised Sandbox_Unavailable \<Rightarrow> True
   | Raised (Oracle_Error _) \<Rightarrow> True | _ \<Rightarrow> False)"

text \<open>\<open>main\<close>: the file system, standard output, standard error, and the exit code or what escaped.\<close>

definition main ::
  "cli_env \<Rightarrow> cli_args \<Rightarrow> fs \<Rightarrow> fs \<times> pystr list \<times> diagnostic list \<times> (cli_error + int)" where
  "main env args fs =
     (if a_contract_version args then (fs, [CONTRACT_VERSION], [], Inr 0)
      else case run_cli env args fs of
        (fs', ds, Inr code) \<Rightarrow> (fs', [], ds, Inr code)
      | (fs', ds, Inl (Rejected r)) \<Rightarrow> (fs', [], ds @ [Failure (Rejected r)], Inr EXIT_REJECTED_TASK)
      | (fs', ds, Inl x) \<Rightarrow>
          if is_harness_fault x then (fs', [], ds @ [Failure x], Inr EXIT_HARNESS_FAULT)
          else (fs', [], ds, Inl x))"

end
