(* ===== verification/Json_Print.thy ===== *)
theory Json_Print
  imports Json
begin

text \<open>
  \<open>json.dumps\<close>, the other half of the standard library's JSON the code writes with: ASCII only, with or
  without indentation.  \<open>repr\<close> is Python's \<open>float.__repr__\<close>, the one part of it that is a parameter.
  What is printed is read back by \<open>json.loads\<close> as the value it was.
\<close>

section \<open>Strings\<close>

definition hex_digit :: "nat \<Rightarrow> nat" where
  "hex_digit d = (if d < 10 then 48 + d else 87 + d)"

definition u_escape :: "nat \<Rightarrow> pystr" where
  "u_escape c = [92, 117, hex_digit (c div 4096 mod 16), hex_digit (c div 256 mod 16),
     hex_digit (c div 16 mod 16), hex_digit (c mod 16)]"

definition short_escape :: "nat \<Rightarrow> nat option" where
  "short_escape c = (if c = 34 \<or> c = 92 then Some c else if c = 10 then Some 110
     else if c = 13 then Some 114 else if c = 9 then Some 116 else if c = 12 then Some 102
     else if c = 8 then Some 98 else None)"

definition escape_char :: "nat \<Rightarrow> pystr" where
  "escape_char c =
     (case short_escape c of
        Some e \<Rightarrow> [92, e]
      | None \<Rightarrow>
          if 32 \<le> c \<and> c \<le> 126 then [c]
          else if c < 65536 then u_escape c
          else u_escape (55296 + (c - 65536) div 1024) @ u_escape (56320 + (c - 65536) mod 1024))"

definition print_string :: "pystr \<Rightarrow> pystr" where
  "print_string s = [34] @ concat (map escape_char s) @ [34]"

section \<open>Values\<close>

text \<open>The separators: after a bracket and between items, with the indentation of the items and of the
  closing bracket.\<close>

definition newline_indent :: "nat option \<Rightarrow> nat \<Rightarrow> pystr" where
  "newline_indent indent level = (case indent of None \<Rightarrow> [] | Some k \<Rightarrow> NL # replicate (k * level) 32)"

definition item_separator :: "nat option \<Rightarrow> nat \<Rightarrow> pystr" where
  "item_separator indent level = (case indent of None \<Rightarrow> u '', '' | Some k \<Rightarrow> 44 # newline_indent indent level)"

definition bracketed :: "nat option \<Rightarrow> nat \<Rightarrow> nat \<Rightarrow> nat \<Rightarrow> pystr list \<Rightarrow> pystr" where
  "bracketed indent level op cl items =
     (if items = [] then [op, cl]
      else [op] @ newline_indent indent (level + 1) @ join (item_separator indent (level + 1)) items
        @ newline_indent indent level @ [cl])"

fun print_value :: "(pyfloat \<Rightarrow> pystr) \<Rightarrow> nat option \<Rightarrow> nat \<Rightarrow> json \<Rightarrow> pystr" where
  "print_value repr indent level JNull = u ''null''"
| "print_value repr indent level (JBool b) = (if b then u ''true'' else u ''false'')"
| "print_value repr indent level (JInt n) = str_int n"
| "print_value repr indent level (JFloat f) = repr f"
| "print_value repr indent level (JStr s) = print_string s"
| "print_value repr indent level (JArr vs) =
     bracketed indent level 91 93 (map (print_value repr indent (level + 1)) vs)"
| "print_value repr indent level (JObj kvs) =
     bracketed indent level 123 125
       (map (\<lambda>(k, v). print_string k @ u '': '' @ print_value repr indent (level + 1) v) kvs)"

definition json_dumps :: "(pyfloat \<Rightarrow> pystr) \<Rightarrow> nat option \<Rightarrow> json \<Rightarrow> pystr" where
  "json_dumps repr indent v = print_value repr indent 0 v"

section \<open>Strings are read back\<close>

definition is_high :: "nat \<Rightarrow> bool" where "is_high c \<longleftrightarrow> 55296 \<le> c \<and> c \<le> 56319"
definition is_low :: "nat \<Rightarrow> bool" where "is_low c \<longleftrightarrow> 56320 \<le> c \<and> c \<le> 57343"

text \<open>A string of code points in which no high surrogate stands before a low one: the reader would join
  the two.\<close>

fun unpaired :: "pystr \<Rightarrow> bool" where
  "unpaired [] = True"
| "unpaired [c] = (c < 1114112)"
| "unpaired (c # d # s) = (c < 1114112 \<and> \<not> (is_high c \<and> is_low d) \<and> unpaired (d # s))"

text \<open>What the scanner makes of one printed character.\<close>

definition tokens_of :: "nat \<Rightarrow> (bool \<times> nat) list" where
  "tokens_of c =
     (if short_escape c \<noteq> None \<or> (32 \<le> c \<and> c \<le> 126) then [(False, c)]
      else if c < 65536 then [(True, c)]
      else [(True, 55296 + (c - 65536) div 1024), (True, 56320 + (c - 65536) mod 1024)])"

lemma hex_value_digit: "d < 16 \<Longrightarrow> hex_value (hex_digit d) = Some d"
  by (auto simp: hex_value_def hex_digit_def is_digit_def)

lemma hex_sum:
  "c = q * 16 + r \<Longrightarrow> q = q' * 16 + r' \<Longrightarrow> q' = q'' * 16 + r'' \<Longrightarrow>
     q'' * 4096 + r'' * 256 + r' * 16 + r = (c :: nat)"
  by simp

lemma hex4_digits:
  assumes "c < 65536"
  shows "hex4 (hex_digit (c div 4096)) (hex_digit (c div 256 mod 16)) (hex_digit (c div 16 mod 16))
     (hex_digit (c mod 16)) = Some c"
proof -
  have e: "c div 16 div 16 = c div 256" "c div 256 div 16 = c div 4096"
    using div_mult2_eq [of c 16 16] div_mult2_eq [of c 256 16] by simp_all
  have "c div 4096 * 4096 + c div 256 mod 16 * 256 + c div 16 mod 16 * 16 + c mod 16 = c"
    by (rule hex_sum [OF div_mult_mod_eq [of c 16, symmetric]
          div_mult_mod_eq [of "c div 16" 16, symmetric, unfolded e]
          div_mult_mod_eq [of "c div 256" 16, symmetric, unfolded e]])
  moreover have "c div 4096 < 16" using assms by (simp add: less_mult_imp_div_less)
  moreover have "hex_value (hex_digit (d mod 16)) = Some (d mod 16)" for d by (simp add: hex_value_digit)
  ultimately show ?thesis unfolding hex4_def by (simp only: hex_value_digit prod.case option.case)
qed

lemma scan_u_escape:
  assumes "c < 65536"
  shows "scan_chars (u_escape c @ r) = bindE (scan_chars r) (\<lambda>(ts, z). Inr ((True, c) # ts, z))"
proof -
  have "c div 4096 mod 16 = c div 4096" using assms by (simp add: less_mult_imp_div_less)
  then show ?thesis using hex4_digits [OF assms] by (simp add: u_escape_def)
qed

lemma surrogate_bounds: "c < 1114112 \<Longrightarrow> (c - 65536) div 1024 < 1024 \<and> (c - 65536) mod 1024 < (1024 :: nat)"
  by (simp add: less_mult_imp_div_less)

lemma scan_escape_char:
  assumes "c < 1114112"
  shows "scan_chars (escape_char c @ r) = bindE (scan_chars r) (\<lambda>(ts, z). Inr (tokens_of c @ ts, z))"
proof (cases "short_escape c")
  case (Some e)
  then have "simple_escape e = Some c" "e \<noteq> 117"
    by (auto simp: short_escape_def simple_escape_def split: if_splits)
  with Some show ?thesis by (simp add: escape_char_def tokens_of_def)
next
  case None
  then have n: "c \<noteq> 34" "c \<noteq> 92" by (auto simp: short_escape_def split: if_splits)
  consider "32 \<le> c \<and> c \<le> 126" | "\<not> (32 \<le> c \<and> c \<le> 126)" "c < 65536" | "65536 \<le> c" by linarith
  then show ?thesis
  proof cases
    case 1
    with None n show ?thesis by (simp add: escape_char_def tokens_of_def)
  next
    case 2
    with None have "escape_char c = u_escape c" "tokens_of c = [(True, c)]"
      unfolding escape_char_def tokens_of_def by auto
    with scan_u_escape [OF 2(2)] show ?thesis by simp
  next
    case 3
    let ?h = "55296 + (c - 65536) div 1024" and ?l = "56320 + (c - 65536) mod 1024"
    have "?h < 65536" "?l < 65536" using assms surrogate_bounds [of c] by simp_all
    note e = this [THEN scan_u_escape]
    have "escape_char c = u_escape ?h @ u_escape ?l" "tokens_of c = [(True, ?h), (True, ?l)]"
      using None 3 by (simp_all add: escape_char_def tokens_of_def)
    then show ?thesis by (simp add: e) (cases "scan_chars r"; auto)
  qed
qed

lemma scan_printed:
  "list_all (\<lambda>c. c < 1114112) s \<Longrightarrow>
     scan_chars (concat (map escape_char s) @ 34 # r) = Inr (concat (map tokens_of s), r)"
  by (induction s) (simp_all add: scan_escape_char)

lemma unpaired_range: "unpaired s \<Longrightarrow> list_all (\<lambda>c. c < 1114112) s"
  by (induction s rule: unpaired.induct) auto

lemma unpaired_tl: "unpaired (c # s) \<Longrightarrow> c < 1114112 \<and> unpaired s"
  by (cases s) auto

lemma join_plain:
  "\<not> (e \<and> is_high c \<and> (\<exists>c' ts'. ts = (True, c') # ts' \<and> is_low c')) \<Longrightarrow>
     join_pairs ((e, c) # ts) = c # join_pairs ts"
  by (cases ts) (auto simp: is_high_def is_low_def)

lemma tokens_head:
  assumes "concat (map tokens_of s) = (True, c) # ts" and "is_low c" and "unpaired s"
  shows "\<exists>s'. s = c # s'"
proof (cases s)
  case (Cons d s')
  have "d < 1114112" using assms(3) Cons unpaired_tl by blast
  with assms(1,2) Cons surrogate_bounds [of d] show ?thesis
    by (auto simp: tokens_of_def is_low_def split: if_splits)
qed (use assms in simp)

lemma join_tokens: "unpaired s \<Longrightarrow> join_pairs (concat (map tokens_of s)) = s"
proof (induction s)
  case Nil
  then show ?case by simp
next
  case (Cons c s)
  note tl = unpaired_tl [OF Cons.prems]
  let ?ts = "concat (map tokens_of s)"
  have "\<not> (is_high c \<and> (\<exists>c' ts'. ?ts = (True, c') # ts' \<and> is_low c'))"
    using tokens_head [of s] tl Cons.prems by fastforce
  then have j: "join_pairs ((e, c) # ?ts) = c # s" for e
    using join_plain [of e c ?ts] Cons.IH tl by simp
  show ?case
  proof (cases "c < 65536")
    case True
    with j show ?thesis by (simp add: tokens_of_def [of c])
  next
    case False
    let ?h = "55296 + (c - 65536) div 1024" and ?l = "56320 + (c - 65536) mod 1024"
    have "?h \<le> 56319" "?l \<le> 57343" using surrogate_bounds [of c] tl by simp_all
    moreover have "65536 + (?h - 55296) * 1024 + (?l - 56320) = c" using False by simp
    moreover have "concat (map tokens_of (c # s)) = (True, ?h) # (True, ?l) # ?ts"
      using False by (simp add: tokens_of_def [of c] short_escape_def)
    ultimately show ?thesis using Cons.IH tl by simp
  qed
qed

lemma scan_print_string:
  assumes "unpaired s"
  shows "scan_string (concat (map escape_char s) @ 34 # r) = Inr (s, r)"
  using scan_printed [OF unpaired_range [OF assms]] join_tokens [OF assms] by (simp add: scan_string_def)

section \<open>Numbers are read back\<close>

text \<open>What may follow a number in a document.\<close>

definition ends_number :: "pystr \<Rightarrow> bool" where
  "ends_number r \<longleftrightarrow> (case r of [] \<Rightarrow> True | c # _ \<Rightarrow> \<not> is_digit c \<and> c \<noteq> 46 \<and> c \<noteq> 101 \<and> c \<noteq> 69)"

lemma ends_number_simps [simp]:
  "ends_number []" "ends_number (44 # r)" "ends_number (93 # r)" "ends_number (125 # r)"
  "ends_number (10 # r)" "ends_number (32 # r)"
  by (simp_all add: ends_number_def is_digit_def)

lemma digits_of: "list_all is_digit (dec_digits n) \<and> dec_digits n \<noteq> []"
  using dec_digits_range [of _ n] by (auto simp: list_all_iff is_digit_def dec_digits.simps [of n])

lemma digits_lead: "0 < n \<Longrightarrow> hd (dec_digits n) \<noteq> 48"
proof (induction n rule: dec_digits.induct)
  case (1 n)
  show ?case
  proof (cases "n < 10")
    case True
    with "1.prems" show ?thesis by (simp add: dec_digits.simps [of n])
  next
    case False
    with "1.IH" digits_of [of "n div 10"] show ?thesis by (simp add: dec_digits.simps [of n] hd_append)
  qed
qed

lemma scan_digits_until:
  assumes "case r of [] \<Rightarrow> True | c # _ \<Rightarrow> \<not> is_digit c"
  shows "scan_int (dec_digits n @ r) = Some (dec_digits n, r)"
proof (cases "n = 0")
  case True
  moreover have "dec_digits 0 = [48]" by (simp add: dec_digits.simps [of 0])
  ultimately show ?thesis by (simp add: scan_int_def)
next
  case False
  then obtain d ds where d: "dec_digits n = d # ds" "d \<noteq> 48" "is_digit d"
    using digits_of [of n] digits_lead [of n] by (cases "dec_digits n") auto
  have "takeWhile is_digit (dec_digits n @ r) = dec_digits n @ takeWhile is_digit r"
    "dropWhile is_digit (dec_digits n @ r) = dropWhile is_digit r"
    using digits_of [of n] by (auto simp: list_all_iff takeWhile_append dropWhile_append)
  moreover have "takeWhile is_digit r = []" "dropWhile is_digit r = r"
    using assms by (auto split: list.splits)
  ultimately have "digits_prefix (dec_digits n @ r) = (dec_digits n, r)"
    by (simp add: digits_prefix_def)
  then show ?thesis using d by (simp add: scan_int_def)
qed

lemma scan_digits: "ends_number r \<Longrightarrow> scan_int (dec_digits n @ r) = Some (dec_digits n, r)"
  by (rule scan_digits_until) (auto simp: ends_number_def split: list.splits)

lemma scan_point: "scan_int (dec_digits n @ 46 # r) = Some (dec_digits n, 46 # r)"
  by (rule scan_digits_until) (simp add: is_digit_def)

lemma ends_frac: "ends_number r \<Longrightarrow> scan_frac r = (None, r) \<and> scan_exp r = (None, r)"
  by (auto simp: ends_number_def scan_frac_def scan_exp_def split: list.splits)

lemma scan_str_int:
  assumes "ends_number r" and "length (dec_digits (nat \<bar>i\<bar>)) \<le> int_max_str_digits"
  shows "scan_number (str_int i @ r) = Inr (JInt i, r)"
proof -
  note sc = scan_digits [OF assms(1)] ends_frac [OF assms(1)]
  obtain d ds where d: "dec_digits (nat \<bar>i\<bar>) = d # ds" "is_digit d"
    using digits_of [of "nat \<bar>i\<bar>"] by (cases "dec_digits (nat \<bar>i\<bar>)") auto
  show ?thesis
  proof (cases "i < 0")
    case True
    then have "str_int i = 45 # dec_digits (nat \<bar>i\<bar>)" by (simp add: str_int_def u_def)
    moreover have "int (dec_value (dec_digits (nat \<bar>i\<bar>))) = - i" using True by simp
    ultimately show ?thesis
      using assms(2) True by (simp add: scan_number_def startswith_def u_def sc number_value_def)
  next
    case False
    then have "str_int i = dec_digits (nat \<bar>i\<bar>)" by (simp add: str_int_def)
    moreover have "\<not> startswith (dec_digits (nat \<bar>i\<bar>) @ r) (u ''-'')"
      using d by (auto simp: startswith_def u_def is_digit_def)
    ultimately show ?thesis
      using assms(2) False by (simp add: scan_number_def Let_def sc number_value_def)
  qed
qed

section \<open>Values are read back\<close>

text \<open>What starts a value, after white space.\<close>

definition starts_value :: "pystr \<Rightarrow> bool" where
  "starts_value s \<longleftrightarrow> s \<noteq> [] \<and> \<not> json_ws (hd s) \<and> hd s \<noteq> 93"

definition reads_back :: "(pyfloat \<Rightarrow> pystr) \<Rightarrow> pyfloat \<Rightarrow> bool" where
  "reads_back repr f \<longleftrightarrow> starts_value (repr f)
     \<and> (\<forall>n r. ends_number r \<longrightarrow> parse_value (Suc n) (repr f @ r) = Inr (JFloat f, r))"

fun readable :: "(pyfloat \<Rightarrow> pystr) \<Rightarrow> json \<Rightarrow> bool" where
  "readable repr JNull = True"
| "readable repr (JBool b) = True"
| "readable repr (JInt i) = (length (dec_digits (nat \<bar>i\<bar>)) \<le> int_max_str_digits)"
| "readable repr (JFloat f) = reads_back repr f"
| "readable repr (JStr s) = unpaired s"
| "readable repr (JArr vs) = (\<forall>v\<in>set vs. readable repr v)"
| "readable repr (JObj kvs) =
     (distinct (map fst kvs) \<and> (\<forall>kv\<in>set kvs. unpaired (fst kv) \<and> readable repr (snd kv)))"

text \<open>The nesting of the scanner's calls on a printed value.\<close>

fun need :: "json \<Rightarrow> nat" where
  "need (JArr vs) = 1 + length vs + sum_list (map need vs)"
| "need (JObj kvs) = 1 + length kvs + sum_list (map (\<lambda>kv. need (snd kv)) kvs)"
| "need v = 1"

lemma skip_ws_past: "list_all json_ws w \<Longrightarrow> s \<noteq> [] \<Longrightarrow> \<not> json_ws (hd s) \<Longrightarrow> skip_ws (w @ s) = s"
  by (induction w) (auto simp: skip_ws_def dropWhile_eq_self_iff)

lemma newline_indent_ws: "list_all json_ws (newline_indent indent level)"
  by (auto simp: newline_indent_def json_ws_def list_all_iff split: option.split)

lemma item_separator_ws: "\<exists>w. item_separator indent level = 44 # w \<and> list_all json_ws w"
  using newline_indent_ws [of indent level]
  by (auto simp: item_separator_def u_def json_ws_def split: option.split)

lemma ws_ends_number: "list_all json_ws w \<Longrightarrow> ends_number r \<Longrightarrow> ends_number (w @ r)"
  by (cases w) (auto simp: ends_number_def json_ws_def is_digit_def)

lemma parse_items:
  assumes "\<And>v n r. v \<in> set vs \<Longrightarrow> ends_number r \<Longrightarrow> need v \<le> n \<Longrightarrow> parse_value n (pr v @ r) = Inr (v, r)"
    and "\<forall>v\<in>set vs. starts_value (pr v)" and "vs \<noteq> []" and "length vs + sum_list (map need vs) \<le> n"
    and "list_all json_ws w" and "list_all json_ws w'"
  shows "parse_elems n (join (44 # w) (map pr vs) @ w' @ 93 # r) = Inr (vs, r)"
  using assms(1-4)
proof (induction vs arbitrary: n)
  case Nil
  then show ?case by simp
next
  case (Cons v vs)
  then obtain m where m: "n = Suc m" by (cases n) auto
  show ?case
  proof (cases vs)
    case Nil
    have "ends_number (w' @ 93 # r)" by (rule ws_ends_number [OF assms(6)]) simp
    with Cons.prems(1) [of v] Cons.prems(4) m Nil have "parse_value m (pr v @ w' @ 93 # r) = Inr (v, w' @ 93 # r)"
      by simp
    moreover have "skip_ws (w' @ 93 # r) = 93 # r" using assms(6) by (simp add: skip_ws_past json_ws_def)
    ultimately show ?thesis using m Nil by simp
  next
    case (Cons v' vs')
    let ?rest = "join (44 # w) (map pr vs) @ w' @ 93 # r"
    have p: "parse_value m (pr v @ 44 # w @ ?rest) = Inr (v, 44 # w @ ?rest)"
      using Cons.prems(1) [of v] Cons.prems(4) m by simp
    have i: "parse_elems m ?rest = Inr (vs, r)"
      using Cons.prems m Cons by (intro Cons.IH) auto
    have "starts_value (pr v')" using Cons.prems(2) Cons by simp
    then have "skip_ws (w @ ?rest) = ?rest"
      using assms(5) Cons by (intro skip_ws_past) (cases vs'; auto simp: starts_value_def hd_append)+
    moreover have "skip_ws (44 # w @ ?rest) = 44 # w @ ?rest" by (simp add: skip_ws_def json_ws_def)
    moreover have "join (44 # w) (map pr (v # vs)) @ w' @ 93 # r = pr v @ 44 # w @ ?rest" using Cons by simp
    ultimately show ?thesis using p i m by simp
  qed
qed

lemma update_new: "k \<notin> fst ` set acc \<Longrightarrow> AList.update k v acc = acc @ [(k, v)]"
  by (induction acc) auto

lemma parse_pairs:
  assumes "\<And>kv n r. kv \<in> set kvs \<Longrightarrow> ends_number r \<Longrightarrow> need (snd kv) \<le> n \<Longrightarrow>
      parse_value n (pr (snd kv) @ r) = Inr (snd kv, r)"
    and "\<forall>kv\<in>set kvs. starts_value (pr (snd kv)) \<and> unpaired (fst kv)" and "kvs \<noteq> []"
    and "length kvs + sum_list (map (\<lambda>kv. need (snd kv)) kvs) \<le> n"
    and "distinct (map fst (acc @ kvs))"
    and "list_all json_ws w" and "list_all json_ws w'"
  shows "parse_members n acc (join (44 # w) (map (\<lambda>kv. print_string (fst kv) @ 58 # 32 # pr (snd kv)) kvs) @ w' @ 125 # r)
    = Inr (acc @ kvs, r)"
  using assms(1-5)
proof (induction kvs arbitrary: n acc)
  case Nil
  then show ?case by simp
next
  case (Cons kv kvs)
  obtain k v where kv: "kv = (k, v)" by (cases kv)
  from Cons.prems(4) obtain m where m: "n = Suc m" by (cases n) auto
  have new: "AList.update k v acc = acc @ [kv]"
    using Cons.prems(5) kv by (auto simp: update_new)
  have string: "scan_string (concat (map escape_char k) @ 34 # q) = Inr (k, q)" for q
    using Cons.prems(2) kv by (simp add: scan_print_string)
  have colon: "skip_ws (58 # q) = 58 # q" for q by (simp add: skip_ws_def json_ws_def)
  have "starts_value (pr v)" using Cons.prems(2) kv by simp
  then have gap: "skip_ws (32 # pr v @ q) = pr v @ q" for q
    using skip_ws_past [of "[32]" "pr v @ q"] by (simp add: starts_value_def json_ws_def)
  show ?case
  proof (cases kvs)
    case Nil
    have "ends_number (w' @ 125 # r)" by (rule ws_ends_number [OF assms(7)]) simp
    with Cons.prems(1) [of kv] Cons.prems(4) m Nil kv have
      "parse_value m (pr v @ w' @ 125 # r) = Inr (v, w' @ 125 # r)" by simp
    moreover have "skip_ws (w' @ 125 # r) = 125 # r" using assms(7) by (simp add: skip_ws_past json_ws_def)
    ultimately show ?thesis using m Nil kv by (simp add: print_string_def string colon gap new)
  next
    case (Cons kv' kvs')
    let ?rest = "join (44 # w) (map (\<lambda>kv. print_string (fst kv) @ 58 # 32 # pr (snd kv)) kvs) @ w' @ 125 # r"
    have p: "parse_value m (pr v @ 44 # w @ ?rest) = Inr (v, 44 # w @ ?rest)"
      using Cons.prems(1) [of kv] Cons.prems(4) m kv by simp
    have i: "parse_members m (acc @ [kv]) ?rest = Inr ((acc @ [kv]) @ kvs, r)"
      using Cons.prems m Cons by (intro Cons.IH) auto
    have "skip_ws (w @ ?rest) = ?rest"
      using assms(6) Cons
      by (intro skip_ws_past) (cases kvs'; auto simp: print_string_def json_ws_def)+
    moreover have "skip_ws (44 # w @ ?rest) = 44 # w @ ?rest" by (simp add: skip_ws_def json_ws_def)
    ultimately show ?thesis
      using p i m kv Cons by (simp add: print_string_def string colon gap new)
  qed
qed

text \<open>A printed value starts like one, and is as long as the scanner's nesting needs.\<close>

lemma printed_starts: "readable repr v \<Longrightarrow> starts_value (print_value repr indent level v)"
proof (cases v)
  case (JInt i)
  have "d = 45 \<or> is_digit d" if "str_int i = d # ds" for d ds
    using that digits_of [of "nat i"] by (auto simp: str_int_def u_def split: if_splits)
  moreover have "str_int i \<noteq> []" using digits_of [of "nat i"] by (simp add: str_int_def u_def)
  ultimately show ?thesis using JInt
    by (cases "str_int i") (auto simp: starts_value_def json_ws_def is_digit_def)
qed (auto simp: starts_value_def json_ws_def u_def print_string_def bracketed_def reads_back_def)

lemma str_int_head: "\<exists>d ds. str_int i = d # ds \<and> (d = 45 \<or> is_digit d)"
  using digits_of [of "nat i"] by (cases "dec_digits (nat i)") (auto simp: str_int_def u_def)

lemma parse_str_int:
  assumes "ends_number r" and "length (dec_digits (nat \<bar>i\<bar>)) \<le> int_max_str_digits"
  shows "parse_value (Suc n) (str_int i @ r) = Inr (JInt i, r)"
proof -
  obtain d ds where d: "str_int i = d # ds" "d = 45 \<or> is_digit d" using str_int_head by blast
  then have "d \<noteq> 34" "d \<noteq> 123" "d \<noteq> 91" "\<not> startswith (d # q) (u ''null'')" "\<not> startswith (d # q) (u ''true'')"
    "\<not> startswith (d # q) (u ''false'')" for q
    by (auto simp: is_digit_def startswith_def u_def)
  then show ?thesis using scan_str_int [OF assms] d(1) by simp
qed

lemma parse_bracketed_list:
  assumes "vs \<noteq> []" and "parse_elems n (join (item_separator indent (level + 1)) (map pr vs)
      @ newline_indent indent level @ 93 # r) = Inr (vs, r)"
    and "\<forall>v\<in>set vs. starts_value (pr v)"
  shows "parse_value (Suc n) (bracketed indent level 91 93 (map pr vs) @ r) = Inr (JArr vs, r)"
proof -
  let ?items = "join (item_separator indent (level + 1)) (map pr vs) @ newline_indent indent level @ 93 # r"
  obtain v vs' where v: "vs = v # vs'" using assms(1) by (cases vs) auto
  with assms(3) obtain c q where c: "pr v = c # q" "\<not> json_ws c" "c \<noteq> 93"
    by (cases "pr v") (auto simp: starts_value_def)
  have i: "\<exists>q'. ?items = c # q'" using v c by (cases vs') auto
  then have "skip_ws (newline_indent indent (level + 1) @ ?items) = ?items"
    using c by (intro skip_ws_past [OF newline_indent_ws]) auto
  with assms(1,2) i c show ?thesis by (auto simp: bracketed_def)
qed

lemma parse_bracketed_object:
  assumes "kvs \<noteq> []" and "parse_members n [] (join (item_separator indent (level + 1))
      (map (\<lambda>kv. print_string (fst kv) @ 58 # 32 # pr (snd kv)) kvs) @ newline_indent indent level @ 125 # r) = Inr (kvs, r)"
  shows "parse_value (Suc n) (bracketed indent level 123 125
      (map (\<lambda>kv. print_string (fst kv) @ 58 # 32 # pr (snd kv)) kvs) @ r) = Inr (JObj kvs, r)"
proof -
  let ?items = "join (item_separator indent (level + 1)) (map (\<lambda>kv. print_string (fst kv) @ 58 # 32 # pr (snd kv)) kvs)
    @ newline_indent indent level @ 125 # r"
  have i: "\<exists>q. ?items = 34 # q"
    using assms(1) by (cases kvs; cases "tl kvs") (auto simp: print_string_def)
  then have "skip_ws (newline_indent indent (level + 1) @ ?items) = ?items"
    by (intro skip_ws_past [OF newline_indent_ws]) (auto simp: json_ws_def)
  with assms i show ?thesis by (auto simp: bracketed_def)
qed

lemma parse_printed:
  "readable repr v \<Longrightarrow> ends_number r \<Longrightarrow> need v \<le> n \<Longrightarrow>
     parse_value n (print_value repr indent level v @ r) = Inr (v, r)"
proof (induction repr indent level v arbitrary: n r rule: print_value.induct)
  case (6 repr indent level vs)
  then obtain m where m: "n = Suc m" by (cases n) auto
  show ?case
  proof (cases "vs = []")
    case True
    with m show ?thesis by (simp add: bracketed_def skip_ws_def json_ws_def)
  next
    case False
    let ?pr = "print_value repr indent (level + 1)"
    obtain w where w: "item_separator indent (level + 1) = 44 # w" "list_all json_ws w"
      using item_separator_ws by blast
    have s: "\<forall>v\<in>set vs. starts_value (?pr v)" using "6.prems"(1) printed_starts by simp
    have "parse_elems m (join (44 # w) (map ?pr vs) @ newline_indent indent level @ 93 # r) = Inr (vs, r)"
      using "6.IH" "6.prems" m False s w(2) newline_indent_ws by (intro parse_items) auto
    from parse_bracketed_list [OF False this [folded w(1)] s] m show ?thesis by simp
  qed
next
  case (7 repr indent level kvs)
  then obtain m where m: "n = Suc m" by (cases n) auto
  show ?case
  proof (cases "kvs = []")
    case True
    with m show ?thesis by (simp add: bracketed_def skip_ws_def json_ws_def)
  next
    case False
    let ?pr = "print_value repr indent (level + 1)"
    obtain w where w: "item_separator indent (level + 1) = 44 # w" "list_all json_ws w"
      using item_separator_ws by blast
    have s: "\<forall>kv\<in>set kvs. starts_value (?pr (snd kv)) \<and> unpaired (fst kv)"
      using "7.prems"(1) printed_starts by simp
    have "parse_members m [] (join (44 # w) (map (\<lambda>kv. print_string (fst kv) @ 58 # 32 # ?pr (snd kv)) kvs)
        @ newline_indent indent level @ 125 # r) = Inr ([] @ kvs, r)"
      using "7.IH" "7.prems" m False s w(2) newline_indent_ws by (intro parse_pairs) auto
    from parse_bracketed_object [OF False this [folded w(1), unfolded append_Nil]] m show ?thesis
      by (simp add: split_def u_def)
  qed
next
  case (3 repr indent level i)
  then obtain m where m: "n = Suc m" by (cases n) auto
  from "3.prems"(1) parse_str_int [OF "3.prems"(2), of i m] show ?case by (simp only: m print_value.simps readable.simps)
next
  case (4 repr indent level f)
  then obtain m where "n = Suc m" by (cases n) auto
  with "4.prems" show ?case by (simp add: reads_back_def)
next
  case (5 repr indent level s)
  then obtain m where "n = Suc m" by (cases n) auto
  with "5.prems" show ?case by (simp add: print_string_def scan_print_string)
next
  case (1 repr indent level)
  then obtain m where "n = Suc m" by (cases n) auto
  then show ?case by (simp add: startswith_def u_def)
next
  case (2 repr indent level b)
  then obtain m where "n = Suc m" by (cases n) auto
  then show ?case by (cases b) (simp_all add: startswith_def u_def)
qed

lemma join_length:
  "xs \<noteq> [] \<Longrightarrow> length (join sep xs) + length sep = sum_list (map length xs) + length xs * length sep"
  by (induction sep xs rule: join.induct) simp_all

lemma bracketed_length:
  assumes "\<forall>x\<in>set xs. f x \<le> 2 * length (g x)"
  shows "1 + length xs + sum_list (map f xs) \<le> 2 * length (bracketed indent level a b (map g xs))"
proof (cases "xs = []")
  case True
  then show ?thesis by (simp add: bracketed_def)
next
  case False
  obtain w where w: "item_separator indent (level + 1) = 44 # w" using item_separator_ws by blast
  have "sum_list (map f xs) \<le> 2 * sum_list (map (length \<circ> g) xs)"
    using assms by (induction xs) auto
  moreover have "sum_list (map (length \<circ> g) xs) + length xs \<le> length (join (44 # w) (map g xs)) + 1"
  proof -
    have "length (join (44 # w) (map g xs)) + Suc (length w)
        = sum_list (map (length \<circ> g) xs) + (length xs + length xs * length w)"
      using join_length [of "map g xs" "44 # w"] False by simp
    moreover have "length w \<le> length xs * length w" using False by (cases xs) simp_all
    ultimately show ?thesis by linarith
  qed
  ultimately show ?thesis using False w by (simp add: bracketed_def)
qed

lemma need_length: "readable repr v \<Longrightarrow> need v \<le> 2 * length (print_value repr indent level v)"
proof (induction repr indent level v rule: print_value.induct)
  case (6 repr indent level vs)
  then have "\<forall>v\<in>set vs. need v \<le> 2 * length (print_value repr indent (level + 1) v)" by simp
  from bracketed_length [OF this, of indent level 91 93] show ?case by simp
next
  case (7 repr indent level kvs)
  have "need (snd kv) \<le> 2 * length (case kv of (k, v) \<Rightarrow> print_string k @ u '': '' @ print_value repr indent (level + 1) v)"
    if "kv \<in> set kvs" for kv
  proof (cases kv)
    case (Pair k v)
    with "7.IH" [of kv k v] "7.prems" that have "need v \<le> 2 * length (print_value repr indent (level + 1) v)" by force
    with Pair show ?thesis by simp
  qed
  then have "\<forall>kv\<in>set kvs. need (snd kv) \<le>
      2 * length ((\<lambda>(k, v). print_string k @ u '': '' @ print_value repr indent (level + 1) v) kv)" by blast
  from bracketed_length [OF this, of indent level 123 125] show ?case by simp
next
  case (3 repr indent level i)
  have "str_int i \<noteq> []" using str_int_head [of i] by auto
  then show ?case by (cases "str_int i") simp_all
next
  case (4 repr indent level f)
  then have "repr f \<noteq> []" by (simp add: reads_back_def starts_value_def)
  then show ?case by (cases "repr f") simp_all
qed (simp_all add: print_string_def)

lemma loads_dumps: "readable repr v \<Longrightarrow> json_loads (json_dumps repr indent v) = Inr v"
proof -
  assume r: "readable repr v"
  let ?t = "json_dumps repr indent v"
  have "parse_value (2 * length ?t + 2) (?t @ []) = Inr (v, [])"
    unfolding json_dumps_def by (rule parse_printed [OF r]) (use need_length [OF r, of indent 0] in simp_all)
  moreover have "skip_ws ?t = ?t"
    using printed_starts [OF r, of indent 0]
    by (auto simp: json_dumps_def starts_value_def skip_ws_def dropWhile_eq_self_iff)
  ultimately show ?thesis by (simp add: json_loads_def skip_ws_def)
qed

text \<open>A float printed as digits, a point and digits, as Python prints one that is neither large nor small,
  reads back.\<close>

lemma decimal_reads_back:
  assumes "repr (Fin q) = dec_digits a @ 46 # ds" and "ds \<noteq> []" and "list_all is_digit ds"
    and "float_of_rat (of_nat (dec_value (dec_digits a @ ds)) / 10 ^ length ds) = Fin q"
  shows "reads_back repr (Fin q)"
proof -
  obtain d rest where d: "dec_digits a = d # rest" "is_digit d" using digits_of [of a] by (cases "dec_digits a") auto
  have "parse_value (Suc n) (repr (Fin q) @ r) = Inr (JFloat (Fin q), r)" if r: "ends_number r" for n r
  proof -
    have "takeWhile is_digit (ds @ r) = ds @ takeWhile is_digit r" "dropWhile is_digit (ds @ r) = dropWhile is_digit r"
      using assms(3) by (auto simp: list_all_iff takeWhile_append dropWhile_append)
    moreover have "takeWhile is_digit r = []" "dropWhile is_digit r = r"
      using r by (auto simp: ends_number_def split: list.splits)
    ultimately have f: "scan_frac (46 # ds @ r) = (Some ds, r)"
      using assms(2) by (simp add: scan_frac_def digits_prefix_def)
    have i: "scan_int (d # rest @ 46 # ds @ r) = Some (dec_digits a, 46 # ds @ r)"
      using scan_point [of a "ds @ r"] d by simp
    have "number_value False (dec_digits a) (Some ds) None = Inr (JFloat (Fin q))"
      using assms(4) by (simp add: number_value_def dec_value_def)
    moreover have "d \<noteq> 34" "d \<noteq> 123" "d \<noteq> 91" "\<not> startswith (d # x) (u ''null'')"
      "\<not> startswith (d # x) (u ''true'')" "\<not> startswith (d # x) (u ''false'')" "\<not> startswith (d # x) (u ''-'')" for x
      using d(2) by (auto simp: is_digit_def startswith_def u_def)
    ultimately show ?thesis
      using assms(1) d f i ends_frac [OF r] by (simp add: scan_number_def Let_def)
  qed
  moreover have "starts_value (repr (Fin q))"
    using assms(1) d by (auto simp: starts_value_def is_digit_def json_ws_def)
  ultimately show ?thesis by (simp add: reads_back_def)
qed

section \<open>What is printed is ASCII\<close>

definition ascii_text :: "pystr \<Rightarrow> bool" where
  "ascii_text s \<longleftrightarrow> (\<forall>c\<in>set s. c < 128 \<and> c \<noteq> CR)"

lemma ascii_text_simps [simp]:
  "ascii_text []" "ascii_text (c # s) \<longleftrightarrow> c < 128 \<and> c \<noteq> CR \<and> ascii_text s"
  "ascii_text (s @ t) \<longleftrightarrow> ascii_text s \<and> ascii_text t"
  by (auto simp: ascii_text_def)

lemma pos_mod_bound_16: "(d :: nat) mod 16 < 16"
  by simp

lemma u_escape_ascii: "ascii_text (u_escape c)"
proof -
  have "hex_digit (d mod 16) < 128 \<and> hex_digit (d mod 16) \<noteq> CR" for d
    using pos_mod_bound_16 [of d] by (auto simp: hex_digit_def)
  then show ?thesis by (simp add: u_escape_def)
qed

lemma escape_char_ascii: "ascii_text (escape_char c)"
  by (auto simp: escape_char_def u_escape_ascii short_escape_def split: option.split if_splits)

lemma print_string_ascii: "ascii_text (print_string s)"
  using escape_char_ascii by (auto simp: print_string_def ascii_text_def)

lemma join_ascii: "ascii_text sep \<Longrightarrow> \<forall>x\<in>set xs. ascii_text x \<Longrightarrow> ascii_text (join sep xs)"
  by (induction sep xs rule: join.induct) auto

lemma newline_indent_ascii: "ascii_text (newline_indent indent level)"
  by (auto simp: newline_indent_def ascii_text_def split: option.split)

lemma bracketed_ascii:
  assumes "\<forall>x\<in>set xs. ascii_text x" and "op < 128" and "cl < 128" and "op \<noteq> CR" and "cl \<noteq> CR"
  shows "ascii_text (bracketed indent level op cl xs)"
proof -
  have "ascii_text (item_separator indent (level + 1))"
    by (auto simp: item_separator_def u_def newline_indent_ascii split: option.split)
  with assms join_ascii newline_indent_ascii show ?thesis by (simp add: bracketed_def)
qed

lemma print_value_ascii:
  assumes "\<forall>f. ascii_text (repr f)"
  shows "ascii_text (print_value repr indent level v)"
  using assms
proof (induction repr indent level v rule: print_value.induct)
  case (3 repr indent level i)
  have "c < 128 \<and> c \<noteq> CR" if "c \<in> set (dec_digits n)" for c n using dec_digits_range [OF that] by simp
  then show ?case by (auto simp: str_int_def ascii_text_def u_def)
next
  case (6 repr indent level vs)
  then show ?case by (auto intro!: bracketed_ascii)
next
  case (7 repr indent level kvs)
  have "ascii_text (u '': '')" by (simp add: u_def)
  with 7 show ?case by (auto intro!: bracketed_ascii simp: print_string_ascii)
qed (auto simp: u_def print_string_ascii)

lemma dumps_ascii: "\<forall>f. ascii_text (repr f) \<Longrightarrow> ascii_text (json_dumps repr indent v)"
  by (simp add: json_dumps_def print_value_ascii)

lemma ascii_encodable: "ascii_text s \<Longrightarrow> encodable s"
  by (auto simp: ascii_text_def encodable_def list_all_iff is_scalar_def)

section \<open>The property\<close>

text \<open>What \<open>json.dumps\<close> prints \<open>json.loads\<close> reads back, whatever the indentation: every value
  whose objects have distinct keys, whose integers stay within the conversion limit, whose strings
  hold no high surrogate before a low one, and whose floats' own text reads back.\<close>

theorem dumps_reads_back:
  assumes "readable repr v"
  shows "json_loads (json_dumps repr indent v) = Inr v"
  by (rule loads_dumps [OF assms])

theorem dumps_reads_back_witness:
  "json_loads (json_dumps (\<lambda>_. []) (Some 2) (JObj [(u ''k'', JArr [JInt (-7), JStr [128512, 55296, 10], JObj []])]))
     = Inr (JObj [(u ''k'', JArr [JInt (-7), JStr [128512, 55296, 10], JObj []])])"
  by (rule dumps_reads_back) (simp add: u_def is_high_def is_low_def dec_digits.simps int_max_str_digits_def)

text \<open>A high surrogate before a low one is read back as the one character the pair stands for, and a
  repeated key, which no \<open>dict\<close> has, as its last value.\<close>

lemma paired_surrogates_are_joined:
  "json_loads (json_dumps (\<lambda>_. []) None (JStr [55296, 56320])) = Inr (JStr [65536])"
  by code_simp

end
