(* ===== verification/Cli_Properties.thy ===== *)
theory Cli_Properties
  imports Cli Entrypoint_Properties Json_Print
begin

text \<open>
  What the dispatching parent may conclude from the exit code, and which tasks the envelope can
  carry.
\<close>

section \<open>Fields\<close>

lemma string_field_Inr: "string_field env k = Inr s \<longleftrightarrow> obj_get env k = Some (JStr s)"
  by (auto simp: string_field_def split: option.splits json.splits)

lemma context_entries_wf:
  "context_entries i es = Inr fs \<Longrightarrow> \<forall>f\<in>set fs. strip (cf_path f) \<noteq> []"
  by (induction i es arbitrary: fs rule: context_entries.induct)
     (auto simp: bindE_eq_Inr lift_exn_Inr mk_context_file_def split: if_splits)

lemma wrap_value_error_Inr: "wrap_value_error r = Inr v \<longleftrightarrow> r = Inr v"
  by (cases r) (auto simp: wrap_value_error_def)

lemma budget_field_wf: "budget_field env = Inr b \<Longrightarrow> wf_budget b"
  by (auto simp: budget_field_def bindE_eq_Inr lift_exn_Inr dest: mk_budget_wf
      split: option.splits json.splits)

definition wf_context :: "context_file list \<Rightarrow> bool" where
  "wf_context fs \<longleftrightarrow> (\<forall>f\<in>set fs. strip (cf_path f) \<noteq> [])"

lemma context_files_wf: "context_files_field env = Inr fs \<Longrightarrow> wf_context fs"
  by (auto simp: context_files_field_def wf_context_def dest: context_entries_wf
      split: option.splits json.splits)

lemma task_of_envelope_wf:
  assumes "task_of_envelope env = Inr spec"
  shows "wf_task spec \<and> wf_budget (task_budget spec) \<and> wf_context (context_files spec)
    \<and> strip (test_text spec) \<noteq> []"
  using assms
  by (auto simp: task_of_envelope_def bindE_eq_Inr wrap_value_error_Inr lift_exn_Inr
      mk_task_spec_def wf_task_def split: if_splits dest: budget_field_wf context_files_wf)

lemma task_from_json_wf:
  "task_from_json raw = Inr spec \<Longrightarrow> wf_task spec \<and> wf_budget (task_budget spec)
     \<and> wf_context (context_files spec) \<and> strip (test_text spec) \<noteq> []"
  using task_of_envelope_wf by (auto simp: task_from_json_def bindE_eq_Inr)

definition runnable :: "task_spec \<Rightarrow> bool" where
  "runnable s \<longleftrightarrow> wf_task s \<and> wf_budget (task_budget s) \<and> wf_context (context_files s)
     \<and> strip (test_text s) \<noteq> []"

section \<open>Integers as floats\<close>

lemma float_limit: "(2 :: rat) ^ 1023 \<le> 2 ^ 1024 - 2 ^ 970"
proof -
  have "(2 :: rat) ^ 1024 = 2 ^ 1023 + 2 ^ 1023" using power_add [of "2 :: rat" 1023 1] by simp
  moreover have "(2 :: rat) ^ 970 \<le> 2 ^ 1023" by (rule power_increasing) simp_all
  ultimately show ?thesis by linarith
qed

lemma float_of_int_small: "\<bar>i\<bar> < 2 ^ 63 \<Longrightarrow> float_of_int i = Inr (Fin (of_int i))"
proof -
  assume a: "\<bar>i\<bar> < 2 ^ 63"
  have "(of_int \<bar>i\<bar> :: rat) < of_int (2 ^ 63)" using a by (simp only: of_int_less_iff)
  also have "\<dots> \<le> 2 ^ 1023" using power_increasing [of 63 1023 "2 :: rat"] by simp
  also note float_limit
  finally have "\<not> 2 ^ 1024 - 2 ^ 970 \<le> (of_int i :: rat)" "\<not> (of_int i :: rat) \<le> - (2 ^ 1024 - 2 ^ 970)"
    by auto
  then show ?thesis by (simp only: float_of_int_def float_of_rat_def if_False pyfloat.case)
qed

lemma float_of_int_large: "2 ^ 1024 \<le> i \<Longrightarrow> float_of_int i = Inl Overflow"
proof -
  assume a: "2 ^ 1024 \<le> i"
  have "(of_int (2 ^ 1024) :: rat) \<le> of_int i" using a by (simp only: of_int_le_iff)
  moreover have "(2 :: rat) ^ 1024 - 2 ^ 970 \<le> 2 ^ 1024" by (simp del: power_numeral)
  ultimately have "2 ^ 1024 - 2 ^ 970 \<le> (of_int i :: rat)" by (simp only: of_int_power of_int_numeral)
  then show ?thesis by (simp only: float_of_int_def float_of_rat_def if_True pyfloat.case)
qed

section \<open>Reading an envelope back\<close>

definition context_json :: "context_file \<Rightarrow> json" where
  "context_json f = JObj [(u ''path'', JStr (cf_path f)), (u ''content'', JStr (cf_content f))]"

definition envelope_of :: "task_spec \<Rightarrow> envelope" where
  "envelope_of s =
     [(u ''impl_path'', JStr (impl_path s)), (u ''spec_text'', JStr (spec_text s)),
      (u ''test_text'', JStr (test_text s)), (u ''expected_tests'', JInt (expected_tests s)),
      (u ''budget'', JObj
         [(u ''max_attempts'', JInt (max_attempts (task_budget s))),
          (u ''max_tokens'', JInt (max_tokens (task_budget s))),
          (u ''generation_timeout_s'', JFloat (generation_timeout_s (task_budget s))),
          (u ''oracle_timeout_s'', JFloat (oracle_timeout_s (task_budget s)))]),
      (u ''context_files'', JArr (map context_json (context_files s))),
      (u ''plan_first'', JBool (plan_first s))]"

lemma context_entries_back:
  "wf_context fs \<Longrightarrow> context_entries i (map context_json fs) = Inr fs"
  by (induction fs arbitrary: i)
     (auto simp: context_json_def string_field_def obj_get_def u_def mk_context_file_def wf_context_def)

lemma budget_back: "wf_budget b \<Longrightarrow>
   mk_budget (max_attempts b) (max_tokens b) (generation_timeout_s b) (oracle_timeout_s b) = Inr b"
  by (simp add: mk_budget_def wf_budget_def)

lemma envelope_fields:
  "obj_get (envelope_of s) ''impl_path'' = Some (JStr (impl_path s))"
  "obj_get (envelope_of s) ''spec_text'' = Some (JStr (spec_text s))"
  "obj_get (envelope_of s) ''test_text'' = Some (JStr (test_text s))"
  "obj_get (envelope_of s) ''expected_tests'' = Some (JInt (expected_tests s))"
  "obj_get (envelope_of s) ''context_files'' = Some (JArr (map context_json (context_files s)))"
  "obj_get (envelope_of s) ''plan_first'' = Some (JBool (plan_first s))"
  by (simp_all add: envelope_of_def obj_get_def u_def)

lemma envelope_budget:
  "wf_budget (task_budget s) \<Longrightarrow> budget_field (envelope_of s) = Inr (task_budget s)"
  by (simp add: budget_field_def envelope_of_def obj_get_def u_def integer_field_def
      number_field_def budget_back)

lemma task_of_envelope_back:
  assumes "wf_task s" and "wf_budget (task_budget s)" and "wf_context (context_files s)"
    and "strip (test_text s) \<noteq> []"
  shows "task_of_envelope (envelope_of s) = Inr s"
  using assms envelope_budget [OF assms(2)]
  by (simp add: task_of_envelope_def string_field_def integer_field_def context_files_field_def
      plan_first_field_def envelope_fields context_entries_back mk_task_spec_def wf_task_def
      wrap_value_error_def)

section \<open>Exit codes\<close>

lemma main_run:
  "main env args fs = (fs', out, err, r) \<Longrightarrow> \<not> a_contract_version args \<Longrightarrow>
     \<exists>ds q. run_cli env args fs = (fs', ds, q) \<and> out = [] \<and>
       r = (case q of Inr c \<Rightarrow> Inr c | Inl (Rejected _) \<Rightarrow> Inr EXIT_REJECTED_TASK
            | Inl x \<Rightarrow> if is_harness_fault x then Inr EXIT_HARNESS_FAULT else Inl x)"
  by (auto simp: main_def split: prod.splits sum.splits cli_error.splits if_splits)

lemma run_cli_code:
  assumes "run_cli env args fs = (fs', ds, Inr c)"
  obtains spec base_url model oc fs1 where "prepare env args fs = Inr (spec, base_url, model)"
    and "implement (ce_host env) spec base_url model (a_generation_params args) (ce_card env)
           (Some (a_worktree args)) fs = (fs1, Inr oc)"
    and "c = exit_code_for (oc_status oc)" and "a_record_dir args = None \<Longrightarrow> fs' = fs1"
  using assms
  by (auto simp: run_cli_def report_def write_outcome_def Let_def
      split: sum.splits prod.splits option.splits if_splits)

lemma exit_code_values:
  "exit_code_for s \<noteq> 7" "exit_code_for s \<noteq> 8" "exit_code_for s = exit_code_for t \<longleftrightarrow> s = t"
  "exit_code_for s = 0 \<longleftrightarrow> s = Done"
  by (cases s; simp add: exit_code_for_def; cases t; simp)+

text \<open>A code that names a status comes from an outcome with that status.\<close>

lemma main_status:
  assumes "main env args fs = (fs', out, err, Inr (exit_code_for st))" and "\<not> a_contract_version args"
  obtains spec base_url model oc fs1 where "prepare env args fs = Inr (spec, base_url, model)"
    and "implement (ce_host env) spec base_url model (a_generation_params args) (ce_card env)
           (Some (a_worktree args)) fs = (fs1, Inr oc)"
    and "oc_status oc = st" and "a_record_dir args = None \<Longrightarrow> fs' = fs1"
proof -
  from main_run [OF assms] obtain ds q where
    q: "run_cli env args fs = (fs', ds, q)" and
    r: "Inr (exit_code_for st) = (case q of Inr c \<Rightarrow> Inr c | Inl (Rejected _) \<Rightarrow> Inr EXIT_REJECTED_TASK
            | Inl x \<Rightarrow> if is_harness_fault x then Inr EXIT_HARNESS_FAULT else Inl x)" by blast
  from r have "q = Inr (exit_code_for st)"
    by (auto simp: EXIT_REJECTED_TASK_def EXIT_HARNESS_FAULT_def exit_code_values eq_commute [of _ "exit_code_for st"]
        split: sum.splits cli_error.splits if_splits)
  with q that exit_code_values(3) show ?thesis by (auto elim!: run_cli_code)
qed

lemma prepare_task:
  "prepare env args fs = Inr (spec, base_url, model) \<Longrightarrow> wf_task spec \<and> wf_budget (task_budget spec)
     \<and> strip (test_text spec) \<noteq> [] \<and> strip base_url \<noteq> [] \<and> strip model \<noteq> []"
  by (auto simp: prepare_def bindE_eq_Inr required_setting_def Let_def dest: task_from_json_wf
      split: if_splits)

text \<open>A DONE outcome over a link-free worktree leaves a file that a run of the oracle, one of the log of
  this very run, passed in full.\<close>

lemma done_file_passed:
  assumes "implement_in h spec base_url model params card_path dir wt fs = (fs', Inr oc)"
    and "plain fs wt" and "require_nested_relative_file (impl_path spec) = Inr (dir # rest)"
    and "0 < max_attempts (task_budget spec)" and "oc_status oc = Done"
    and "ps = attempt_log h spec base_url model params card_path dir wt fs"
  shows "all_judged (h_oracle h) spec wt (wt @ dir # rest) ps
    \<and> (\<exists>i<length ps. \<exists>v reply. p_score (ps ! i) = Some v \<and> is_green v
       \<and> extract_file (r_text (p_generation (ps ! i))) = Some reply
       \<and> fs_get fs' (wt @ dir # rest) = Some (File (payload reply))
       \<and> (\<forall>j<length ps. \<forall>v'. p_score (ps ! j) = Some v' \<longrightarrow> passed v' \<le> passed v))"
proof -
  obtain e :: "(httpx_backend \<times> nat) engine" and s r w where
    run: "loop_run e spec wt w = (s, Inr r)" and rd: "ready spec wt dir rest w"
    and eo: "e_oracle e = h_oracle h" and fs': "fs' = w_fs (rs_world s)"
    and lg: "attempt_log h spec base_url model params card_path dir wt fs = progress s"
    and stt: "oc_status oc = lr_status r"
    by (rule implement_ready [OF assms(1-3)]) blast
  note rf = run_facts [OF run assms(4)]
  from rf(4) stt assms(5) obtain v where v: "lr_best_score r = Some v" "is_green v"
    by (auto simp: terminal_status_def classify_terminal_def Let_def split: if_splits option.splits)
  from restored_reply [OF run rd v(1)] v(2) returned_all_judged [OF run rd] show ?thesis
    unfolding assms(6) lg fs' eo by blast
qed

text \<open>How the call of \<open>implement\<close> ended, when the dispatch reached it.\<close>

definition ended :: "cli_env \<Rightarrow> cli_args \<Rightarrow> fs \<Rightarrow> status \<Rightarrow> bool" where
  "ended env args fs st \<longleftrightarrow> (\<exists>spec base_url model fs1 oc. prepare env args fs = Inr (spec, base_url, model)
     \<and> implement (ce_host env) spec base_url model (a_generation_params args) (ce_card env)
         (Some (a_worktree args)) fs = (fs1, Inr oc) \<and> oc_status oc = st)"

definition raised :: "cli_env \<Rightarrow> cli_args \<Rightarrow> fs \<Rightarrow> exn \<Rightarrow> bool" where
  "raised env args fs x \<longleftrightarrow> (\<exists>spec base_url model fs1. prepare env args fs = Inr (spec, base_url, model)
     \<and> implement (ce_host env) spec base_url model (a_generation_params args) (ce_card env)
         (Some (a_worktree args)) fs = (fs1, Inl x))"

lemma harness_faults_apart:
  "is_harness_fault (Raised x) \<Longrightarrow> \<not> is_value_error x \<and> \<not> is_keep_only x"
  by (auto simp: is_harness_fault_def is_value_error_def is_keep_only_def split: exn.splits)

text \<open>A record that cannot be written never turns an outcome into another code.\<close>

lemma mkdirs_from_raises: "mkdirs_from fs p cs = Inl x \<Longrightarrow> x = OS_Error"
  by (induction fs p cs rule: mkdirs_from.induct)
     (auto simp: mkdir1_def bindE_eq_Inl split: option.splits if_splits)

lemma write_record_raises:
  "write_record dumps millis r d fs = Inl x \<Longrightarrow> x = OS_Error \<or> x = Unicode_Encode_Error"
  by (auto simp: write_record_def bindE_eq_Inl mkdirs_def write_text_def write_bytes_def
      Let_def dest!: mkdirs_from_raises split: option.splits if_splits)

lemma reported_code:
  assumes "\<exists>ds w. report env args oc fs1 = (fs', ds, w) \<and>
     Inr c = (case w of Inr c \<Rightarrow> Inr c | Inl (Rejected _) \<Rightarrow> Inr EXIT_REJECTED_TASK
        | Inl x \<Rightarrow> if is_harness_fault x then Inr EXIT_HARNESS_FAULT else Inl x)"
  shows "c = exit_code_for (oc_status oc)"
  using assms
  by (auto simp: report_def write_outcome_def is_harness_fault_def Let_def dest: write_record_raises
      split: option.splits prod.splits sum.splits if_splits)

text \<open>The three ways a dispatch can go, each with its code.\<close>

lemma unprepared_code:
  assumes "main env args fs = (fs', out, err, Inr c)" and "\<not> a_contract_version args"
    and "prepare env args fs = Inl x"
  shows "fs' = fs \<and> out = [] \<and> ((\<exists>r. x = Rejected r) \<and> c = 7 \<or> is_harness_fault x \<and> c = 8)"
  using main_run [OF assms(1,2)] assms(3)
  by (auto simp: run_cli_def EXIT_REJECTED_TASK_def EXIT_HARNESS_FAULT_def split: cli_error.splits if_splits)

lemma raised_code:
  assumes "main env args fs = (fs', out, err, Inr c)" and "\<not> a_contract_version args"
    and "prepare env args fs = Inr (spec, base_url, model)"
    and "implement (ce_host env) spec base_url model (a_generation_params args)
      (ce_card env) (Some (a_worktree args)) fs = (fs1, Inl x)"
  shows "out = [] \<and> ((is_value_error x \<or> is_keep_only x) \<and> c = 7 \<or> is_harness_fault (Raised x) \<and> c = 8)"
  using main_run [OF assms(1,2)] assms(3,4)
  by (auto simp: run_cli_def EXIT_REJECTED_TASK_def EXIT_HARNESS_FAULT_def split: cli_error.splits if_splits)

lemma ended_code:
  assumes "main env args fs = (fs', out, err, Inr c)" and "\<not> a_contract_version args"
    and "prepare env args fs = Inr (spec, base_url, model)"
    and "implement (ce_host env) spec base_url model (a_generation_params args)
      (ce_card env) (Some (a_worktree args)) fs = (fs1, Inr oc)"
  shows "out = [] \<and> c = exit_code_for (oc_status oc)"
proof -
  from main_run [OF assms(1,2)] assms(3,4) have "out = []" and
    "\<exists>ds w. report env args oc fs1 = (fs', ds, w) \<and>
       Inr c = (case w of Inr c \<Rightarrow> Inr c | Inl (Rejected _) \<Rightarrow> Inr EXIT_REJECTED_TASK
          | Inl x \<Rightarrow> if is_harness_fault x then Inr EXIT_HARNESS_FAULT else Inl x)"
    by (auto simp: run_cli_def)
  with reported_code show ?thesis by blast
qed

section \<open>A dispatch\<close>

definition demo_envelope :: pystr where
  "demo_envelope = u (''{\"impl_path\":\"src/a.py\",\"spec_text\":\"spec\",\"test_text\":\"assert 1\",''
     @ ''\"expected_tests\":1,\"budget\":{\"max_attempts\":4,\"max_tokens\":1000,''
     @ ''\"generation_timeout_s\":60,\"oracle_timeout_s\":10}}'')"

definition demo_env :: cli_env where
  "demo_env = \<lparr>ce_getenv = (\<lambda>k. Some (if k = MODEL_ENV then u ''m'' else u ''http://h/'')),
     ce_stdin = Piped (Inr demo_envelope), ce_card = [u ''card''], ce_host = demo_host,
     ce_py_str = (\<lambda>_. []), ce_dumps = (\<lambda>_. []), ce_millis = 0\<rparr>"

abbreviation demo_tree :: fs where
  "demo_tree \<equiv> fs_put [u ''t''] Dir host_fs"

lemma demo_decoded: "decoded_object demo_envelope = Inr
   [(u ''impl_path'', JStr (u ''src/a.py'')), (u ''spec_text'', JStr (u ''spec'')),
    (u ''test_text'', JStr (u ''assert 1'')), (u ''expected_tests'', JInt 1),
    (u ''budget'', JObj [(u ''max_attempts'', JInt 4), (u ''max_tokens'', JInt 1000),
      (u ''generation_timeout_s'', JInt 60), (u ''oracle_timeout_s'', JInt 10)])]"
  by code_simp

lemma demo_task: "task_from_json demo_envelope = Inr sample_task"
proof -
  have "strip (u ''assert 1'') \<noteq> []" "strip (u ''src/a.py'') \<noteq> []" by code_simp+
  moreover have "float_of_int 60 = Inr (Fin 60)" "float_of_int 10 = Inr (Fin 10)"
    using float_of_int_small [of 60] float_of_int_small [of 10] by simp_all
  ultimately show ?thesis
    by (simp add: task_from_json_def demo_decoded task_of_envelope_def string_field_def obj_get_def u_def
        integer_field_def budget_field_def number_field_def mk_budget_def context_files_field_def
        plan_first_field_def mk_task_spec_def wrap_value_error_def sample_task_def)
qed

lemma demo_prepare:
  "prepare demo_env (default_args [u ''t'']) fs = Inr (sample_task, u ''http://h/'', u ''m'')"
proof -
  have "read_envelope demo_env fs None = Inr demo_envelope"
    by (simp add: read_envelope_def demo_env_def)
  moreover have "strip (u ''http://h/'') \<noteq> []" "strip (u ''m'') \<noteq> []" by code_simp+
  moreover have "BASE_URL_ENV \<noteq> MODEL_ENV" by (simp add: BASE_URL_ENV_def MODEL_ENV_def u_def)
  ultimately show ?thesis using demo_task
    by (simp add: prepare_def default_args_def required_setting_def demo_env_def)
qed

lemma demo_main:
  obtains fs oc where "main demo_env (default_args [u ''t'']) demo_tree
      = (fs, [], [Outcome_Summary (outcome_summary (\<lambda>_. []) oc), Self_Judged_Verdict], Inr 0)"
    and "oc_status oc = Done"
    and "fs_get fs [u ''t'', u ''src'', u ''a.py''] = Some (File (ascii ''ok'' @ [13]))"
proof (rule demo_in)
  fix fs oc
  assume d: "implement_in demo_host sample_task (u ''http://h/'') (u ''m'') [] [u ''card'']
      (u ''src'') [u ''t''] demo_tree = (fs, Inr oc)"
    and st: "oc_status oc = Done"
    and f: "fs_get fs [u ''t'', u ''src'', u ''a.py''] = Some (File (ascii ''ok'' @ [13]))"
  have i: "demo_implement (Some [u ''t'']) demo_tree = (fs, Inr oc)"
    using d demo_nested by (simp add: implement_def writable_subtree_def)
  have "main demo_env (default_args [u ''t'']) demo_tree
      = (fs, [], [Outcome_Summary (outcome_summary (\<lambda>_. []) oc), Self_Judged_Verdict], Inr 0)"
    using i st by (simp add: main_def run_cli_def demo_prepare)
      (simp add: demo_env_def default_args_def report_def write_outcome_def exit_code_for_def)
  then show thesis using that st f by blast
qed

definition timeout_text :: "pyfloat \<Rightarrow> pystr" where
  "timeout_text f = (if f = Fin 60 then u ''60.0'' else u ''10.0'')"

lemma timeouts_read_back: "reads_back timeout_text (Fin 60)" "reads_back timeout_text (Fin 10)"
  by (rule decimal_reads_back [where a = 60 and ds = "[48]"],
      simp_all add: timeout_text_def u_def dec_digits.simps is_digit_def dec_value_def float_of_rat_def)
     (rule decimal_reads_back [where a = 10 and ds = "[48]"],
      simp_all add: timeout_text_def u_def dec_digits.simps is_digit_def dec_value_def float_of_rat_def)

section \<open>Properties\<close>

text \<open>C3. A zero exit admits only a file that passed: after a dispatch without a record directory, over
  a worktree without links, exit code 0 means that the file at the task's path is, byte for byte, a
  reply of an attempt of this very run, and that the oracle's verdict over the tree with that reply
  and the task's test in place was green.\<close>

theorem exit_zero_admits_only_a_passed_file:
  assumes "main env args fs = (fs', out, err, Inr 0)" and "\<not> a_contract_version args"
    and "a_record_dir args = None" and "plain fs (a_worktree args)"
  shows "\<exists>spec base_url model dir rest ps i v reply.
     prepare env args fs = Inr (spec, base_url, model)
   \<and> require_nested_relative_file (impl_path spec) = Inr (dir # rest)
   \<and> ps = attempt_log (ce_host env) spec base_url model (a_generation_params args) (ce_card env) dir
       (a_worktree args) fs
   \<and> all_judged (h_oracle (ce_host env)) spec (a_worktree args) (a_worktree args @ dir # rest) ps
   \<and> i < length ps \<and> p_score (ps ! i) = Some v \<and> is_green v
   \<and> extract_file (r_text (p_generation (ps ! i))) = Some reply
   \<and> fs_get fs' (a_worktree args @ dir # rest) = Some (File (payload reply))"
proof -
  have "(0 :: int) = exit_code_for Done" by (simp add: exit_code_for_def)
  with assms(1) have "main env args fs = (fs', out, err, Inr (exit_code_for Done))" by simp
  from main_status [OF this assms(2)] assms(3) obtain spec base_url model oc where
    p: "prepare env args fs = Inr (spec, base_url, model)" and
    i: "implement (ce_host env) spec base_url model (a_generation_params args) (ce_card env)
           (Some (a_worktree args)) fs = (fs', Inr oc)" and st: "oc_status oc = Done" by metis
  from implement_cases [OF i] obtain dir rest where
    n: "require_nested_relative_file (impl_path spec) = Inr (dir # rest)" and
    im: "implement_in (ce_host env) spec base_url model (a_generation_params args) (ce_card env) dir
       (a_worktree args) fs = (fs', Inr oc)" by auto
  have "0 < max_attempts (task_budget spec)" using prepare_task [OF p] by (simp add: wf_budget_def)
  from done_file_passed [OF im assms(4) n this st refl] p n show ?thesis by blast
qed

theorem exit_zero_admits_only_a_passed_file_witness:
  "\<exists>fs' out err i v. main demo_env (default_args [u ''t'']) demo_tree = (fs', out, err, Inr 0)
     \<and> i < length demo_log \<and> p_score (demo_log ! i) = Some v \<and> is_green v
     \<and> fs_get fs' [u ''t'', u ''src'', u ''a.py''] = Some (File (ascii ''ok'' @ [13]))"
proof (rule demo_main)
  fix fs oc
  assume m: "main demo_env (default_args [u ''t'']) demo_tree
      = (fs, [], [Outcome_Summary (outcome_summary (\<lambda>_. []) oc), Self_Judged_Verdict], Inr 0)"
    and f: "fs_get fs [u ''t'', u ''src'', u ''a.py''] = Some (File (ascii ''ok'' @ [13]))"
  have "\<not> a_contract_version (default_args [u ''t''])" "a_record_dir (default_args [u ''t'']) = None"
    "plain demo_tree (a_worktree (default_args [u ''t'']))"
    using fresh_plain [OF demo_fresh] by (simp_all add: default_args_def)
  from exit_zero_admits_only_a_passed_file [OF m this] obtain spec base_url model dir rest i v where
    "prepare demo_env (default_args [u ''t'']) demo_tree = Inr (spec, base_url, model)"
    "require_nested_relative_file (impl_path spec) = Inr (dir # rest)"
    "i < length (attempt_log (ce_host demo_env) spec base_url model (a_generation_params (default_args [u ''t'']))
       (ce_card demo_env) dir (a_worktree (default_args [u ''t''])) demo_tree)"
    "p_score (attempt_log (ce_host demo_env) spec base_url model (a_generation_params (default_args [u ''t'']))
       (ce_card demo_env) dir (a_worktree (default_args [u ''t''])) demo_tree ! i) = Some v" "is_green v"
    by blast
  moreover from this(1) have "spec = sample_task" "base_url = u ''http://h/''" "model = u ''m''"
    using demo_prepare by simp_all
  moreover from this(1) calculation(2) have "dir = u ''src''" using demo_nested by simp
  moreover have "ce_host demo_env = demo_host" "ce_card demo_env = [u ''card'']"
    "a_generation_params (default_args [u ''t'']) = []" "a_worktree (default_args [u ''t'']) = [u ''t'']"
    by (simp_all add: demo_env_def default_args_def)
  ultimately have "i < length demo_log" "p_score (demo_log ! i) = Some v" "is_green v" by simp_all
  with m f show ?thesis by blast
qed

text \<open>C7. The exit code says what happened.  When \<open>main\<close> returns code c: 0 means that only the contract version
  was asked for, or that \<open>implement\<close> ended DONE; 3, 4, 5 and 6 mean that it ended EXHAUSTED, DERAILED,
  BLOCKED and FAULTED; 7 that the envelope, its task or the configuration was refused before the
  run, and then nothing was written, or that \<open>implement\<close> raised a \<open>ValueError\<close> (a surrogate in the
  model's own reply causes one too) or a \<open>KeepOnlyViolation\<close>; 8 that it raised one of the three
  harness faults.  No other code is returned, 1 and 2 in particular.  (Reading the standard input
  is outside the model: a harness fault is among what it might raise there.)\<close>

theorem exit_code_names_the_cause:
  assumes "main env args fs = (fs', out, err, Inr c)"
  shows "c \<in> {0, 3, 4, 5, 6, 7, 8}
    \<and> out = (if a_contract_version args then [CONTRACT_VERSION] else [])
    \<and> (c = 0 \<longleftrightarrow> a_contract_version args \<or> ended env args fs Done)
    \<and> (c = 3 \<longleftrightarrow> \<not> a_contract_version args \<and> ended env args fs Exhausted)
    \<and> (c = 4 \<longleftrightarrow> \<not> a_contract_version args \<and> ended env args fs Derailed)
    \<and> (c = 5 \<longleftrightarrow> \<not> a_contract_version args \<and> ended env args fs Blocked)
    \<and> (c = 6 \<longleftrightarrow> \<not> a_contract_version args \<and> ended env args fs Faulted)
    \<and> (c = 7 \<longleftrightarrow> \<not> a_contract_version args \<and> ((\<exists>r. prepare env args fs = Inl (Rejected r))
         \<or> (\<exists>x. raised env args fs x \<and> (is_value_error x \<or> is_keep_only x))))
    \<and> (c = 8 \<longleftrightarrow> \<not> a_contract_version args \<and> ((\<exists>x. prepare env args fs = Inl x \<and> is_harness_fault x)
         \<or> (\<exists>x. raised env args fs x \<and> is_harness_fault (Raised x))))
    \<and> (\<forall>x. prepare env args fs = Inl x \<longrightarrow> fs' = fs)"
proof (cases "a_contract_version args")
  case True
  with assms have "fs' = fs" "out = [CONTRACT_VERSION]" "c = 0" by (simp_all add: main_def)
  with True show ?thesis by simp
next
  case False
  show ?thesis
  proof (cases "prepare env args fs")
    case (Inl x)
    then have "\<not> ended env args fs st" "\<not> raised env args fs y" for st y
      by (simp_all add: ended_def raised_def)
    with unprepared_code [OF assms False Inl] Inl False show ?thesis by (auto simp: is_harness_fault_def)
  next
    case (Inr p)
    then obtain spec base_url model where p: "prepare env args fs = Inr (spec, base_url, model)"
      by (cases p) auto
    obtain fs1 q where q: "implement (ce_host env) spec base_url model (a_generation_params args)
      (ce_card env) (Some (a_worktree args)) fs = (fs1, q)" by fastforce
    have e: "ended env args fs st \<longleftrightarrow> (\<exists>oc. q = Inr oc \<and> oc_status oc = st)"
      "raised env args fs y \<longleftrightarrow> q = Inl y" for st y
      using p q by (simp_all add: ended_def raised_def)
    show ?thesis
    proof (cases q)
      case (Inl x)
      with raised_code [OF assms False p q [unfolded Inl]] p e False harness_faults_apart [of x]
      show ?thesis by auto
    next
      case (Inr oc)
      with ended_code [OF assms False p q [unfolded Inr]] p e False show ?thesis
        by (cases "oc_status oc") (simp_all add: exit_code_for_def)
    qed
  qed
qed

theorem exit_code_names_the_cause_witness:
  "\<exists>fs' out err. main demo_env (default_args [u ''t'']) demo_tree = (fs', out, err, Inr 0)
     \<and> ended demo_env (default_args [u ''t'']) demo_tree Done"
proof (rule demo_main)
  fix fs oc
  assume m: "main demo_env (default_args [u ''t'']) demo_tree
      = (fs, [], [Outcome_Summary (outcome_summary (\<lambda>_. []) oc), Self_Judged_Verdict], Inr 0)"
  have "\<not> a_contract_version (default_args [u ''t''])" by (simp add: default_args_def)
  with exit_code_names_the_cause [OF m] m show ?thesis by simp
qed

text \<open>C8. The envelope carries exactly the runnable tasks, and carries them unchanged.  The JSON text of
  the object that spells a task's fields under the contract's names is read as that very task when
  the task satisfies every construction rule and has an oracle that is not blank, and otherwise is
  not; and no JSON text at all is read as a task that breaks a rule.  (The text must be one JSON can
  carry: integers within the conversion limit, no high surrogate before a low one, and floats whose
  text, a parameter, reads back.)\<close>

theorem envelope_carries_runnable_tasks:
  assumes "readable repr (JObj (envelope_of s))"
  shows "(task_from_json (json_dumps repr indent (JObj (envelope_of s))) = Inr s \<longleftrightarrow> runnable s)
    \<and> (\<forall>raw. task_from_json raw = Inr s \<longrightarrow> runnable s)"
proof -
  have "decoded_object (json_dumps repr indent (JObj (envelope_of s))) = Inr (envelope_of s)"
    by (simp add: decoded_object_def loads_dumps [OF assms])
  then have d: "task_from_json (json_dumps repr indent (JObj (envelope_of s))) = task_of_envelope (envelope_of s)"
    by (simp add: task_from_json_def)
  have "task_of_envelope (envelope_of s) = Inr s" if "runnable s"
    using that by (intro task_of_envelope_back) (simp_all add: runnable_def)
  moreover have "runnable s" if "task_from_json raw = Inr s" for raw
    using task_from_json_wf [OF that] by (simp add: runnable_def)
  ultimately show ?thesis unfolding d [symmetric] by blast
qed

theorem envelope_carries_runnable_tasks_witness:
  "task_from_json (json_dumps timeout_text (Some 2) (JObj (envelope_of sample_task))) = Inr sample_task"
proof -
  have "readable timeout_text (JObj (envelope_of sample_task))"
    using timeouts_read_back
    by (simp add: envelope_of_def sample_task_def u_def is_high_def is_low_def dec_digits.simps
        int_max_str_digits_def)
  moreover have "runnable sample_task" using task_from_json_wf [OF demo_task] by (simp add: runnable_def)
  ultimately show ?thesis using envelope_carries_runnable_tasks by blast
qed

lemma huge_timeout_budget:
  "integer_field nested ''max_attempts'' = Inr a \<Longrightarrow> integer_field nested ''max_tokens'' = Inr t \<Longrightarrow>
     obj_get nested ''generation_timeout_s'' = Some (JInt g) \<Longrightarrow> 2 ^ 1024 \<le> g \<Longrightarrow>
     obj_get e ''budget'' = Some (JObj nested) \<Longrightarrow> budget_field e = Inl Overflow"
  by (simp add: budget_field_def number_field_def float_of_int_large)

text \<open>A timeout that is an integer past the float range is not rejected as unusable input: the
  \<open>OverflowError\<close> of its conversion leaves \<open>main\<close> when the fields before it are sound.\<close>

lemma huge_timeout_escapes_main:
  assumes "\<not> a_contract_version args" and "read_envelope env fs (a_task args) = Inr raw"
    and "decoded_object raw = Inr e" and "string_field e ''test_text'' = Inr test"
    and "strip test \<noteq> []" and "string_field e ''impl_path'' = Inr path"
    and "string_field e ''spec_text'' = Inr spec" and "integer_field e ''expected_tests'' = Inr n"
    and "obj_get e ''budget'' = Some (JObj nested)" and "integer_field nested ''max_attempts'' = Inr a"
    and "integer_field nested ''max_tokens'' = Inr t"
    and "obj_get nested ''generation_timeout_s'' = Some (JInt g)" and "2 ^ 1024 \<le> g"
  shows "main env args fs = (fs, [], [], Inl Overflow)"
proof -
  have "budget_field e = Inl Overflow" by (rule huge_timeout_budget) (rule assms)+
  with assms have "task_from_json raw = Inl Overflow"
    by (simp add: task_from_json_def task_of_envelope_def wrap_value_error_def)
  with assms(1,2) show ?thesis by (simp add: main_def run_cli_def prepare_def is_harness_fault_def)
qed

text \<open>Every \<open>ValueError\<close> out of \<open>implement\<close> is reported as unusable input: the encoding error that a
  surrogate in the model's own reply causes exits with the code for a rejected task.\<close>

lemma encode_error_blames_the_task:
  assumes "\<not> a_contract_version args" and "prepare env args fs = Inr (spec, base_url, model)"
    and "implement (ce_host env) spec base_url model (a_generation_params args) (ce_card env)
          (Some (a_worktree args)) fs = (fs', Inl Unicode_Encode_Error)"
  shows "main env args fs
    = (fs', [], [Failure (Rejected (Refused Unicode_Encode_Error))], Inr EXIT_REJECTED_TASK)"
  using assms by (simp add: main_def run_cli_def is_value_error_def)

text \<open>A task file that is not UTF-8 is not rejected as unusable input: only \<open>OSError\<close> is caught around
  the read, so the decoding error leaves \<open>main\<close> and the parent sees the interpreter's exit code.\<close>

theorem undecodable_task_file_escapes_main:
  assumes "\<not> a_contract_version args" and "a_task args = Some p"
    and "read_bytes fs p = Inr b" and "decode_strict b = None"
  shows "main env args fs = (fs, [], [], Inl (Raised Unicode_Decode_Error))"
proof -
  have "read_envelope env fs (a_task args) = Inl (Raised Unicode_Decode_Error)"
    using assms by (simp add: read_envelope_def read_text_def decode_text_def)
  with assms(1) show ?thesis by (simp add: main_def run_cli_def prepare_def is_harness_fault_def)
qed

theorem undecodable_task_file_escapes_main_witness:
  "main demo_env ((default_args [u ''t''])\<lparr>a_task := Some [u ''e'']\<rparr>) [([u ''e''], File [255])]
     = ([([u ''e''], File [255])], [], [], Inl (Raised Unicode_Decode_Error))"
proof -
  have "read_bytes [([u ''e''], File [255])] [u ''e''] = Inr [255]" "decode_strict [255] = None"
    by code_simp+
  then show ?thesis
    using undecodable_task_file_escapes_main [of "(default_args [u ''t''])\<lparr>a_task := Some [u ''e'']\<rparr>"]
    by (simp add: default_args_def)
qed

end
