(* ===== verification/Model_Server.thy ===== *)
theory Model_Server
  imports Model_Registry
begin

text \<open>
  \<open>model_server.py\<close>: the launch specification of a model server and its lifetime.  The operating
  system and the HTTP client are parameters: what each poll of the process, each probe of the
  readiness endpoint and each reading of the clock gives is a function of its position.  The
  process group is modelled by who is left in it, so that what teardown leaves alive is a value.
\<close>

section \<open>Errors\<close>

datatype server_error =
    Port_Unavailable int
  | Server_Exited int pystr
  | Server_Not_Ready pystr pystr
  | Server_Unreachable pystr pystr
  | Server_Advertises_None pystr
  | Server_Not_A_List pystr pystr
  | Key_Error
  | Type_Error
  | Server_Value_Error
  | Unservable_Flags pystr "pystr list"
  | Port_Overflow
  | Spawn_Raised exn
  | Body_Raised exn
  | Stop_Iteration

definition SERVER_MODULE :: pystr where "SERVER_MODULE = u ''mlx_vlm.server''"
definition LOOPBACK :: pystr where "LOOPBACK = u ''127.0.0.1''"
definition READINESS_PATH :: pystr where "READINESS_PATH = u ''/v1/models''"
definition DEFAULT_MAX_TOKENS :: int where "DEFAULT_MAX_TOKENS = 32768"
definition DEFAULT_STARTUP_TIMEOUT_S :: pyfloat where "DEFAULT_STARTUP_TIMEOUT_S = Fin 900"
definition READINESS_POLL_S :: rat where "READINESS_POLL_S = 1 / 4"
definition LOG_TAIL_BYTES :: nat where "LOG_TAIL_BYTES = 8 * 1024"
definition ANSWER_EXCERPT_CHARS :: nat where "ANSWER_EXCERPT_CHARS = 200"

text \<open>The owned options, in the order \<open>sorted\<close> gives.\<close>

definition BUILDER_OWNED_OPTIONS :: "pystr list" where
  "BUILDER_OWNED_OPTIONS = [u ''--draft-kind'', u ''--draft-model'', u ''--host'', u ''--max-tokens'',
     u ''--model'', u ''--port'']"

section \<open>The launch specification\<close>

definition option_name :: "pystr \<Rightarrow> pystr" where
  "option_name flag = hd (split_on 61 flag)"

definition redeclared_builder_options :: "pystr list \<Rightarrow> pystr list" where
  "redeclared_builder_options flags =
     (let supplied = map option_name (filter (\<lambda>flag. startswith flag (u ''--'')) flags)
      in filter (\<lambda>owned. list_ex (startswith owned) supplied) BUILDER_OWNED_OPTIONS)"

record model_server =
  ms_command :: "pystr list"
  ms_host :: pystr
  ms_port :: int

definition draft_arguments :: "path option \<Rightarrow> pystr list" where
  "draft_arguments draft =
     (case draft of
        None \<Rightarrow> []
      | Some d \<Rightarrow> [u ''--draft-model'', str_path d, u ''--draft-kind'', u ''mtp''])"

definition for_model :: "pystr \<Rightarrow> resolved_model \<Rightarrow> int \<Rightarrow> server_error + model_server" where
  "for_model executable m max_toks =
     (let redeclared = redeclared_builder_options (rm_flags m)
      in if redeclared \<noteq> [] then Inl (Unservable_Flags (rm_name m) redeclared)
         else Inr \<lparr>ms_command =
             [executable, u ''-m'', SERVER_MODULE, u ''--host'', LOOPBACK, u ''--port'',
              str_int (rm_port m), u ''--model'', str_path (rm_path m),
              u ''--max-tokens'', str_int max_toks]
             @ draft_arguments (rm_draft_path m) @ rm_flags m,
           ms_host = LOOPBACK, ms_port = rm_port m\<rparr>)"

definition server_base_url :: "model_server \<Rightarrow> pystr" where
  "server_base_url s = u ''http://'' @ ms_host s @ u '':'' @ str_int (ms_port s)"

section \<open>The served model\<close>

record server_handle =
  sh_base_url :: pystr
  sh_port :: int
  sh_pid :: nat

text \<open>\<open>list(...)\<close> of what \<open>data\<close> holds: an array's elements, the characters of a string, the keys of
  an object; nothing else is iterable.\<close>

definition iterated :: "json \<Rightarrow> json list option" where
  "iterated j =
     (case j of
        JArr xs \<Rightarrow> Some xs
      | JStr s \<Rightarrow> Some (map (\<lambda>c. JStr [c]) s)
      | JObj kvs \<Rightarrow> Some (map (\<lambda>(k, _). JStr k) kvs)
      | _ \<Rightarrow> None)"

definition advertised_models :: "pystr \<Rightarrow> pystr \<Rightarrow> server_error + json list" where
  "advertised_models url answer =
     (let unrecognised = Server_Not_A_List url (take ANSWER_EXCERPT_CHARS answer) in
      case json_loads answer of
        Inl Int_Too_Long \<Rightarrow> Inl Server_Value_Error
      | Inl _ \<Rightarrow> Inl unrecognised
      | Inr (JObj kvs) \<Rightarrow>
          (case obj_get kvs ''data'' of
             None \<Rightarrow> Inl unrecognised
           | Some v \<Rightarrow> (case iterated v of None \<Rightarrow> Inl unrecognised | Some xs \<Rightarrow> Inr xs))
      | Inr _ \<Rightarrow> Inl unrecognised)"

text \<open>\<open>str(advertised[0]["id"])\<close>; \<open>py_str\<close> renders a value that is no string.\<close>

definition model_id :: "(json \<Rightarrow> pystr) \<Rightarrow> json \<Rightarrow> server_error + pystr" where
  "model_id py_str entry =
     (case entry of
        JObj kvs \<Rightarrow>
          (case obj_get kvs ''id'' of
             None \<Rightarrow> Inl Key_Error
           | Some (JStr s) \<Rightarrow> Inr s
           | Some v \<Rightarrow> Inr (py_str v))
      | _ \<Rightarrow> Inl Type_Error)"

text \<open>\<open>get\<close> is the HTTP client: the text of the answer, or the transport failure's message.\<close>

definition served_model_id ::
  "(json \<Rightarrow> pystr) \<Rightarrow> (pystr \<Rightarrow> pystr + pystr) \<Rightarrow> server_handle \<Rightarrow> server_error + pystr" where
  "served_model_id py_str get h =
     (let url = sh_base_url h @ READINESS_PATH in
      case get url of
        Inl failure \<Rightarrow> Inl (Server_Unreachable url failure)
      | Inr answer \<Rightarrow>
          bindE (advertised_models url answer) (\<lambda>models.
            case models of
              [] \<Rightarrow> Inl (Server_Advertises_None url)
            | m # _ \<Rightarrow> model_id py_str m))"

section \<open>Readiness\<close>

text \<open>What the loop sees on its \<open>i\<close>-th turn: the process' return code if it has left, the probe's
  status (\<open>None\<close> for a suppressed transport error), the clock after the probe, and what the server
  has written by then.\<close>

record turn =
  t_poll :: "int option"
  t_probe :: "nat option"
  t_clock :: rat
  t_output :: bytes

definition log_tail :: "bytes \<Rightarrow> pystr" where
  "log_tail out = decode_replace (drop (length out - LOG_TAIL_BYTES) out)"

text \<open>One pass of the \<open>while True\<close>: \<open>None\<close> is the sleep before the next.\<close>

definition readiness_turn :: "pystr \<Rightarrow> pyfloat \<Rightarrow> turn \<Rightarrow> (server_error + unit) option" where
  "readiness_turn url deadline t =
     (case t_poll t of
        Some rc \<Rightarrow> Some (Inl (Server_Exited rc (log_tail (t_output t))))
      | None \<Rightarrow>
          if t_probe t = Some 200 then Some (Inr ())
          else if float_le deadline (Fin (t_clock t))
          then Some (Inl (Server_Not_Ready url (log_tail (t_output t))))
          else None)"

partial_function (option) await_from ::
  "(nat \<Rightarrow> turn) \<Rightarrow> pystr \<Rightarrow> pyfloat \<Rightarrow> nat \<Rightarrow> (nat \<times> (server_error + unit)) option" where
  "await_from turns url deadline i =
     (case readiness_turn url deadline (turns i) of
        Some r \<Rightarrow> Some (i, r)
      | None \<Rightarrow> await_from turns url deadline (Suc i))"

declare await_from.simps [code]

definition await_readiness ::
  "(nat \<Rightarrow> turn) \<Rightarrow> rat \<Rightarrow> pyfloat \<Rightarrow> model_server \<Rightarrow> (nat \<times> (server_error + unit)) option" where
  "await_readiness turns start startup_timeout_s s =
     await_from turns (server_base_url s @ READINESS_PATH) (float_add (Fin start) startup_timeout_s) 0"

section \<open>Teardown\<close>

text \<open>The server's process group: its leader, which the caller holds, and the workers it forked.  A
  member that ignores \<open>SIGTERM\<close> leaves only on \<open>SIGKILL\<close>.\<close>

record group_member =
  g_alive :: bool
  g_ignores_term :: bool

record session =
  s_leader :: group_member
  s_workers :: "group_member list"

definition sigterm :: "group_member \<Rightarrow> group_member" where
  "sigterm m = (if g_ignores_term m then m else m\<lparr>g_alive := False\<rparr>)"

definition sigkill :: "group_member \<Rightarrow> group_member" where
  "sigkill m = m\<lparr>g_alive := False\<rparr>"

definition signal_group :: "(group_member \<Rightarrow> group_member) \<Rightarrow> session \<Rightarrow> session" where
  "signal_group f s = \<lparr>s_leader = f (s_leader s), s_workers = map f (s_workers s)\<rparr>"

text \<open>\<open>wait\<close> with the grace period returns as soon as the leader has left, and raises
  \<open>TimeoutExpired\<close> when it has not.\<close>

definition terminate_session :: "session \<Rightarrow> session" where
  "terminate_session s =
     (if \<not> g_alive (s_leader s) then s
      else let s1 = signal_group sigterm s
           in if \<not> g_alive (s_leader s1) then s1 else signal_group sigkill s1)"

section \<open>The running block\<close>

definition server_death_note :: "int \<Rightarrow> bytes \<Rightarrow> pystr" where
  "server_death_note returncode out =
     (let tail = strip (log_tail out);
          death = u ''the model server had already exited (returncode '' @ str_int returncode @ u '')''
      in if tail = [] then death @ u '', having written nothing.''
         else death @ u ''. Its output was:'' @ [NL] @ tail)"

text \<open>What leaves the block: its value, or a failure with the note it was given.\<close>

datatype 'a block_end = Block_Value 'a | Block_Failed server_error "pystr option"

text \<open>The host as \<open>running\<close> meets it: whether the port answers, what opening the sink and spawning
  raise, the turns of the readiness loop, and the process when the block has ended: its return
  code if it has left, what it wrote, whether it ignores \<open>SIGTERM\<close>, and its workers.\<close>

record serving =
  v_bound :: bool
  v_spawn_error :: "exn option"
  v_pid :: nat
  v_start :: rat
  v_turns :: "nat \<Rightarrow> turn"
  v_end_code :: "int option"
  v_end_output :: bytes
  v_ignores_term :: bool
  v_workers :: "group_member list"

text \<open>A process seen dead by the readiness loop stays dead.\<close>

definition return_code :: "serving \<Rightarrow> nat \<Rightarrow> int option" where
  "return_code v i = (case t_poll (v_turns v i) of Some rc \<Rightarrow> Some rc | None \<Rightarrow> v_end_code v)"

definition group_at :: "serving \<Rightarrow> nat \<Rightarrow> session" where
  "group_at v i = \<lparr>s_leader = \<lparr>g_alive = (return_code v i = None), g_ignores_term = v_ignores_term v\<rparr>,
     s_workers = v_workers v\<rparr>"

text \<open>\<open>running\<close>: the group after teardown (\<open>None\<close> when nothing was spawned) and the block's end.  The
  outer \<open>None\<close> is a readiness loop that never ends.\<close>

definition running ::
  "serving \<Rightarrow> pyfloat \<Rightarrow> model_server \<Rightarrow> (server_handle \<Rightarrow> server_error + 'a)
     \<Rightarrow> (session option \<times> 'a block_end) option" where
  "running v startup_timeout_s s body =
     (if ms_port s < 0 \<or> 65535 < ms_port s then Some (None, Block_Failed Port_Overflow None)
      else if v_bound v then Some (None, Block_Failed (Port_Unavailable (ms_port s)) None)
      else case v_spawn_error v of
        Some x \<Rightarrow> Some (None, Block_Failed (Spawn_Raised x) None)
      | None \<Rightarrow>
          (case await_readiness (v_turns v) (v_start v) startup_timeout_s s of
             None \<Rightarrow> None
           | Some (i, ready) \<Rightarrow>
               (case bindE ready (\<lambda>_. body \<lparr>sh_base_url = server_base_url s, sh_port = ms_port s,
                                            sh_pid = v_pid v\<rparr>) of
                  Inr x \<Rightarrow> Some (Some (terminate_session (group_at v i)), Block_Value x)
                | Inl failure \<Rightarrow>
                    Some (Some (terminate_session (group_at v i)),
                      Block_Failed failure
                        (map_option (\<lambda>rc. server_death_note rc (v_end_output v)) (return_code v i))))))"

section \<open>Flags\<close>

text \<open>What \<open>argparse\<close> documents of long options: a token reaches the options its name is a prefix of,
  its value follows an equals sign or is the next token, and the last occurrence wins.\<close>

definition reaches :: "pystr \<Rightarrow> pystr \<Rightarrow> bool" where
  "reaches token opt \<longleftrightarrow> startswith token (u ''--'') \<and> startswith opt (option_name token)"

fun option_values :: "pystr \<Rightarrow> pystr list \<Rightarrow> pystr list" where
  "option_values opt [] = []"
| "option_values opt (t # ts) =
     (if reaches t opt
      then (if 61 \<in> set t then [drop (length (option_name t) + 1) t] else take 1 ts)
             @ option_values opt ts
      else option_values opt ts)"

definition argparse_value :: "pystr \<Rightarrow> pystr list \<Rightarrow> pystr option" where
  "argparse_value opt tokens =
     (case option_values opt tokens of [] \<Rightarrow> None | vs \<Rightarrow> Some (last vs))"

lemma option_values_none: "\<forall>t\<in>set ts. \<not> reaches t opt \<Longrightarrow> option_values opt ts = []"
  by (induction ts) auto

lemma option_values_append:
  "ts = [] \<or> \<not> reaches (last ts) opt \<or> 61 \<in> set (last ts) \<Longrightarrow>
     option_values opt (ts @ us) = option_values opt ts @ option_values opt us"
  by (induction ts) (auto split: if_splits simp: neq_Nil_conv)

lemma redeclared_reaches:
  "redeclared_builder_options flags = [] \<Longrightarrow> opt \<in> set BUILDER_OWNED_OPTIONS \<Longrightarrow> t \<in> set flags \<Longrightarrow>
     \<not> reaches t opt"
  by (auto simp: redeclared_builder_options_def Let_def filter_empty_conv list_ex_iff reaches_def)

lemma for_model_Inr:
  "for_model executable m n = Inr s \<Longrightarrow> redeclared_builder_options (rm_flags m) = []
     \<and> ms_host s = LOOPBACK \<and> ms_port s = rm_port m
     \<and> ms_command s = [executable, u ''-m'', SERVER_MODULE] @
         ([u ''--host'', LOOPBACK, u ''--port'', str_int (rm_port m), u ''--model'', str_path (rm_path m),
           u ''--max-tokens'', str_int n] @ draft_arguments (rm_draft_path m)) @ rm_flags m"
  by (auto simp: for_model_def Let_def split: if_splits)

section \<open>Readiness\<close>

lemma await_from_least:
  "(\<forall>j<k. readiness_turn url d (turns (i + j)) = None) \<Longrightarrow>
     readiness_turn url d (turns (i + k)) = Some r \<Longrightarrow> await_from turns url d i = Some (i + k, r)"
proof (induction k arbitrary: i)
  case 0
  then show ?case by (simp add: await_from.simps [of turns url d i])
next
  case (Suc k)
  from Suc.prems(1) have "readiness_turn url d (turns i) = None" by (metis add_0_right zero_less_Suc)
  moreover have "await_from turns url d (Suc i) = Some (Suc i + k, r)"
    using Suc.prems by (intro Suc.IH) (auto dest: spec [of _ "Suc _"])
  ultimately show ?case by (simp add: await_from.simps [of turns url d i])
qed

lemma await_from_ends:
  assumes "readiness_turn url d (turns k) \<noteq> None"
  obtains i r where "await_from turns url d 0 = Some (i, r)" and "i \<le> k"
    and "readiness_turn url d (turns i) = Some r" and "\<And>j. j < i \<Longrightarrow> readiness_turn url d (turns j) = None"
proof -
  define i where "i = (LEAST i. readiness_turn url d (turns i) \<noteq> None)"
  have i: "readiness_turn url d (turns i) \<noteq> None" "i \<le> k"
    using LeastI [of "\<lambda>i. readiness_turn url d (turns i) \<noteq> None" k] assms
      Least_le [of "\<lambda>i. readiness_turn url d (turns i) \<noteq> None" k] by (simp_all add: i_def)
  have b: "readiness_turn url d (turns j) = None" if "j < i" for j
    using not_less_Least [of j "\<lambda>i. readiness_turn url d (turns i) \<noteq> None"] that by (auto simp: i_def)
  from i obtain r where r: "readiness_turn url d (turns i) = Some r" by auto
  from await_from_least [of i url d turns 0 r] b r have "await_from turns url d 0 = Some (i, r)" by simp
  with that i(2) r b show ?thesis by blast
qed

lemma clock_progress:
  assumes "\<And>i. t_clock (turns i) + READINESS_POLL_S \<le> t_clock (turns (Suc i))"
  shows "t_clock (turns 0) + of_nat k * READINESS_POLL_S \<le> t_clock (turns k)"
proof (induction k)
  case (Suc k)
  with assms [of k] show ?case by (simp add: algebra_simps)
qed simp

section \<open>Teardown\<close>

lemma terminate_leader: "\<not> g_alive (s_leader (terminate_session s))"
  by (simp add: terminate_session_def signal_group_def sigterm_def sigkill_def Let_def)

lemma terminate_workers:
  "i < length (s_workers s) \<Longrightarrow> length (s_workers (terminate_session s)) = length (s_workers s)
   \<and> (g_alive (s_workers (terminate_session s) ! i) \<longleftrightarrow> g_alive (s_workers s ! i)
       \<and> (\<not> g_alive (s_leader s)
           \<or> (g_ignores_term (s_workers s ! i) \<and> \<not> g_ignores_term (s_leader s))))"
  by (simp add: terminate_session_def signal_group_def sigterm_def sigkill_def Let_def)

section \<open>Properties\<close>

lemma last_append_none: "b = [] \<Longrightarrow> last (a @ b) = last a"
  by simp

text \<open>The values the builder itself gives its options, as \<open>argparse\<close> reads them.\<close>

definition plain_value :: "pystr \<Rightarrow> bool" where
  "plain_value s \<longleftrightarrow> \<not> startswith s (u ''--'')"

lemma str_int_plain: "plain_value (str_int i)"
proof -
  have "45 \<notin> set (dec_digits n)" for n using dec_digits_range [of 45 n] by auto
  then have d: "\<not> startswith (dec_digits n) (45 # xs)" for n xs
    by (metis append_Cons list.set_intros(1) startswith_iff)
  have "\<not> startswith (45 # dec_digits n) [45, 45]" for n
    using d [of n "[]"] by (simp add: startswith_def)
  with d show ?thesis by (simp add: plain_value_def str_int_def u_def)
qed

lemma plain_reaches: "plain_value s \<Longrightarrow> \<not> reaches s opt"
  by (simp add: plain_value_def reaches_def)

definition draft_plain :: "path option \<Rightarrow> bool" where
  "draft_plain d \<longleftrightarrow> (case d of None \<Rightarrow> True | Some p \<Rightarrow> plain_value (str_path p))"

lemma loopback_plain: "plain_value LOOPBACK"
  by (simp add: plain_value_def LOOPBACK_def u_def startswith_def)

lemma own_reaches:
  "reaches (u ''--host'') (u ''--host'')" "\<not> reaches (u ''--port'') (u ''--host'')"
  "\<not> reaches (u ''--model'') (u ''--host'')" "\<not> reaches (u ''--max-tokens'') (u ''--host'')"
  "\<not> reaches (u ''--draft-model'') (u ''--host'')" "\<not> reaches (u ''--draft-kind'') (u ''--host'')"
  "\<not> reaches (u ''--host'') (u ''--model'')" "\<not> reaches (u ''--port'') (u ''--model'')"
  "reaches (u ''--model'') (u ''--model'')" "\<not> reaches (u ''--max-tokens'') (u ''--model'')"
  "\<not> reaches (u ''--draft-model'') (u ''--model'')" "\<not> reaches (u ''--draft-kind'') (u ''--model'')"
  by code_simp+

lemma no_equals: "61 \<notin> set (u ''--host'')" "61 \<notin> set (u ''--model'')"
  by (simp_all add: u_def)

lemma mtp_plain: "plain_value (u ''mtp'')"
  by (simp add: plain_value_def u_def startswith_def)

lemma draft_arguments_values:
  "draft_plain d \<Longrightarrow> opt = u ''--host'' \<or> opt = u ''--model'' \<Longrightarrow>
     option_values opt (draft_arguments d @ ts) = option_values opt ts"
  using plain_reaches mtp_plain
  by (auto simp: draft_arguments_def draft_plain_def own_reaches split: option.split)

text \<open>C9. No registry row can publish the server or swap its model: whatever FLAGS cell the builder
  accepts, reading the server's command the way \<open>argparse\<close> does gives the loopback address for
  \<open>--host\<close> and the store path for \<open>--model\<close>, prefixes and equals forms included.\<close>

theorem flags_cannot_move_the_bind:
  assumes "for_model executable m max_toks = Inr s"
    and "plain_value (str_path (rm_path m))" and "draft_plain (rm_draft_path m)"
  shows "argparse_value (u ''--host'') (drop 3 (ms_command s)) = Some LOOPBACK
    \<and> argparse_value (u ''--model'') (drop 3 (ms_command s)) = Some (str_path (rm_path m))"
proof -
  note f = for_model_Inr [OF assms(1)]
  have none: "option_values opt (rm_flags m) = []" if "opt = u ''--host'' \<or> opt = u ''--model''" for opt
    using redeclared_reaches [of "rm_flags m" opt] f that
    by (intro option_values_none) (auto simp: BUILDER_OWNED_OPTIONS_def)
  note pl = plain_reaches [OF loopback_plain] plain_reaches [OF assms(2)] plain_reaches [OF str_int_plain]
  have d: "drop 3 (ms_command s) =
     u ''--host'' # LOOPBACK # u ''--port'' # str_int (rm_port m) # u ''--model'' # str_path (rm_path m)
       # u ''--max-tokens'' # str_int max_toks # draft_arguments (rm_draft_path m) @ rm_flags m"
    using f by simp
  have "option_values (u ''--host'') (drop 3 (ms_command s)) = [LOOPBACK]"
    unfolding d using draft_arguments_values [OF assms(3)] none by (simp add: own_reaches no_equals pl)
  moreover have "option_values (u ''--model'') (drop 3 (ms_command s)) = [str_path (rm_path m)]"
    unfolding d using draft_arguments_values [OF assms(3)] none by (simp add: own_reaches no_equals pl)
  ultimately show ?thesis by (simp add: argparse_value_def)
qed

definition flagged_model :: resolved_model where
  "flagged_model = small_model\<lparr>rm_flags := [u ''--kv-bits'', u ''8'']\<rparr>"

theorem flags_cannot_move_the_bind_witness:
  "\<exists>s. for_model (u ''py'') flagged_model 9 = Inr s
     \<and> argparse_value (u ''--host'') (drop 3 (ms_command s)) = Some LOOPBACK
     \<and> (\<exists>ns. for_model (u ''py'') (flagged_model\<lparr>rm_flags := [u ''--hos=0.0.0.0'']\<rparr>) 9
          = Inl (Unservable_Flags (u ''A'') ns))"
proof -
  have "redeclared_builder_options (rm_flags flagged_model) = []"
    "redeclared_builder_options [u ''--hos=0.0.0.0''] = [u ''--host'']" by code_simp+
  then obtain s where s: "for_model (u ''py'') flagged_model 9 = Inr s" and
    b: "for_model (u ''py'') (flagged_model\<lparr>rm_flags := [u ''--hos=0.0.0.0'']\<rparr>) 9
          = Inl (Unservable_Flags (u ''A'') [u ''--host''])"
    by (simp add: for_model_def flagged_model_def small_model_def)
  have "plain_value (str_path (rm_path flagged_model))" "draft_plain (rm_draft_path flagged_model)"
    by code_simp+
  from flags_cannot_move_the_bind [OF s this] s b show ?thesis by blast
qed

text \<open>C31. Waiting for readiness ends, and ends for the first reason that arose: with a finite budget and
  a clock that advances by the poll interval, the loop returns at the first turn on which the
  process had left, the endpoint answered 200 or the deadline had passed, judged in that order,
  and it polls at most until the budget is spent.\<close>

theorem readiness_ends_for_the_first_reason:
  assumes "\<And>i. t_clock (turns i) + READINESS_POLL_S \<le> t_clock (turns (Suc i))"
    and "start \<le> t_clock (turns 0)" and "T \<le> of_nat k * READINESS_POLL_S"
  shows "\<exists>i r. await_readiness turns start (Fin T) s = Some (i, r) \<and> i \<le> k
    \<and> (case t_poll (turns i) of
         Some rc \<Rightarrow> r = Inl (Server_Exited rc (log_tail (t_output (turns i))))
       | None \<Rightarrow> (if t_probe (turns i) = Some 200 then r = Inr ()
                  else r = Inl (Server_Not_Ready (server_base_url s @ READINESS_PATH)
                                  (log_tail (t_output (turns i)))) \<and> start + T \<le> t_clock (turns i)))
    \<and> (\<forall>j<i. t_poll (turns j) = None \<and> t_probe (turns j) \<noteq> Some 200
                        \<and> t_clock (turns j) < start + T)"
proof -
  let ?url = "server_base_url s @ READINESS_PATH" and ?d = "float_add (Fin start) (Fin T)"
  have "start + T \<le> t_clock (turns k)"
    using clock_progress [of turns k, OF assms(1)] assms(2,3) by linarith
  then have "readiness_turn ?url ?d (turns k) \<noteq> None"
    by (auto simp: readiness_turn_def split: option.split)
  then obtain i r where a: "await_from turns ?url ?d 0 = Some (i, r)" "i \<le> k"
    "readiness_turn ?url ?d (turns i) = Some r" "\<And>j. j < i \<Longrightarrow> readiness_turn ?url ?d (turns j) = None"
    by (rule await_from_ends) blast
  have "t_poll (turns j) = None \<and> t_probe (turns j) \<noteq> Some 200 \<and> t_clock (turns j) < start + T"
    if "j < i" for j
    using a(4) [OF that] by (auto simp: readiness_turn_def split: option.splits if_splits)
  moreover have "await_readiness turns start (Fin T) s = Some (i, r)"
    using a(1) by (simp add: await_readiness_def)
  moreover have "case t_poll (turns i) of
         Some rc \<Rightarrow> r = Inl (Server_Exited rc (log_tail (t_output (turns i))))
       | None \<Rightarrow> (if t_probe (turns i) = Some 200 then r = Inr ()
                  else r = Inl (Server_Not_Ready ?url (log_tail (t_output (turns i))))
                    \<and> start + T \<le> t_clock (turns i))"
    using a(3) by (auto simp: readiness_turn_def split: option.splits if_splits)
  ultimately show ?thesis using a(2) by blast
qed

definition demo_server :: model_server where
  "demo_server = \<lparr>ms_command = [], ms_host = LOOPBACK, ms_port = 80\<rparr>"

definition silent_turn :: "nat \<Rightarrow> turn" where
  "silent_turn i = \<lparr>t_poll = None, t_probe = None, t_clock = of_nat i, t_output = []\<rparr>"

theorem readiness_ends_for_the_first_reason_witness:
  "\<exists>i r. await_readiness silent_turn 0 (Fin 1) demo_server = Some (i, r) \<and> i \<le> 4
     \<and> r = Inl (Server_Not_Ready (server_base_url demo_server @ READINESS_PATH) (log_tail []))"
proof -
  have "t_clock (silent_turn i) + READINESS_POLL_S \<le> t_clock (silent_turn (Suc i))" for i
    by (simp add: silent_turn_def READINESS_POLL_S_def)
  moreover have "0 \<le> t_clock (silent_turn 0)" "(1 :: rat) \<le> of_nat 4 * READINESS_POLL_S"
    by (simp_all add: silent_turn_def READINESS_POLL_S_def)
  ultimately show ?thesis
    using readiness_ends_for_the_first_reason [of silent_turn 0 1 4 demo_server]
    by (auto simp: silent_turn_def)
qed

lemma running_group:
  assumes "running v T s body = Some (Some g, e)"
  obtains i where "g = terminate_session (group_at v i)"
    and "\<exists>r. await_readiness (v_turns v) (v_start v) T s = Some (i, r)"
  using assms
  by (auto simp: running_def split: if_splits option.splits prod.splits sum.splits)

text \<open>C32. Whatever the block does, the server is gone when it ends, but not always its workers: the
  leader is dead after teardown on every path that spawned it, and a worker survives exactly when
  the leader had already left by itself, or left on the first signal while the worker ignored it.\<close>

theorem teardown_kills_the_leader_not_every_worker:
  assumes "running v T s body = Some (Some g, e)"
  shows "\<not> g_alive (s_leader g) \<and> length (s_workers g) = length (v_workers v)
    \<and> (\<exists>i r. await_readiness (v_turns v) (v_start v) T s = Some (i, r)
        \<and> (\<forall>w<length (v_workers v).
             g_alive (s_workers g ! w) \<longleftrightarrow> g_alive (v_workers v ! w)
                \<and> (return_code v i \<noteq> None
                    \<or> (g_ignores_term (v_workers v ! w) \<and> \<not> v_ignores_term v))))"
  using assms
proof (rule running_group)
  fix i
  assume g: "g = terminate_session (group_at v i)"
    and "\<exists>r. await_readiness (v_turns v) (v_start v) T s = Some (i, r)"
  then obtain r where r: "await_readiness (v_turns v) (v_start v) T s = Some (i, r)" by blast
  have "length (s_workers g) = length (v_workers v)"
    using g by (simp add: terminate_session_def signal_group_def group_at_def Let_def)
  with g r terminate_leader terminate_workers [of _ "group_at v i"] show ?thesis
    by (auto simp: group_at_def)
qed

definition orphaned :: serving where
  "orphaned = \<lparr>v_bound = False, v_spawn_error = None, v_pid = 7, v_start = 0,
     v_turns = (\<lambda>i. \<lparr>t_poll = Some 1, t_probe = None, t_clock = 0, t_output = ascii ''no memory''\<rparr>),
     v_end_code = Some 1, v_end_output = ascii ''no memory'', v_ignores_term = False,
     v_workers = [\<lparr>g_alive = True, g_ignores_term = False\<rparr>]\<rparr>"

lemma orphaned_await:
  "await_readiness (v_turns orphaned) (v_start orphaned) T s
     = Some (0, Inl (Server_Exited 1 (log_tail (ascii ''no memory''))))"
  by (simp add: await_readiness_def await_from.simps readiness_turn_def orphaned_def)

theorem teardown_kills_the_leader_not_every_worker_witness:
  "\<exists>g e. running orphaned (Fin 1) demo_server (\<lambda>_. Inr ()) = Some (Some g, e)
     \<and> \<not> g_alive (s_leader g) \<and> g_alive (s_workers g ! 0)"
proof -
  obtain g e where g: "running orphaned (Fin 1) demo_server (\<lambda>_. Inr ()) = Some (Some g, e)"
    using orphaned_await [of "Fin 1" demo_server]
    by (simp add: running_def demo_server_def) (simp add: orphaned_def)
  have "return_code orphaned 0 = Some 1" "v_workers orphaned = [\<lparr>g_alive = True, g_ignores_term = False\<rparr>]"
    by (simp_all add: return_code_def orphaned_def)
  with teardown_kills_the_leader_not_every_worker [OF g] orphaned_await [of "Fin 1" demo_server] g
  show ?thesis by (auto dest: spec [of _ 0])
qed

text \<open>The named errors of \<open>served_model_id\<close> are not all it raises: a list whose first element is no
  model object, and an integer past the digit limit, end in a bare \<open>KeyError\<close>, \<open>TypeError\<close> or
  \<open>ValueError\<close>.\<close>

lemma served_model_id_raises_bare:
  "served_model_id py_str (\<lambda>_. Inr (u ''{\"data\":[{}]}'')) h = Inl Key_Error"
  "served_model_id py_str (\<lambda>_. Inr (u ''{\"data\":\"ab\"}'')) h = Inl Type_Error"
proof -
  have "json_loads (u ''{\"data\":[{}]}'') = Inr (JObj [(u ''data'', JArr [JObj []])])"
    "json_loads (u ''{\"data\":\"ab\"}'') = Inr (JObj [(u ''data'', JStr (u ''ab''))])" by code_simp+
  then show "served_model_id py_str (\<lambda>_. Inr (u ''{\"data\":[{}]}'')) h = Inl Key_Error"
    "served_model_id py_str (\<lambda>_. Inr (u ''{\"data\":\"ab\"}'')) h = Inl Type_Error"
    by (simp_all add: served_model_id_def advertised_models_def obj_get_def iterated_def model_id_def u_def)
qed

end
