(* ===== verification/Model_Session.thy ===== *)
theory Model_Session
  imports Model_Server Client Entrypoint
begin

text \<open>
  \<open>model_session.py\<close>: a served model one can call.  A session specification resolves a name into a
  launch specification, parameters and a budget; opening it runs the server around a body that is
  given a handle, and a handle's call is one generation of the client it owns.
\<close>

section \<open>The handle\<close>

definition TURN_MAX_TOKENS :: int where "TURN_MAX_TOKENS = 4096"
definition TURN_GENERATION_TIMEOUT_S :: pyfloat where "TURN_GENERATION_TIMEOUT_S = Fin 600"
definition DEFAULT_ORACLE_TIMEOUT_S :: pyfloat where "DEFAULT_ORACLE_TIMEOUT_S = Fin 120"

record session_handle =
  se_client :: "(httpx_backend \<times> nat) client"
  se_budget :: budget
  se_model_id :: pystr
  se_last :: "generation_result option"

definition new_handle :: "(httpx_backend \<times> nat) client \<Rightarrow> budget \<Rightarrow> pystr \<Rightarrow> session_handle" where
  "new_handle cl b model = \<lparr>se_client = cl, se_budget = b, se_model_id = model, se_last = None\<rparr>"

text \<open>\<open>__call__\<close>: the handle after the turn and the text or what the call raised; \<open>k\<close> is the clock's
  position.  A call that raises leaves \<open>last\<close> as it was, but the client has counted it.\<close>

definition call_session ::
  "(nat \<Rightarrow> rat) \<Rightarrow> (nat \<Rightarrow> transport) \<Rightarrow> nat \<Rightarrow> session_handle \<Rightarrow> pystr \<Rightarrow> pystr
     \<Rightarrow> session_handle \<times> (exn + pystr) \<times> nat" where
  "call_session clk post k se user system =
     (case generate clk (derail_ops clk) (call_generate post) (se_client se) k system user (se_budget se) of
        (cl, Inl x, _, k') \<Rightarrow> (se\<lparr>se_client := cl\<rparr>, Inl x, k')
      | (cl, Inr g, _, k') \<Rightarrow> (se\<lparr>se_client := cl, se_last := Some g\<rparr>, Inr (r_text g), k'))"

definition session_total_calls :: "session_handle \<Rightarrow> nat" where
  "session_total_calls se = total_calls (se_client se)"

text \<open>A block that makes these calls, catching what they raise.\<close>

fun converse ::
  "(nat \<Rightarrow> rat) \<Rightarrow> (nat \<Rightarrow> transport) \<Rightarrow> nat \<Rightarrow> session_handle \<Rightarrow> (pystr \<times> pystr) list
     \<Rightarrow> session_handle \<times> (exn + pystr) list" where
  "converse clk post k se [] = (se, [])"
| "converse clk post k se ((user, system) # ts) =
     (case call_session clk post k se user system of
        (se1, r, k1) \<Rightarrow> (case converse clk post k1 se1 ts of (se2, rs) \<Rightarrow> (se2, r # rs)))"

section \<open>The specification\<close>

record model_session =
  mn_server :: model_server
  mn_params :: params
  mn_budget :: budget

datatype session_error =
    Not_Resolved registry_error
  | Not_Servable server_error
  | Bad_Budget exn

definition session_for_model ::
  "pystr \<Rightarrow> model_registry \<Rightarrow> fs \<Rightarrow> pystr \<Rightarrow> int \<Rightarrow> pyfloat \<Rightarrow> session_error + model_session" where
  "session_for_model executable reg fs name max_toks gen_timeout =
     (case resolve_model reg fs name of
        Inl e \<Rightarrow> Inl (Not_Resolved e)
      | Inr m \<Rightarrow>
          (case for_model executable m DEFAULT_MAX_TOKENS of
             Inl e \<Rightarrow> Inl (Not_Servable e)
           | Inr s \<Rightarrow>
               (case mk_budget 1 max_toks gen_timeout DEFAULT_ORACLE_TIMEOUT_S of
                  Inl e \<Rightarrow> Inl (Bad_Budget e)
                | Inr b \<Rightarrow> Inr \<lparr>mn_server = s, mn_params = rm_params m, mn_budget = b\<rparr>)))"

definition open_session ::
  "serving \<Rightarrow> (json \<Rightarrow> pystr) \<Rightarrow> (pystr \<Rightarrow> pystr + pystr) \<Rightarrow> pyfloat \<Rightarrow> model_session
     \<Rightarrow> (session_handle \<Rightarrow> server_error + 'a) \<Rightarrow> (session option \<times> 'a block_end) option" where
  "open_session v py_str get startup_timeout_s mn body =
     running v startup_timeout_s (mn_server mn) (\<lambda>handle.
       bindE (served_model_id py_str get handle) (\<lambda>served.
         body (new_handle
           \<lparr>backend = (mk_httpx (sh_base_url handle) served (mn_params mn), 0), total_calls = 0\<rparr>
           (mn_budget mn) served)))"

text \<open>\<open>model_session\<close>: the specification is built at the call, the block runs in the \<open>with\<close>.\<close>

definition model_session_block ::
  "pystr \<Rightarrow> model_registry \<Rightarrow> fs \<Rightarrow> serving \<Rightarrow> (json \<Rightarrow> pystr) \<Rightarrow> (pystr \<Rightarrow> pystr + pystr)
     \<Rightarrow> pystr \<Rightarrow> int \<Rightarrow> pyfloat \<Rightarrow> pyfloat \<Rightarrow> (session_handle \<Rightarrow> server_error + 'a)
     \<Rightarrow> session_error + (session option \<times> 'a block_end) option" where
  "model_session_block executable reg fs v py_str get name max_toks gen_timeout startup_timeout_s body =
     bindE (session_for_model executable reg fs name max_toks gen_timeout) (\<lambda>mn.
       Inr (open_session v py_str get startup_timeout_s mn body))"

section \<open>Turns\<close>

lemma generate_total_calls:
  "generate clk ops gen cl k p t b = (cl', r) \<Longrightarrow> total_calls cl' = total_calls cl + 1"
  by (auto simp: generate_def Let_def split: prod.splits sum.splits option.splits if_splits)

lemma call_session_frame:
  assumes "call_session clk post k se user system = (se', r, k')"
  shows "total_calls (se_client se') = total_calls (se_client se) + 1
    \<and> se_model_id se' = se_model_id se \<and> se_budget se' = se_budget se
    \<and> (case r of Inl _ \<Rightarrow> se_last se' = se_last se
       | Inr t \<Rightarrow> \<exists>g. se_last se' = Some g \<and> r_text g = t)"
  using assms generate_total_calls
  by (auto simp: call_session_def split: prod.splits sum.splits)

text \<open>The client keeps the backend it was given; only the number of calls served moves on.\<close>

lemma call_generate_backend:
  "call_generate post hb p t b = (hb', r) \<Longrightarrow> fst hb' = fst hb \<and> snd hb' = snd hb + 1"
  by (auto simp: call_generate_def httpx_generate_def split: prod.splits)

lemma generate_backend:
  assumes "generate clk ops (call_generate post) cl k p t b = (cl', r)"
  shows "fst (backend cl') = fst (backend cl)"
  using assms call_generate_backend
  by (fastforce simp: generate_def Let_def split: prod.splits sum.splits option.splits if_splits)

lemma call_session_backend:
  "call_session clk post k se user system = (se', r, k') \<Longrightarrow>
     fst (backend (se_client se')) = fst (backend (se_client se))"
  using generate_backend by (auto simp: call_session_def split: prod.splits sum.splits)

text \<open>The text of the last turn that did not raise.\<close>

fun last_text :: "(exn + pystr) list \<Rightarrow> pystr option \<Rightarrow> pystr option" where
  "last_text [] t = t"
| "last_text (Inl _ # rs) t = last_text rs t"
| "last_text (Inr s # rs) t = last_text rs (Some s)"

lemma converse_frame:
  "converse clk post k se ts = (se', rs) \<Longrightarrow>
     session_total_calls se' = session_total_calls se + length ts \<and> length rs = length ts
     \<and> se_model_id se' = se_model_id se \<and> se_budget se' = se_budget se
     \<and> fst (backend (se_client se')) = fst (backend (se_client se))
     \<and> map_option r_text (se_last se') = last_text rs (map_option r_text (se_last se))"
proof (induction clk post k se ts arbitrary: se' rs rule: converse.induct)
  case (1 clk post k se)
  then show ?case by simp
next
  case (2 clk post k se user system ts)
  obtain se1 r k1 where c: "call_session clk post k se user system = (se1, r, k1)"
    by (cases "call_session clk post k se user system")
  obtain se2 rs2 where d: "converse clk post k1 se1 ts = (se2, rs2)" by fastforce
  from 2(2) c d have e: "se' = se2" "rs = r # rs2" by simp_all
  from 2(1) [OF c [symmetric] refl d] call_session_frame [OF c] call_session_backend [OF c] e
  show ?case by (cases r) (auto simp: session_total_calls_def)
qed

section \<open>Properties\<close>

lemma last_dec_digits: "dec_digits n \<noteq> [] \<and> last (dec_digits n) \<noteq> 47"
proof -
  have "dec_digits n \<noteq> []" by (subst dec_digits.simps) simp
  moreover from this dec_digits_range have "48 \<le> last (dec_digits n)" by (meson last_in_set)
  ultimately show ?thesis by simp
qed

lemma base_url_kept: "rstrip_with (\<lambda>c. c = 47) (server_base_url s) = server_base_url s"
proof -
  have "str_int i \<noteq> [] \<and> last (str_int i) \<noteq> 47" for i
    using last_dec_digits by (simp add: str_int_def u_def)
  then have "server_base_url s \<noteq> [] \<and> last (server_base_url s) \<noteq> 47"
    by (simp add: server_base_url_def)
  then obtain xs x where "server_base_url s = xs @ [x]" "x \<noteq> 47"
    by (metis append_butlast_last_id)
  then show ?thesis by (simp add: rstrip_with_def)
qed

lemma running_value:
  assumes "running v T s body = Some (Some g, Block_Value x)"
  shows "\<not> g_alive (s_leader g) \<and> body \<lparr>sh_base_url = server_base_url s, sh_port = ms_port s,
    sh_pid = v_pid v\<rparr> = Inr x"
  using assms terminate_leader
  by (auto simp: running_def bindE_eq_Inr split: if_splits option.splits prod.splits sum.splits)

text \<open>C33. A session talks to the server it started, under the name that server gave itself, and leaves
  none behind: every turn of the block is counted, \<open>last\<close> holds the latest turn that returned, the
  address and the model stay the ones found at opening, and the server is dead when it ends.\<close>

theorem session_talks_to_its_server:
  assumes "open_session v py_str get T mn (\<lambda>se. Inr (converse clk post k se ts))
    = Some (Some g, Block_Value (se, rs))"
  shows "\<not> g_alive (s_leader g) \<and> session_total_calls se = length ts \<and> length rs = length ts
    \<and> map_option r_text (se_last se) = last_text rs None \<and> se_budget se = mn_budget mn
    \<and> served_model_id py_str get \<lparr>sh_base_url = server_base_url (mn_server mn),
         sh_port = ms_port (mn_server mn), sh_pid = v_pid v\<rparr> = Inr (se_model_id se)
    \<and> fst (backend (se_client se)) = \<lparr>hb_url = server_base_url (mn_server mn) @ CHAT_COMPLETIONS_PATH,
         hb_model = se_model_id se, hb_params = mn_params mn\<rparr>"
proof -
  let ?h = "\<lparr>sh_base_url = server_base_url (mn_server mn), sh_port = ms_port (mn_server mn),
     sh_pid = v_pid v\<rparr>"
  from running_value [OF assms [unfolded open_session_def]] obtain served where
    a: "\<not> g_alive (s_leader g)" "served_model_id py_str get ?h = Inr served" and
    c: "converse clk post k (new_handle \<lparr>backend = (mk_httpx (sh_base_url ?h) served (mn_params mn), 0),
          total_calls = 0\<rparr> (mn_budget mn) served) ts = (se, rs)"
    by (auto simp: bindE_eq_Inr)
  from converse_frame [OF c] a show ?thesis
    by (simp add: new_handle_def session_total_calls_def mk_httpx_def base_url_kept)
qed

definition ready_serving :: serving where
  "ready_serving = \<lparr>v_bound = False, v_spawn_error = None, v_pid = 7, v_start = 0,
     v_turns = (\<lambda>i. \<lparr>t_poll = None, t_probe = Some 200, t_clock = 0, t_output = []\<rparr>),
     v_end_code = None, v_end_output = [], v_ignores_term = False, v_workers = []\<rparr>"

definition one_model :: "pystr \<Rightarrow> pystr + pystr" where
  "one_model url = Inr (u ''{\"data\":[{\"id\":\"/m/A\"}]}'')"

definition quiet_posts :: "nat \<Rightarrow> transport" where
  "quiet_posts n = quiet_post"

definition one_turn_session :: model_session where
  "one_turn_session = \<lparr>mn_server = demo_server, mn_params = [], mn_budget = sample_budget\<rparr>"

lemma one_model_served:
  "served_model_id py_str one_model h = Inr (u ''/m/A'')"
proof -
  have "json_loads (u ''{\"data\":[{\"id\":\"/m/A\"}]}'')
      = Inr (JObj [(u ''data'', JArr [JObj [(u ''id'', JStr (u ''/m/A''))]])])" by code_simp
  then show ?thesis
    by (simp add: served_model_id_def one_model_def advertised_models_def obj_get_def iterated_def
        model_id_def u_def)
qed

theorem session_talks_to_its_server_witness:
  "\<exists>g se rs. open_session ready_serving (\<lambda>_. []) one_model (Fin 1) one_turn_session
      (\<lambda>se. Inr (converse (\<lambda>_. 0) quiet_posts 0 se [(u ''hi'', [])])) = Some (Some g, Block_Value (se, rs))
     \<and> se_model_id se = u ''/m/A'' \<and> session_total_calls se = 1 \<and> \<not> g_alive (s_leader g)"
proof -
  have "await_readiness (v_turns ready_serving) (v_start ready_serving) (Fin 1) demo_server = Some (0, Inr ())"
    by (simp add: await_readiness_def await_from.simps readiness_turn_def ready_serving_def)
  then have "\<exists>g x. open_session ready_serving (\<lambda>_. []) one_model (Fin 1) one_turn_session
      (\<lambda>se. Inr (converse (\<lambda>_. 0) quiet_posts 0 se [(u ''hi'', [])])) = Some (Some g, Block_Value x)"
    using one_model_served
    by (simp add: open_session_def running_def one_turn_session_def demo_server_def)
       (simp add: ready_serving_def)
  then obtain g se rs where o: "open_session ready_serving (\<lambda>_. []) one_model (Fin 1) one_turn_session
      (\<lambda>se. Inr (converse (\<lambda>_. 0) quiet_posts 0 se [(u ''hi'', [])])) = Some (Some g, Block_Value (se, rs))"
    by (metis prod.collapse)
  from session_talks_to_its_server [OF o] one_model_served have
    "se_model_id se = u ''/m/A''" "session_total_calls se = 1" "\<not> g_alive (s_leader g)" by simp_all
  with o show ?thesis by blast
qed

end
