(* ===== verification/Compare_Sweeps.thy ===== *)
theory Compare_Sweeps
  imports Prelude "HOL-Library.AList" "HOL-Library.Multiset"
    "HOL-Library.Product_Lexorder" "HOL-Library.List_Lexorder"
begin

text \<open>
  \<open>scripts/compare_sweeps.py\<close>: the comparison of benchmarked configurations.  A scorecard document
  is taken as read back with the fields its writer gives it; the tables are computed as lists of
  lines, and the one comparison the script can make between values that do not compare is an
  error value.
\<close>

section \<open>Scorecards\<close>

record document =
  d_model :: pystr
  d_digest :: "pystr option"
  d_plan :: "bool option"
  d_passed :: int
  d_total :: int
  d_tokens :: int
  d_seconds :: rat
  d_attempts :: "int list"
  d_style :: "int option"

record scorecard =
  sc_model :: pystr
  sc_card :: pystr
  sc_plan :: "bool option"
  sc_stamp :: int
  sc_passed :: int
  sc_total :: int
  sc_tokens :: int
  sc_seconds :: rat
  sc_attempts :: int
  sc_style :: "int option"

definition UNSTAMPED :: pystr where "UNSTAMPED = u ''unstamped''"

definition short_model :: "scorecard \<Rightarrow> pystr" where
  "short_model c = List.last (split_on 47 (rstrip_with (\<lambda>x. x = 47) (sc_model c)))"

definition load_card :: "int \<Rightarrow> document \<Rightarrow> scorecard" where
  "load_card stamp d = \<lparr>sc_model = d_model d,
     sc_card = (case d_digest d of None \<Rightarrow> UNSTAMPED | Some c \<Rightarrow> c), sc_plan = d_plan d,
     sc_stamp = stamp, sc_passed = d_passed d, sc_total = d_total d, sc_tokens = d_tokens d,
     sc_seconds = d_seconds d, sc_attempts = sum_list (d_attempts d), sc_style = d_style d\<rparr>"

definition load_scorecards :: "(int \<times> document) list \<Rightarrow> scorecard list" where
  "load_scorecards documents =
     (if documents = [] then []
      else let full_ladder = Max (set (map (\<lambda>(_, d). d_total d) documents))
           in map (\<lambda>(stamp, d). load_card stamp d)
                (filter (\<lambda>(_, d). \<not> d_total d < full_ladder) documents))"

section \<open>Duplicates and re-runs\<close>

definition output_fingerprint ::
  "scorecard \<Rightarrow> pystr \<times> bool option \<times> int \<times> int \<times> int \<times> int" where
  "output_fingerprint c =
     (sc_model c, sc_plan c, sc_passed c, sc_total c, sc_tokens c, sc_attempts c)"

definition drop_duplicated_unstamped :: "scorecard list \<Rightarrow> scorecard list" where
  "drop_duplicated_unstamped cs =
     (let reported = map output_fingerprint (filter (\<lambda>c. sc_card c \<noteq> UNSTAMPED) cs)
      in filter (\<lambda>c. sc_card c \<noteq> UNSTAMPED \<or> output_fingerprint c \<notin> set reported) cs)"

type_synonym configuration = "pystr \<times> pystr \<times> bool option"

definition configuration_of :: "scorecard \<Rightarrow> configuration" where
  "configuration_of c = (sc_model c, sc_card c, sc_plan c)"

definition keep_latest :: "scorecard \<Rightarrow> (configuration \<times> scorecard) list \<Rightarrow> (configuration \<times> scorecard) list" where
  "keep_latest c latest =
     (case map_of latest (configuration_of c) of
        None \<Rightarrow> AList.update (configuration_of c) c latest
      | Some old \<Rightarrow> if sc_stamp c > sc_stamp old
                    then AList.update (configuration_of c) c latest else latest)"

definition row_rank :: "scorecard \<Rightarrow> int \<times> int \<times> pystr" where
  "row_rank c = (- sc_passed c, sc_tokens c, short_model c)"

definition latest_per_configuration :: "scorecard list \<Rightarrow> scorecard list" where
  "latest_per_configuration cs = sort_key row_rank (map snd (fold keep_latest cs []))"

section \<open>Text\<close>

definition ljust :: "nat \<Rightarrow> pystr \<Rightarrow> pystr" where
  "ljust n s = s @ replicate (n - length s) 32"

definition rjust :: "nat \<Rightarrow> pystr \<Rightarrow> pystr" where
  "rjust n s = replicate (n - length s) 32 @ s"

definition mode_label :: "bool option \<Rightarrow> pystr" where
  "mode_label plan = (case plan of None \<Rightarrow> u ''unrecorded''
     | Some p \<Rightarrow> if p then u ''plan-first'' else u ''off'')"

definition mode :: "scorecard \<Rightarrow> pystr" where
  "mode c = mode_label (sc_plan c)"

definition table_header :: pystr where
  "table_header = ljust 30 (u ''model'') @ [32] @ ljust 13 (u ''card'') @ [32] @ ljust 10 (u ''mode'')
     @ [32] @ rjust 6 (u ''cases'') @ [32] @ rjust 8 (u ''tokens'') @ [32] @ rjust 8 (u ''decode'')
     @ [32] @ rjust 9 (u ''attempts'') @ [32] @ rjust 6 (u ''style'')"

text \<open>\<open>fixed1\<close> renders a float with one decimal, as \<open>:.1f\<close> does.\<close>

definition table_row :: "(rat \<Rightarrow> pystr) \<Rightarrow> scorecard \<Rightarrow> pystr" where
  "table_row fixed1 c =
     ljust 30 (short_model c) @ [32] @ ljust 13 (sc_card c) @ [32] @ ljust 10 (mode c) @ [32]
       @ rjust 3 (str_int (sc_passed c)) @ u ''/'' @ ljust 2 (str_int (sc_total c)) @ [32]
       @ rjust 8 (str_int (sc_tokens c)) @ [32] @ rjust 7 (fixed1 (sc_seconds c / 60)) @ u ''m ''
       @ rjust 9 (str_int (sc_attempts c)) @ [32]
       @ (case sc_style c of None \<Rightarrow> u ''  n/a'' | Some n \<Rightarrow> rjust 5 (str_int n))"

definition print_table :: "(rat \<Rightarrow> pystr) \<Rightarrow> scorecard list \<Rightarrow> pystr list" where
  "print_table fixed1 rows =
     table_header # replicate (length table_header) 45 # map (table_row fixed1) rows"

section \<open>Verdicts\<close>

text \<open>\<open>setdefault(key, []).append(row)\<close>: groups in the order their keys first appear.\<close>

definition add_to_group :: "'k \<Rightarrow> 'v \<Rightarrow> ('k \<times> 'v list) list \<Rightarrow> ('k \<times> 'v list) list" where
  "add_to_group k v groups =
     AList.update k ((case map_of groups k of None \<Rightarrow> [] | Some vs \<Rightarrow> vs) @ [v]) groups"

definition group_by :: "('v \<Rightarrow> 'k) \<Rightarrow> 'v list \<Rightarrow> ('k \<times> 'v list) list" where
  "group_by key vs = fold (\<lambda>v. add_to_group (key v) v) vs []"

definition run_rank :: "scorecard \<Rightarrow> int \<times> int" where
  "run_rank c = (- sc_passed c, sc_tokens c)"

definition totals_text :: "scorecard \<Rightarrow> pystr" where
  "totals_text c = u '' '' @ str_int (sc_passed c) @ u ''/'' @ str_int (sc_total c) @ u '' @''
     @ str_int (sc_tokens c) @ u ''tok''"

definition card_groups :: "scorecard list \<Rightarrow> ((pystr \<times> bool option) \<times> scorecard list) list" where
  "card_groups rows =
     filter (\<lambda>(_, runs). length runs > 1)
       (group_by (\<lambda>c. (short_model c, sc_plan c)) (filter (\<lambda>c. sc_card c \<noteq> UNSTAMPED) rows))"

text \<open>Sorting the groups compares their levers when two groups have one model: \<open>None\<close> and a bool do
  not compare, and no sort can order two such groups without comparing them.\<close>

datatype sweep_error = Type_Error_None_And_Bool

definition mixed_levers :: "(pystr \<times> bool option) list \<Rightarrow> bool" where
  "mixed_levers ks = list_ex (\<lambda>(m, p). p = None \<and> list_ex (\<lambda>(m', p'). m' = m \<and> p' \<noteq> None) ks) ks"

definition lever_rank :: "bool option \<Rightarrow> nat" where
  "lever_rank p = (case p of None \<Rightarrow> 0 | Some b \<Rightarrow> if b then 1 else 0)"

definition sorted_card_groups ::
  "scorecard list \<Rightarrow> sweep_error + ((pystr \<times> bool option) \<times> scorecard list) list" where
  "sorted_card_groups rows =
     (let groups = card_groups rows in
      if mixed_levers (map fst groups) then Inl Type_Error_None_And_Bool
      else Inr (sort_key (\<lambda>((m, p), _). (m, lever_rank p)) groups))"

definition card_verdict :: "(pystr \<times> bool option) \<times> scorecard list \<Rightarrow> pystr option" where
  "card_verdict grp =
     (case grp of ((model, plan), runs) \<Rightarrow>
        map_option (\<lambda>best. u ''  '' @ ljust 30 model @ [32] @ ljust 10 (mode_label plan) @ u '' best: ''
            @ sc_card best @ u ''   ['' @ join (u '', '') (map (\<lambda>r. sc_card r @ totals_text r)
                (sort_key sc_card runs)) @ u '']'')
          (min_by run_rank runs))"

definition print_card_verdicts :: "scorecard list \<Rightarrow> pystr list \<times> sweep_error option" where
  "print_card_verdicts rows =
     (if card_groups rows = []
      then ([[], u ''No model has been measured under two NAMED cards yet.''], None)
      else let heading = [[], u ''Per-model card comparison (a model's own best card, not a global winner):'']
           in case sorted_card_groups rows of
                Inl x \<Rightarrow> (heading, Some x)
              | Inr groups \<Rightarrow> (heading @ List.map_filter card_verdict groups, None))"

definition mode_groups :: "scorecard list \<Rightarrow> ((pystr \<times> pystr) \<times> scorecard list) list" where
  "mode_groups rows =
     filter (\<lambda>(_, runs). card (set (map sc_plan runs)) > 1)
       (group_by (\<lambda>c. (short_model c, sc_card c))
         (filter (\<lambda>c. \<not> (sc_card c = UNSTAMPED \<or> sc_plan c = None)) rows))"

definition mode_verdict :: "(pystr \<times> pystr) \<times> scorecard list \<Rightarrow> pystr option" where
  "mode_verdict grp =
     (case grp of ((model, named), runs) \<Rightarrow>
        map_option (\<lambda>best. u ''  '' @ ljust 30 model @ [32] @ ljust 13 named @ u '' best: ''
            @ ljust 10 (mode best) @ u '' ['' @ join (u '', '') (map (\<lambda>r. mode r @ totals_text r)
                (sort_key mode runs)) @ u '']'')
          (min_by run_rank runs))"

definition print_mode_verdicts :: "scorecard list \<Rightarrow> pystr list" where
  "print_mode_verdicts rows =
     (if mode_groups rows = []
      then [[], u ''No configuration has been measured in both modes yet.'']
      else [[], u ''Per-configuration mode comparison (does a planning generation pay for itself?):'']
           @ List.map_filter mode_verdict (sort_key fst (mode_groups rows)))"

definition USAGE_ERROR :: int where "USAGE_ERROR = 2"

text \<open>\<open>main\<close>: the lines printed and the exit code, or the error after the lines before it.\<close>

definition compare_main ::
  "(rat \<Rightarrow> pystr) \<Rightarrow> (int \<times> document) list \<Rightarrow> pystr list \<times> (sweep_error + int)" where
  "compare_main fixed1 documents =
     (let cards = load_scorecards documents in
      if cards = [] then ([], Inr USAGE_ERROR)
      else let rows = drop_duplicated_unstamped (latest_per_configuration cards);
               table = print_table fixed1 rows
           in case print_card_verdicts rows of
                (verdicts, Some x) \<Rightarrow> (table @ verdicts, Inl x)
              | (verdicts, None) \<Rightarrow> (table @ verdicts @ print_mode_verdicts rows, Inr 0))"

section \<open>Groups\<close>

lemma group_by_snoc: "group_by key (vs @ [v]) = add_to_group (key v) v (group_by key vs)"
  by (simp add: group_by_def)

lemma group_by_lookup:
  "map_of (group_by key vs) k =
     (if filter (\<lambda>v. key v = k) vs = [] then None else Some (filter (\<lambda>v. key v = k) vs))"
proof (induction vs rule: rev_induct)
  case Nil
  then show ?case by (simp add: group_by_def)
next
  case (snoc v vs)
  then show ?case by (auto simp: group_by_snoc add_to_group_def update_conv')
qed

lemma group_by_distinct: "distinct (map fst (group_by key vs))"
proof (induction vs rule: rev_induct)
  case Nil
  then show ?case by (simp add: group_by_def)
next
  case (snoc v vs)
  then show ?case by (simp add: group_by_snoc add_to_group_def AList.distinct_update)
qed

lemma group_by_in:
  "(k, g) \<in> set (group_by key vs) \<longleftrightarrow> g = filter (\<lambda>v. key v = k) vs \<and> g \<noteq> []"
  using map_of_eq_Some_iff [OF group_by_distinct [of key vs], of k g] group_by_lookup [of key vs k]
  by (auto split: if_splits)

section \<open>The latest run of each configuration\<close>

definition newest_run :: "scorecard list \<Rightarrow> configuration \<Rightarrow> scorecard option" where
  "newest_run cs k = min_by (\<lambda>c. - sc_stamp c) (filter (\<lambda>c. configuration_of c = k) cs)"

lemma keep_latest_lookup: "map_of (fold keep_latest cs []) k = newest_run cs k"
proof (induction cs rule: rev_induct)
  case Nil
  then show ?case by (simp add: newest_run_def)
next
  case (snoc c cs)
  have "map_of (keep_latest c l) k = (if configuration_of c = k
      then (case map_of l k of None \<Rightarrow> Some c | Some old \<Rightarrow> if sc_stamp c > sc_stamp old then Some c else Some old)
      else map_of l k)" for l
    by (auto simp: keep_latest_def update_conv' split: option.split)
  with snoc show ?case
    by (auto simp: newest_run_def min_by_snoc split: option.split)
qed

lemma keep_latest_distinct: "distinct (map fst (fold keep_latest cs []))"
proof (induction cs rule: rev_induct)
  case (snoc c cs)
  then show ?case by (auto simp: keep_latest_def AList.distinct_update split: option.split)
qed simp

lemma newest_run_in: "newest_run cs k = Some c \<Longrightarrow> c \<in> set cs \<and> configuration_of c = k"
  by (auto simp: newest_run_def dest: min_by_in)

lemma latest_entries: "(k, c) \<in> set (fold keep_latest cs []) \<longleftrightarrow> newest_run cs k = Some c"
  using map_of_eq_Some_iff [OF keep_latest_distinct [of cs], of k c] unfolding keep_latest_lookup
  by (rule sym)

lemma latest_snd:
  "c \<in> set (map snd (fold keep_latest cs [])) \<longleftrightarrow> newest_run cs (configuration_of c) = Some c"
proof
  assume "c \<in> set (map snd (fold keep_latest cs []))"
  then obtain k where "(k, c) \<in> set (fold keep_latest cs [])" by auto
  then have "newest_run cs k = Some c" unfolding latest_entries .
  with newest_run_in [OF this] show "newest_run cs (configuration_of c) = Some c" by simp
next
  assume "newest_run cs (configuration_of c) = Some c"
  then have "(configuration_of c, c) \<in> set (fold keep_latest cs [])" unfolding latest_entries .
  then show "c \<in> set (map snd (fold keep_latest cs []))" by force
qed

lemma latest_set: "c \<in> set (latest_per_configuration cs) \<longleftrightarrow> newest_run cs (configuration_of c) = Some c"
  by (simp only: latest_per_configuration_def set_sort latest_snd)

lemma latest_sub: "set (latest_per_configuration cs) \<subseteq> set cs"
  using newest_run_in unfolding subset_iff latest_set by blast

lemma latest_configurations:
  "map configuration_of (map snd (fold keep_latest cs [])) = map fst (fold keep_latest cs [])"
proof -
  have "configuration_of (snd e) = fst e" if "e \<in> set (fold keep_latest cs [])" for e
    using that latest_entries [of "fst e" "snd e" cs] newest_run_in [of cs "fst e" "snd e"] by simp
  then show ?thesis unfolding map_map comp_def by (intro map_cong refl)
qed

lemma latest_distinct: "distinct (map configuration_of (latest_per_configuration cs))"
proof -
  have "distinct (map configuration_of (map snd (fold keep_latest cs [])))"
    unfolding latest_configurations by (rule keep_latest_distinct)
  moreover have "mset (map configuration_of (latest_per_configuration cs))
      = mset (map configuration_of (map snd (fold keep_latest cs [])))"
    by (simp only: latest_per_configuration_def mset_map mset_sort)
  ultimately show ?thesis using mset_eq_imp_distinct_iff by blast
qed

section \<open>Properties\<close>

text \<open>The table holds one row per measured configuration: exactly the latest run of each model, card
  and lever, the first of those with one stamp, and the rows stand in order of cases passed, then
  tokens, then name.\<close>

theorem table_keeps_latest_of_each_configuration:
  "sorted (map row_rank (latest_per_configuration cs))
   \<and> distinct (map configuration_of (latest_per_configuration cs))
   \<and> set (latest_per_configuration cs) = {c. newest_run cs (configuration_of c) = Some c}
   \<and> configuration_of ` set (latest_per_configuration cs) = configuration_of ` set cs"
proof -
  have "\<exists>d. newest_run cs (configuration_of c) = Some d \<and> configuration_of d = configuration_of c"
    if "c \<in> set cs" for c
  proof -
    have "newest_run cs (configuration_of c) \<noteq> None"
      using that by (auto simp: newest_run_def filter_empty_conv)
    then obtain d where "newest_run cs (configuration_of c) = Some d" by blast
    with newest_run_in [OF this] show ?thesis by blast
  qed
  then have "\<exists>d\<in>set (latest_per_configuration cs). configuration_of c = configuration_of d"
    if "c \<in> set cs" for c
    using that unfolding latest_set Bex_def by metis
  with latest_sub [of cs] have
    "configuration_of ` set (latest_per_configuration cs) = configuration_of ` set cs" by blast
  moreover have "sorted (map row_rank (latest_per_configuration cs))"
    by (simp add: latest_per_configuration_def)
  moreover have "set (latest_per_configuration cs) = {c. newest_run cs (configuration_of c) = Some c}"
    using latest_set by blast
  ultimately show ?thesis using latest_distinct by blast
qed

lemma card_groups_in:
  "(k, runs) \<in> set (card_groups rows) \<longleftrightarrow> 1 < length runs
     \<and> runs = filter (\<lambda>c. sc_card c \<noteq> UNSTAMPED \<and> short_model c = fst k \<and> sc_plan c = snd k) rows"
proof -
  have e: "(short_model c, sc_plan c) = k \<longleftrightarrow> short_model c = fst k \<and> sc_plan c = snd k" for c
    by (cases k) simp
  have f: "filter (\<lambda>c. (short_model c, sc_plan c) = k) (filter (\<lambda>c. sc_card c \<noteq> UNSTAMPED) rows)
      = filter (\<lambda>c. sc_card c \<noteq> UNSTAMPED \<and> short_model c = fst k \<and> sc_plan c = snd k) rows"
    unfolding filter_filter e by (rule refl)
  show ?thesis unfolding card_groups_def set_filter mem_Collect_eq group_by_in prod.case f by auto
qed

definition compared_rows :: "(int \<times> document) list \<Rightarrow> scorecard list" where
  "compared_rows documents =
     drop_duplicated_unstamped (latest_per_configuration (load_scorecards documents))"

definition named_runs :: "pystr \<Rightarrow> bool option \<Rightarrow> scorecard list \<Rightarrow> scorecard list" where
  "named_runs m p rows = filter (\<lambda>c. sc_card c \<noteq> UNSTAMPED \<and> short_model c = m \<and> sc_plan c = p) rows"

lemma card_group_keys: "k \<in> fst ` set (card_groups rows) \<longleftrightarrow> 1 < length (named_runs (fst k) (snd k) rows)"
proof
  assume "k \<in> fst ` set (card_groups rows)"
  then obtain runs where "(k, runs) \<in> set (card_groups rows)" by force
  then show "1 < length (named_runs (fst k) (snd k) rows)"
    unfolding card_groups_in named_runs_def by blast
next
  assume "1 < length (named_runs (fst k) (snd k) rows)"
  then have "(k, named_runs (fst k) (snd k) rows) \<in> set (card_groups rows)"
    unfolding card_groups_in named_runs_def by blast
  then show "k \<in> fst ` set (card_groups rows)" by force
qed

lemma mixed_levers_iff:
  "mixed_levers ks \<longleftrightarrow> (\<exists>m b. (m, None) \<in> set ks \<and> (m, Some b) \<in> set ks)"
  by (fastforce simp: mixed_levers_def list_ex_iff)

lemma mixed_groups:
  "mixed_levers (map fst (card_groups rows)) \<longleftrightarrow>
     (\<exists>m b. 1 < length (named_runs m None rows) \<and> 1 < length (named_runs m (Some b) rows))"
  using card_group_keys [of "(_, _)" rows] by (simp add: mixed_levers_iff)

text \<open>The comparison fails exactly on a history that spans the recording of the lever: it raises
  \<open>TypeError\<close> when one model has two named cards both among the runs without a recorded lever and
  among the runs with one value of it, and on every other history it exits normally.\<close>

theorem comparison_fails_on_mixed_levers:
  "(\<exists>lines. compare_main fixed1 documents = (lines, Inl Type_Error_None_And_Bool)) \<longleftrightarrow>
     (\<exists>m b. 1 < length (named_runs m None (compared_rows documents))
        \<and> 1 < length (named_runs m (Some b) (compared_rows documents)))"
proof (cases "load_scorecards documents = []")
  case True
  have "fold keep_latest [] [] = []" by simp
  with True show ?thesis
    by (simp add: compare_main_def compared_rows_def latest_per_configuration_def
        drop_duplicated_unstamped_def named_runs_def)
next
  case False
  have g: "card_groups rows \<noteq> []" if "mixed_levers (map fst (card_groups rows))" for rows
    using that by (auto simp: mixed_levers_def)
  show ?thesis
    using False g [of "compared_rows documents"] mixed_groups [of "compared_rows documents"]
    by (auto simp: compare_main_def compared_rows_def [symmetric] print_card_verdicts_def
        sorted_card_groups_def Let_def)
qed

lemma dropped_sub: "set (drop_duplicated_unstamped cs) \<subseteq> set cs"
  and dropped_distinct: "distinct (map f cs) \<Longrightarrow> distinct (map f (drop_duplicated_unstamped cs))"
  by (auto simp: drop_duplicated_unstamped_def distinct_map_filter)

text \<open>A card verdict compares cards when model names are unambiguous: if no two store paths end in
  one name, every compared group holds at least two runs, no two of them under the same card.\<close>

theorem card_verdicts_compare_cards:
  assumes "\<And>c d. c \<in> set cs \<Longrightarrow> d \<in> set cs \<Longrightarrow> short_model c = short_model d \<Longrightarrow> sc_model c = sc_model d"
    and "(k, runs) \<in> set (card_groups (drop_duplicated_unstamped (latest_per_configuration cs)))"
  shows "1 < length runs \<and> distinct (map sc_card runs)"
proof -
  let ?rows = "drop_duplicated_unstamped (latest_per_configuration cs)"
  have r: "1 < length runs" "runs = filter (\<lambda>c. sc_card c \<noteq> UNSTAMPED \<and> short_model c = fst k
      \<and> sc_plan c = snd k) ?rows" using assms(2) by (auto simp: card_groups_in)
  have "set ?rows \<subseteq> set cs"
    using dropped_sub [of "latest_per_configuration cs"] latest_sub [of cs] by (rule subset_trans)
  then have sub: "set runs \<subseteq> set cs" using r(2) by auto
  have d: "distinct (map configuration_of runs)"
    unfolding r(2) by (intro distinct_map_filter dropped_distinct latest_distinct)
  have "configuration_of c = configuration_of e" if "c \<in> set runs" "e \<in> set runs" "sc_card c = sc_card e"
    for c e
  proof -
    have "short_model c = short_model e" "sc_plan c = sc_plan e"
      using that(1,2) unfolding r(2) by simp_all
    moreover have "sc_model c = sc_model e"
      using assms(1) [OF subsetD [OF sub that(1)] subsetD [OF sub that(2)]] calculation(1) .
    ultimately show ?thesis using that(3) by (simp add: configuration_of_def)
  qed
  moreover have "inj_on configuration_of (set runs)" "distinct runs" using d by (simp_all add: distinct_map)
  ultimately have "inj_on sc_card (set runs)" "distinct runs" unfolding inj_on_def by blast+
  with r(1) show ?thesis by (simp add: distinct_map)
qed

definition run_of :: "string \<Rightarrow> string \<Rightarrow> int \<Rightarrow> scorecard" where
  "run_of model named tokens = \<lparr>sc_model = u model, sc_card = u named, sc_plan = Some False, sc_stamp = 1,
     sc_passed = 7, sc_total = 7, sc_tokens = tokens, sc_seconds = 60, sc_attempts = 7, sc_style = None\<rparr>"

definition two_cards :: "scorecard list" where
  "two_cards = [run_of ''/a/m'' ''c1'' 5, run_of ''/a/m'' ''c2'' 4]"

theorem card_verdicts_compare_cards_witness:
  "\<exists>runs. ((u ''m'', Some False), runs)
       \<in> set (card_groups (drop_duplicated_unstamped (latest_per_configuration two_cards)))
     \<and> distinct (map sc_card runs)"
proof -
  have "card_groups (drop_duplicated_unstamped (latest_per_configuration two_cards))
      = [((u ''m'', Some False), [run_of ''/a/m'' ''c2'' 4, run_of ''/a/m'' ''c1'' 5])]" by code_simp
  then have g: "((u ''m'', Some False), [run_of ''/a/m'' ''c2'' 4, run_of ''/a/m'' ''c1'' 5])
      \<in> set (card_groups (drop_duplicated_unstamped (latest_per_configuration two_cards)))" by simp
  have "sc_model c = sc_model d" if "c \<in> set two_cards" "d \<in> set two_cards" for c d
    using that by (auto simp: two_cards_def run_of_def)
  with card_verdicts_compare_cards [OF _ g] g show ?thesis by blast
qed

text \<open>Without that, a card is announced as the winner against itself: the same model and card measured
  from two store paths.\<close>

lemma moved_store_compares_a_card_with_itself:
  "card_groups (drop_duplicated_unstamped
     (latest_per_configuration [run_of ''/a/m'' ''c1'' 5, run_of ''/b/m'' ''c1'' 4]))
   = [((u ''m'', Some False), [run_of ''/b/m'' ''c1'' 4, run_of ''/a/m'' ''c1'' 5])]"
  by code_simp

end
