(* ===== verification/Sandbox_Profile.thy ===== *)
theory Sandbox_Profile
  imports Sandbox Filesystem "HOL-Library.List_Lexorder"
begin

text \<open>
  The rest of \<open>sandbox.py\<close>: the profile \<open>sandboxed_spawn\<close> runs the child under, the read roots it
  names, the symbolic-link chain of the interpreter, the command line and the resource limits.
  What the operating system answers about paths is the record \<open>os_view\<close>; \<open>view_of\<close> takes its
  answers from the file-system model.  The profile's text is read back by a small reader of
  SBPL's lexical syntax, so that what it grants is a list of tokens and not a string.
\<close>

section \<open>Path strings\<close>

text \<open>\<open>os.path\<close> on text: everything up to the last slash, everything after it, \<open>join\<close>, \<open>normpath\<close>.\<close>

definition os_basename :: "pystr \<Rightarrow> pystr" where
  "os_basename p = List.last (split_on 47 p)"

definition os_dirname :: "pystr \<Rightarrow> pystr" where
  "os_dirname p =
     (let head = take (length p - length (os_basename p)) p;
          stripped = rstrip_with (\<lambda>c. c = 47) head
      in if stripped = [] then head else stripped)"

definition os_join :: "pystr \<Rightarrow> pystr \<Rightarrow> pystr" where
  "os_join a b =
     (if is_absolute b then b
      else if a = [] \<or> List.last a = 47 then a @ b else a @ [47] @ b)"

fun norm_parts :: "bool \<Rightarrow> path \<Rightarrow> path \<Rightarrow> path" where
  "norm_parts absolute acc [] = acc"
| "norm_parts absolute acc (c # cs) =
     (if c = [] \<or> c = [46] then norm_parts absolute acc cs
      else if c \<noteq> DOTDOT \<or> (\<not> absolute \<and> acc = []) \<or> (acc \<noteq> [] \<and> List.last acc = DOTDOT)
      then norm_parts absolute (acc @ [c]) cs
      else norm_parts absolute (butlast acc) cs)"

text \<open>A path that starts with exactly two slashes keeps both.\<close>

definition os_normpath :: "pystr \<Rightarrow> pystr" where
  "os_normpath p =
     (if p = [] then [46]
      else let slashes = (if \<not> is_absolute p then []
                 else if startswith p [47, 47] \<and> \<not> startswith p [47, 47, 47] then [47, 47] else [47]);
               q = slashes @ join [47] (norm_parts (is_absolute p) [] (split_on 47 p))
           in if q = [] then [46] else q)"

record os_view =
  ov_cwd :: pystr
  ov_realpath :: "pystr \<Rightarrow> pystr"
  ov_readlink :: "pystr \<Rightarrow> pystr option"
  ov_runnable :: "pystr \<Rightarrow> bool"
  ov_prefix :: pystr
  ov_base_prefix :: pystr

definition os_abspath :: "os_view \<Rightarrow> pystr \<Rightarrow> pystr" where
  "os_abspath v p = os_normpath (if is_absolute p then p else os_join (ov_cwd v) p)"

section \<open>The link chain\<close>

definition canonicalize_parents :: "os_view \<Rightarrow> pystr \<Rightarrow> pystr" where
  "canonicalize_parents v p = os_join (ov_realpath v (os_dirname p)) (os_basename p)"

definition next_hop :: "pystr \<Rightarrow> pystr \<Rightarrow> pystr" where
  "next_hop current target =
     (if is_absolute target then target else os_normpath (os_join (os_dirname current) target))"

definition spellings :: "os_view \<Rightarrow> pystr \<Rightarrow> pystr list" where
  "spellings v p = p # (if canonicalize_parents v p \<noteq> p then [canonicalize_parents v p] else [])"

partial_function (option) chain_from ::
  "os_view \<Rightarrow> pystr list \<Rightarrow> pystr list \<Rightarrow> pystr \<Rightarrow> pystr list option" where
  "chain_from v visited chain current =
     (if current \<in> set visited then Some chain
      else case ov_readlink v current of
        None \<Rightarrow> Some (chain @ spellings v current)
      | Some target \<Rightarrow>
          chain_from v (current # visited) (chain @ spellings v current) (next_hop current target))"

declare chain_from.simps [code]

definition symlink_chain :: "os_view \<Rightarrow> pystr \<Rightarrow> pystr list option" where
  "symlink_chain v p = chain_from v [] [] (os_abspath v p)"

section \<open>The command\<close>

text \<open>\<open>shutil.which\<close>: a name with a directory part is looked up there, any other along the path.\<close>

fun first_runnable :: "os_view \<Rightarrow> pystr \<Rightarrow> pystr list \<Rightarrow> pystr option" where
  "first_runnable v name [] = None"
| "first_runnable v name (d # ds) =
     (if ov_runnable v (os_join d name) then Some (os_join d name) else first_runnable v name ds)"

definition which :: "os_view \<Rightarrow> pystr \<Rightarrow> pystr option" where
  "which v cmd =
     first_runnable v (os_basename cmd)
       (if os_dirname cmd \<noteq> [] then [os_dirname cmd] else split_on 58 (sandbox_path (ov_prefix v)))"

definition resolve_command :: "os_view \<Rightarrow> pystr list \<Rightarrow> pystr list" where
  "resolve_command v cmd =
     (case which v (hd cmd) of Some executable \<Rightarrow> executable # tl cmd | None \<Rightarrow> cmd)"

section \<open>The profile\<close>

definition parents :: "pystr \<Rightarrow> pystr list" where
  "parents p = map (\<lambda>i. str_path (take i (path_parts p))) [0..<length (path_parts p)]"

definition path_ancestors :: "pystr list \<Rightarrow> pystr list" where
  "path_ancestors ps = sort (remdups (concat (map parents ps)))"

definition read_roots :: "os_view \<Rightarrow> pystr \<Rightarrow> pystr \<Rightarrow> pystr list \<Rightarrow> pystr list option" where
  "read_roots v cwd box cmd =
     (let base = [ov_realpath v cwd, ov_realpath v box, ov_realpath v (ov_prefix v),
                  ov_realpath v (ov_base_prefix v)]
      in case which v (hd cmd) of
           None \<Rightarrow> Some (sort (remdups base))
         | Some executable \<Rightarrow>
             map_option (\<lambda>chain. sort (remdups (base @ chain @ [ov_realpath v executable])))
               (symlink_chain v executable))"

definition metadata_rule :: "pystr \<Rightarrow> pystr" where
  "metadata_rule p = u ''(allow file-read-metadata file-test-existence (literal '' @ [34]
     @ sbpl_quote p @ [34] @ u ''))''"

definition read_rule :: "pystr \<Rightarrow> pystr" where
  "read_rule p = u ''(allow file-read* (subpath '' @ [34] @ sbpl_quote p @ [34] @ u ''))''"

definition write_rule :: "pystr \<Rightarrow> pystr" where
  "write_rule p = u ''(allow file-write* (subpath '' @ [34] @ sbpl_quote p @ [34] @ u ''))''"

definition PROFILE_HEAD :: "pystr list" where
  "PROFILE_HEAD =
    [u ''(version 1)'',
     u ''(deny default)'',
     u ''(import \"system.sb\")'',
     u ''; The import grants classes this file never names, so withholding a grant here does not deny it '' @ [8212],
     u ''; only an explicit (deny ...) after the import binds. Measured: deleting the former blanket'',
     u ''; (allow sysctl-read) changed nothing, because system.sb already grants that class.'',
     u ''(allow process-exec* process-fork)'',
     u ''(allow sysctl-read)'',
     u ''; Another process's argv and exec-time environment '' @ [8212] @ u '' the orchestrator's API keys among them '' @ [8212] @ u '' is'',
     u ''; admitted by EITHER of two classes, so closing that read takes both denies. Measured: with only'',
     u ''; one of them denied a confined child still read a same-uid victim's whole environment. Each is'',
     u ''; then allowed back along the axis that reaches no other process: introspecting yourself, and'',
     u ''; every sysctl that is not a per-pid process query. See D-SANDBOX-011.'',
     u ''(deny process-info*)'',
     u ''(allow process-info* (target self))'',
     u ''(deny sysctl-read (sysctl-name-prefix \"kern.proc\"))'',
     u ''; No mach-lookup grant: (deny network*) does not cover Mach IPC, so an unscoped one is a side'',
     u ''; channel out of the sandbox. Measured '' @ [8212] @ u '' a confined pbpaste read the developer's clipboard through'',
     u ''; it. The oracle needs none beyond what system.sb already scopes; see D-SANDBOX-008.'']"

definition PROFILE_TAIL :: "pystr list" where
  "PROFILE_TAIL =
    [u ''(allow file-write* (literal \"/dev/null\"))'',
     u ''(allow file-write* (literal \"/dev/dtracehelper\"))'',
     u ''; /dev/tty is withheld by design (a terminal egress channel); see D-SANDBOX-005'',
     u ''(deny network*)'']"

definition render_profile :: "pystr list \<Rightarrow> pystr list \<Rightarrow> pystr \<Rightarrow> pystr" where
  "render_profile ancestors roots box =
     join [NL] PROFILE_HEAD @ [NL] @ join [NL] (map metadata_rule ancestors) @ [NL]
       @ join [NL] (map read_rule roots) @ [NL] @ write_rule box @ [NL] @ join [NL] PROFILE_TAIL @ [NL]"

definition build_profile :: "os_view \<Rightarrow> pystr \<Rightarrow> pystr \<Rightarrow> pystr list \<Rightarrow> pystr option" where
  "build_profile v cwd box cmd =
     map_option (\<lambda>roots. render_profile (path_ancestors roots) roots (ov_realpath v box))
       (read_roots v cwd box cmd)"

definition SANDBOX_EXEC :: pystr where "SANDBOX_EXEC = u ''/usr/bin/sandbox-exec''"

definition sandbox_command :: "os_view \<Rightarrow> pystr \<Rightarrow> pystr \<Rightarrow> pystr list \<Rightarrow> pystr list option" where
  "sandbox_command v cwd box cmd =
     (let resolved = resolve_command v cmd
      in map_option (\<lambda>profile. [SANDBOX_EXEC, u ''-p'', profile] @ resolved)
           (build_profile v cwd box resolved))"

definition MAX_CPU_SECONDS :: nat where "MAX_CPU_SECONDS = 60"
definition MAX_FILE_BYTES :: nat where "MAX_FILE_BYTES = 128 * 1024 * 1024"

datatype rlimit = RLIMIT_CPU | RLIMIT_FSIZE

text \<open>The limits set between fork and exec: soft and hard alike, so the child cannot raise them.\<close>

definition apply_rlimits :: "(rlimit \<times> nat \<times> nat) list" where
  "apply_rlimits = [(RLIMIT_CPU, MAX_CPU_SECONDS, MAX_CPU_SECONDS),
     (RLIMIT_FSIZE, MAX_FILE_BYTES, MAX_FILE_BYTES)]"

section \<open>Reading a profile\<close>

text \<open>The lexical syntax of SBPL: parentheses, double-quoted strings in which a backslash takes the next
  character as it is, comments to the end of the line, and atoms.\<close>

datatype sbpl_token = LP | RP | Str pystr | Atom pystr

datatype sbpl_mode = Outside | In_Atom pystr | In_Str pystr | In_Escape pystr | In_Comment

type_synonym sbpl_reader = "sbpl_mode \<times> sbpl_token list"

definition sbpl_outside :: "nat \<Rightarrow> sbpl_token list \<Rightarrow> sbpl_reader" where
  "sbpl_outside c ts =
     (if c = 40 then (Outside, ts @ [LP])
      else if c = 41 then (Outside, ts @ [RP])
      else if c = 34 then (In_Str [], ts)
      else if c = 59 then (In_Comment, ts)
      else if c = 32 \<or> c = 9 \<or> c = NL \<or> c = CR then (Outside, ts)
      else (In_Atom [c], ts))"

fun sbpl_step :: "nat \<Rightarrow> sbpl_reader \<Rightarrow> sbpl_reader" where
  "sbpl_step c (Outside, ts) = sbpl_outside c ts"
| "sbpl_step c (In_Atom a, ts) =
     (if c \<in> {40, 41, 34, 59, 32, 9, NL, CR} then sbpl_outside c (ts @ [Atom a])
      else (In_Atom (a @ [c]), ts))"
| "sbpl_step c (In_Str t, ts) =
     (if c = 34 then (Outside, ts @ [Str t])
      else if c = 92 then (In_Escape t, ts)
      else (In_Str (t @ [c]), ts))"
| "sbpl_step c (In_Escape t, ts) = (In_Str (t @ [c]), ts)"
| "sbpl_step c (In_Comment, ts) = ((if c = NL then Outside else In_Comment), ts)"

definition sbpl_run :: "pystr \<Rightarrow> sbpl_reader \<Rightarrow> sbpl_reader" where
  "sbpl_run text r = fold sbpl_step text r"

definition sbpl_tokens :: "pystr \<Rightarrow> sbpl_token list option" where
  "sbpl_tokens text =
     (case sbpl_run text (Outside, []) of
        (Outside, ts) \<Rightarrow> Some ts
      | (In_Comment, ts) \<Rightarrow> Some ts
      | (In_Atom a, ts) \<Rightarrow> Some (ts @ [Atom a])
      | _ \<Rightarrow> None)"

lemma sbpl_run_simps [simp]:
  "sbpl_run [] r = r"
  "sbpl_run (c # cs) r = sbpl_run cs (sbpl_step c r)"
  "sbpl_run (xs @ ys) r = sbpl_run ys (sbpl_run xs r)"
  by (simp_all add: sbpl_run_def)

text \<open>Tokens already read are carried along.\<close>

lemma sbpl_step_frame: "sbpl_step c (m, ts @ us) = (case sbpl_step c (m, us) of (m', vs) \<Rightarrow> (m', ts @ vs))"
  by (cases m) (auto simp: sbpl_outside_def)

lemma sbpl_run_frame: "sbpl_run xs (m, ts @ us) = (case sbpl_run xs (m, us) of (m', vs) \<Rightarrow> (m', ts @ vs))"
proof (induction xs arbitrary: m us)
  case (Cons c xs)
  obtain m' vs where "sbpl_step c (m, us) = (m', vs)" by fastforce
  with Cons.IH [of m' vs] show ?case by (simp add: sbpl_step_frame)
qed simp

text \<open>A text that reads as these tokens on its own, and so in any context.\<close>

definition sbpl_segment :: "pystr \<Rightarrow> sbpl_token list \<Rightarrow> bool" where
  "sbpl_segment xs ts \<longleftrightarrow> sbpl_run xs (Outside, []) = (Outside, ts)"

lemma segment_run: "sbpl_segment xs ts \<Longrightarrow> sbpl_run xs (Outside, us) = (Outside, us @ ts)"
  using sbpl_run_frame [of xs Outside us "[]"] by (simp add: sbpl_segment_def)

lemma segment_append: "sbpl_segment xs ts \<Longrightarrow> sbpl_segment ys us \<Longrightarrow> sbpl_segment (xs @ ys) (ts @ us)"
  using segment_run [of ys us ts] by (simp add: sbpl_segment_def)

lemma segment_newline: "sbpl_segment [NL] []"
  by (simp add: sbpl_segment_def sbpl_outside_def)

lemma segment_tokens: "sbpl_segment xs ts \<Longrightarrow> sbpl_tokens xs = Some ts"
  by (simp add: sbpl_segment_def sbpl_tokens_def)

lemma segment_join:
  "(\<And>x. x \<in> set xs \<Longrightarrow> sbpl_segment (f x) (g x)) \<Longrightarrow>
     sbpl_segment (join [NL] (map f xs)) (concat (map g xs))"
proof (induction xs rule: induct_list012)
  case 1
  show ?case by (simp add: sbpl_segment_def)
next
  case (3 x y zs)
  have "sbpl_segment ([NL] @ join [NL] (map f (y # zs))) ([] @ concat (map g (y # zs)))"
    using 3 by (intro segment_append segment_newline) auto
  with segment_append [OF 3(3) [of x] this] show ?case by (simp add: join_Cons)
qed simp

text \<open>A quoted path is read as that path, whatever it contains.\<close>

lemma run_quoted: "sbpl_run (sbpl_quote p) (In_Str t, ts) = (In_Str (t @ p), ts)"
proof (induction p arbitrary: t)
  case Nil
  show ?case by (simp add: sbpl_quote_def replace_char_def)
next
  case (Cons c p)
  then show ?case by (simp add: sbpl_quote_Cons)
qed

definition allow_tokens :: "string list \<Rightarrow> string \<Rightarrow> pystr \<Rightarrow> sbpl_token list" where
  "allow_tokens ops filt p =
     [LP, Atom (u ''allow'')] @ map (\<lambda>x. Atom (u x)) ops @ [LP, Atom (u filt), Str p, RP, RP]"

lemma segment_rule:
  assumes "sbpl_run (u head) (Outside, []) = (Outside, ts)"
  shows "sbpl_segment (u head @ [34] @ sbpl_quote p @ [34] @ u ''))'') (ts @ [Str p, RP, RP])"
proof -
  have "sbpl_run (u '')'' @ u '')'') (Outside, us) = (Outside, us @ [RP, RP])" for us
    by (simp add: u_def sbpl_outside_def)
  then have "sbpl_run (u ''))'') (Outside, us) = (Outside, us @ [RP, RP])" for us
    by (simp add: u_def)
  with assms show ?thesis by (simp add: sbpl_segment_def sbpl_outside_def run_quoted)
qed

lemma segment_rules:
  "sbpl_segment (metadata_rule p) (allow_tokens [''file-read-metadata'', ''file-test-existence''] ''literal'' p)"
  "sbpl_segment (read_rule p) (allow_tokens [''file-read*''] ''subpath'' p)"
  "sbpl_segment (write_rule p) (allow_tokens [''file-write*''] ''subpath'' p)"
proof -
  have "sbpl_run (u ''(allow file-read-metadata file-test-existence (literal '') (Outside, [])
      = (Outside, [LP, Atom (u ''allow''), Atom (u ''file-read-metadata''), Atom (u ''file-test-existence''),
           LP, Atom (u ''literal'')])" by code_simp
  from segment_rule [OF this] show
    "sbpl_segment (metadata_rule p) (allow_tokens [''file-read-metadata'', ''file-test-existence''] ''literal'' p)"
    by (simp add: metadata_rule_def allow_tokens_def)
  have "sbpl_run (u ''(allow file-read* (subpath '') (Outside, [])
      = (Outside, [LP, Atom (u ''allow''), Atom (u ''file-read*''), LP, Atom (u ''subpath'')])" by code_simp
  from segment_rule [OF this] show "sbpl_segment (read_rule p) (allow_tokens [''file-read*''] ''subpath'' p)"
    by (simp add: read_rule_def allow_tokens_def)
  have "sbpl_run (u ''(allow file-write* (subpath '') (Outside, [])
      = (Outside, [LP, Atom (u ''allow''), Atom (u ''file-write*''), LP, Atom (u ''subpath'')])" by code_simp
  from segment_rule [OF this] show "sbpl_segment (write_rule p) (allow_tokens [''file-write*''] ''subpath'' p)"
    by (simp add: write_rule_def allow_tokens_def)
qed

text \<open>What the fixed text says: the denials and the grants that name no path of the task.\<close>

definition atoms :: "string list \<Rightarrow> sbpl_token list" where
  "atoms xs = [LP] @ map (\<lambda>x. Atom (u x)) xs @ [RP]"

definition head_tokens :: "sbpl_token list" where
  "head_tokens = atoms [''version'', ''1''] @ atoms [''deny'', ''default'']
     @ [LP, Atom (u ''import''), Str (u ''system.sb''), RP]
     @ atoms [''allow'', ''process-exec*'', ''process-fork''] @ atoms [''allow'', ''sysctl-read'']
     @ atoms [''deny'', ''process-info*'']
     @ [LP, Atom (u ''allow''), Atom (u ''process-info*''), LP, Atom (u ''target''), Atom (u ''self''), RP, RP]
     @ [LP, Atom (u ''deny''), Atom (u ''sysctl-read''), LP, Atom (u ''sysctl-name-prefix''),
        Str (u ''kern.proc''), RP, RP]"

definition tail_tokens :: "sbpl_token list" where
  "tail_tokens = allow_tokens [''file-write*''] ''literal'' (u ''/dev/null'')
     @ allow_tokens [''file-write*''] ''literal'' (u ''/dev/dtracehelper'') @ atoms [''deny'', ''network*'']"

lemma segment_head: "sbpl_segment (join [NL] PROFILE_HEAD @ [NL]) head_tokens"
  by code_simp

lemma segment_tail: "sbpl_segment (join [NL] PROFILE_TAIL @ [NL]) tail_tokens"
  by code_simp

section \<open>The walk along links\<close>

definition is_link :: "os_view \<Rightarrow> pystr \<Rightarrow> bool" where
  "is_link v p \<longleftrightarrow> ov_readlink v p \<noteq> None"

definition hop_to :: "os_view \<Rightarrow> pystr \<Rightarrow> pystr \<Rightarrow> bool" where
  "hop_to v p q \<longleftrightarrow> (\<exists>t. ov_readlink v p = Some t \<and> q = next_hop p t)"

text \<open>A walk from \<open>p\<close>: every hop is where the link before it points, none occurs twice or in \<open>seen\<close>, and
  the last is no link or points at one already seen.\<close>

definition link_walk :: "os_view \<Rightarrow> pystr set \<Rightarrow> pystr \<Rightarrow> pystr list \<Rightarrow> bool" where
  "link_walk v seen p hops \<longleftrightarrow>
     (if p \<in> seen then hops = []
      else hops \<noteq> [] \<and> hd hops = p \<and> distinct hops \<and> set hops \<inter> seen = {}
        \<and> (\<forall>i. Suc i < length hops \<longrightarrow> hop_to v (hops ! i) (hops ! Suc i))
        \<and> (\<not> is_link v (List.last hops)
            \<or> (\<exists>q. hop_to v (List.last hops) q \<and> q \<in> seen \<union> set hops)))"

lemma link_walk_Cons:
  assumes "p \<notin> seen" and "hop_to v p q" and "link_walk v (insert p seen) q hops"
  shows "link_walk v seen p (p # hops)"
proof (cases "q \<in> insert p seen")
  case True
  with assms show ?thesis by (auto simp: link_walk_def)
next
  case False
  with assms(3) have h: "hops \<noteq> []" "hd hops = q" "distinct hops" "set hops \<inter> insert p seen = {}"
    "\<forall>i. Suc i < length hops \<longrightarrow> hop_to v (hops ! i) (hops ! Suc i)"
    "\<not> is_link v (List.last hops) \<or> (\<exists>q. hop_to v (List.last hops) q \<and> q \<in> insert p seen \<union> set hops)"
    by (auto simp: link_walk_def)
  have "hop_to v ((p # hops) ! i) ((p # hops) ! Suc i)" if "Suc i < length (p # hops)" for i
    using that h(1,2,5) assms(2) by (cases i) (auto simp: hd_conv_nth)
  with h assms(1) show ?thesis by (auto simp: link_walk_def)
qed

lemma chain_from_walks:
  assumes "finite {p \<in> W. is_link v p}"
    and "\<And>p t. p \<in> W \<Longrightarrow> ov_readlink v p = Some t \<Longrightarrow> next_hop p t \<in> W" and "p \<in> W"
  shows "\<exists>hops. chain_from v visited chain p = Some (chain @ concat (map (spellings v) hops))
    \<and> link_walk v (set visited) p hops"
  using assms(3)
proof (induction "card ({p \<in> W. is_link v p} - set visited)" arbitrary: visited chain p rule: less_induct)
  case less
  show ?case
  proof (cases "p \<in> set visited")
    case True
    then show ?thesis
      by (intro exI [of _ "[]"]) (simp add: chain_from.simps [of v visited] link_walk_def)
  next
    case False
    show ?thesis
    proof (cases "ov_readlink v p")
      case None
      with False show ?thesis
        by (intro exI [of _ "[p]"]) (simp add: chain_from.simps [of v visited] link_walk_def is_link_def)
    next
      case (Some t)
      let ?chain = "chain @ spellings v p" and ?q = "next_hop p t"
      have "{p \<in> W. is_link v p} - set (p # visited) \<subset> {p \<in> W. is_link v p} - set visited"
        using False Some less.prems by (auto simp: is_link_def)
      then have "card ({p \<in> W. is_link v p} - set (p # visited)) < card ({p \<in> W. is_link v p} - set visited)"
        using assms(1) by (intro psubset_card_mono) auto
      from less.hyps [OF this assms(2) [OF less.prems Some], of ?chain] obtain hops where
        "chain_from v (p # visited) ?chain ?q = Some (?chain @ concat (map (spellings v) hops))"
        "link_walk v (insert p (set visited)) ?q hops" by auto
      moreover have "hop_to v p ?q" using Some by (simp add: hop_to_def)
      ultimately show ?thesis using False Some link_walk_Cons [of p "set visited" v ?q hops]
        by (intro exI [of _ "p # hops"]) (simp add: chain_from.simps [of v visited])
    qed
  qed
qed

section \<open>A view of the file-system model\<close>

definition view_of :: "fs \<Rightarrow> os_view" where
  "view_of fs = \<lparr>ov_cwd = u ''/'', ov_realpath = (\<lambda>p. str_path (resolve fs (path_parts p))),
     ov_readlink = (\<lambda>p. case lnode fs (path_parts p) of Some (Link t) \<Rightarrow> Some t | _ \<Rightarrow> None),
     ov_runnable = (\<lambda>p. is_file fs (path_parts p)), ov_prefix = u ''/p'', ov_base_prefix = u ''/b''\<rparr>"

section \<open>Only finitely many names lead to a link\<close>

text \<open>Resolution follows at most 40 links, so a name without dots resolves only if its components are
  names the store has and their number is bounded.\<close>

definition fs_depth :: "fs \<Rightarrow> nat" where
  "fs_depth fs = Max (insert 0 (length ` set (map fst fs)))"

definition fs_names :: "fs \<Rightarrow> pystr set" where
  "fs_names fs = \<Union> (set ` set (map fst fs))"

lemma fs_key: "fs_get fs p = Some n \<Longrightarrow> p \<noteq> [] \<Longrightarrow> p \<in> set (map fst fs)"
  by (force simp: fs_get_def dest: map_of_SomeD)

lemma fs_key_bounds:
  assumes "fs_get fs (cur @ [c]) = Some n"
  shows "length cur < fs_depth fs" and "c \<in> fs_names fs"
proof -
  have k: "cur @ [c] \<in> set (map fst fs)" using fs_key [OF assms] by simp
  then have "length (cur @ [c]) \<in> insert 0 (length ` set (map fst fs))" by blast
  then have "length (cur @ [c]) \<le> fs_depth fs" unfolding fs_depth_def by (intro Max_ge) simp_all
  then show "length cur < fs_depth fs" by simp
  show "c \<in> fs_names fs" using k unfolding fs_names_def by force
qed

lemma walk_append:
  "walk k mk fs cur (xs @ ys) = Some r \<Longrightarrow> ys \<noteq> [] \<Longrightarrow>
     \<exists>k' cur'. k' \<le> k \<and> walk k' mk fs cur' ys = Some r"
proof (induction k mk fs cur xs rule: walk.induct)
  case (1 k mk fs cur)
  then show ?case by auto
next
  case (2 k mk fs cur c cs)
  note step = walk.simps(2) [of k mk fs cur c "cs @ ys"]
  from "2.prems" have d: "fs_get fs cur = Some Dir" by (auto simp: step split: if_splits)
  show ?case
  proof (cases "c = DOTDOT")
    case True
    with "2.prems"(1) d have "walk k mk fs (butlast cur) (cs @ ys) = Some r"
      unfolding append_Cons step by simp
    with "2.IH"(1) d True "2.prems"(2) show ?thesis by blast
  next
    case False
    show ?thesis
    proof (cases "fs_get fs (cur @ [c])")
      case None
      with "2.prems" d False show ?thesis by (simp add: step)
    next
      case (Some n)
      show ?thesis
      proof (cases n)
        case (Link t)
        with "2.prems" d False Some have k: "k \<noteq> 0" and
          w: "walk (k - 1) mk fs (if is_absolute t then [] else cur) ((path_parts t @ cs) @ ys) = Some r"
          by (simp_all add: step split: if_splits)
        from "2.IH"(4) [OF _ False Some Link k w "2.prems"(2)] d obtain k' cur' where
          "k' \<le> k - 1" "walk k' mk fs cur' ys = Some r" by auto
        then have "k' \<le> k" by simp
        with \<open>walk k' mk fs cur' ys = Some r\<close> show ?thesis by blast
      next
        case (File b)
        then have "walk k mk fs (cur @ [c]) (cs @ ys) = Some r"
          using "2.prems"(1) d False Some unfolding append_Cons step by simp
        from "2.IH"(2) [OF _ False Some File this] d "2.prems"(2) show ?thesis by simp
      next
        case Dir
        then have "walk k mk fs (cur @ [c]) (cs @ ys) = Some r"
          using "2.prems"(1) d False Some unfolding append_Cons step by simp
        from "2.IH"(3) [OF _ False Some Dir this] d "2.prems"(2) show ?thesis by simp
      qed
    qed
  qed
qed

lemma walk_bounded:
  "walk k False fs cur cs = Some r \<Longrightarrow> DOTDOT \<notin> set cs \<Longrightarrow>
     set cs \<subseteq> fs_names fs \<and> length cs \<le> k * (fs_depth fs + 1) + (fs_depth fs - length cur)"
proof (induction cs arbitrary: k cur)
  case Nil
  then show ?case by simp
next
  case (Cons c cs)
  let ?D = "fs_depth fs"
  note step = walk.simps(2) [of k False fs cur c cs]
  from Cons.prems(2) have nd: "c \<noteq> DOTDOT" "DOTDOT \<notin> set cs" by auto
  with Cons.prems obtain n where n: "fs_get fs (cur @ [c]) = Some n"
    by (auto simp: step split: if_splits option.splits)
  note b = fs_key_bounds [OF n]
  show ?case
  proof (cases "\<exists>t. n = Link t")
    case False
    then have "walk k False fs (cur @ [c]) cs = Some r"
      using Cons.prems nd n by (cases n) (auto simp: step split: if_splits)
    from Cons.IH [OF this nd(2)] b show ?thesis by auto
  next
    case True
    then obtain t where "n = Link t" by blast
    with Cons.prems nd n have k: "k \<noteq> 0" and
      w: "walk (k - 1) False fs (if is_absolute t then [] else cur) (path_parts t @ cs) = Some r"
      by (auto simp: step split: if_splits)
    show ?thesis
    proof (cases "cs = []")
      case True
      with b k show ?thesis by (cases k) auto
    next
      case False
      from walk_append [OF w this] obtain k' cur' where
        k': "k' \<le> k - 1" and w': "walk k' False fs cur' cs = Some r" by blast
      from Cons.IH [OF w' nd(2)] have "set cs \<subseteq> fs_names fs"
        "length cs \<le> k' * (?D + 1) + ?D" by auto
      moreover have "k' * (?D + 1) \<le> (k - 1) * (?D + 1)" using k' by (rule mult_le_mono1)
      moreover have "(k - 1) * (?D + 1) + (?D + 1) = k * (?D + 1)" using k by (cases k) simp_all
      ultimately show ?thesis using b by simp
    qed
  qed
qed

lemma finite_names: "finite (fs_names fs)"
  by (simp add: fs_names_def)

lemma finite_resolvable: "finite {cs. DOTDOT \<notin> set cs \<and> realpath fs cs \<noteq> None}"
proof (rule finite_subset)
  let ?n = "MAX_LINKS * (fs_depth fs + 1) + fs_depth fs"
  show "finite {cs. set cs \<subseteq> fs_names fs \<and> length cs \<le> ?n}"
    by (rule finite_lists_length_le) (rule finite_names)
  show "{cs. DOTDOT \<notin> set cs \<and> realpath fs cs \<noteq> None} \<subseteq> {cs. set cs \<subseteq> fs_names fs \<and> length cs \<le> ?n}"
    using walk_bounded [of MAX_LINKS fs "[]"] by (auto simp: realpath_def)
qed

lemma finite_links: "finite {cs. DOTDOT \<notin> set cs \<and> is_link_node (lnode fs cs)}"
proof (rule finite_subset)
  let ?R = "{cs. DOTDOT \<notin> set cs \<and> realpath fs cs \<noteq> None}"
  show "finite ((\<lambda>(cs, c). cs @ [c]) ` (?R \<times> fs_names fs))"
    using finite_resolvable finite_names by blast
  show "{cs. DOTDOT \<notin> set cs \<and> is_link_node (lnode fs cs)} \<subseteq> (\<lambda>(cs, c). cs @ [c]) ` (?R \<times> fs_names fs)"
  proof
    fix cs assume "cs \<in> {cs. DOTDOT \<notin> set cs \<and> is_link_node (lnode fs cs)}"
    then have d: "DOTDOT \<notin> set cs" and l: "is_link_node (lnode fs cs)" by simp_all
    from l have ne: "cs \<noteq> []" by (auto simp: lnode_def)
    then have "last cs \<noteq> DOTDOT" using d last_in_set by metis
    with l ne obtain q n where q: "realpath fs (butlast cs) = Some q" "fs_get fs (q @ [last cs]) = Some n"
      by (auto simp: lnode_def is_link_node_def split: option.splits if_splits)
    have "DOTDOT \<notin> set (butlast cs)" using d by (auto dest: in_set_butlastD)
    with q have "butlast cs \<in> ?R" "last cs \<in> fs_names fs" using fs_key_bounds(2) by auto
    with ne show "cs \<in> (\<lambda>(cs, c). cs @ [c]) ` (?R \<times> fs_names fs)"
      by (intro image_eqI [of _ _ "(butlast cs, last cs)"]) auto
  qed
qed

section \<open>Where the walk can be\<close>

definition normal :: "pystr \<Rightarrow> bool" where
  "normal p \<longleftrightarrow> (\<exists>sl\<in>{[47], [47, 47]}. p = sl @ join [47] (path_parts p)) \<and> DOTDOT \<notin> set (path_parts p)"

lemma norm_parts_clean:
  "\<forall>c\<in>set acc. c \<noteq> [] \<and> c \<noteq> [46] \<and> c \<noteq> DOTDOT \<and> 47 \<notin> set c \<Longrightarrow> \<forall>c\<in>set cs. 47 \<notin> set c \<Longrightarrow>
     \<forall>c\<in>set (norm_parts True acc cs). c \<noteq> [] \<and> c \<noteq> [46] \<and> c \<noteq> DOTDOT \<and> 47 \<notin> set c"
proof (induction cs arbitrary: acc)
  case (Cons c cs)
  let ?ok = "\<lambda>c. c \<noteq> [] \<and> c \<noteq> [46] \<and> c \<noteq> DOTDOT \<and> 47 \<notin> set c"
  have l: "\<not> (acc \<noteq> [] \<and> List.last acc = DOTDOT)"
    using bspec [OF Cons.prems(1) last_in_set] by blast
  have cs: "\<forall>c\<in>set cs. 47 \<notin> set c" and c: "47 \<notin> set c" using Cons.prems(2) by simp_all
  consider "c = [] \<or> c = [46]" | "\<not> (c = [] \<or> c = [46])" "c = DOTDOT" | "\<not> (c = [] \<or> c = [46])" "c \<noteq> DOTDOT"
    by blast
  then show ?case
  proof cases
    case 1
    then have e: "norm_parts True acc (c # cs) = norm_parts True acc cs"
      by (simp only: norm_parts.simps if_True)
    show ?thesis unfolding e by (rule Cons.IH [OF Cons.prems(1) cs])
  next
    case 2
    have "\<not> (c \<noteq> DOTDOT \<or> (\<not> True \<and> acc = []) \<or> (acc \<noteq> [] \<and> List.last acc = DOTDOT))"
      using 2(2) l by blast
    with 2(1) have e: "norm_parts True acc (c # cs) = norm_parts True (butlast acc) cs"
      by (simp only: norm_parts.simps if_False)
    have "\<forall>c\<in>set (butlast acc). ?ok c"
    proof
      fix x assume "x \<in> set (butlast acc)"
      from bspec [OF Cons.prems(1) in_set_butlastD [OF this]] show "?ok x" .
    qed
    then show ?thesis unfolding e by (rule Cons.IH [OF _ cs])
  next
    case 3
    have "c \<noteq> DOTDOT \<or> (\<not> True \<and> acc = []) \<or> (acc \<noteq> [] \<and> List.last acc = DOTDOT)" using 3(2) by blast
    with 3(1) have e: "norm_parts True acc (c # cs) = norm_parts True (acc @ [c]) cs"
      by (simp only: norm_parts.simps if_True if_False)
    have "\<forall>c\<in>set (acc @ [c]). ?ok c"
      using Cons.prems(1) 3 c by (simp only: set_append ball_Un) simp
    then show ?thesis unfolding e by (rule Cons.IH [OF _ cs])
  qed
qed simp

lemma split_join_clean:
  "\<forall>c\<in>set cs. 47 \<notin> set c \<Longrightarrow> cs \<noteq> [] \<Longrightarrow> split_on 47 (join [47] cs) = cs"
proof (induction cs)
  case (Cons c cs)
  then show ?case
    by (cases cs) (simp_all add: split_on_single split_on_append_sep)
qed simp

lemma path_parts_join:
  assumes "\<forall>c\<in>set cs. c \<noteq> [] \<and> c \<noteq> [46] \<and> 47 \<notin> set c" and "sl \<in> {[47], [47, 47]}"
  shows "path_parts (sl @ join [47] cs) = cs"
proof (cases "cs = []")
  case True
  with assms(2) show ?thesis by (auto simp: path_parts_def)
next
  case False
  have "split_on 47 (sl @ join [47] cs) = (if sl = [47] then [[]] else [[], []]) @ cs"
    using split_join_clean [of cs] assms False by auto
  moreover have "filter (\<lambda>c. c \<noteq> [] \<and> c \<noteq> u ''.'') cs = cs"
    using assms(1) by (intro filter_True) (simp add: u_def)
  ultimately show ?thesis using assms(2) by (auto simp: path_parts_def)
qed

lemma normpath_normal:
  assumes "is_absolute p"
  shows "normal (os_normpath p)" and "is_absolute (os_normpath p)"
proof -
  let ?cs = "norm_parts True [] (split_on 47 p)"
  have "p \<noteq> []" using assms by (auto simp: is_absolute_def startswith_def)
  then obtain sl where sl: "sl \<in> {[47], [47, 47]}" "os_normpath p = sl @ join [47] ?cs"
    using assms by (intro that [of "if startswith p [47, 47] \<and> \<not> startswith p [47, 47, 47] then [47, 47] else [47]"])
      (simp_all add: os_normpath_def Let_def)
  have c: "\<forall>c\<in>set ?cs. c \<noteq> [] \<and> c \<noteq> [46] \<and> c \<noteq> DOTDOT \<and> 47 \<notin> set c"
    by (rule norm_parts_clean) (auto dest: split_on_no_sep)
  then have "path_parts (os_normpath p) = ?cs" unfolding sl(2) by (intro path_parts_join) (use sl(1) in auto)
  with sl c show "normal (os_normpath p)" unfolding normal_def by auto
  show "is_absolute (os_normpath p)" using sl by (auto simp: is_absolute_def startswith_def)
qed

lemma finite_normal_links:
  assumes "ov_readlink v = ov_readlink (view_of fs)"
  shows "finite {p. normal p \<and> is_link v p}"
proof (rule finite_subset)
  let ?L = "{cs. DOTDOT \<notin> set cs \<and> is_link_node (lnode fs cs)}"
  show "finite ((\<lambda>(sl, cs). sl @ join [47] cs) ` ({[47], [47, 47]} \<times> ?L))"
    using finite_links by blast
  show "{p. normal p \<and> is_link v p} \<subseteq> (\<lambda>(sl, cs). sl @ join [47] cs) ` ({[47], [47, 47]} \<times> ?L)"
  proof
    fix p assume "p \<in> {p. normal p \<and> is_link v p}"
    then have n: "normal p" and l: "is_link v p" by simp_all
    from n obtain sl where sl: "sl \<in> {[47], [47, 47]}" "p = sl @ join [47] (path_parts p)"
      "DOTDOT \<notin> set (path_parts p)" unfolding normal_def by blast
    have "is_link_node (lnode fs (path_parts p))"
      using l assms by (auto simp: is_link_def view_of_def is_link_node_def split: option.splits node.splits)
    with sl show "p \<in> (\<lambda>(sl, cs). sl @ join [47] cs) ` ({[47], [47, 47]} \<times> ?L)"
      by (intro image_eqI [of _ _ "(sl, path_parts p)"]) auto
  qed
qed

text \<open>A walk that starts at an absolute path stays on normalised paths and on the texts of links.\<close>

lemma absolute_prefix: "is_absolute (xs @ ys) \<Longrightarrow> xs \<noteq> [] \<Longrightarrow> is_absolute xs"
  by (cases xs) (auto simp: is_absolute_def startswith_def)

lemma absolute_append: "is_absolute xs \<Longrightarrow> is_absolute (xs @ ys)"
  by (cases xs) (auto simp: is_absolute_def startswith_def)

lemma dirname_absolute:
  assumes "is_absolute p"
  shows "is_absolute (os_dirname p)"
proof -
  obtain q where q: "p = 47 # q" using assms by (cases p) (auto simp: is_absolute_def startswith_def)
  let ?h = "take (length p - length (os_basename p)) p" and ?l = "List.last (split_on 47 q)"
  have b: "os_basename p = ?l" by (simp add: os_basename_def q)
  have "length ?l + 1 \<in> set (map (\<lambda>l. length l + 1) (split_on 47 q))" by simp
  then have "length ?l + 1 \<le> sum_list (map (\<lambda>l. length l + 1) (split_on 47 q))"
    by (rule member_le_sum_list) simp
  then have "length (os_basename p) < length p" unfolding length_split_on_sum b by (simp add: q)
  then have ne: "?h \<noteq> []" by (simp add: q)
  have "is_absolute (?h @ drop (length p - length (os_basename p)) p)" using assms by simp
  then have h: "is_absolute ?h" using ne by (rule absolute_prefix)
  let ?r = "rstrip_with (\<lambda>c. c = 47) ?h"
  obtain ys where "?h = ?r @ ys \<and> (\<forall>y\<in>set ys. y = 47)"
    using rstrip_with_prefix [of ?h "\<lambda>c. c = 47"] ..
  then have ys: "?h = ?r @ ys" ..
  from h have "is_absolute (?r @ ys)" unfolding ys [symmetric] .
  then have "?r \<noteq> [] \<Longrightarrow> is_absolute ?r" by (rule absolute_prefix)
  with h show ?thesis by (simp add: os_dirname_def Let_def)
qed

lemma join_absolute: "is_absolute a \<Longrightarrow> is_absolute (os_join a b)"
  by (cases a) (simp_all add: os_join_def is_absolute_def startswith_def)

definition link_texts :: "fs \<Rightarrow> pystr set" where
  "link_texts fs = {t. Link t \<in> snd ` set fs}"

lemma finite_link_texts: "finite (link_texts fs)"
proof -
  have "Link ` link_texts fs \<subseteq> snd ` set fs" by (auto simp: link_texts_def)
  then have "finite (Link ` link_texts fs)" by (rule finite_subset) simp
  then show ?thesis by (rule finite_imageD) (simp add: inj_on_def)
qed

definition walk_paths :: "fs \<Rightarrow> pystr set" where
  "walk_paths fs = {p. is_absolute p \<and> (normal p \<or> p \<in> link_texts fs)}"

lemma readlink_text:
  assumes "ov_readlink (view_of fs) p = Some t"
  shows "t \<in> link_texts fs"
proof -
  from assms have "lnode fs (path_parts p) = Some (Link t)"
    by (auto simp: view_of_def split: option.splits node.splits)
  then obtain q where q: "fs_get fs q = Some (Link t)" unfolding lnode_def
    by (auto split: option.splits if_splits)
  then have "q \<noteq> []" by auto
  with q show ?thesis by (force simp: link_texts_def fs_get_def dest: map_of_SomeD)
qed

lemma walk_paths_closed:
  assumes "p \<in> walk_paths fs" and "ov_readlink (view_of fs) p = Some t"
  shows "next_hop p t \<in> walk_paths fs"
proof (cases "is_absolute t")
  case True
  with readlink_text [OF assms(2)] show ?thesis by (simp add: next_hop_def walk_paths_def)
next
  case False
  have "is_absolute (os_join (os_dirname p) t)"
    using assms(1) by (simp add: walk_paths_def join_absolute dirname_absolute)
  with False normpath_normal show ?thesis by (simp add: next_hop_def walk_paths_def)
qed

lemma finite_walk_links:
  assumes "ov_readlink v = ov_readlink (view_of fs)"
  shows "finite {p \<in> walk_paths fs. is_link v p}"
  by (rule finite_subset [of _ "{p. normal p \<and> is_link v p} \<union> link_texts fs"])
     (auto simp: walk_paths_def finite_normal_links [OF assms] finite_link_texts)

text \<open>An interpreter behind a version alias: \<open>/p/bin/py\<close> points through the alias \<open>/a\<close> into \<open>/b\<close>.\<close>

definition alias_fs :: fs where
  "alias_fs = [([u ''p''], Dir), ([u ''p'', u ''bin''], Dir),
     ([u ''p'', u ''bin'', u ''py''], Link (u ''/a/py'')),
     ([u ''b''], Dir), ([u ''b'', u ''py''], File []), ([u ''a''], Link (u ''/b''))]"

lemma alias_chain:
  "symlink_chain (view_of alias_fs) (u ''/p/bin/py'') = Some [u ''/p/bin/py'', u ''/a/py'', u ''/b/py'']"
  by code_simp

text \<open>A link read inside a linked directory whose target climbs: the kernel climbs from where the
  directory link led, the walk from the name it was reached by, so the hop the kernel reads next
  is in no form part of the chain.\<close>

definition climbing_fs :: fs where
  "climbing_fs = [([u ''x''], Dir), ([u ''x'', u ''y''], Dir),
     ([u ''x'', u ''y'', u ''py''], Link (u ''../z'')), ([u ''x'', u ''z''], Link (u ''/f'')),
     ([u ''f''], File []), ([u ''d''], Link (u ''/x/y''))]"

lemma climbing_target_leaves_the_chain:
  "symlink_chain (view_of climbing_fs) (u ''/d/py'') = Some [u ''/d/py'', u ''/x/y/py'', u ''/z'']"
  "resolve climbing_fs (path_parts (u ''/d/py'')) = [u ''f'']"
  "is_link (view_of climbing_fs) (u ''/x/z'')"
  by code_simp+

section \<open>Properties\<close>

text \<open>C23. What the child may touch is what the profile lists and nothing a path could add: read as SBPL,
  the text is the fixed denials and grants, a metadata grant for each ancestor of a read root, a
  read grant for each read root, one write grant for the box and the two devices, and the denial
  of the network, whatever characters the paths hold.\<close>

theorem profile_says_exactly_the_grants:
  assumes "build_profile v cwd box cmd = Some text"
  shows "\<exists>roots. read_roots v cwd box cmd = Some roots
    \<and> sbpl_tokens text = Some (head_tokens
        @ concat (map (allow_tokens [''file-read-metadata'', ''file-test-existence''] ''literal'')
            (path_ancestors roots))
        @ concat (map (allow_tokens [''file-read*''] ''subpath'') roots)
        @ allow_tokens [''file-write*''] ''subpath'' (ov_realpath v box) @ tail_tokens)"
proof -
  from assms obtain roots where r: "read_roots v cwd box cmd = Some roots"
    "text = render_profile (path_ancestors roots) roots (ov_realpath v box)"
    by (auto simp: build_profile_def)
  have t: "text = (join [NL] PROFILE_HEAD @ [NL])
      @ (join [NL] (map metadata_rule (path_ancestors roots)) @ [NL])
      @ (join [NL] (map read_rule roots) @ [NL]) @ (write_rule (ov_realpath v box) @ [NL])
      @ (join [NL] PROFILE_TAIL @ [NL])" by (simp add: r(2) render_profile_def)
  note nl = segment_append [OF _ segment_newline, unfolded append_Nil2]
  have "sbpl_segment text (head_tokens
      @ concat (map (allow_tokens [''file-read-metadata'', ''file-test-existence''] ''literal'')
          (path_ancestors roots))
      @ concat (map (allow_tokens [''file-read*''] ''subpath'') roots)
      @ allow_tokens [''file-write*''] ''subpath'' (ov_realpath v box) @ tail_tokens)"
    unfolding t by (intro segment_append segment_head segment_tail nl segment_join segment_rules)
  from segment_tokens [OF this] r(1) show ?thesis by blast
qed

definition alias_command :: "pystr list" where
  "alias_command = [u ''/p/bin/py'']"

theorem profile_says_exactly_the_grants_witness:
  "\<exists>text ts. build_profile (view_of alias_fs) (u ''/w'') (u ''/x\")(allow network*'') alias_command = Some text
     \<and> sbpl_tokens text = Some (head_tokens @ ts @ tail_tokens)"
proof -
  have c: "symlink_chain (view_of alias_fs) (u ''/p/bin/py'') \<noteq> None" using alias_chain by simp
  have w: "which (view_of alias_fs) (u ''/p/bin/py'') = Some (u ''/p/bin/py'')" by code_simp
  have "read_roots (view_of alias_fs) cwd box alias_command \<noteq> None" for cwd box
    using c unfolding read_roots_def alias_command_def Let_def list.sel w option.case option.map_disc_iff .
  then have "build_profile (view_of alias_fs) (u ''/w'') (u ''/x\")(allow network*'') alias_command \<noteq> None"
    unfolding build_profile_def option.map_disc_iff .
  then obtain res where t: "build_profile (view_of alias_fs) (u ''/w'') (u ''/x\")(allow network*'')
      alias_command = Some res" by blast
  from profile_says_exactly_the_grants [OF t] obtain roots where "sbpl_tokens res = Some (head_tokens
        @ concat (map (allow_tokens [''file-read-metadata'', ''file-test-existence''] ''literal'')
            (path_ancestors roots))
        @ concat (map (allow_tokens [''file-read*''] ''subpath'') roots)
        @ allow_tokens [''file-write*''] ''subpath''
            (ov_realpath (view_of alias_fs) (u ''/x\")(allow network*'')) @ tail_tokens)" by blast
  then have "sbpl_tokens res = Some (head_tokens
        @ (concat (map (allow_tokens [''file-read-metadata'', ''file-test-existence''] ''literal'')
            (path_ancestors roots))
        @ concat (map (allow_tokens [''file-read*''] ''subpath'') roots)
        @ allow_tokens [''file-write*''] ''subpath''
            (ov_realpath (view_of alias_fs) (u ''/x\")(allow network*''))) @ tail_tokens)"
    unfolding append.assoc .
  with t show ?thesis by blast
qed

text \<open>C36. The link walk always ends and visits each hop once.  Over any file system, links that form
  cycles or lead through one another included, from any path and any absolute working directory,
  the chain exists, and it spells, each as written and with its parents resolved, the hops of a
  walk in which every hop is where the link before it points, none repeats, and the last is no
  link or closes a cycle.\<close>

theorem symlink_chain_visits_each_hop_once:
  assumes "ov_readlink v = ov_readlink (view_of fs)" and "is_absolute (ov_cwd v)"
  shows "\<exists>hops. symlink_chain v path = Some (concat (map (spellings v) hops))
    \<and> link_walk v {} (os_abspath v path) hops"
proof -
  have "is_absolute (if is_absolute path then path else os_join (ov_cwd v) path)"
    using assms(2) by (simp add: join_absolute)
  then have "os_abspath v path \<in> walk_paths fs"
    using normpath_normal by (simp add: os_abspath_def walk_paths_def)
  from chain_from_walks [OF finite_walk_links [OF assms(1)] _ this, of "[]" "[]"]
    walk_paths_closed [of _ fs] assms(1)
  show ?thesis by (simp add: symlink_chain_def)
qed

theorem symlink_chain_visits_each_hop_once_witness:
  "\<exists>hops. [u ''/p/bin/py'', u ''/a/py'', u ''/b/py''] = concat (map (spellings (view_of alias_fs)) hops)
     \<and> link_walk (view_of alias_fs) {} (os_abspath (view_of alias_fs) (u ''/p/bin/py'')) hops"
proof -
  have "is_absolute (ov_cwd (view_of alias_fs))" by (simp add: view_of_def u_def is_absolute_def startswith_def)
  from symlink_chain_visits_each_hop_once [OF refl this, of "u ''/p/bin/py''"] alias_chain
  show ?thesis by (metis option.inject)
qed

end
