(* ===== verification/Argparse.thy ===== *)
theory Argparse
  imports Model_Server
begin

text \<open>
  The part of \<open>argparse\<close> the command lines of the package are read with: a table of long options, each
  a switch or one that takes a value, and no positional argument.  An option is named in full or by
  a prefix only it has, its value follows an equals sign or is the next argument, and what a usage
  error exits with is 2, what \<open>--help\<close> exits with 0.
\<close>

datatype option_kind = Help | Switch | Takes_Value

definition candidates :: "(pystr \<times> option_kind) list \<Rightarrow> pystr \<Rightarrow> (pystr \<times> option_kind) list" where
  "candidates tbl t =
     (if startswith t (u ''--'')
      then (case map_of tbl (option_name t) of
              Some k \<Rightarrow> [(option_name t, k)]
            | None \<Rightarrow> filter (\<lambda>(opt, _). startswith opt (option_name t)) tbl)
      else if startswith t (u ''-h'') then [(u ''--help'', Help)] else [])"

text \<open>A dash and digits, at most one point before the last of them: read as a number, not an option.\<close>

definition negative_number :: "pystr \<Rightarrow> bool" where
  "negative_number t =
     (startswith t [45] \<and>
       (case split_on 46 (drop 1 t) of
          [ds] \<Rightarrow> ds \<noteq> [] \<and> list_all is_digit ds
        | [ds, fs] \<Rightarrow> fs \<noteq> [] \<and> list_all is_digit (ds @ fs)
        | _ \<Rightarrow> False))"

definition is_option :: "(pystr \<times> option_kind) list \<Rightarrow> pystr \<Rightarrow> bool" where
  "is_option tbl t \<longleftrightarrow> startswith t [45] \<and> t \<noteq> [45] \<and> t \<noteq> u ''--''
     \<and> (candidates tbl t \<noteq> [] \<or> (\<not> negative_number t \<and> 32 \<notin> set t))"

definition inline_value :: "pystr \<Rightarrow> pystr option" where
  "inline_value t = (if 61 \<in> set t then Some (drop (length (option_name t) + 1) t) else None)"

text \<open>\<open>store\<close> converts and stores a value, \<open>switch\<close> stores a switch.  Arguments no option takes are
  collected and refused at the end, after \<open>--help\<close> had its turn.\<close>

fun consume ::
  "(pystr \<times> option_kind) list \<Rightarrow> (pystr \<Rightarrow> 'a \<Rightarrow> 'a) \<Rightarrow> (pystr \<Rightarrow> pystr \<Rightarrow> 'a \<Rightarrow> int + 'a) \<Rightarrow> bool \<Rightarrow> 'a
     \<Rightarrow> pystr list \<Rightarrow> int + 'a" where
  "consume tbl switch store extras args [] = (if extras then Inl 2 else Inr args)"
| "consume tbl switch store extras args (t # ts) =
     (if t = u ''--'' then Inl 2
      else if \<not> is_option tbl t then consume tbl switch store True args ts
      else case candidates tbl t of
        [] \<Rightarrow> consume tbl switch store True args ts
      | [(opt, Help)] \<Rightarrow> if inline_value t = None \<and> \<not> startswith t (u ''-h-'') then Inl 0 else Inl 2
      | [(opt, Switch)] \<Rightarrow>
          if inline_value t = None then consume tbl switch store extras (switch opt args) ts
          else Inl 2
      | [(opt, Takes_Value)] \<Rightarrow>
          (case inline_value t of
             Some v \<Rightarrow>
               (case store opt v args of
                  Inl code \<Rightarrow> Inl code | Inr args' \<Rightarrow> consume tbl switch store extras args' ts)
           | None \<Rightarrow>
               (case ts of
                  [] \<Rightarrow> Inl 2
                | v # ts' \<Rightarrow>
                    if v = u ''--'' \<or> is_option tbl v then Inl 2
                    else (case store opt v args of
                            Inl code \<Rightarrow> Inl code | Inr args' \<Rightarrow> consume tbl switch store extras args' ts')))
      | _ \<Rightarrow> Inl 2)"

lemmas consume_step = consume.simps(2)
declare consume.simps(2) [simp del]

lemma option_name_inline: "61 \<notin> set opt \<Longrightarrow> option_name (opt @ 61 # v) = opt"
  by (simp add: option_name_def split_on_append_sep split_on_single)

lemma option_name_self: "61 \<notin> set opt \<Longrightarrow> option_name opt = opt"
  by (simp add: option_name_def split_on_single)

text \<open>What a table has to be for every option of it to be read: long names, all different.\<close>

locale option_table =
  fixes tbl :: "(pystr \<times> option_kind) list"
  assumes distinct_names: "distinct (map fst tbl)"
    and long_name: "(opt, k) \<in> set tbl \<Longrightarrow> startswith opt (u ''--'') \<and> 2 < length opt \<and> 61 \<notin> set opt"
begin

lemma exact:
  assumes "(opt, k) \<in> set tbl" and "t = opt \<or> t = opt @ 61 # v"
  shows "t \<noteq> u ''--''" and "is_option tbl t" and "candidates tbl t = [(opt, k)]"
proof -
  note o = long_name [OF assms(1)]
  have n: "option_name t = opt" using assms(2) o option_name_inline option_name_self by auto
  have s: "startswith t (u ''--'')" "startswith t [45]"
    using assms(2) o by (auto simp: startswith_iff u_def)
  have "map_of tbl opt = Some k" using distinct_names assms(1) by simp
  then show c: "candidates tbl t = [(opt, k)]" using s(1) by (simp add: candidates_def n)
  have "2 < length t" using assms(2) o by auto
  then show "t \<noteq> u ''--''" by (auto simp: u_def)
  with \<open>2 < length t\<close> show "is_option tbl t" using s(2) c by (auto simp: is_option_def)
qed

lemma read_inline:
  assumes "(opt, Takes_Value) \<in> set tbl"
  shows "consume tbl switch store extras args ((opt @ 61 # v) # ts) =
     (case store opt v args of Inl code \<Rightarrow> Inl code | Inr args' \<Rightarrow> consume tbl switch store extras args' ts)"
proof -
  have "inline_value (opt @ 61 # v) = Some v"
    using long_name [OF assms] by (simp add: inline_value_def option_name_inline)
  then show ?thesis using exact [OF assms disjI2 [OF refl]] by (simp add: consume_step)
qed

lemma read_separate:
  assumes "(opt, Takes_Value) \<in> set tbl" and "\<not> startswith v [45]"
  shows "consume tbl switch store extras args (opt # v # ts) =
     (case store opt v args of Inl code \<Rightarrow> Inl code | Inr args' \<Rightarrow> consume tbl switch store extras args' ts)"
proof -
  have "inline_value opt = None" using long_name [OF assms(1)] by (simp add: inline_value_def)
  moreover have "v \<noteq> u ''--''" "\<not> is_option tbl v"
    using assms(2) by (auto simp: is_option_def u_def startswith_def)
  ultimately show ?thesis using exact [OF assms(1) disjI1 [OF refl]] by (simp add: consume_step)
qed

lemma read_switch:
  assumes "(opt, Switch) \<in> set tbl"
  shows "consume tbl switch store extras args (opt # ts) = consume tbl switch store extras (switch opt args) ts"
proof -
  have "inline_value opt = None" using long_name [OF assms] by (simp add: inline_value_def)
  then show ?thesis using exact [OF assms disjI1 [OF refl]] by (simp add: consume_step)
qed

end

end
