(* ===== verification/Cli_Args.thy ===== *)
theory Cli_Args
  imports Cli Argparse
begin

text \<open>
  The argument parser of \<open>cli.py\<close>: the options \<open>_build_parser\<close> declares and what each stores, read the
  way the theory \<open>Argparse\<close> says.  A usage error and a refused \<open>--generation-params\<close> exit with 2,
  \<open>--help\<close> with 0.
\<close>

section \<open>The options\<close>

definition CLI_OPTIONS :: "(pystr \<times> option_kind) list" where
  "CLI_OPTIONS =
     [(u ''--help'', Help), (u ''--contract-version'', Switch), (u ''--task'', Takes_Value),
      (u ''--base-url'', Takes_Value), (u ''--model'', Takes_Value),
      (u ''--generation-params'', Takes_Value), (u ''--worktree'', Takes_Value),
      (u ''--record-dir'', Takes_Value)]"

text \<open>Storing a value, converted by the option's type; a path is taken relative to the directory the
  process runs in.\<close>

definition store_value :: "path \<Rightarrow> pystr \<Rightarrow> pystr \<Rightarrow> cli_args \<Rightarrow> int + cli_args" where
  "store_value cwd opt v args =
     (if opt = u ''--task'' then Inr (args\<lparr>a_task := Some (join_path cwd v)\<rparr>)
      else if opt = u ''--base-url'' then Inr (args\<lparr>a_base_url := Some v\<rparr>)
      else if opt = u ''--model'' then Inr (args\<lparr>a_model := Some v\<rparr>)
      else if opt = u ''--generation-params''
      then (case generation_params_from_json v of
              Inl _ \<Rightarrow> Inl 2 | Inr ps \<Rightarrow> Inr (args\<lparr>a_generation_params := ps\<rparr>))
      else if opt = u ''--worktree'' then Inr (args\<lparr>a_worktree := join_path cwd v\<rparr>)
      else Inr (args\<lparr>a_record_dir := Some (join_path cwd v)\<rparr>))"

definition store_switch :: "pystr \<Rightarrow> cli_args \<Rightarrow> cli_args" where
  "store_switch opt args = args\<lparr>a_contract_version := True\<rparr>"

definition parse_args :: "path \<Rightarrow> pystr list \<Rightarrow> int + cli_args" where
  "parse_args cwd argv = consume CLI_OPTIONS store_switch (store_value cwd) False (default_args cwd) argv"

text \<open>\<open>main(argv)\<close>: what \<open>argparse\<close> refuses never reaches the rest; the help text is not modelled.\<close>

definition main_argv ::
  "cli_env \<Rightarrow> path \<Rightarrow> pystr list \<Rightarrow> fs \<Rightarrow> fs \<times> pystr list \<times> diagnostic list \<times> (cli_error + int)" where
  "main_argv env cwd argv fs =
     (case parse_args cwd argv of
        Inl code \<Rightarrow> (fs, [], [], Inr code)
      | Inr args \<Rightarrow> main env args fs)"

interpretation cli_table: option_table CLI_OPTIONS
proof
  show "distinct (map fst CLI_OPTIONS)" by code_simp
  show "startswith opt (u ''--'') \<and> 2 < length opt \<and> 61 \<notin> set opt" if "(opt, k) \<in> set CLI_OPTIONS" for opt k
    using that by (auto simp: CLI_OPTIONS_def u_def startswith_def)
qed

section \<open>Reading an argument back\<close>

definition inline_option :: "string \<Rightarrow> pystr option \<Rightarrow> pystr list" where
  "inline_option opt v = (case v of None \<Rightarrow> [] | Some s \<Rightarrow> [u opt @ 61 # s])"

lemma consume_option:
  assumes "(u opt, Takes_Value) \<in> set CLI_OPTIONS"
  shows "consume CLI_OPTIONS store_switch (store_value cwd) extras args (inline_option opt v @ ts) =
     (case v of None \<Rightarrow> consume CLI_OPTIONS store_switch (store_value cwd) extras args ts
      | Some s \<Rightarrow> (case store_value cwd (u opt) s args of
          Inl code \<Rightarrow> Inl code | Inr args' \<Rightarrow> consume CLI_OPTIONS store_switch (store_value cwd) extras args' ts))"
  by (simp add: inline_option_def cli_table.read_inline [OF assms] split: option.split)

lemma consume_switch:
  "consume CLI_OPTIONS store_switch (store_value cwd) extras args (u ''--contract-version'' # ts)
     = consume CLI_OPTIONS store_switch (store_value cwd) extras (args\<lparr>a_contract_version := True\<rparr>) ts"
  using cli_table.read_switch [of "u ''--contract-version''" store_switch "store_value cwd" extras args ts]
  by (simp add: CLI_OPTIONS_def store_switch_def)

text \<open>Values to give the options, as text.\<close>

record cli_words =
  cw_contract_version :: bool
  cw_task :: "pystr option"
  cw_base_url :: "pystr option"
  cw_model :: "pystr option"
  cw_params :: "pystr option"
  cw_worktree :: "pystr option"
  cw_record_dir :: "pystr option"

definition argv_of :: "cli_words \<Rightarrow> pystr list" where
  "argv_of w =
     (if cw_contract_version w then [u ''--contract-version''] else [])
     @ inline_option ''--task'' (cw_task w) @ inline_option ''--base-url'' (cw_base_url w)
     @ inline_option ''--model'' (cw_model w) @ inline_option ''--generation-params'' (cw_params w)
     @ inline_option ''--worktree'' (cw_worktree w) @ inline_option ''--record-dir'' (cw_record_dir w)"

lemma options_listed:
  "(u ''--task'', Takes_Value) \<in> set CLI_OPTIONS" "(u ''--base-url'', Takes_Value) \<in> set CLI_OPTIONS"
  "(u ''--model'', Takes_Value) \<in> set CLI_OPTIONS" "(u ''--worktree'', Takes_Value) \<in> set CLI_OPTIONS"
  "(u ''--generation-params'', Takes_Value) \<in> set CLI_OPTIONS"
  "(u ''--record-dir'', Takes_Value) \<in> set CLI_OPTIONS"
  by (simp_all add: CLI_OPTIONS_def)

lemma store_values:
  "store_value cwd (u ''--task'') v args = Inr (args\<lparr>a_task := Some (join_path cwd v)\<rparr>)"
  "store_value cwd (u ''--base-url'') v args = Inr (args\<lparr>a_base_url := Some v\<rparr>)"
  "store_value cwd (u ''--model'') v args = Inr (args\<lparr>a_model := Some v\<rparr>)"
  "store_value cwd (u ''--worktree'') v args = Inr (args\<lparr>a_worktree := join_path cwd v\<rparr>)"
  "store_value cwd (u ''--record-dir'') v args = Inr (args\<lparr>a_record_dir := Some (join_path cwd v)\<rparr>)"
  "generation_params_from_json v = Inr ps \<Longrightarrow>
     store_value cwd (u ''--generation-params'') v args = Inr (args\<lparr>a_generation_params := ps\<rparr>)"
  by (simp_all add: store_value_def u_def)

lemmas consume_options =
  consume_option [OF options_listed(1)] consume_option [OF options_listed(2)]
  consume_option [OF options_listed(3)] consume_option [OF options_listed(4)]
  consume_option [OF options_listed(5)]

lemmas consume_last = consume_option [OF options_listed(6), of _ _ _ _ "[]", unfolded append_Nil2]

section \<open>Properties\<close>

text \<open>C37. The command line carries every setting: whatever the values are, dashes, blanks and equals signs
  included, the argument list that spells them parses to exactly those settings, and each option
  not named keeps its default.\<close>

theorem command_line_reads_back:
  assumes "case cw_params w of None \<Rightarrow> ps = [] | Some g \<Rightarrow> generation_params_from_json g = Inr ps"
  shows "parse_args cwd (argv_of w) = Inr \<lparr>a_contract_version = cw_contract_version w,
     a_task = map_option (join_path cwd) (cw_task w), a_base_url = cw_base_url w, a_model = cw_model w,
     a_generation_params = ps,
     a_worktree = (case cw_worktree w of None \<Rightarrow> cwd | Some v \<Rightarrow> join_path cwd v),
     a_record_dir = map_option (join_path cwd) (cw_record_dir w)\<rparr>"
proof -
  let ?args = "(default_args cwd)\<lparr>a_contract_version := cw_contract_version w\<rparr>"
  have "consume CLI_OPTIONS store_switch (store_value cwd) False (default_args cwd) (argv_of w) = consume CLI_OPTIONS store_switch (store_value cwd) False ?args
     (inline_option ''--task'' (cw_task w) @ inline_option ''--base-url'' (cw_base_url w)
      @ inline_option ''--model'' (cw_model w) @ inline_option ''--generation-params'' (cw_params w)
      @ inline_option ''--worktree'' (cw_worktree w) @ inline_option ''--record-dir'' (cw_record_dir w))"
    unfolding argv_of_def
    by (cases "cw_contract_version w") (simp_all add: consume_switch default_args_def)
  then show ?thesis using assms
    unfolding parse_args_def
    by (simp add: consume_options consume_last store_values default_args_def
        split: option.splits)
qed

theorem command_line_reads_back_witness:
  "parse_args [] (argv_of \<lparr>cw_contract_version = False, cw_task = None, cw_base_url = Some (u ''--x y''),
      cw_model = Some [], cw_params = Some (u ''{}''), cw_worktree = Some (u ''w''), cw_record_dir = None\<rparr>)
    = Inr \<lparr>a_contract_version = False, a_task = None, a_base_url = Some (u ''--x y''), a_model = Some [],
       a_generation_params = [], a_worktree = [u ''w''], a_record_dir = None\<rparr>"
proof -
  have p: "generation_params_from_json (u ''{}'') = Inr []" "join_path [] (u ''w'') = [u ''w'']" by code_simp+
  from command_line_reads_back [where ps = "[]" and cwd = "[]" and w = "\<lparr>cw_contract_version = False, cw_task = None,
      cw_base_url = Some (u ''--x y''), cw_model = Some [], cw_params = Some (u ''{}''),
      cw_worktree = Some (u ''w''), cw_record_dir = None\<rparr>"] p
  show ?thesis by simp
qed

text \<open>A dispatch passes no argument at all.\<close>

lemma dispatch_parses: "parse_args cwd [] = Inr (default_args cwd)"
  by (simp add: parse_args_def)

lemma usage_examples:
  "parse_args [] [u ''--co''] = Inr ((default_args [])\<lparr>a_contract_version := True\<rparr>)"
  "parse_args [] [u ''--task'', u ''--model''] = Inl 2"
  "parse_args [] [u ''pos'', u ''--help''] = Inl 0"
  "parse_args [] [u ''--bad''] = Inl 2"
  "parse_args [] [u ''--=x''] = Inl 2"
  by code_simp+

end
