(* ===== verification/Sweep.thy ===== *)
theory Sweep
  imports Argparse Sandbox
begin

text \<open>
  \<open>scripts/benchmark_model.py\<close> and \<open>scripts/benchmark_all_models.py\<close>: the benchmark of one served
  model, and the sweep that runs it for every model under a ceiling.  Processes are a table of
  process ids, groups and whether they live, so that what a signal to a group reaches is computed
  from how each process was spawned.
\<close>

section \<open>Processes and groups\<close>

record proc =
  pr_pid :: nat
  pr_group :: nat
  pr_alive :: bool

type_synonym procs = "proc list"

text \<open>\<open>Popen\<close>: with \<open>start_new_session\<close> the child leads a group of its own, otherwise it stays in its
  parent's.\<close>

definition popen :: "bool \<Rightarrow> nat \<Rightarrow> nat \<Rightarrow> procs \<Rightarrow> procs" where
  "popen new_session parent_group pid ps =
     ps @ [\<lparr>pr_pid = pid, pr_group = (if new_session then pid else parent_group), pr_alive = True\<rparr>]"

definition group_of :: "nat \<Rightarrow> procs \<Rightarrow> nat option" where
  "group_of pid ps = map_option pr_group (find (\<lambda>p. pr_pid p = pid) ps)"

text \<open>\<open>os.killpg\<close> with \<open>SIGKILL\<close>; a group that is gone is the suppressed \<open>ProcessLookupError\<close>.\<close>

definition kill_group :: "nat option \<Rightarrow> procs \<Rightarrow> procs" where
  "kill_group g ps =
     map (\<lambda>p. if Some (pr_group p) = g then p\<lparr>pr_alive := False\<rparr> else p) ps"

definition alive :: "nat \<Rightarrow> procs \<Rightarrow> bool" where
  "alive pid ps \<longleftrightarrow> (\<exists>p\<in>set ps. pr_pid p = pid \<and> pr_alive p)"

section \<open>One model\<close>

definition BENCHMARK_MODULE :: pystr where "BENCHMARK_MODULE = u ''benchmarks.run''"

text \<open>\<open>dumps\<close> is \<open>json.dumps\<close>.\<close>

definition benchmark_command ::
  "(json \<Rightarrow> pystr) \<Rightarrow> pystr \<Rightarrow> pystr \<Rightarrow> pystr \<Rightarrow> pystr \<Rightarrow> params \<Rightarrow> bool \<Rightarrow> pystr list \<Rightarrow> bool
     \<Rightarrow> pystr option \<Rightarrow> pystr list" where
  "benchmark_command dumps executable base_url served out gen_params stream only planned rules_card =
     [executable, u ''-m'', BENCHMARK_MODULE, u ''--base-url'', base_url, u ''--model'', served,
      u ''--out'', out]
     @ (if gen_params = [] then [] else [u ''--generation-params'', dumps (JObj gen_params)])
     @ (if stream then [u ''--stream''] else [])
     @ (if planned then [u ''--plan-first''] else [])
     @ (case rules_card of None \<Rightarrow> [] | Some c \<Rightarrow> [u ''--rules-card'', c])
     @ concat (map (\<lambda>c. [u ''--only'', c]) only)"

text \<open>The processes of the chain for one model: the script starts the server through \<open>running\<close>, whose
  \<open>Popen\<close> opens a session, and then the benchmark, which stays in the script's group.\<close>

definition chain_started :: "nat \<Rightarrow> nat \<Rightarrow> nat \<Rightarrow> procs \<Rightarrow> procs" where
  "chain_started script server benchmark ps =
     popen False script benchmark (popen True script server (popen True 0 script ps))"

section \<open>The ceiling\<close>

definition PER_MODEL_CEILING_S :: rat where "PER_MODEL_CEILING_S = 4 * 60 * 60"

text \<open>\<open>_run_bounded\<close> from the moment the chain runs: how it ended, and who lives.\<close>

definition ending_text :: "child_end \<Rightarrow> pystr" where
  "ending_text ending =
     (case ending of Returned rc \<Rightarrow> u ''exit '' @ str_int rc
      | Wait_Timed_Out \<Rightarrow> u ''timed out after 4h'')"

definition run_bounded :: "nat \<Rightarrow> child_end \<Rightarrow> procs \<Rightarrow> pystr \<times> procs" where
  "run_bounded script ending ps =
     (ending_text ending,
      (case ending of Returned _ \<Rightarrow> ps | Wait_Timed_Out \<Rightarrow> kill_group (group_of script ps) ps))"

section \<open>The sweep\<close>

text \<open>What one model's chain came to: the scorecards on disk before and after, how the chain ended, and
  the clock.\<close>

record chain_run =
  cr_before :: "pystr list"
  cr_after :: "pystr list"
  cr_end :: child_end
  cr_seconds :: rat

definition bench_command :: "pystr \<Rightarrow> pystr \<Rightarrow> pystr \<Rightarrow> pystr option \<Rightarrow> pystr list" where
  "bench_command executable per_model_script name rules_card =
     [executable, per_model_script, name]
     @ (case rules_card of None \<Rightarrow> [] | Some c \<Rightarrow> [u ''--rules-card'', c])"

text \<open>\<open>_bench_one\<close>: scored when a scorecard is there that was not before.\<close>

definition bench_one :: "chain_run \<Rightarrow> bool \<times> pystr \<times> rat" where
  "bench_one r =
     (list_ex (\<lambda>p. p \<notin> set (cr_before r)) (cr_after r), ending_text (cr_end r), cr_seconds r)"

definition sweep_names :: "pystr list \<Rightarrow> pystr list \<Rightarrow> pystr list \<Rightarrow> pystr list" where
  "sweep_names only skip servable =
     filter (\<lambda>n. n \<notin> set skip) (if only \<noteq> [] then only else servable)"

definition ljust26 :: "pystr \<Rightarrow> pystr" where
  "ljust26 s = s @ replicate (26 - length s) 32"

definition verdict_line :: "(rat \<Rightarrow> pystr) \<Rightarrow> pystr \<times> bool \<times> pystr \<times> rat \<Rightarrow> pystr" where
  "verdict_line fixed51 row =
     (case row of (name, scored, ending, seconds) \<Rightarrow>
        u ''[sweep]   '' @ ljust26 name @ [32]
          @ ljust26 (if scored then u ''scored'' else u ''FAILED '' @ [8212, 32] @ ending)
          @ [32] @ fixed51 (seconds / 60) @ u '' min'')"

text \<open>The loop: the \<open>i\<close>-th name's chain is \<open>runs i\<close>.\<close>

fun sweep_results ::
  "(nat \<Rightarrow> pystr \<Rightarrow> chain_run) \<Rightarrow> nat \<Rightarrow> pystr list \<Rightarrow> (pystr \<times> bool \<times> pystr \<times> rat) list" where
  "sweep_results runs i [] = []"
| "sweep_results runs i (n # ns) = (n, bench_one (runs i n)) # sweep_results runs (i + 1) ns"

definition sweep_main ::
  "(rat \<Rightarrow> pystr) \<Rightarrow> (nat \<Rightarrow> pystr \<Rightarrow> chain_run) \<Rightarrow> pystr list \<Rightarrow> pystr list \<Rightarrow> pystr list
     \<Rightarrow> pystr list \<times> int" where
  "sweep_main fixed51 runs only skip servable =
     (let results = sweep_results runs 1 (sweep_names only skip servable)
      in (map (verdict_line fixed51) results,
          if list_all (\<lambda>(_, scored, _, _). scored) results then 0 else 1))"

text \<open>The sweep's own arguments; \<open>--only\<close> and \<open>--skip\<close> append, the rules card is a \<open>Path\<close> that is handed on
  as text.\<close>

definition SWEEP_OPTIONS :: "(pystr \<times> option_kind) list" where
  "SWEEP_OPTIONS = [(u ''--help'', Help), (u ''--only'', Takes_Value), (u ''--skip'', Takes_Value),
     (u ''--rules-card'', Takes_Value)]"

record sweep_args =
  sa_only :: "pystr list"
  sa_skip :: "pystr list"
  sa_rules_card :: "pystr option"

definition store_sweep :: "pystr \<Rightarrow> pystr \<Rightarrow> sweep_args \<Rightarrow> int + sweep_args" where
  "store_sweep opt v args =
     Inr (if opt = u ''--only'' then args\<lparr>sa_only := sa_only args @ [v]\<rparr>
          else if opt = u ''--skip'' then args\<lparr>sa_skip := sa_skip args @ [v]\<rparr>
          else args\<lparr>sa_rules_card := Some (as_posix (is_absolute v) (path_parts v))\<rparr>)"

definition parse_sweep :: "pystr list \<Rightarrow> int + sweep_args" where
  "parse_sweep argv =
     consume SWEEP_OPTIONS (\<lambda>_ args. args) store_sweep False
       \<lparr>sa_only = [], sa_skip = [], sa_rules_card = None\<rparr> argv"

text \<open>\<open>main(argv)\<close>: how a chain runs depends on its command, which names the model and the rules card.\<close>

definition sweep_argv ::
  "(rat \<Rightarrow> pystr) \<Rightarrow> pystr \<Rightarrow> pystr \<Rightarrow> (nat \<Rightarrow> pystr list \<Rightarrow> chain_run) \<Rightarrow> pystr list \<Rightarrow> pystr list
     \<Rightarrow> pystr list \<times> int" where
  "sweep_argv fixed51 executable script chain servable argv =
     (case parse_sweep argv of
        Inl code \<Rightarrow> ([], code)
      | Inr a \<Rightarrow>
          sweep_main fixed51 (\<lambda>i name. chain i (bench_command executable script name (sa_rules_card a)))
            (sa_only a) (sa_skip a) servable)"

interpretation sweep_table: option_table SWEEP_OPTIONS
proof
  show "distinct (map fst SWEEP_OPTIONS)" by code_simp
  show "startswith opt (u ''--'') \<and> 2 < length opt \<and> 61 \<notin> set opt" if "(opt, k) \<in> set SWEEP_OPTIONS" for opt k
    using that by (auto simp: SWEEP_OPTIONS_def u_def startswith_def)
qed

section \<open>Lemmas\<close>

text \<open>Names given one by one reach the sweep in their order, the skipped ones dropped.\<close>

lemma sweep_names_read:
  "list_all (\<lambda>n. \<not> startswith n [45]) ns \<Longrightarrow>
     parse_sweep (concat (map (\<lambda>n. [u ''--only'', n]) ns)) =
       Inr \<lparr>sa_only = ns, sa_skip = [], sa_rules_card = None\<rparr>"
proof -
  have o: "(u ''--only'', Takes_Value) \<in> set SWEEP_OPTIONS" by (simp add: SWEEP_OPTIONS_def)
  have "list_all (\<lambda>n. \<not> startswith n [45]) ns \<Longrightarrow>
     consume SWEEP_OPTIONS (\<lambda>_ args. args) store_sweep False a (concat (map (\<lambda>n. [u ''--only'', n]) ns)) =
       Inr (a\<lparr>sa_only := sa_only a @ ns\<rparr>)" for a
    by (induction ns arbitrary: a) (simp_all add: sweep_table.read_separate [OF o] store_sweep_def)
  then show "list_all (\<lambda>n. \<not> startswith n [45]) ns \<Longrightarrow> ?thesis" by (simp add: parse_sweep_def)
qed

lemma alive_kill_group:
  "alive pid (kill_group g ps) \<longleftrightarrow> (\<exists>p\<in>set ps. pr_pid p = pid \<and> pr_alive p \<and> Some (pr_group p) \<noteq> g)"
  by (auto simp: alive_def kill_group_def split: if_splits)

lemma alive_popen: "alive pid (popen b g q ps) \<longleftrightarrow> alive pid ps \<or> pid = q"
  by (auto simp: alive_def popen_def)

lemma sweep_results_scored:
  "list_all (\<lambda>(_, scored, _, _). scored) (sweep_results runs i ns) \<longleftrightarrow>
     (\<forall>j<length ns. \<not> set (cr_after (runs (i + j) (ns ! j))) \<subseteq> set (cr_before (runs (i + j) (ns ! j))))"
proof (induction runs i ns rule: sweep_results.induct)
  case (2 runs i n ns)
  have "(\<forall>j<length (n # ns). P j) \<longleftrightarrow> P 0 \<and> (\<forall>j<length ns. P (Suc j))" for P
    by (simp add: All_less_Suc2)
  with 2 show ?case by (auto simp: bench_one_def list_ex_iff)
qed simp

section \<open>Properties\<close>

text \<open>The ceiling reaches the chain but not what it serves: with fresh process ids, killing the group
  of a chain that timed out ends the script and the benchmark and leaves every other process of
  the table as it was, and the model server, which leads a session of its own, alive.\<close>

theorem ceiling_leaves_the_model_server:
  assumes "distinct [script, server, benchmark]"
    and "\<forall>p\<in>set ps. pr_pid p \<notin> {script, server, benchmark} \<and> pr_group p \<noteq> script"
    and "run_bounded script Wait_Timed_Out (chain_started script server benchmark ps) = (ending, ps')"
  shows "alive server ps' \<and> \<not> alive script ps' \<and> \<not> alive benchmark ps'
    \<and> (\<forall>pid. pid \<notin> {script, server, benchmark} \<longrightarrow> alive pid ps' = alive pid ps)"
proof -
  let ?new = "[\<lparr>pr_pid = script, pr_group = script, pr_alive = True\<rparr>,
      \<lparr>pr_pid = server, pr_group = server, pr_alive = True\<rparr>,
      \<lparr>pr_pid = benchmark, pr_group = script, pr_alive = True\<rparr>]"
  have c: "chain_started script server benchmark ps = ps @ ?new"
    by (simp add: chain_started_def popen_def)
  have "find (\<lambda>p. pr_pid p = script) ps = None" using assms(2) by (auto simp: find_None_iff)
  then have "find (\<lambda>p. pr_pid p = script) (ps @ ?new) = Some (hd ?new)"
    by (induction ps) (auto split: if_splits)
  then have "group_of script (ps @ ?new) = Some script" by (simp add: group_of_def)
  with assms(3) have "ps' = kill_group (Some script) (ps @ ?new)" by (simp add: run_bounded_def c)
  then have "alive pid ps' \<longleftrightarrow> (\<exists>p\<in>set (ps @ ?new). pr_pid p = pid \<and> pr_alive p \<and> pr_group p \<noteq> script)"
    for pid by (simp add: alive_kill_group)
  with assms(1,2) show ?thesis by (auto simp: alive_def)
qed

theorem ceiling_leaves_the_model_server_witness:
  "\<exists>ending ps. run_bounded 10 Wait_Timed_Out (chain_started 10 11 12 []) = (ending, ps)
     \<and> alive 11 ps \<and> \<not> alive 10 ps \<and> \<not> alive 12 ps"
proof -
  obtain ending ps where r: "run_bounded 10 Wait_Timed_Out (chain_started 10 11 12 []) = (ending, ps)"
    by fastforce
  have "distinct [10, 11, 12 :: nat]" by simp
  from ceiling_leaves_the_model_server [OF this _ r] r show ?thesis by auto
qed

text \<open>A sweep exits zero exactly when every model it ran left a scorecard that was not there before its
  turn; how a chain exited decides nothing.\<close>

theorem sweep_verdict_is_the_scorecard:
  "snd (sweep_main fixed51 runs only skip servable) = 0 \<longleftrightarrow>
     (let ns = sweep_names only skip servable in
      \<forall>j<length ns. \<exists>p\<in>set (cr_after (runs (j + 1) (ns ! j))). p \<notin> set (cr_before (runs (j + 1) (ns ! j))))"
  using sweep_results_scored [of runs 1 "sweep_names only skip servable"]
  by (auto simp: sweep_main_def Let_def subset_iff)

end
