(* ===== verification/Probes.thy ===== *)
theory Probes
  imports Prompt Model_Registry Sse "HOL-Library.List_Lexorder"
begin

text \<open>
  The scripts that ask a served model one question: \<open>measure_first_byte.py\<close>,
  \<open>capture_sse_fixture.py\<close>, \<open>probe_thinking_channel.py\<close>, \<open>probe_reply.py\<close> and
  \<open>e2e_local_model.py\<close>.  What they compute is modelled: the prompt that is sized, the frames that
  are read, the bytes that are rewritten, the task and the lines that are printed; the server
  around it is \<open>running\<close> of the theory \<open>Model_Server\<close>.
\<close>

section \<open>Splitting and replacing\<close>

text \<open>\<open>str.split(sep)\<close> and \<open>bytes.replace\<close> of a separator that is not empty: from the left, without
  overlaps.\<close>

lemma partition_at_shorter:
  "partition_at sep xs = (a, True, b) \<Longrightarrow> sep \<noteq> [] \<Longrightarrow> length b < length xs"
  using partition_at_found [of sep xs a b] by simp

function split_seq :: "'a list \<Rightarrow> 'a list \<Rightarrow> 'a list list" where
  "split_seq sep xs =
     (if sep = [] then [xs]
      else case partition_at sep xs of
        (a, True, b) \<Rightarrow> a # split_seq sep b
      | (a, False, b) \<Rightarrow> [xs])"
  by pat_completeness auto
termination
  by (relation "measure (\<lambda>(sep, xs). length xs)") (auto dest: partition_at_shorter [OF sym])

declare split_seq.simps [simp del]

definition replace_seq :: "'a list \<Rightarrow> 'a list \<Rightarrow> 'a list \<Rightarrow> 'a list" where
  "replace_seq old new xs = join new (split_seq old xs)"

lemma join_split_seq: "join sep (split_seq sep xs) = xs"
proof (induction sep xs rule: split_seq.induct)
  case (1 sep xs)
  obtain a f b where p: "partition_at sep xs = (a, f, b)" by (cases "partition_at sep xs")
  show ?case
  proof (cases "sep = [] \<or> \<not> f")
    case True
    with p show ?thesis by (auto simp: split_seq.simps [of sep xs])
  next
    case False
    with p 1 have "join sep (split_seq sep b) = b" by simp
    moreover have "split_seq sep b \<noteq> []"
      by (subst split_seq.simps) (auto split: prod.split bool.split)
    moreover have "split_seq sep xs = a # split_seq sep b"
      using p False by (simp add: split_seq.simps [of sep xs])
    ultimately have "join sep (split_seq sep xs) = a @ sep @ b" by (simp add: join_Cons)
    moreover have "xs = a @ sep @ b" using p False partition_at_found [of sep xs a b] by simp
    ultimately show ?thesis by simp
  qed
qed

lemma split_seq_absent: "\<not> occurs_in sep xs \<Longrightarrow> sep \<noteq> [] \<Longrightarrow> split_seq sep xs = [xs]"
  by (subst split_seq.simps)
     (auto simp: occurs_in_iff dest: partition_at_found split: prod.split bool.split)

section \<open>Measuring the first byte\<close>

definition TARGET_PREFIX_BYTES :: nat where "TARGET_PREFIX_BYTES = 32021"

definition benchmark_sized_prefix :: "pystr \<Rightarrow> pystr" where
  "benchmark_sized_prefix card_text =
     (let card = card_text @ [NL];
          copies = nat \<lceil>(of_nat TARGET_PREFIX_BYTES :: rat) / of_nat (length (utf8_bytes card))\<rceil>
      in concat (replicate copies card))"

text \<open>The truth value of a JSON value, as \<open>or\<close> and \<open>if\<close> see it.\<close>

definition truthy :: "json \<Rightarrow> bool" where
  "truthy j =
     (case j of JNull \<Rightarrow> False | JBool b \<Rightarrow> b | JInt i \<Rightarrow> i \<noteq> 0 | JFloat f \<Rightarrow> f \<noteq> Fin 0
      | JStr s \<Rightarrow> s \<noteq> [] | JArr xs \<Rightarrow> xs \<noteq> [] | JObj kvs \<Rightarrow> kvs \<noteq> [])"

datatype probe_error =
    Probe_Json json_error | Probe_Attribute pystr | Probe_Key | Probe_Type pystr

text \<open>\<open>value.get(key)\<close>: only an object has it; a missing key gives \<open>None\<close>.\<close>

definition get_field :: "json \<Rightarrow> string \<Rightarrow> probe_error + json" where
  "get_field j key =
     (case j of
        JObj kvs \<Rightarrow> Inr (case obj_get kvs key of None \<Rightarrow> JNull | Some v \<Rightarrow> v)
      | _ \<Rightarrow> Inl (Probe_Attribute (type_name j)))"

definition or_else :: "json \<Rightarrow> json \<Rightarrow> json" where
  "or_else a b = (if truthy a then a else b)"

definition loads :: "pystr \<Rightarrow> probe_error + json" where
  "loads s = (case json_loads s of Inl e \<Rightarrow> Inl (Probe_Json e) | Inr j \<Rightarrow> Inr j)"

definition DATA_PREFIX :: pystr where "DATA_PREFIX = u ''data: ''"

definition REPORTED_TIMINGS :: "string list" where
  "REPORTED_TIMINGS = [''prompt_n'', ''prompt_ms'', ''prompt_per_second'', ''predicted_per_second'']"

fun timings_of :: "pystr list \<Rightarrow> probe_error + (pystr \<times> json) list" where
  "timings_of [] = Inr []"
| "timings_of (frame # frames) =
     (if \<not> startswith frame DATA_PREFIX \<or> occurs_in (u ''[DONE]'') frame then timings_of frames
      else bindE (loads (drop (length DATA_PREFIX) frame)) (\<lambda>j.
           bindE (get_field j ''timings'') (\<lambda>t.
           let t' = or_else t (JObj []) in
           bindE (get_field t' ''prompt_ms'') (\<lambda>ms.
             if truthy ms
             then mapE (\<lambda>k. bindE (get_field t' k) (\<lambda>v. Inr (u k, v))) REPORTED_TIMINGS
             else timings_of frames))))"

definition timings :: "pystr \<Rightarrow> probe_error + (pystr \<times> json) list" where
  "timings raw = timings_of (split_seq [NL, NL] raw)"

section \<open>Capturing a fixture\<close>

definition with_model_id_replaced :: "bytes \<Rightarrow> pystr \<Rightarrow> pystr \<Rightarrow> bytes" where
  "with_model_id_replaced raw served name = replace_seq (utf8_bytes served) (utf8_bytes name) raw"

section \<open>Probing the thinking channel\<close>

record channels =
  ch_content :: pystr
  ch_reasoning :: pystr
  ch_keys :: "pystr list"
  ch_finish :: json

definition no_channels :: channels where
  "no_channels = \<lparr>ch_content = [], ch_reasoning = [], ch_keys = [], ch_finish = JNull\<rparr>"

text \<open>\<open>choices[0]\<close> of a truthy value.\<close>

definition first_choice :: "json \<Rightarrow> probe_error + json" where
  "first_choice j =
     (case j of
        JArr (c # _) \<Rightarrow> Inr c
      | JStr (c # _) \<Rightarrow> Inr (JStr [c])
      | JObj _ \<Rightarrow> Inl Probe_Key
      | _ \<Rightarrow> Inl (Probe_Type (type_name j)))"

text \<open>\<open>text += value\<close>.\<close>

definition plus_text :: "pystr \<Rightarrow> json \<Rightarrow> probe_error + pystr" where
  "plus_text s j = (case j of JStr t \<Rightarrow> Inr (s @ t) | _ \<Rightarrow> Inl (Probe_Type (type_name j)))"

definition object_keys :: "json \<Rightarrow> probe_error + pystr list" where
  "object_keys j = (case j of JObj kvs \<Rightarrow> Inr (map fst kvs) | _ \<Rightarrow> Inl (Probe_Attribute (type_name j)))"

definition probe_line :: "pystr \<Rightarrow> channels \<Rightarrow> probe_error + channels" where
  "probe_line line ch =
     (if \<not> startswith line DATA_PREFIX \<or> line = u ''data: [DONE]'' then Inr ch
      else bindE (loads (drop 6 line)) (\<lambda>j.
           bindE (get_field j ''choices'') (\<lambda>cs.
           bindE (first_choice (or_else cs (JArr [JObj []]))) (\<lambda>c.
           bindE (get_field c ''delta'') (\<lambda>d.
           let delta = or_else d (JObj []) in
           bindE (object_keys delta) (\<lambda>ks.
           bindE (get_field delta ''content'') (\<lambda>content.
           bindE (plus_text (ch_content ch) (or_else content (JStr []))) (\<lambda>content'.
           bindE (get_field delta ''reasoning_content'') (\<lambda>r1.
           bindE (get_field delta ''reasoning'') (\<lambda>r2.
           bindE (plus_text (ch_reasoning ch) (or_else r1 (or_else r2 (JStr [])))) (\<lambda>reasoning'.
           bindE (get_field c ''finish_reason'') (\<lambda>fin.
             Inr \<lparr>ch_content = content', ch_reasoning = reasoning', ch_keys = ch_keys ch @ ks,
                  ch_finish = or_else fin (ch_finish ch)\<rparr>))))))))))))"

definition probe_channels :: "pystr list \<Rightarrow> probe_error + channels" where
  "probe_channels ls = foldE probe_line ls no_channels"

definition THINKING_BUDGET_PROBE :: int where "THINKING_BUDGET_PROBE = 16"

definition CONTROLS :: "params list" where
  "CONTROLS = [[], [(u ''enable_thinking'', JBool False)], [(u ''reasoning_effort'', JStr (u ''none''))],
     [(THINKING_BUDGET, JInt THINKING_BUDGET_PROBE)]]"

text \<open>The body of one request: a dict display in which the control's fields come last.\<close>

definition probe_body :: "pystr \<Rightarrow> params \<Rightarrow> pystr \<Rightarrow> (pystr \<times> json) list" where
  "probe_body model ps prompt =
     fold (\<lambda>(k, v) d. AList.update k v d) ps
       [(u ''model'', JStr model),
        (u ''messages'', JArr [JObj [(u ''role'', JStr (u ''user'')), (u ''content'', JStr prompt)]]),
        (u ''max_tokens'', JInt 2048), (u ''stream'', JBool True)]"

text \<open>The controls sent for each prompt: those the served pair can answer.\<close>

definition controls_sent :: "path option \<Rightarrow> params list" where
  "controls_sent draft_path = filter (\<lambda>ps. \<not> is_unservable_combination draft_path ps) CONTROLS"

text \<open>The prompts, and the requests one run sends: every prompt under every control, in that order.\<close>

definition PROMPTS :: "(pystr \<times> pystr) list" where
  "PROMPTS =
     [(u ''trivial'', u ''Reply with exactly the word: ok''),
      (u ''reasoning-inviting'',
       u ''A worker processes 3 items in the time another processes 5. Together they finish 240 ''
         @ u ''items. How many did the faster one process? Answer with the number only.'')]"

definition requests_sent :: "pystr \<Rightarrow> path option \<Rightarrow> (pystr \<times> json) list list" where
  "requests_sent model draft_path =
     concat (map (\<lambda>(_, prompt). map (\<lambda>ps. probe_body model ps prompt) (controls_sent draft_path)) PROMPTS)"

text \<open>What \<open>_probe\<close> prints of a stream; how Python shows a dict, a list, a string and the finish reason
  are parameters.\<close>

definition probe_report ::
  "(params \<Rightarrow> pystr) \<Rightarrow> (pystr list \<Rightarrow> pystr) \<Rightarrow> (pystr \<Rightarrow> pystr) \<Rightarrow> (json \<Rightarrow> pystr) \<Rightarrow> params \<Rightarrow> pystr \<Rightarrow> channels
     \<Rightarrow> pystr list" where
  "probe_report show_params show_list repr py_str ps model ch =
     [[NL] @ u ''--- request params: '' @ (if ps = [] then u ''(none)'' else show_params ps),
      u ''    model           : '' @ model,
      u ''    finish_reason   : '' @ py_str (ch_finish ch),
      u ''    delta keys seen : '' @ show_list (sort (remdups (ch_keys ch))),
      u ''    reasoning chars : '' @ str_nat (length (ch_reasoning ch)),
      u ''    content chars   : '' @ str_nat (length (ch_content ch)),
      u ''    reasoning[:200] : '' @ repr (take 200 (ch_reasoning ch)),
      u ''    content[:200]   : '' @ repr (take 200 (ch_content ch))]"

section \<open>Probing a reply\<close>

datatype spec_error = Not_One_Oracle nat | Spec_Raised exn

definition ORACLE_SUFFIX :: pystr where "ORACLE_SUFFIX = u ''_oracle.py''"

definition oracles_in :: "fs \<Rightarrow> path \<Rightarrow> path list" where
  "oracles_in fs dir =
     (case realpath fs dir of
        None \<Rightarrow> []
      | Some d \<Rightarrow> filter (\<lambda>p. startswith (rev (List.last p)) (rev ORACLE_SUFFIX)) (children fs d))"

definition lift_spec :: "exn + 'a \<Rightarrow> spec_error + 'a" where
  "lift_spec r = (case r of Inl x \<Rightarrow> Inl (Spec_Raised x) | Inr v \<Rightarrow> Inr v)"

definition spec_from :: "fs \<Rightarrow> path \<Rightarrow> budget \<Rightarrow> spec_error + task_spec" where
  "spec_from fs task_dir b =
     (case oracles_in fs task_dir of
        [p] \<Rightarrow>
          bindE (lift_spec (read_text fs (task_dir @ [u ''spec.md'']))) (\<lambda>spec.
          bindE (lift_spec (read_text fs p)) (\<lambda>test.
            lift_spec (mk_task_spec (u ''src/'' @ List.last task_dir @ u ''.py'') spec test 1 b [] False)))
      | ps \<Rightarrow> Inl (Not_One_Oracle (length ps)))"

text \<open>What the raw path prints: the deltas joined, and the first terminal and trailer frames.\<close>

definition raw_transcript :: "sse_event list \<Rightarrow> pystr" where
  "raw_transcript es = concat (map (\<lambda>e. case e of Delta t \<Rightarrow> t | _ \<Rightarrow> []) es)"

definition raw_finish :: "sse_event list \<Rightarrow> pystr option" where
  "raw_finish es = (case List.map_filter (\<lambda>e. case e of Finish r \<Rightarrow> Some r | _ \<Rightarrow> None) es of
     [] \<Rightarrow> None | r # _ \<Rightarrow> Some r)"

definition raw_usage :: "sse_event list \<Rightarrow> int option" where
  "raw_usage es = (case List.map_filter (\<lambda>e. case e of Usage n \<Rightarrow> Some n | _ \<Rightarrow> None) es of
     [] \<Rightarrow> None | n # _ \<Rightarrow> Some n)"

text \<open>\<open>_print_provenance\<close>: the two facts every transcript needs, then the fields of the path.\<close>

definition provenance :: "(params \<Rightarrow> pystr) \<Rightarrow> pystr \<Rightarrow> params \<Rightarrow> (pystr \<times> pystr) list \<Rightarrow> pystr list" where
  "provenance show_params served ps named =
     [u ''--- model: '' @ served,
      u ''--- generation params: '' @ (if ps = [] then u ''(none)'' else show_params ps)]
     @ map (\<lambda>(label, v). u ''--- '' @ label @ u '': '' @ v) named"

section \<open>The example run end to end\<close>

definition example_command ::
  "(json \<Rightarrow> pystr) \<Rightarrow> pystr \<Rightarrow> pystr \<Rightarrow> pystr \<Rightarrow> pystr \<Rightarrow> params \<Rightarrow> pystr list" where
  "example_command dumps executable example base_url served ps =
     [executable, example, u ''--base-url'', base_url, u ''--model'', served]
     @ (if ps = [] then [] else [u ''--generation-params'', dumps (JObj ps)])"

section \<open>Properties\<close>

lemma utf8_concat: "length (utf8_bytes (concat (replicate n s))) = n * length (utf8_bytes s)"
  by (induction n) (simp_all add: utf8_bytes_append)

text \<open>The prefix that is sent reaches the target and overshoots it by less than one card.\<close>

theorem sized_prefix_reaches_the_target:
  "TARGET_PREFIX_BYTES \<le> length (utf8_bytes (benchmark_sized_prefix c))
   \<and> length (utf8_bytes (benchmark_sized_prefix c)) < TARGET_PREFIX_BYTES + length (utf8_bytes (c @ [NL]))"
proof -
  define b where "b = length (utf8_bytes (c @ [NL]))"
  define n where "n = nat \<lceil>(of_nat TARGET_PREFIX_BYTES :: rat) / of_nat b\<rceil>"
  have "utf8_bytes [NL] \<noteq> []" by (simp add: utf8_bytes_def encode_cp_def encode_nat_def)
  then have b: "0 < b" by (simp add: b_def utf8_bytes_append)
  let ?q = "(of_nat TARGET_PREFIX_BYTES :: rat) / of_nat b"
  have q: "0 \<le> ?q" by simp
  then have n: "(of_nat n :: rat) = of_int \<lceil>?q\<rceil>" by (simp add: n_def)
  have "?q \<le> of_nat n" unfolding n by (rule le_of_int_ceiling)
  then have "of_nat TARGET_PREFIX_BYTES \<le> (of_nat n * of_nat b :: rat)" using b by (simp add: divide_le_eq)
  then have lo: "TARGET_PREFIX_BYTES \<le> n * b" by (metis of_nat_le_iff of_nat_mult)
  have "of_nat n < ?q + 1" unfolding n by linarith
  then have "of_nat n * of_nat b < (of_nat TARGET_PREFIX_BYTES + of_nat b :: rat)"
    using b by (simp add: field_simps)
  then have hi: "n * b < TARGET_PREFIX_BYTES + b" by (metis of_nat_add of_nat_less_iff of_nat_mult)
  have "length (utf8_bytes (benchmark_sized_prefix c)) = n * b"
    unfolding benchmark_sized_prefix_def Let_def utf8_concat n_def b_def ..
  with lo hi show ?thesis by (simp add: b_def)
qed

text \<open>A capture that does not hold the served id is written as it was recorded, and replacing an id by
  itself changes nothing.\<close>

lemma replaced_absent:
  "utf8_bytes served \<noteq> [] \<Longrightarrow> \<not> occurs_in (utf8_bytes served) raw \<Longrightarrow>
     with_model_id_replaced raw served name = raw"
  by (simp add: with_model_id_replaced_def replace_seq_def split_seq_absent)

lemma replaced_same: "with_model_id_replaced raw served served = raw"
  by (simp add: with_model_id_replaced_def replace_seq_def join_split_seq)

text \<open>With a draft model exactly the enforcing control is skipped.\<close>

lemma controls_with_draft: "controls_sent (Some d) = butlast CONTROLS" "controls_sent None = CONTROLS"
  by (simp_all add: controls_sent_def CONTROLS_def is_unservable_combination_def THINKING_BUDGET_def u_def)

end
