(* ===== verification/Score_Style.thy ===== *)
theory Score_Style
  imports Filesystem "HOL-Library.List_Lexorder" "HOL-Library.Product_Lexorder"
begin

text \<open>
  \<open>scripts/score_style.py\<close>: the style report of produced code, case by case.  The linter's findings
  (\<open>benchmarks/harness/style.py\<close>) are a parameter; the lines and the exit code are computed.
\<close>

record style_finding =
  sf_case :: pystr
  sf_rule :: pystr

definition STYLE_USAGE_ERROR :: int where "STYLE_USAGE_ERROR = 2"

text \<open>A \<open>Counter\<close>, as its items in sorted order.\<close>

definition counted :: "pystr list \<Rightarrow> (pystr \<times> nat) list" where
  "counted xs = map (\<lambda>x. (x, count_list xs x)) (sort (remdups xs))"

definition pad_left :: "nat \<Rightarrow> pystr \<Rightarrow> pystr" where
  "pad_left n s = replicate (n - length s) 32 @ s"

definition pad_right :: "nat \<Rightarrow> pystr \<Rightarrow> pystr" where
  "pad_right n s = s @ replicate (n - length s) 32"

definition case_findings :: "style_finding list \<Rightarrow> pystr \<Rightarrow> style_finding list" where
  "case_findings fs c = filter (\<lambda>f. sf_case f = c) fs"

definition breakdown :: "style_finding list \<Rightarrow> pystr \<Rightarrow> pystr" where
  "breakdown fs c =
     (let s = join (u ''  '') (map (\<lambda>(r, n). r @ u '' x'' @ str_nat n)
                (counted (map sf_rule (case_findings fs c))))
      in if s = [] then u ''clean'' else s)"

definition case_line :: "nat \<Rightarrow> style_finding list \<Rightarrow> pystr \<Rightarrow> pystr" where
  "case_line width fs c =
     u ''  '' @ pad_right width c @ u ''  '' @ pad_left 3 (str_nat (length (case_findings fs c)))
       @ u '' findings   '' @ breakdown fs c"

text \<open>\<open>_report\<close>; the width of no cases at all is never asked for.\<close>

definition report_lines :: "style_finding list \<Rightarrow> pystr list \<Rightarrow> pystr list" where
  "report_lines fs cases =
     (let width = foldr max (map length cases) 0
      in map (case_line width fs) cases
         @ [[], u ''  '' @ pad_right width (u ''TOTAL'') @ u ''  '' @ pad_left 3 (str_nat (length fs))
                @ u '' findings across '' @ str_nat (length cases) @ u '' case(s)''])"

text \<open>\<open>_report_directory\<close>: standard output, standard error and the directory's exit code.\<close>

definition cases_in :: "fs \<Rightarrow> path \<Rightarrow> pystr list" where
  "cases_in fs d = (case realpath fs d of
     None \<Rightarrow> [] | Some r \<Rightarrow> sort (map List.last (filter (is_dir fs) (children fs r))))"

definition report_directory ::
  "(path \<Rightarrow> style_finding list) \<Rightarrow> fs \<Rightarrow> path \<Rightarrow> pystr list \<times> pystr list \<times> int" where
  "report_directory lint fs d =
     (if \<not> is_dir fs d then ([], [u ''not a directory: '' @ str_path d], STYLE_USAGE_ERROR)
      else if cases_in fs d = []
      then ([], [str_path d @ u '' holds no produced code''], STYLE_USAGE_ERROR)
      else ([[], u ''style findings for '' @ List.last d, []] @ report_lines (lint d) (cases_in fs d), [], 0))"

text \<open>\<open>main\<close>: every directory is reported, and the worst code is returned.\<close>

definition score_style_main ::
  "(path \<Rightarrow> style_finding list) \<Rightarrow> fs \<Rightarrow> path \<Rightarrow> path option \<Rightarrow> path list
     \<Rightarrow> pystr list \<times> pystr list \<times> int" where
  "score_style_main lint fs scorecards latest named =
     (let report = (\<lambda>ds. (concat (map (\<lambda>d. fst (report_directory lint fs d)) ds),
                          concat (map (\<lambda>d. fst (snd (report_directory lint fs d))) ds),
                          Max (set (map (\<lambda>d. snd (snd (report_directory lint fs d))) ds))))
      in if named \<noteq> [] then report named
         else case latest of
           None \<Rightarrow> ([], [u ''no produced-code directory found under '' @ str_path scorecards], STYLE_USAGE_ERROR)
         | Some d \<Rightarrow> report [d])"

section \<open>Lemmas\<close>

lemma one_in_distinct:
  "distinct xs \<Longrightarrow> sum_list (map (\<lambda>c. if a = c then 1 else 0) xs) = (if a \<in> set xs then 1 else (0 :: nat))"
  by (induction xs) auto

lemma case_counts:
  "distinct cases \<Longrightarrow> \<forall>f\<in>set fs. sf_case f \<in> set cases \<Longrightarrow>
     sum_list (map (\<lambda>c. length (case_findings fs c)) cases) = length fs"
proof (induction fs)
  case Nil
  then show ?case by (simp add: case_findings_def)
next
  case (Cons f fs)
  have "sum_list (map (\<lambda>c. length (case_findings (f # fs) c)) cases)
      = sum_list (map (\<lambda>c. (if sf_case f = c then 1 else 0) + length (case_findings fs c)) cases)"
    by (rule arg_cong [where f = sum_list]) (simp add: case_findings_def)
  also have "\<dots> = sum_list (map (\<lambda>c. if sf_case f = c then 1 else 0) cases) + length fs"
    using Cons by (simp add: sum_list_addf)
  also have "sum_list (map (\<lambda>c. if sf_case f = c then 1 else 0) cases) = (1 :: nat)"
    using Cons.prems by (simp add: one_in_distinct)
  finally show ?case by simp
qed

text \<open>The exit code is zero or two, and two exactly when a named directory could not be reported.\<close>

lemma report_code:
  "snd (snd (report_directory lint fs d)) = (if is_dir fs d \<and> cases_in fs d \<noteq> [] then 0 else 2)"
  by (simp add: report_directory_def STYLE_USAGE_ERROR_def)

lemma score_style_code:
  assumes "named \<noteq> []"
  shows "snd (snd (score_style_main lint fs scorecards latest named))
    = (if \<forall>d\<in>set named. is_dir fs d \<and> cases_in fs d \<noteq> [] then 0 else 2)"
proof -
  let ?S = "(\<lambda>d. snd (snd (report_directory lint fs d))) ` set named"
  have m: "snd (snd (score_style_main lint fs scorecards latest named)) = Max ?S"
    using assms by (simp add: score_style_main_def Let_def)
  show ?thesis
  proof (cases "\<forall>d\<in>set named. is_dir fs d \<and> cases_in fs d \<noteq> []")
    case True
    then have "?S = (\<lambda>_. 0) ` set named" by (intro image_cong) (simp_all add: report_code)
    also have "\<dots> = {0}" using assms by (simp add: image_constant_conv)
    finally have "?S = {0}" .
    with m True show ?thesis by simp
  next
    case False
    then have "2 \<in> ?S" "\<forall>x\<in>?S. x \<le> 2" by (force simp: report_code)+
    then have "Max ?S = 2" by (intro Max_eqI) auto
    with m False show ?thesis by simp
  qed
qed

end
