(* ===== verification/Launch.thy ===== *)
theory Launch
  imports Model_Session Sweep Probes
begin

text \<open>
  The main functions of the scripts that serve a model themselves: \<open>benchmark_model.py\<close>,
  \<open>e2e_local_model.py\<close>, \<open>capture_sse_fixture.py\<close>, \<open>measure_first_byte.py\<close> and \<open>probe_reply.py\<close>, from
  their parsed arguments.
  Each resolves a name, launches its server and works inside the running block; what the block does
  is built from the parts the engine itself uses, so that what a script sends is computed.
\<close>

section \<open>A served model\<close>

text \<open>The machine a script runs on: the interpreter, the registry, the files, what the server process
  does and what its HTTP endpoint answers.\<close>

record machine =
  m_executable :: pystr
  m_registry :: model_registry
  m_files :: fs
  m_serving :: serving
  m_get :: "pystr \<Rightarrow> pystr + pystr"
  m_str :: "json \<Rightarrow> pystr"

text \<open>What ends a script before its server starts: a refused override is a \<open>SystemExit\<close>.\<close>

datatype launch_error =
    Unresolved registry_error
  | Refused registry_error
  | Unservable server_error
  | Bad_Bounds exn
  | Bad_Task spec_error
  | Unreadable_Card exn

definition lift_left :: "('a \<Rightarrow> 'b) \<Rightarrow> 'a + 'c \<Rightarrow> 'b + 'c" where
  "lift_left f r = (case r of Inl x \<Rightarrow> Inl (f x) | Inr v \<Rightarrow> Inr v)"

definition resolved_on :: "machine \<Rightarrow> pystr \<Rightarrow> launch_error + resolved_model" where
  "resolved_on mach name = lift_left Unresolved (resolve_model (m_registry mach) (m_files mach) name)"

text \<open>The running block around a body that is given the handle and the id the server advertises.\<close>

definition serve ::
  "machine \<Rightarrow> pyfloat \<Rightarrow> resolved_model \<Rightarrow> (server_handle \<Rightarrow> pystr \<Rightarrow> server_error + 'a)
     \<Rightarrow> launch_error + (session option \<times> 'a block_end) option" where
  "serve mach startup_timeout_s m body =
     bindE (lift_left Unservable (for_model (m_executable mach) m DEFAULT_MAX_TOKENS)) (\<lambda>server.
       Inr (running (m_serving mach) startup_timeout_s server (\<lambda>handle.
         bindE (served_model_id (m_str mach) (m_get mach) handle) (body handle))))"

section \<open>Running a command against it\<close>

text \<open>\<open>run\<close> is \<open>subprocess.run\<close>: the child's return code, or what spawning it raises.  The block's
  value is the command and its code.\<close>

definition run_against ::
  "machine \<Rightarrow> (pystr list \<Rightarrow> exn + int) \<Rightarrow> pyfloat \<Rightarrow> pystr
     \<Rightarrow> (resolved_model \<Rightarrow> server_handle \<Rightarrow> pystr \<Rightarrow> pystr list)
     \<Rightarrow> launch_error + (session option \<times> (pystr list \<times> int) block_end) option" where
  "run_against mach run startup_timeout_s name command =
     bindE (resolved_on mach name) (\<lambda>m.
       serve mach startup_timeout_s m (\<lambda>handle served.
         bindE (lift_left Body_Raised (run (command m handle served))) (\<lambda>code.
           Inr (command m handle served, code))))"

definition benchmark_model_main ::
  "machine \<Rightarrow> (pystr list \<Rightarrow> exn + int) \<Rightarrow> (json \<Rightarrow> pystr) \<Rightarrow> pyfloat \<Rightarrow> pystr \<Rightarrow> pystr \<Rightarrow> bool \<Rightarrow> pystr list
     \<Rightarrow> bool \<Rightarrow> pystr option \<Rightarrow> launch_error + (session option \<times> (pystr list \<times> int) block_end) option" where
  "benchmark_model_main mach run dumps startup_timeout_s name out stream only planned rules_card =
     run_against mach run startup_timeout_s name (\<lambda>m handle served.
       benchmark_command dumps (m_executable mach) (sh_base_url handle) served out (rm_params m) stream
         only planned rules_card)"

definition e2e_main ::
  "machine \<Rightarrow> (pystr list \<Rightarrow> exn + int) \<Rightarrow> (json \<Rightarrow> pystr) \<Rightarrow> pystr \<Rightarrow> pyfloat \<Rightarrow> pystr
     \<Rightarrow> launch_error + (session option \<times> (pystr list \<times> int) block_end) option" where
  "e2e_main mach run dumps example startup_timeout_s name =
     run_against mach run startup_timeout_s name (\<lambda>m handle served.
       example_command dumps (m_executable mach) example (sh_base_url handle) served (rm_params m))"

section \<open>Capturing a fixture\<close>

definition joined :: "byte_stream \<Rightarrow> server_error + bytes" where
  "joined s = (case s of (chunks, None) \<Rightarrow> Inr (concat chunks) | (_, Some x) \<Rightarrow> Inl (Body_Raised x))"

text \<open>Writing the capture once the server is down; encoding an id with a lone surrogate raises.\<close>

definition write_capture :: "fs \<Rightarrow> path \<Rightarrow> pystr \<Rightarrow> pystr \<times> bytes \<Rightarrow> exn + fs" where
  "write_capture fs destination name taken =
     (case taken of (model, raw) \<Rightarrow>
        if \<not> encodable model \<or> \<not> encodable name then Inl Unicode_Encode_Error
        else write_bytes fs destination (with_model_id_replaced raw model name))"

definition capture_main ::
  "machine \<Rightarrow> transport \<Rightarrow> pyfloat \<Rightarrow> pystr \<Rightarrow> params option \<Rightarrow> pystr \<Rightarrow> pystr \<Rightarrow> int \<Rightarrow> pyfloat \<Rightarrow> path
     \<Rightarrow> launch_error + (session option \<times> (exn + fs) block_end) option" where
  "capture_main mach post startup_timeout_s name override sys usr max_toks timeout_s destination =
     bindE (resolved_on mach name) (\<lambda>m.
     bindE (lift_left Refused (generation_params_with m override)) (\<lambda>ps.
     bindE (serve mach startup_timeout_s m (\<lambda>handle served.
         bindE (lift_left Body_Raised (mk_budget 1 max_toks timeout_s DEFAULT_ORACLE_TIMEOUT_S)) (\<lambda>b.
         bindE (joined (httpx_stream post (mk_httpx (sh_base_url handle) served ps) sys usr b)) (\<lambda>raw.
           Inr (served, raw))))) (\<lambda>ended.
       Inr (map_option (map_prod id (map_block_end (write_capture (m_files mach) destination name))) ended))))"

section \<open>Measuring the first byte\<close>

definition REPLY_TOKENS :: int where "REPLY_TOKENS = DEFAULT_MAX_TOKENS"
definition GENERATION_TIMEOUT_S :: pyfloat where "GENERATION_TIMEOUT_S = Fin 1800"

text \<open>The clock is read before the request and when \<open>next\<close> returns the first chunk; a stream that ends
  at once raises \<open>StopIteration\<close> there.\<close>

definition time_to_first_byte :: "rat \<Rightarrow> rat \<Rightarrow> byte_stream \<Rightarrow> server_error + rat \<times> pystr" where
  "time_to_first_byte sent arrived s =
     (case s of
        (_, Some x) \<Rightarrow> Inl (Body_Raised x)
      | ([], None) \<Rightarrow> Inl Stop_Iteration
      | (chunks, None) \<Rightarrow>
          (case decode_strict (concat chunks) of
             None \<Rightarrow> Inl (Body_Raised Unicode_Decode_Error)
           | Some raw \<Rightarrow> Inr (arrived - sent, raw)))"

text \<open>The clock readings of one measurement.\<close>

record stopwatch =
  sw_launched :: rat
  sw_ready :: rat
  sw_sent :: rat
  sw_arrived :: rat

text \<open>\<open>round1\<close> is \<open>round(x, 1)\<close>; the result is the object that is printed.\<close>

definition measurement ::
  "(rat \<Rightarrow> rat) \<Rightarrow> pystr \<Rightarrow> int \<Rightarrow> rat \<times> rat \<times> pystr \<Rightarrow> probe_error + (pystr \<times> json) list" where
  "measurement round1 name max_toks taken =
     (case taken of (ready_s, first_byte_s, raw) \<Rightarrow>
        bindE (timings raw) (\<lambda>ts.
          Inr (dict_display [(u ''model'', JStr name), (u ''max_tokens'', JInt max_toks),
                 (u ''ready_s'', JFloat (Fin (round1 ready_s))),
                 (u ''first_byte_s'', JFloat (Fin (round1 first_byte_s)))] ts)))"

definition measure_main ::
  "machine \<Rightarrow> transport \<Rightarrow> stopwatch \<Rightarrow> (rat \<Rightarrow> rat) \<Rightarrow> path \<Rightarrow> pyfloat \<Rightarrow> pystr \<Rightarrow> int
     \<Rightarrow> launch_error + (session option \<times> (probe_error + (pystr \<times> json) list) block_end) option" where
  "measure_main mach post w round1 card_path startup_timeout_s name max_toks =
     bindE (lift_left Unreadable_Card (read_text (m_files mach) card_path)) (\<lambda>card_text.
     bindE (resolved_on mach name) (\<lambda>m.
     bindE (serve mach startup_timeout_s m (\<lambda>handle served.
         bindE (lift_left Body_Raised (mk_budget 1 max_toks GENERATION_TIMEOUT_S DEFAULT_ORACLE_TIMEOUT_S)) (\<lambda>b.
         bindE (time_to_first_byte (sw_sent w) (sw_arrived w)
             (httpx_stream post (mk_httpx (sh_base_url handle) served []) (benchmark_sized_prefix card_text)
                (u ''Reply with exactly: OK'') b)) (\<lambda>(first_byte_s, raw).
           Inr (sw_ready w - sw_launched w, first_byte_s, raw))))) (\<lambda>ended.
       Inr (map_option (map_prod id (map_block_end (measurement round1 name max_toks))) ended))))"

section \<open>Probing a reply\<close>

definition DERAIL_UNMEASURED :: pystr where
  "DERAIL_UNMEASURED = u ''not measured (--raw bypasses the derail guard)''"

text \<open>How \<open>f"{value}"\<close> shows what a transcript is printed with.\<close>

definition show_opt :: "('a \<Rightarrow> pystr) \<Rightarrow> 'a option \<Rightarrow> pystr" where
  "show_opt f x = (case x of None \<Rightarrow> u ''None'' | Some v \<Rightarrow> f v)"

definition derail_member :: "derail_reason \<Rightarrow> pystr" where
  "derail_member r = u ''DerailReason.'' @
     (case r of Repetition \<Rightarrow> u ''REPETITION'' | Token_Cap \<Rightarrow> u ''TOKEN_CAP''
      | Timeout \<Rightarrow> u ''TIMEOUT'' | Silent \<Rightarrow> u ''SILENT'')"

definition raw_fields :: "sse_event list \<Rightarrow> (pystr \<times> pystr) list" where
  "raw_fields evs =
     [(u ''finish_reason'', show_opt id (raw_finish evs)), (u ''derail_reason'', DERAIL_UNMEASURED),
      (u ''completion_tokens'', show_opt str_int (raw_usage evs)),
      (u ''reply chars'', str_nat (length (raw_transcript evs)))]"

definition generation_fields :: "generation_result \<Rightarrow> (pystr \<times> pystr) list" where
  "generation_fields g =
     [(u ''finish_reason'', show_opt id (finish_reason g)),
      (u ''derail_reason'', show_opt derail_member (r_derail g)),
      (u ''completion_tokens'', str_int (completion_tokens g)),
      (u ''reply chars'', str_nat (length (r_text g))),
      (u ''extract_file'', show_opt reply_path (extract_file (r_text g)))]"

text \<open>What the block comes to: the lines for standard error and the text for standard output.\<close>

definition raw_reply :: "(params \<Rightarrow> pystr) \<Rightarrow> pystr \<Rightarrow> params \<Rightarrow> byte_stream \<Rightarrow> server_error + pystr list \<times> pystr" where
  "raw_reply show_params model ps s =
     (case s of (chunks, err) \<Rightarrow>
        (case decode_sse chunks of (evs, e) \<Rightarrow>
           (case loop_end e err of
              Some x \<Rightarrow> Inl (Body_Raised x)
            | None \<Rightarrow> Inr (provenance show_params model ps (raw_fields evs), raw_transcript evs))))"

definition client_reply ::
  "(nat \<Rightarrow> rat) \<Rightarrow> (nat \<Rightarrow> transport) \<Rightarrow> (params \<Rightarrow> pystr) \<Rightarrow> pystr \<Rightarrow> pystr \<Rightarrow> params \<Rightarrow> pystr \<Rightarrow> pystr \<Rightarrow> budget
     \<Rightarrow> server_error + pystr list \<times> pystr" where
  "client_reply clk post show_params base_url model ps prefix tail b =
     (case generate clk (derail_ops clk) (call_generate post)
             \<lparr>backend = (mk_httpx base_url model ps, 0), total_calls = 0\<rparr> 0 prefix tail b of
        (_, Inl x, _) \<Rightarrow> Inl (Body_Raised x)
      | (_, Inr g, _) \<Rightarrow> Inr (provenance show_params model ps (generation_fields g), r_text g))"

record probe_arguments =
  pa_model :: pystr
  pa_task_dir :: path
  pa_tail :: pystr
  pa_raw :: bool
  pa_params :: "params option"
  pa_max_tokens :: int
  pa_generation_timeout :: pyfloat
  pa_startup_timeout :: pyfloat

definition probe_reply_main ::
  "machine \<Rightarrow> (nat \<Rightarrow> rat) \<Rightarrow> (nat \<Rightarrow> transport) \<Rightarrow> (bytes \<Rightarrow> pystr) \<Rightarrow> path \<Rightarrow> (params \<Rightarrow> pystr) \<Rightarrow> probe_arguments
     \<Rightarrow> launch_error + (session option \<times> (pystr list \<times> pystr) block_end) option" where
  "probe_reply_main mach clk post sha256_hex card_path show_params a =
     bindE (lift_left Bad_Bounds (mk_budget 1 (pa_max_tokens a) (pa_generation_timeout a)
              DEFAULT_ORACLE_TIMEOUT_S)) (\<lambda>b.
     bindE (lift_left Bad_Task (spec_from (m_files mach) (pa_task_dir a) b)) (\<lambda>spec.
     bindE (resolved_on mach (pa_model a)) (\<lambda>m.
     bindE (lift_left Refused (generation_params_with m (pa_params a))) (\<lambda>ps.
       serve mach (pa_startup_timeout a) m (\<lambda>handle served.
         bindE (lift_left Body_Raised (bindE (read_text (m_files mach) card_path) (mk_builder sha256_hex))) (\<lambda>pb.
           let prefix = stable_prefix pb spec [] in
           if pa_raw a
           then raw_reply show_params served ps
                  (httpx_stream (post 0) (mk_httpx (sh_base_url handle) served ps) prefix (pa_tail a) b)
           else client_reply clk post show_params (sh_base_url handle) served ps prefix (pa_tail a) b))))))"

section \<open>What a command says\<close>

definition BENCHMARK_OPTIONS :: "pystr list" where
  "BENCHMARK_OPTIONS = [u ''--base-url'', u ''--model'', u ''--out'', u ''--generation-params'', u ''--stream'',
     u ''--plan-first'', u ''--rules-card'', u ''--only'']"

lemma options_apart:
  assumes "flag \<in> set BENCHMARK_OPTIONS" and "opt \<in> set BENCHMARK_OPTIONS"
  shows "reaches flag opt \<longleftrightarrow> flag = opt"
proof -
  have "\<forall>flag\<in>set BENCHMARK_OPTIONS. \<forall>opt\<in>set BENCHMARK_OPTIONS. reaches flag opt = (flag = opt)"
    by code_simp
  with assms show ?thesis by blast
qed

lemma option_pair:
  "plain_value v \<Longrightarrow> 61 \<notin> set flag \<Longrightarrow>
     option_values opt (flag # v # ts) = (if reaches flag opt then [v] else []) @ option_values opt ts"
  by (simp add: plain_reaches)

lemma option_switch: "\<not> reaches flag opt \<Longrightarrow> option_values opt (flag # ts) = option_values opt ts"
  by simp

lemma option_pairs:
  "list_all plain_value vs \<Longrightarrow> 61 \<notin> set flag \<Longrightarrow>
     option_values opt (concat (map (\<lambda>v. [flag, v]) vs)) = (if reaches flag opt then vs else [])"
  by (induction vs) (simp_all add: plain_reaches)

lemma benchmark_command_says:
  assumes "list_all plain_value ([base_url, model, out, dumps (JObj ps)] @ only)"
    and "case rules_card of None \<Rightarrow> True | Some c \<Rightarrow> plain_value c"
    and "opt \<in> set BENCHMARK_OPTIONS - {u ''--stream'', u ''--plan-first''}"
  shows "option_values opt
     (drop 3 (benchmark_command dumps executable base_url model out ps stream only planned rules_card)) =
     (if opt = u ''--base-url'' then [base_url] else if opt = u ''--model'' then [model]
      else if opt = u ''--out'' then [out]
      else if opt = u ''--generation-params'' then (if ps = [] then [] else [dumps (JObj ps)])
      else if opt = u ''--rules-card'' then (case rules_card of None \<Rightarrow> [] | Some c \<Rightarrow> [c])
      else only)"
proof -
  have o: "u ''--base-url'' \<in> set BENCHMARK_OPTIONS" "u ''--model'' \<in> set BENCHMARK_OPTIONS" 
    "u ''--out'' \<in> set BENCHMARK_OPTIONS" "u ''--generation-params'' \<in> set BENCHMARK_OPTIONS" 
    "u ''--stream'' \<in> set BENCHMARK_OPTIONS" "u ''--plan-first'' \<in> set BENCHMARK_OPTIONS" 
    "u ''--rules-card'' \<in> set BENCHMARK_OPTIONS" "u ''--only'' \<in> set BENCHMARK_OPTIONS" 
    "opt \<in> set BENCHMARK_OPTIONS" using assms(3)
    by (auto simp: BENCHMARK_OPTIONS_def)
  note r = o(1-8) [THEN options_apart, OF o(9)]
  have n: "61 \<notin> set (u ''--base-url'')" "61 \<notin> set (u ''--model'')" "61 \<notin> set (u ''--out'')"
    "61 \<notin> set (u ''--generation-params'')" "61 \<notin> set (u ''--rules-card'')" "61 \<notin> set (u ''--only'')"
    by (simp_all add: u_def)
  have s: "\<not> reaches (u ''--stream'') opt" "\<not> reaches (u ''--plan-first'') opt"
    using assms(3) r by auto
  have whole: "option_values opt (drop 3 (benchmark_command dumps executable base_url model out ps stream only
      planned rules_card)) =
     (if reaches (u ''--base-url'') opt then [base_url] else [])
     @ (if reaches (u ''--model'') opt then [model] else [])
     @ (if reaches (u ''--out'') opt then [out] else [])
     @ (if reaches (u ''--generation-params'') opt \<and> ps \<noteq> [] then [dumps (JObj ps)] else [])
     @ (if reaches (u ''--rules-card'') opt then case rules_card of None \<Rightarrow> [] | Some c \<Rightarrow> [c] else [])
     @ (if reaches (u ''--only'') opt then only else [])"
    using assms(1,2) s unfolding benchmark_command_def
    by (cases rules_card; cases stream; cases planned; cases "ps = []")
      (simp_all del: option_values.simps(2) add: option_pair option_pairs option_switch n)
  from assms(3) consider "opt = u ''--base-url''" | "opt = u ''--model''" | "opt = u ''--out''"
    | "opt = u ''--generation-params''" | "opt = u ''--rules-card''" | "opt = u ''--only''"
    by (auto simp: BENCHMARK_OPTIONS_def)
  then show ?thesis unfolding whole r by cases (simp_all add: u_def)
qed

lemma benchmark_command_reads:
  assumes "list_all plain_value ([base_url, model, out, dumps (JObj ps)] @ only)"
    and "case rules_card of None \<Rightarrow> True | Some c \<Rightarrow> plain_value c"
    and "cmd = benchmark_command dumps executable base_url model out ps stream only planned rules_card"
  shows "argparse_value (u ''--base-url'') (drop 3 cmd) = Some base_url"
    and "argparse_value (u ''--model'') (drop 3 cmd) = Some model"
    and "argparse_value (u ''--out'') (drop 3 cmd) = Some out"
    and "argparse_value (u ''--generation-params'') (drop 3 cmd) =
      (if ps = [] then None else Some (dumps (JObj ps)))"
    and "argparse_value (u ''--rules-card'') (drop 3 cmd) = rules_card"
    and "option_values (u ''--only'') (drop 3 cmd) = only"
  unfolding argparse_value_def assms(3)
  by (subst benchmark_command_says [where dumps = dumps and ps = ps, OF assms(1,2)],
      simp add: BENCHMARK_OPTIONS_def u_def, simp add: u_def split: option.split)+

lemma lift_left_Inr [simp]: "lift_left f r = Inr v \<longleftrightarrow> r = Inr v"
  by (simp add: lift_left_def split: sum.split)

lemma base_url_plain: "plain_value (server_base_url s)"
  by (simp add: plain_value_def server_base_url_def u_def startswith_def)

lemma run_against_value:
  assumes "run_against mach run T name command = Inr (Some (Some g, Block_Value (cmd, code)))"
  obtains m server model where
    "resolve_model (m_registry mach) (m_files mach) name = Inr m"
    and "for_model (m_executable mach) m DEFAULT_MAX_TOKENS = Inr server"
    and "served_model_id (m_str mach) (m_get mach) \<lparr>sh_base_url = server_base_url server,
           sh_port = ms_port server, sh_pid = v_pid (m_serving mach)\<rparr> = Inr model"
    and "cmd = command m \<lparr>sh_base_url = server_base_url server, sh_port = ms_port server,
           sh_pid = v_pid (m_serving mach)\<rparr> model"
    and "run cmd = Inr code" and "\<not> g_alive (s_leader g)"
proof -
  from assms obtain m server where
    m: "resolve_model (m_registry mach) (m_files mach) name = Inr m"
      "for_model (m_executable mach) m DEFAULT_MAX_TOKENS = Inr server"
    and r: "running (m_serving mach) T server (\<lambda>handle.
         bindE (served_model_id (m_str mach) (m_get mach) handle) (\<lambda>model.
           bindE (lift_left Body_Raised (run (command m handle model))) (\<lambda>code.
             Inr (command m handle model, code)))) = Some (Some g, Block_Value (cmd, code))"
    by (auto simp: run_against_def resolved_on_def serve_def bindE_eq_Inr)
  from running_value [OF r] that [OF m] show ?thesis by (auto simp: bindE_eq_Inr)
qed

section \<open>Properties\<close>

text \<open>What a benchmark measures is the row it was asked for: when the chain of one model returns, the
  command it ran, read the way \<open>argparse\<close> reads it, names the address of the server the row
  launched, the id that server advertised, the row's own parameters and every case in order, and
  the server is dead.\<close>

theorem benchmark_runs_the_row:
  assumes "benchmark_model_main mach run dumps T name out stream only planned rules_card
      = Inr (Some (Some g, Block_Value (cmd, code)))"
    and "\<And>handle model. served_model_id (m_str mach) (m_get mach) handle = Inr model \<Longrightarrow> plain_value model"
    and "\<And>j. plain_value (dumps j)" and "plain_value out" and "list_all plain_value only"
    and "case rules_card of None \<Rightarrow> True | Some c \<Rightarrow> plain_value c"
  shows "\<exists>m server model. resolve_model (m_registry mach) (m_files mach) name = Inr m
    \<and> for_model (m_executable mach) m DEFAULT_MAX_TOKENS = Inr server
    \<and> served_model_id (m_str mach) (m_get mach) \<lparr>sh_base_url = server_base_url server,
         sh_port = ms_port server, sh_pid = v_pid (m_serving mach)\<rparr> = Inr model
    \<and> argparse_value (u ''--base-url'') (drop 3 cmd) = Some (server_base_url server)
    \<and> argparse_value (u ''--model'') (drop 3 cmd) = Some model
    \<and> argparse_value (u ''--out'') (drop 3 cmd) = Some out
    \<and> argparse_value (u ''--generation-params'') (drop 3 cmd) =
         (if rm_params m = [] then None else Some (dumps (JObj (rm_params m))))
    \<and> argparse_value (u ''--rules-card'') (drop 3 cmd) = rules_card
    \<and> option_values (u ''--only'') (drop 3 cmd) = only
    \<and> run cmd = Inr code \<and> \<not> g_alive (s_leader g)"
proof -
  obtain m server model where a:
    "resolve_model (m_registry mach) (m_files mach) name = Inr m"
    "for_model (m_executable mach) m DEFAULT_MAX_TOKENS = Inr server"
    "served_model_id (m_str mach) (m_get mach) \<lparr>sh_base_url = server_base_url server,
           sh_port = ms_port server, sh_pid = v_pid (m_serving mach)\<rparr> = Inr model"
    and cmd: "cmd = benchmark_command dumps (m_executable mach) (server_base_url server) model out
       (rm_params m) stream only planned rules_card"
    and e: "run cmd = Inr code" "\<not> g_alive (s_leader g)"
    using run_against_value [OF assms(1) [unfolded benchmark_model_main_def]] by (metis server_handle.select_convs(1))
  have p: "list_all plain_value ([server_base_url server, model, out, dumps (JObj (rm_params m))] @ only)"
    using assms(2) [OF a(3)] assms(3-5) base_url_plain by simp
  from a e benchmark_command_reads [where dumps = dumps and ps = "rm_params m", OF p assms(6) cmd] show ?thesis by blast
qed

definition small_machine :: machine where
  "small_machine = \<lparr>m_executable = u ''py'', m_registry = small_registry, m_files = small_store,
     m_serving = ready_serving, m_get = one_model, m_str = (\<lambda>_. [])\<rparr>"

lemma small_serve:
  "serve small_machine (Fin 1) small_model body = Inr (Some
     (Some (terminate_session (group_at ready_serving 0)),
      (case body \<lparr>sh_base_url = u ''http://127.0.0.1:80'', sh_port = 80, sh_pid = 7\<rparr> (u ''/m/A'') of
         Inl failure \<Rightarrow> Block_Failed failure None | Inr x \<Rightarrow> Block_Value x)))"
proof -
  obtain server where f: "for_model (u ''py'') small_model DEFAULT_MAX_TOKENS = Inr server"
    and p: "ms_port server = 80" "server_base_url server = u ''http://127.0.0.1:80''"
  proof -
    have "redeclared_builder_options (rm_flags small_model) = []" by code_simp
    moreover have "u ''http://'' @ LOOPBACK @ u '':'' @ str_int 80 = u ''http://127.0.0.1:80''" by code_simp
    ultimately show ?thesis using that by (simp add: for_model_def server_base_url_def small_model_def)
  qed
  have "await_readiness (v_turns ready_serving) (v_start ready_serving) (Fin 1) server = Some (0, Inr ())"
    by (simp add: await_readiness_def await_from.simps readiness_turn_def ready_serving_def)
  moreover have "return_code ready_serving 0 = None" "\<not> v_bound ready_serving"
    "v_spawn_error ready_serving = None" "v_pid ready_serving = 7"
    by (simp_all add: return_code_def ready_serving_def)
  ultimately show ?thesis
    using one_model_served p
    by (simp add: serve_def small_machine_def f lift_left_def running_def split: sum.split)
qed

theorem benchmark_runs_the_row_witness:
  "\<exists>g cmd. benchmark_model_main small_machine (\<lambda>_. Inr 1) (\<lambda>_. u ''{}'') (Fin 1) (u ''A'') (u ''o'') True
       [u ''02'', u ''01''] False None = Inr (Some (Some g, Block_Value (cmd, 1)))
     \<and> argparse_value (u ''--model'') (drop 3 cmd) = Some (u ''/m/A'')
     \<and> option_values (u ''--only'') (drop 3 cmd) = [u ''02'', u ''01''] \<and> \<not> g_alive (s_leader g)"
proof -
  have r: "resolved_on small_machine (u ''A'') = Inr small_model"
    by (simp add: resolved_on_def small_machine_def small_resolves)
  then obtain g cmd where b: "benchmark_model_main small_machine (\<lambda>_. Inr 1) (\<lambda>_. u ''{}'') (Fin 1)
      (u ''A'') (u ''o'') True [u ''02'', u ''01''] False None = Inr (Some (Some g, Block_Value (cmd, 1)))"
    by (simp add: benchmark_model_main_def run_against_def small_serve lift_left_def)
  have "plain_value model" if "served_model_id (m_str small_machine) (m_get small_machine) h = Inr model" for h model
    using that by (simp add: small_machine_def one_model_served plain_value_def)
       (auto simp: u_def startswith_def)
  moreover have "plain_value (u ''{}'')" "plain_value (u ''o'')" "list_all plain_value [u ''02'', u ''01'']"
    by code_simp+
  ultimately show ?thesis
    using benchmark_runs_the_row [OF b] b by (fastforce simp: small_machine_def one_model_served)
qed

text \<open>The replacement of a capture looks at bytes, not at the field that carries the id: a reply that
  quotes the served path is changed with it.\<close>

lemma replacement_reaches_the_reply:
  "decode_sse [ascii ''data: {\"choices\":[{\"delta\":{\"content\":\"/A\"}}]}'' @ [10, 10]]
     = ([Delta (u ''/A'')], Ended)"
  "with_model_id_replaced
       (ascii ''data: {\"choices\":[{\"delta\":{\"content\":\"/A\"}}]}'' @ [10, 10]) (u ''/A'') (u ''B'')
     = ascii ''data: {\"choices\":[{\"delta\":{\"content\":\"B\"}}]}'' @ [10, 10]"
  "decode_sse [ascii ''data: {\"choices\":[{\"delta\":{\"content\":\"B\"}}]}'' @ [10, 10]]
     = ([Delta (u ''B'')], Ended)"
  by code_simp+

end
