(* ===== verification/Quicksort_Example.thy ===== *)
theory Quicksort_Example
  imports Argparse Cli Launch Json_Print
begin

text \<open>
  \<open>examples/quicksort/run.py\<close>: the example that drives \<open>implement\<close> with the quicksort task, from its
  argument list to its exit code, and its composition with \<open>scripts/e2e_local_model.py\<close>, which
  serves a model and runs the example against it.
\<close>

section \<open>The task\<close>

definition IMPL_PATH :: pystr where "IMPL_PATH = u ''src/quicksort.py''"
definition EXPECTED_TESTS :: int where "EXPECTED_TESTS = 7"

definition example_budget :: "exn + budget" where
  "example_budget = mk_budget 5 4096 (Fin 300) DEFAULT_ORACLE_TIMEOUT_S"

definition build_spec :: "fs \<Rightarrow> path \<Rightarrow> exn + task_spec" where
  "build_spec fs here =
     bindE example_budget (\<lambda>b.
     bindE (read_text fs (here @ [u ''spec.md''])) (\<lambda>spec.
     bindE (read_text fs (here @ [u ''quicksort_oracle.py''])) (\<lambda>test.
       mk_task_spec IMPL_PATH spec test EXPECTED_TESTS b [] False)))"

section \<open>The arguments\<close>

definition EXAMPLE_OPTIONS :: "(pystr \<times> option_kind) list" where
  "EXAMPLE_OPTIONS = [(u ''--help'', Help), (u ''--base-url'', Takes_Value), (u ''--model'', Takes_Value),
     (u ''--generation-params'', Takes_Value)]"

record example_args =
  x_base_url :: "pystr option"
  x_model :: "pystr option"
  x_params :: params

definition store_example :: "pystr \<Rightarrow> pystr \<Rightarrow> example_args \<Rightarrow> int + example_args" where
  "store_example opt v args =
     (if opt = u ''--base-url'' then Inr (args\<lparr>x_base_url := Some v\<rparr>)
      else if opt = u ''--model'' then Inr (args\<lparr>x_model := Some v\<rparr>)
      else (case generation_params_from_json v of
              Inl _ \<Rightarrow> Inl 2 | Inr ps \<Rightarrow> Inr (args\<lparr>x_params := ps\<rparr>)))"

text \<open>The environment gives the defaults; no option is a switch.\<close>

definition parse_example :: "(pystr \<Rightarrow> pystr option) \<Rightarrow> pystr list \<Rightarrow> int + example_args" where
  "parse_example getenv argv =
     consume EXAMPLE_OPTIONS (\<lambda>_ args. args) store_example False
       \<lparr>x_base_url = getenv BASE_URL_ENV, x_model = getenv MODEL_ENV, x_params = []\<rparr> argv"

section \<open>The run\<close>

text \<open>\<open>xe_fixed1\<close> is the format \<open>:.1f\<close>.\<close>

record example_env =
  xe_getenv :: "pystr \<Rightarrow> pystr option"
  xe_here :: path
  xe_card :: path
  xe_host :: host
  xe_py_str :: "json \<Rightarrow> pystr"
  xe_fixed1 :: "rat \<Rightarrow> pystr"

definition not_given :: "string \<Rightarrow> string \<Rightarrow> pystr \<Rightarrow> pystr" where
  "not_given what flag env_var =
     u ''error: no '' @ u what @ u '' given (pass '' @ u flag @ u '' or set '' @ env_var @ u '')''"

definition economy_line :: "(rat \<Rightarrow> pystr) \<Rightarrow> economy_record \<Rightarrow> pystr" where
  "economy_line fixed1 r =
     u ''[economy] '' @ str_nat (er_total_calls r) @ u '' call(s), ''
       @ str_int (er_tokens r) @ u '' completion tokens, '' @ fixed1 (er_seconds r) @ u ''s decode, ''
       @ (case er_mean r of Some m \<Rightarrow> fixed1 m | None \<Rightarrow> u ''n/a'') @ u '' tok/s''
       @ (if er_estimated r then u ''  (tokens estimated)'' else [])"

text \<open>The file system after the run, and standard output, the lines of standard error and the code, or
  what \<open>main\<close> raises.\<close>

definition example_main ::
  "example_env \<Rightarrow> pystr list \<Rightarrow> fs \<Rightarrow> fs \<times> (exn + pystr \<times> pystr list \<times> int)" where
  "example_main env argv fs =
     (case parse_example (xe_getenv env) argv of
        Inl code \<Rightarrow> (fs, Inr ([], [], code))
      | Inr args \<Rightarrow>
          (case x_base_url args of
             None \<Rightarrow> (fs, Inr ([], [not_given ''server'' ''--base-url'' BASE_URL_ENV], 2))
           | Some [] \<Rightarrow> (fs, Inr ([], [not_given ''server'' ''--base-url'' BASE_URL_ENV], 2))
           | Some base_url \<Rightarrow>
               (case x_model args of
                  None \<Rightarrow> (fs, Inr ([], [not_given ''model'' ''--model'' MODEL_ENV], 2))
                | Some [] \<Rightarrow> (fs, Inr ([], [not_given ''model'' ''--model'' MODEL_ENV], 2))
                | Some model \<Rightarrow>
                    (case build_spec fs (xe_here env) of
                       Inl x \<Rightarrow> (fs, Inl x)
                     | Inr spec \<Rightarrow>
                         (case implement (xe_host env) spec base_url model (x_params args) (xe_card env) None fs of
                            (fs', Inl x) \<Rightarrow> (fs', Inl x)
                          | (fs', Inr oc) \<Rightarrow>
                              (fs', Inr (case oc_code oc of None \<Rightarrow> [] | Some c \<Rightarrow> c,
                                 [outcome_summary (xe_py_str env) oc, economy_line (xe_fixed1 env) (oc_record oc)],
                                 if oc_status oc = Done then 0 else 1)))))))"

text \<open>The return code of the process: what \<open>main\<close> raises ends it with 1.\<close>

definition process_code :: "exn + pystr \<times> pystr list \<times> int \<Rightarrow> int" where
  "process_code r = (case r of Inl _ \<Rightarrow> 1 | Inr (_, _, code) \<Rightarrow> code)"

definition run_example :: "example_env \<Rightarrow> fs \<Rightarrow> pystr list \<Rightarrow> exn + int" where
  "run_example env fs cmd = Inr (process_code (snd (example_main env (drop 2 cmd) fs)))"

interpretation example_table: option_table EXAMPLE_OPTIONS
proof
  show "distinct (map fst EXAMPLE_OPTIONS)" by code_simp
  show "startswith opt (u ''--'') \<and> 2 < length opt \<and> 61 \<notin> set opt" if "(opt, k) \<in> set EXAMPLE_OPTIONS" for opt k
    using that by (auto simp: EXAMPLE_OPTIONS_def u_def startswith_def)
qed

section \<open>Reading the command of the end-to-end run\<close>

lemma example_listed:
  "(u ''--base-url'', Takes_Value) \<in> set EXAMPLE_OPTIONS" "(u ''--model'', Takes_Value) \<in> set EXAMPLE_OPTIONS"
  "(u ''--generation-params'', Takes_Value) \<in> set EXAMPLE_OPTIONS"
  by (simp_all add: EXAMPLE_OPTIONS_def)

lemma store_examples:
  "store_example (u ''--base-url'') v args = Inr (args\<lparr>x_base_url := Some v\<rparr>)"
  "store_example (u ''--model'') v args = Inr (args\<lparr>x_model := Some v\<rparr>)"
  "generation_params_from_json v = Inr ps \<Longrightarrow>
     store_example (u ''--generation-params'') v args = Inr (args\<lparr>x_params := ps\<rparr>)"
  by (simp_all add: store_example_def u_def)

lemma example_command_reads:
  assumes "\<not> startswith base_url [45]" and "\<not> startswith model [45]"
    and "\<not> startswith (dumps (JObj ps)) [45]" and "generation_params_from_json (dumps (JObj ps)) = Inr ps"
  shows "parse_example getenv (drop 2 (example_command dumps executable example base_url model ps)) =
     Inr \<lparr>x_base_url = Some base_url, x_model = Some model, x_params = ps\<rparr>"
  using assms
  by (simp add: parse_example_def example_command_def example_table.read_separate [OF example_listed(1)]
      example_table.read_separate [OF example_listed(2)] example_table.read_separate [OF example_listed(3)]
      store_examples)

text \<open>Parameters printed by \<open>json.dumps\<close> are read back by the option's converter.\<close>

lemma printed_object:
  assumes "readable repr (JObj ps)"
  shows "\<not> startswith (json_dumps repr None (JObj ps)) [45]"
    and "generation_params_from_json (json_dumps repr None (JObj ps)) = Inr ps"
proof -
  show "generation_params_from_json (json_dumps repr None (JObj ps)) = Inr ps"
    by (simp add: generation_params_from_json_def loads_dumps [OF assms])
  show "\<not> startswith (json_dumps repr None (JObj ps)) [45]"
    by (simp add: json_dumps_def bracketed_def startswith_def)
qed

section \<open>Properties\<close>

text \<open>C34. The exit code of the end-to-end script is the outcome of the run it set up: the example parses the
  command to the address of the server the script launched, the id that server advertised and the
  row's own parameters, \<open>implement\<close> is run with exactly these, and the code is 0 when it ended DONE, 1
  when it ended otherwise or raised, and 2 when the server advertised an empty id; by then the
  server is dead.  The advertised id, which is the store path of the weights, must not begin with a
  dash, and the row's parameters must be JSON that prints and reads back.\<close>

theorem end_to_end_code_is_the_outcome:
  assumes "e2e_main mach (run_example env fs) (json_dumps repr None) example T name = Inr (Some (Some g, Block_Value (cmd, code)))"
    and "\<And>handle model. served_model_id (m_str mach) (m_get mach) handle = Inr model \<Longrightarrow> \<not> startswith model [45]"
    and "\<And>m. resolve_model (m_registry mach) (m_files mach) name = Inr m \<Longrightarrow> readable repr (JObj (rm_params m))"
  shows "\<exists>m server model. resolve_model (m_registry mach) (m_files mach) name = Inr m
    \<and> for_model (m_executable mach) m DEFAULT_MAX_TOKENS = Inr server
    \<and> served_model_id (m_str mach) (m_get mach) \<lparr>sh_base_url = server_base_url server,
         sh_port = ms_port server, sh_pid = v_pid (m_serving mach)\<rparr> = Inr model
    \<and> code = (if model = [] then 2 else
         case build_spec fs (xe_here env) of
           Inl _ \<Rightarrow> 1
         | Inr spec \<Rightarrow>
             (case snd (implement (xe_host env) spec (server_base_url server) model (rm_params m)
                     (xe_card env) None fs) of
                Inl _ \<Rightarrow> 1 | Inr oc \<Rightarrow> if oc_status oc = Done then 0 else 1))
    \<and> \<not> g_alive (s_leader g)"
proof -
  obtain m server model where a:
    "resolve_model (m_registry mach) (m_files mach) name = Inr m"
    "for_model (m_executable mach) m DEFAULT_MAX_TOKENS = Inr server"
    "served_model_id (m_str mach) (m_get mach) \<lparr>sh_base_url = server_base_url server,
           sh_port = ms_port server, sh_pid = v_pid (m_serving mach)\<rparr> = Inr model"
    and cmd: "cmd = example_command (json_dumps repr None) (m_executable mach) example (server_base_url server) model (rm_params m)"
    and e: "run_example env fs cmd = Inr code" "\<not> g_alive (s_leader g)"
    using run_against_value [OF assms(1) [unfolded e2e_main_def]] by (metis server_handle.select_convs(1))
  have u: "\<not> startswith (server_base_url server) [45]" "\<exists>c cs. server_base_url server = c # cs"
    by (simp_all add: server_base_url_def u_def startswith_def)
  then have p: "parse_example (xe_getenv env) (drop 2 cmd) =
      Inr \<lparr>x_base_url = Some (server_base_url server), x_model = Some model, x_params = rm_params m\<rparr>"
    unfolding cmd using assms(2) [OF a(3)] printed_object [OF assms(3) [OF a(1)]]
    by (intro example_command_reads) auto
  from u(2) e(1) p have "code = (if model = [] then 2 else
         case build_spec fs (xe_here env) of
           Inl _ \<Rightarrow> 1
         | Inr spec \<Rightarrow>
             (case snd (implement (xe_host env) spec (server_base_url server) model (rm_params m)
                     (xe_card env) None fs) of
                Inl _ \<Rightarrow> 1 | Inr oc \<Rightarrow> if oc_status oc = Done then 0 else 1))"
    by (auto simp: run_example_def process_code_def example_main_def split: sum.splits list.splits prod.splits)
  with a e(2) show ?thesis by blast
qed

definition quick_host :: host where
  "quick_host = \<lparr>h_clk = (\<lambda>_. 0),
     h_post = (\<lambda>n url body. No_Response (Request_Error (u ''ConnectError'') (u ''refused''))),
     h_oracle = (\<lambda>i fs. \<lparr>o_executable = u ''python'',
       o_spawn = (\<lambda>cmd cwd box. (Spawned [] [], Some (ascii ''0''))),
       o_parse = (\<lambda>t. Some (Elem (u ''testsuite'') [(u ''tests'', u ''7''), (u ''failures'', t)] [])),
       o_tmp = [u ''box'']\<rparr>),
     h_sha256 = (\<lambda>_. u ''0123456789abcdef''), h_tmp = [u ''t'']\<rparr>"

definition quick_env :: example_env where
  "quick_env = \<lparr>xe_getenv = (\<lambda>_. None), xe_here = [u ''here''], xe_card = [u ''card''], xe_host = quick_host,
     xe_py_str = (\<lambda>_. []), xe_fixed1 = (\<lambda>_. [])\<rparr>"

definition quick_fs :: fs where
  "quick_fs = [([u ''card''], File (ascii ''rules'')), ([u ''here''], Dir),
     ([u ''here'', u ''spec.md''], File (ascii ''sort'')),
     ([u ''here'', u ''quicksort_oracle.py''], File (ascii ''assert 1''))]"

abbreviation quick_repr :: "pyfloat \<Rightarrow> pystr" where
  "quick_repr \<equiv> \<lambda>_. []"

lemma small_executable: "m_executable small_machine = u ''py''"
  by (simp add: small_machine_def)

definition quick_spec :: task_spec where
  "quick_spec = \<lparr>impl_path = IMPL_PATH, spec_text = u ''sort'', test_text = u ''assert 1'', expected_tests = 7,
     task_budget = \<lparr>max_attempts = 5, max_tokens = 4096, generation_timeout_s = Fin 300,
       oracle_timeout_s = Fin 120\<rparr>, context_files = [], plan_first = False\<rparr>"

lemma quick_built: "build_spec quick_fs [u ''here''] = Inr quick_spec"
  by code_simp

lemma quick_in:
  "case implement_in quick_host quick_spec (u ''http://127.0.0.1:80'') (u ''/m/A'') (rm_params small_model)
      [u ''card''] (u ''src'') [u ''t''] (fs_put [u ''t''] Dir quick_fs) of
     (_, Inl x) \<Rightarrow> is_unavailable x | (_, Inr oc) \<Rightarrow> False"
  by code_simp

lemma quick_nested: "writable_subtree IMPL_PATH = Inr (u ''src'')"
  by code_simp

lemma quick_raises:
  obtains x where "snd (implement quick_host quick_spec (u ''http://127.0.0.1:80'') (u ''/m/A'')
      (rm_params small_model) [u ''card''] None quick_fs) = Inl x" and "is_unavailable x"
  using quick_in quick_nested
  by (auto simp: implement_def quick_spec_def quick_host_def split: prod.splits sum.splits)

lemma quick_params:
  "\<not> startswith (u ''/m/A'') [45]" "readable quick_repr (JObj (rm_params small_model))"
  by (simp_all add: u_def startswith_def small_model_def is_high_def is_low_def)

lemma small_url:
  "for_model (m_executable small_machine) small_model DEFAULT_MAX_TOKENS = Inr server \<Longrightarrow>
     server_base_url server = u ''http://127.0.0.1:80''"
proof -
  assume f: "for_model (m_executable small_machine) small_model DEFAULT_MAX_TOKENS = Inr server"
  have "u ''http://'' @ LOOPBACK @ u '':'' @ str_int 80 = u ''http://127.0.0.1:80''" by code_simp
  with for_model_Inr [OF f] show ?thesis by (simp add: server_base_url_def small_model_def)
qed

lemma small_machine_finds:
  "resolve_model (m_registry small_machine) (m_files small_machine) (u ''A'') = Inr small_model"
  "served_model_id (m_str small_machine) (m_get small_machine) h = Inr (u ''/m/A'')"
  by (simp_all add: small_machine_def small_resolves one_model_served)

theorem end_to_end_code_is_the_outcome_witness:
  "\<exists>g cmd x. e2e_main small_machine (run_example quick_env quick_fs) (json_dumps quick_repr None) (u ''x'') (Fin 1) (u ''A'')
       = Inr (Some (Some g, Block_Value (cmd, 1)))
     \<and> build_spec quick_fs [u ''here''] = Inr quick_spec
     \<and> snd (implement quick_host quick_spec (u ''http://127.0.0.1:80'') (u ''/m/A'') (rm_params small_model)
         [u ''card''] None quick_fs) = Inl x \<and> is_unavailable x \<and> \<not> g_alive (s_leader g)"
proof -
  obtain x where x: "snd (implement quick_host quick_spec (u ''http://127.0.0.1:80'') (u ''/m/A'')
      (rm_params small_model) [u ''card''] None quick_fs) = Inl x" "is_unavailable x"
    by (rule quick_raises)
  have "resolved_on small_machine (u ''A'') = Inr small_model"
    by (simp add: resolved_on_def small_machine_def small_resolves)
  then obtain g cmd code where b: "e2e_main small_machine (run_example quick_env quick_fs) (json_dumps quick_repr None) (u ''x'')
      (Fin 1) (u ''A'') = Inr (Some (Some g, Block_Value (cmd, code)))"
    by (simp add: e2e_main_def run_against_def small_serve lift_left_def run_example_def)
  have q: "xe_host quick_env = quick_host" "xe_card quick_env = [u ''card'']" "xe_here quick_env = [u ''here'']"
    by (simp_all add: quick_env_def)
  have ne: "u ''/m/A'' \<noteq> []" by (simp add: u_def)
  from end_to_end_code_is_the_outcome [OF b] quick_params small_machine_finds have
    "code = 1 \<and> \<not> g_alive (s_leader g)"
    using small_url x quick_built q ne by fastforce
  with b x quick_built show ?thesis by blast
qed

end
