(* ===== verification/Text_Files.thy ===== *)
theory Text_Files
  imports Filesystem
begin

text \<open>
  What strict decoding yields, and how writing a text file is refused: text read from a file is always
  encodable again, writing encodable text fails only by a refusal of the operating system, and reading
  does not see what is only added.
\<close>

section \<open>Decoded text\<close>

lemma those_set: "those xs = Some ys \<Longrightarrow> y \<in> set ys \<Longrightarrow> Some y \<in> set xs"
  by (induction xs arbitrary: ys) (auto split: option.splits)

lemma decode_strict_encodable: "decode_strict bs = Some s \<Longrightarrow> encodable s"
  using those_set decode_items_scalar by (fastforce simp: decode_strict_def encodable_def list_all_iff)

lemma universal_newlines_set: "c \<in> set (universal_newlines s) \<Longrightarrow> c \<in> set s \<or> c = NL"
  by (induction s rule: universal_newlines.induct) (auto split: if_splits)

lemma read_text_encodable: "read_text fs p = Inr t \<Longrightarrow> encodable t"
proof -
  assume "read_text fs p = Inr t"
  then obtain bs s where "decode_strict bs = Some s" "t = universal_newlines s"
    by (auto simp: read_text_def bindE_eq_Inr decode_text_def split: option.splits)
  then show ?thesis
    using decode_strict_encodable [of bs s] universal_newlines_set [of _ s]
    by (fastforce simp: encodable_def list_all_iff is_scalar_def)
qed

section \<open>Refusals\<close>

lemma mkdir1_refused: "mkdir1 fs p = Inl x \<Longrightarrow> x = OS_Error"
  by (auto simp: mkdir1_def split: if_splits option.splits)

lemma mkdirs_refused: "mkdirs fs p = Inl x \<Longrightarrow> x = OS_Error"
proof -
  have "mkdirs_from fs dn cs = Inl x \<Longrightarrow> x = OS_Error" for fs dn cs
    by (induction fs dn cs rule: mkdirs_from.induct) (auto simp: bindE_eq_Inl mkdir1_refused)
  then show "mkdirs fs p = Inl x \<Longrightarrow> x = OS_Error" by (auto simp: mkdirs_def split: if_splits)
qed

lemma write_text_refused: "write_text fs p t = Inl x \<Longrightarrow> encodable t \<Longrightarrow> x = OS_Error"
  by (auto simp: write_text_def utf8_encode_def write_bytes_def split: if_splits option.splits)

section \<open>Additions\<close>

text \<open>Reading does not see what is only added.\<close>

definition extends :: "fs \<Rightarrow> fs \<Rightarrow> bool" where
  "extends fs fs' \<longleftrightarrow> (\<forall>q. fs_get fs q \<noteq> None \<longrightarrow> fs_get fs' q = fs_get fs q)"

lemma extendsD: "extends fs fs' \<Longrightarrow> fs_get fs q = Some n \<Longrightarrow> fs_get fs' q = Some n"
  unfolding extends_def by (metis option.distinct(1))

lemma walk_extends:
  "walk k mk fs cur cs = Some r \<Longrightarrow> \<not> mk \<Longrightarrow> extends fs fs' \<Longrightarrow> walk k mk fs' cur cs = Some r"
proof (induction k mk fs cur cs rule: walk.induct)
  case (1 k mk fs cur)
  then show ?case by simp
next
  case (2 k mk fs cur c cs)
  have d: "fs_get fs cur = Some Dir" using "2.prems"(1) by (simp add: walk.simps(2) split: if_splits)
  note d' = extendsD [OF "2.prems"(3) d]
  show ?case
  proof (cases "c = DOTDOT")
    case True
    with "2.IH"(1) d d' "2.prems" show ?thesis by (simp add: walk.simps(2))
  next
    case False
    with "2.prems" d obtain n where n: "fs_get fs (cur @ [c]) = Some n"
      by (cases "fs_get fs (cur @ [c])") (simp_all add: walk.simps(2))
    show ?thesis
    proof (cases n)
      case (Link t)
      with "2.IH"(4) [OF _ False n] extendsD [OF "2.prems"(3) n] "2.prems" d d' False n show ?thesis
        by (simp add: walk.simps(2) split: if_splits)
    qed (use "2.IH"(2,3) [OF _ False n] extendsD [OF "2.prems"(3) n] "2.prems" d d' False n in
           \<open>simp_all add: walk.simps(2)\<close>)
  qed
qed

lemma read_text_extends:
  assumes "read_text fs p = Inr t" and "extends fs fs'"
  shows "read_text fs' p = Inr t"
proof -
  from assms(1) obtain b r where r: "realpath fs p = Some r" "fs_get fs r = Some (File b)"
    and t: "decode_text b = Inr t"
    by (auto simp: read_text_def read_bytes_def bindE_eq_Inr split: option.splits node.splits)
  from walk_extends [OF r(1) [unfolded realpath_def] _ assms(2)] have "realpath fs' p = Some r"
    by (simp add: realpath_def)
  with extendsD [OF assms(2) r(2)] t show ?thesis by (simp add: read_text_def read_bytes_def)
qed

end
