(* ===== verification/Harness_Case.thy ===== *)
theory Harness_Case
  imports Entrypoint Model_Registry "HOL-Library.List_Lexorder"
begin

text \<open>
  \<open>benchmarks/harness/case.py\<close> and \<open>loader.py\<close>: a benchmark case, the checks its construction makes,
  and the cases read from their directories.  Python's parser, Unicode's canonical caseless form and
  the TOML reader are parameters.
\<close>

section \<open>Errors\<close>

datatype case_reason =
    No_Declared_Tests
  | Context_Not_Golden pystr
  | Duplicate_Golden_Path pystr
  | Golden_Path_Collision pystr
  | Impl_Path_Not_Golden pystr
  | Target_Exposed
  | Duplicate_Context_Path pystr
  | Context_Differs pystr
  | Pin_Differs int int

text \<open>\<open>Raised\<close> is an exception of the package; the others are raised by the harness, or by the Python
  parser and the TOML reader it calls.\<close>

datatype case_error = Raised exn | Invalid_Case case_reason | Syntax_Error | Manifest_Error

definition lift_case :: "exn + 'a \<Rightarrow> case_error + 'a" where
  "lift_case r = (case r of Inl x \<Rightarrow> Inl (Raised x) | Inr a \<Rightarrow> Inr a)"

lemma lift_case_Inr [simp]: "lift_case r = Inr a \<longleftrightarrow> r = Inr a"
  by (cases r) (simp_all add: lift_case_def)

section \<open>The oracle's declared tests\<close>

text \<open>The module-level statements of a source file, as \<open>ast\<close> gives them.\<close>

datatype statement = Function_Def pystr | Async_Function_Def pystr | Other_Statement

type_synonym parser = "pystr \<Rightarrow> statement list option"

definition declares_test :: "statement \<Rightarrow> bool" where
  "declares_test s = (case s of
     Function_Def n \<Rightarrow> startswith n (u ''test_'')
   | Async_Function_Def n \<Rightarrow> startswith n (u ''test_'')
   | Other_Statement \<Rightarrow> False)"

definition oracle_test_count :: "parser \<Rightarrow> pystr \<Rightarrow> case_error + int" where
  "oracle_test_count ast oracle =
     (case ast oracle of
        None \<Rightarrow> Inl Syntax_Error
      | Some body \<Rightarrow> Inr (int (length (filter declares_test body))))"

section \<open>The golden tree, by path\<close>

text \<open>The index so far and the canonical paths seen; \<open>canonical\<close> is the caseless form of the NFC form.\<close>

fun index_golden ::
  "(pystr \<Rightarrow> pystr) \<Rightarrow> context_file list \<Rightarrow> (pystr \<times> context_file) list \<Rightarrow> pystr list
     \<Rightarrow> case_error + (pystr \<times> context_file) list" where
  "index_golden canonical [] index seen = Inr index"
| "index_golden canonical (g # gs) index seen =
     bindE (lift_case (require_nested_relative_file (cf_path g))) (\<lambda>_.
       if map_of index (cf_path g) \<noteq> None then Inl (Invalid_Case (Duplicate_Golden_Path (cf_path g)))
       else if canonical (cf_path g) \<in> set seen then Inl (Invalid_Case (Golden_Path_Collision (cf_path g)))
       else index_golden canonical gs (index @ [(cf_path g, g)]) (canonical (cf_path g) # seen))"

definition golden_files_by_path ::
  "(pystr \<Rightarrow> pystr) \<Rightarrow> context_file list \<Rightarrow> case_error + (pystr \<times> context_file) list" where
  "golden_files_by_path canonical tree = index_golden canonical tree [] []"

section \<open>The case\<close>

record benchmark_case =
  case_task :: task_spec
  golden_tree :: "context_file list"
  blank_stub :: pystr

text \<open>The loop over the context files of \<open>__post_init__\<close>.\<close>

fun check_context ::
  "pystr \<Rightarrow> (pystr \<times> context_file) list \<Rightarrow> context_file list \<Rightarrow> pystr list \<Rightarrow> case_error + unit" where
  "check_context impl index [] seen = Inr ()"
| "check_context impl index (c # cs) seen =
     bindE (lift_case (require_nested_relative_file (cf_path c))) (\<lambda>_.
       if cf_path c = impl then Inl (Invalid_Case Target_Exposed)
       else if cf_path c \<in> set seen then Inl (Invalid_Case (Duplicate_Context_Path (cf_path c)))
       else case map_of index (cf_path c) of
              None \<Rightarrow> Inl (Invalid_Case (Context_Not_Golden (cf_path c)))
            | Some g \<Rightarrow>
                if cf_content c \<noteq> cf_content g then Inl (Invalid_Case (Context_Differs (cf_path c)))
                else check_context impl index cs (cf_path c # seen))"

definition post_init :: "parser \<Rightarrow> (pystr \<Rightarrow> pystr) \<Rightarrow> benchmark_case \<Rightarrow> case_error + benchmark_case" where
  "post_init ast canonical c =
     bindE (lift_case (require_nested_relative_file (impl_path (case_task c)))) (\<lambda>_.
     bindE (golden_files_by_path canonical (golden_tree c)) (\<lambda>index.
       if map_of index (impl_path (case_task c)) = None
       then Inl (Invalid_Case (Impl_Path_Not_Golden (impl_path (case_task c))))
       else bindE (check_context (impl_path (case_task c)) index (context_files (case_task c)) []) (\<lambda>_.
            bindE (oracle_test_count ast (test_text (case_task c))) (\<lambda>n.
              if expected_tests (case_task c) \<noteq> n
              then Inl (Invalid_Case (Pin_Differs (expected_tests (case_task c)) n))
              else Inr c))))"

definition context_file_at :: "(pystr \<times> context_file) list \<Rightarrow> pystr \<Rightarrow> case_error + context_file" where
  "context_file_at index path = (case map_of index path of
     None \<Rightarrow> Inl (Invalid_Case (Context_Not_Golden path)) | Some g \<Rightarrow> Inr g)"

definition from_fixtures ::
  "parser \<Rightarrow> (pystr \<Rightarrow> pystr) \<Rightarrow> pystr \<Rightarrow> pystr \<Rightarrow> pystr \<Rightarrow> context_file list \<Rightarrow> pystr \<Rightarrow> pystr list \<Rightarrow> budget
     \<Rightarrow> case_error + benchmark_case" where
  "from_fixtures ast canonical impl spec oracle tree stub context_paths b =
     bindE (oracle_test_count ast oracle) (\<lambda>n.
       if n = 0 then Inl (Invalid_Case No_Declared_Tests)
       else bindE (golden_files_by_path canonical tree) (\<lambda>index.
            bindE (mapE (context_file_at index) context_paths) (\<lambda>ctx.
            bindE (lift_case (mk_task_spec impl spec oracle n b ctx False)) (\<lambda>t.
              post_init ast canonical \<lparr>case_task = t, golden_tree = tree, blank_stub = stub\<rparr>))))"

text \<open>\<open>dataclasses.replace\<close> constructs both values anew, checks included.\<close>

definition replace_plan_first :: "task_spec \<Rightarrow> case_error + task_spec" where
  "replace_plan_first t = lift_case (mk_task_spec (impl_path t) (spec_text t) (test_text t) (expected_tests t)
     (task_budget t) (context_files t) True)"

definition planning_first :: "parser \<Rightarrow> (pystr \<Rightarrow> pystr) \<Rightarrow> benchmark_case \<Rightarrow> case_error + benchmark_case" where
  "planning_first ast canonical c =
     bindE (replace_plan_first (case_task c)) (\<lambda>t. post_init ast canonical (c\<lparr>case_task := t\<rparr>))"

section \<open>Loading\<close>

record manifest =
  mf_impl_path :: pystr
  mf_context_paths :: "pystr list"
  mf_max_attempts :: int
  mf_max_tokens :: int
  mf_generation_timeout :: pyfloat
  mf_oracle_timeout :: pyfloat

record fixture_reader =
  fx_ast :: parser
  fx_canonical :: "pystr \<Rightarrow> pystr"
  fx_toml :: "pystr \<Rightarrow> manifest option"

definition ends_with :: "pystr \<Rightarrow> pystr \<Rightarrow> bool" where
  "ends_with s t = startswith (rev s) (rev t)"

text \<open>\<open>sorted(app.rglob("*.py"))\<close>: the paths below the root, each with its path relative to the root's
  parent.\<close>

definition golden_paths :: "fs \<Rightarrow> path \<Rightarrow> path list" where
  "golden_paths fs app = (case realpath fs app of
     None \<Rightarrow> []
   | Some r \<Rightarrow> sort (map (drop (length r)) (filter (\<lambda>p. ends_with (List.last p) (u ''.py'')) (rglob fs r))))"

definition golden_snapshot :: "fs \<Rightarrow> path \<Rightarrow> case_error + context_file list" where
  "golden_snapshot fs app =
     mapE (\<lambda>p. bindE (lift_case (read_text fs (app @ p))) (\<lambda>t.
             lift_case (mk_context_file (as_posix False (List.last app # p)) t)))
       (golden_paths fs app)"

definition load_case :: "fixture_reader \<Rightarrow> fs \<Rightarrow> path \<Rightarrow> path \<Rightarrow> case_error + benchmark_case" where
  "load_case rd fs app dir =
     bindE (lift_case (read_text fs (dir @ [u ''case.toml'']))) (\<lambda>toml.
     bindE (case fx_toml rd toml of None \<Rightarrow> Inl Manifest_Error | Some m \<Rightarrow> Inr m) (\<lambda>m.
     bindE (lift_case (read_text fs (dir @ [u ''spec.md'']))) (\<lambda>spec.
     bindE (lift_case (read_text fs (dir @ [u ''oracle.py'']))) (\<lambda>oracle.
     bindE (golden_snapshot fs app) (\<lambda>tree.
     bindE (lift_case (read_text fs (join_path (dir @ [u ''blank'']) (mf_impl_path m)))) (\<lambda>stub.
     bindE (lift_case (mk_budget (mf_max_attempts m) (mf_max_tokens m) (mf_generation_timeout m)
              (mf_oracle_timeout m))) (\<lambda>b.
       from_fixtures (fx_ast rd) (fx_canonical rd) (mf_impl_path m) spec oracle tree stub
         (mf_context_paths m) b)))))))"

text \<open>\<open>sorted(cases_dir.iterdir())\<close>, directories only, each case under its directory's name.\<close>

definition case_names :: "fs \<Rightarrow> path \<Rightarrow> pystr list" where
  "case_names fs cases_dir = (case realpath fs cases_dir of
     None \<Rightarrow> []
   | Some r \<Rightarrow> filter (\<lambda>n. is_dir fs (cases_dir @ [n])) (sort (map List.last (children fs r))))"

definition load_cases ::
  "fixture_reader \<Rightarrow> fs \<Rightarrow> path \<Rightarrow> path \<Rightarrow> case_error + (pystr \<times> benchmark_case) list" where
  "load_cases rd fs app cases_dir =
     (if \<not> is_dir fs cases_dir then Inl (Raised OS_Error)
      else mapE (\<lambda>n. bindE (load_case rd fs app (cases_dir @ [n])) (\<lambda>c. Inr (n, c)))
             (case_names fs cases_dir))"

section \<open>What a constructed case is\<close>

text \<open>One hole in a complete golden tree: the paths are nested files, no two of them equal or equal but
  for case, the target is one of them, and what the model is shown is golden and never the target.\<close>

definition one_hole :: "parser \<Rightarrow> (pystr \<Rightarrow> pystr) \<Rightarrow> benchmark_case \<Rightarrow> bool" where
  "one_hole ast canonical c \<longleftrightarrow>
     (let paths = map cf_path (golden_tree c); ctx = context_files (case_task c) in
      (\<forall>p\<in>set paths. \<exists>ps. require_nested_relative_file p = Inr ps)
      \<and> distinct paths \<and> distinct (map canonical paths)
      \<and> impl_path (case_task c) \<in> set paths
      \<and> set ctx \<subseteq> set (golden_tree c) \<and> distinct (map cf_path ctx)
      \<and> impl_path (case_task c) \<notin> set (map cf_path ctx)
      \<and> oracle_test_count ast (test_text (case_task c)) = Inr (expected_tests (case_task c)))"

lemma index_golden_iff:
  "index_golden canonical gs index seen = Inr index' \<longleftrightarrow>
     index' = index @ map (\<lambda>g. (cf_path g, g)) gs
     \<and> (\<forall>g\<in>set gs. \<exists>ps. require_nested_relative_file (cf_path g) = Inr ps)
     \<and> distinct (map cf_path gs) \<and> set (map cf_path gs) \<inter> fst ` set index = {}
     \<and> distinct (map (canonical \<circ> cf_path) gs) \<and> set (map (canonical \<circ> cf_path) gs) \<inter> set seen = {}"
proof (induction gs arbitrary: index seen)
  case Nil
  then show ?case by auto
next
  case (Cons g gs)
  have m: "map_of index (cf_path g) = None \<longleftrightarrow> cf_path g \<notin> fst ` set index"
    by (simp add: map_of_eq_None_iff)
  show ?case
    by (cases "require_nested_relative_file (cf_path g)")
      (auto simp: Cons.IH lift_case_def m simp del: not_None_eq)
qed

lemma golden_index_iff:
  "golden_files_by_path canonical tree = Inr index \<longleftrightarrow>
     index = map (\<lambda>g. (cf_path g, g)) tree
     \<and> (\<forall>g\<in>set tree. \<exists>ps. require_nested_relative_file (cf_path g) = Inr ps)
     \<and> distinct (map cf_path tree) \<and> distinct (map canonical (map cf_path tree))"
  by (simp add: golden_files_by_path_def index_golden_iff)

lemma golden_lookup:
  assumes "distinct (map cf_path tree)"
  shows "map_of (map (\<lambda>g. (cf_path g, g)) tree) p = Some g \<longleftrightarrow> g \<in> set tree \<and> cf_path g = p"
proof -
  have "distinct (map fst (map (\<lambda>g. (cf_path g, g)) tree))"
    using assms by (simp add: comp_def)
  from map_of_eq_Some_iff [OF this, of p g] show ?thesis by auto
qed

lemma golden_lookup_None:
  "map_of (map (\<lambda>g. (cf_path g, g)) tree) p = None \<longleftrightarrow> p \<notin> set (map cf_path tree)"
  by (simp add: map_of_eq_None_iff image_image)

lemma check_context_iff:
  assumes "distinct (map cf_path tree)"
    and "\<forall>g\<in>set tree. \<exists>ps. require_nested_relative_file (cf_path g) = Inr ps"
  shows "check_context impl (map (\<lambda>g. (cf_path g, g)) tree) cs seen = Inr () \<longleftrightarrow>
     set cs \<subseteq> set tree \<and> distinct (map cf_path cs) \<and> impl \<notin> set (map cf_path cs)
     \<and> set (map cf_path cs) \<inter> set seen = {}"
proof (induction cs arbitrary: seen)
  case Nil
  show ?case by simp
next
  case (Cons c cs)
  let ?index = "map (\<lambda>g. (cf_path g, g)) tree"
  show ?case
  proof (cases "c \<in> set tree")
    case True
    then have "map_of ?index (cf_path c) = Some c" by (simp add: golden_lookup [OF assms(1)])
    moreover obtain ps where "require_nested_relative_file (cf_path c) = Inr ps"
      using assms(2) True by blast
    ultimately show ?thesis using True by (auto simp: Cons.IH lift_case_def)
  next
    case False
    have "cf_content c \<noteq> cf_content g" if "map_of ?index (cf_path c) = Some g" for g
      using that False by (cases c; cases g) (auto simp: golden_lookup [OF assms(1)])
    with False show ?thesis by (auto simp: bindE_eq_Inr split: option.split)
  qed
qed

lemma post_init_iff: "post_init ast canonical c = Inr c' \<longleftrightarrow> c' = c \<and> one_hole ast canonical c"
proof -
  let ?impl = "impl_path (case_task c)" and ?tree = "golden_tree c"
  let ?index = "map (\<lambda>g. (cf_path g, g)) ?tree"
  have n: "\<exists>ps. require_nested_relative_file ?impl = Inr ps"
    if "?impl \<in> set (map cf_path ?tree)" "\<forall>g\<in>set ?tree. \<exists>ps. require_nested_relative_file (cf_path g) = Inr ps"
    using that by auto
  have "post_init ast canonical c = Inr c' \<longleftrightarrow>
     (\<exists>ps. require_nested_relative_file ?impl = Inr ps) \<and> golden_files_by_path canonical ?tree = Inr ?index
     \<and> map_of ?index ?impl \<noteq> None \<and> check_context ?impl ?index (context_files (case_task c)) [] = Inr ()
     \<and> oracle_test_count ast (test_text (case_task c)) = Inr (expected_tests (case_task c)) \<and> c' = c"
    by (auto simp: post_init_def bindE_eq_Inr golden_index_iff split: if_splits)
  also have "\<dots> \<longleftrightarrow> c' = c \<and> one_hole ast canonical c"
    using n unfolding one_hole_def Let_def golden_index_iff golden_lookup_None
    by (auto simp: check_context_iff) (metis image_eqI)
  finally show ?thesis .
qed


lemma one_hole_lever: "one_hole ast canonical (c\<lparr>case_task := case_task c\<lparr>plan_first := b\<rparr>\<rparr>) = one_hole ast canonical c"
  by (simp add: one_hole_def)

lemma from_fixtures_Inr:
  assumes "from_fixtures ast canonical impl spec oracle tree stub ctx b = Inr c"
  shows "one_hole ast canonical c \<and> wf_task (case_task c) \<and> \<not> plan_first (case_task c)
    \<and> impl_path (case_task c) = impl \<and> spec_text (case_task c) = spec \<and> test_text (case_task c) = oracle
    \<and> map cf_path (context_files (case_task c)) = ctx \<and> task_budget (case_task c) = b
    \<and> golden_tree c = tree \<and> blank_stub c = stub"
proof -
  from assms obtain n cs t where
    cs: "mapE (context_file_at (map (\<lambda>g. (cf_path g, g)) tree)) ctx = Inr cs"
    and d: "distinct (map cf_path tree)"
    and t: "mk_task_spec impl spec oracle n b cs False = Inr t"
    and p: "post_init ast canonical \<lparr>case_task = t, golden_tree = tree, blank_stub = stub\<rparr> = Inr c"
    by (auto simp: from_fixtures_def bindE_eq_Inr golden_index_iff split: if_splits)
  have "cf_path c = p" if "context_file_at (map (\<lambda>g. (cf_path g, g)) tree) p = Inr c" for p c
    using that golden_lookup [OF d, of p c] by (auto simp: context_file_at_def split: option.splits)
  then have "map cf_path cs = ctx" using cs
    by (induction ctx arbitrary: cs) (auto simp: bindE_eq_Inr)
  with p t mk_task_spec_wf [OF t] show ?thesis
    by (auto simp: post_init_iff mk_task_spec_def split: if_splits)
qed

text \<open>The lever is the only thing \<open>planning_first\<close> changes, and turning it on never fails.\<close>

lemma planning_first_total:
  assumes "one_hole ast canonical c" and "wf_task (case_task c)"
  shows "planning_first ast canonical c = Inr (c\<lparr>case_task := case_task c\<lparr>plan_first := True\<rparr>\<rparr>)"
proof -
  have "replace_plan_first (case_task c) = Inr (case_task c\<lparr>plan_first := True\<rparr>)"
    using assms(2) by (simp add: replace_plan_first_def mk_task_spec_def wf_task_def lift_case_def)
  then show ?thesis by (simp add: planning_first_def post_init_iff one_hole_lever assms(1))
qed

lemma load_case_Inr:
  assumes "load_case rd fs app dir = Inr c"
  obtains tree where "golden_snapshot fs app = Inr tree" and "golden_tree c = tree"
    and "read_text fs (dir @ [u ''oracle.py'']) = Inr (test_text (case_task c))"
    and "one_hole (fx_ast rd) (fx_canonical rd) c" and "wf_task (case_task c)"
    and "\<not> plan_first (case_task c)" and "wf_budget (task_budget (case_task c))"
  using assms
  by (auto simp: load_case_def bindE_eq_Inr dest!: from_fixtures_Inr mk_budget_wf split: option.splits)

end
