(* ===== verification/Harness_Driver.thy ===== *)
theory Harness_Driver
  imports Harness_Case Text_Files
begin

text \<open>
  \<open>benchmarks/harness/driver.py\<close>: one case run in a worktree of its own, and the ladder of cases with
  the progress it reports and the interruption a host fault makes of it.
\<close>

section \<open>One case\<close>

record driver =
  dv_base_url :: pystr
  dv_model :: pystr
  dv_params :: "(pystr \<times> json) list"
  dv_scratch :: "path option"
  dv_card :: "path option"

definition write_case_file :: "path \<Rightarrow> pystr \<Rightarrow> pystr \<Rightarrow> fs \<Rightarrow> exn + fs" where
  "write_case_file wt relative content fs =
     (let destination = wt @ path_parts relative
      in bindE (mkdirs fs (butlast destination)) (\<lambda>fs'. write_text fs' destination content))"

text \<open>The golden tree, with exactly the hole replaced by its blank stub.\<close>

definition assemble :: "benchmark_case \<Rightarrow> path \<Rightarrow> fs \<Rightarrow> exn + fs" where
  "assemble c wt fs =
     bindE (foldE (\<lambda>g. write_case_file wt (cf_path g) (cf_content g)) (golden_tree c) fs)
       (write_case_file wt (impl_path (case_task c)) (blank_stub c))"

text \<open>A temporary directory is made in an existing one, under a name nothing has.\<close>

definition make_temp :: "path \<Rightarrow> fs \<Rightarrow> exn + fs" where
  "make_temp d fs =
     (if is_dir fs (butlast d) \<and> lnode fs d = None then Inr (fs_put d Dir fs) else Inl OS_Error)"

definition scratch_ready :: "path option \<Rightarrow> fs \<Rightarrow> exn + fs" where
  "scratch_ready scratch fs = (case scratch of None \<Rightarrow> Inr fs | Some d \<Rightarrow> mkdirs fs d)"

text \<open>\<open>run_case\<close>: the host's \<open>h_tmp\<close> is the directory the temporary worktree gets; however the case
  ends, the worktree is removed.  The bundled card is used when the driver names none.\<close>

definition run_case :: "path \<Rightarrow> driver \<Rightarrow> host \<Rightarrow> benchmark_case \<Rightarrow> fs \<Rightarrow> fs \<times> (exn + outcome)" where
  "run_case bundled d h c fs =
     (case scratch_ready (dv_scratch d) fs of
        Inl x \<Rightarrow> (fs, Inl x)
      | Inr fs0 \<Rightarrow>
          (case make_temp (h_tmp h) fs0 of
             Inl x \<Rightarrow> (fs0, Inl x)
           | Inr fs1 \<Rightarrow>
               (case assemble c (h_tmp h) fs1 of
                  Inl x \<Rightarrow> (remove_tree (h_tmp h) fs1, Inl x)
                | Inr fs2 \<Rightarrow>
                    (case implement h (case_task c) (dv_base_url d) (dv_model d) (dv_params d)
                            (case dv_card d of None \<Rightarrow> bundled | Some p \<Rightarrow> p) (Some (h_tmp h)) fs2 of
                       (fs3, r) \<Rightarrow> (remove_tree (h_tmp h) fs3, r)))))"

section \<open>The ladder\<close>

record case_result =
  cr_case_id :: pystr
  cr_outcome :: outcome

text \<open>The progress the driver itself reports; the deltas and attempts inside a case are \<open>implement\<close>'s.\<close>

datatype progress = Case_Started pystr benchmark_case nat nat | Case_Finished case_result

text \<open>A run completes, is interrupted by a host fault with the cases finished before it, or ends with
  any other exception of \<open>implement\<close>.\<close>

datatype ladder_end =
    Completed "case_result list"
  | Interrupted "case_result list" exn
  | Escaped exn

definition is_host_fault :: "exn \<Rightarrow> bool" where
  "is_host_fault x = (case x of
     Backend_Unavailable _ _ _ \<Rightarrow> True | Sandbox_Unavailable \<Rightarrow> True | Oracle_Error _ \<Rightarrow> True | _ \<Rightarrow> False)"

text \<open>The loop, with the results so far; \<open>hosts k\<close> is the host as the \<open>k\<close>-th case finds it.\<close>

fun run_from ::
  "path \<Rightarrow> driver \<Rightarrow> (nat \<Rightarrow> host) \<Rightarrow> nat \<Rightarrow> case_result list \<Rightarrow> (pystr \<times> benchmark_case) list \<Rightarrow> fs
     \<Rightarrow> fs \<times> progress list \<times> ladder_end" where
  "run_from bundled d hosts n_cases finished [] fs = (fs, [], Completed finished)"
| "run_from bundled d hosts n_cases finished ((i, c) # cs) fs =
     (let started = Case_Started i c (length finished + 1) n_cases
      in case run_case bundled d (hosts (length finished + 1)) c fs of
           (fs', Inl x) \<Rightarrow>
             (fs', [started], if is_host_fault x then Interrupted finished x else Escaped x)
         | (fs', Inr oc) \<Rightarrow>
             (let result = \<lparr>cr_case_id = i, cr_outcome = oc\<rparr>
              in case run_from bundled d hosts n_cases (finished @ [result]) cs fs' of
                   (fs'', es, e) \<Rightarrow> (fs'', started # Case_Finished result # es, e)))"

definition run_cases ::
  "path \<Rightarrow> driver \<Rightarrow> (nat \<Rightarrow> host) \<Rightarrow> (pystr \<times> benchmark_case) list \<Rightarrow> fs
     \<Rightarrow> fs \<times> progress list \<times> ladder_end" where
  "run_cases bundled d hosts cases fs = run_from bundled d hosts (length cases) [] cases fs"

section \<open>The assembled worktree\<close>

text \<open>The files below a directory, by their path from it.\<close>

definition tree_files :: "path \<Rightarrow> fs \<Rightarrow> (path \<rightharpoonup> bytes) \<Rightarrow> bool" where
  "tree_files wt fs files \<longleftrightarrow>
     (\<forall>ps b. ps \<noteq> [] \<longrightarrow> (fs_get fs (wt @ ps) = Some (File b) \<longleftrightarrow> files ps = Some b))"

definition golden_bytes :: "benchmark_case \<Rightarrow> (path \<times> bytes) list" where
  "golden_bytes c = map (\<lambda>g. (path_parts (cf_path g), utf8_bytes (cf_content g))) (golden_tree c)"

definition outside_same :: "path \<Rightarrow> fs \<Rightarrow> fs \<Rightarrow> bool" where
  "outside_same wt fs fs' \<longleftrightarrow> (\<forall>q. \<not> below wt q \<longrightarrow> fs_get fs' q = fs_get fs q)"

lemma write_case_file_plain:
  assumes "write_case_file wt cand content fs = Inr fs'" and "plain fs wt"
    and "require_nested_relative_file cand = Inr ps" and "tree_files wt fs files"
  shows "plain fs' wt \<and> outside_same wt fs fs' \<and> tree_files wt fs' (files(ps \<mapsto> utf8_bytes content))"
proof -
  have pp: "path_parts cand = ps" by (rule require_nested_parts [OF assms(3)])
  have ne: "ps \<noteq> []" using nested_shape(1) [OF assms(3)] by auto
  have dd: "DOTDOT \<notin> set (wt @ ps)" using nested_shape(2) [OF assms(3)] plain_root [OF assms(2)] by simp
  then have dd': "DOTDOT \<notin> set (wt @ butlast ps)" by (auto dest: in_set_butlastD)
  from assms(1) ne obtain fs1 where m: "mkdirs fs (wt @ butlast ps) = Inr fs1"
    and w: "write_text fs1 (wt @ ps) content = Inr fs'"
    by (auto simp: write_case_file_def pp butlast_append bindE_eq_Inr)
  from mkdirs_plain [OF assms(2) _ dd' m] have
    g: "plain fs1 wt" "grown (wt @ butlast ps) fs fs1" "fs_get fs1 (wt @ butlast ps) = Some Dir" by simp_all
  from w have b: "write_bytes fs1 (wt @ ps) (utf8_bytes content) = Inr fs'"
    by (auto simp: write_text_def utf8_encode_def split: if_splits)
  have "below wt (wt @ ps)" using ne by (simp add: below_iff)
  moreover have "fs_get fs1 (butlast (wt @ ps)) = Some Dir" using g(3) ne by (simp add: butlast_append)
  ultimately have p: "fs' = fs_put (wt @ ps) (File (utf8_bytes content)) fs1" "plain fs' wt"
    using write_bytes_plain [OF g(1) _ dd _ b] by blast+
  have at: "fs_get fs' q = (if q = wt @ ps then Some (File (utf8_bytes content)) else fs_get fs1 q)" for q
    using p(1) ne by (simp add: fs_get_put)
  have same: "fs_get fs1 q = Some (File x) \<longleftrightarrow> fs_get fs q = Some (File x)" for q x
    using g(2) unfolding grown_def by (metis node.distinct(1) option.distinct(1) option.inject)
  have "outside_same wt fs fs'"
    unfolding outside_same_def
  proof (intro allI impI)
    fix q assume q: "\<not> below wt q"
    then have "q \<noteq> wt @ ps" using ne by (auto simp: below_iff)
    moreover have "fs_get fs1 q = fs_get fs q"
    proof (rule ccontr)
      assume "fs_get fs1 q \<noteq> fs_get fs q"
      with g(2) have q': "startswith (wt @ butlast ps) q" "fs_get fs q = None" unfolding grown_def by blast+
      then have "q = take (length q) wt"
        using q by (auto simp: startswith_iff below_def append_eq_append_conv2)
      moreover have "fs_get fs (take i wt) \<noteq> None" for i
        using assms(2) plain_root [OF assms(2)]
        by (cases "i < length wt") (auto simp: plain_def real_dirs_def)
      ultimately show False using q'(2) by metis
    qed
    ultimately show "fs_get fs' q = fs_get fs q" by (simp add: at)
  qed
  moreover have "tree_files wt fs' (files(ps \<mapsto> utf8_bytes content))"
    using assms(4) unfolding tree_files_def at by (auto simp: same)
  ultimately show ?thesis using p(2) by blast
qed

lemma outside_same_trans: "outside_same wt a b \<Longrightarrow> outside_same wt b c \<Longrightarrow> outside_same wt a c"
  by (simp add: outside_same_def)

lemma write_tree_plain:
  assumes "foldE (\<lambda>g. write_case_file wt (cf_path g) (cf_content g)) gs fs = Inr fs'" and "plain fs wt"
    and "\<forall>g\<in>set gs. \<exists>ps. require_nested_relative_file (cf_path g) = Inr ps" and "tree_files wt fs files"
  shows "plain fs' wt \<and> outside_same wt fs fs'
    \<and> tree_files wt fs' (files ++ map_of (rev (map (\<lambda>g. (path_parts (cf_path g), utf8_bytes (cf_content g))) gs)))"
  using assms
proof (induction gs arbitrary: fs files)
  case Nil
  then show ?case by (simp add: outside_same_def)
next
  case (Cons g gs)
  then obtain fs1 ps where w: "write_case_file wt (cf_path g) (cf_content g) fs = Inr fs1"
    and r: "foldE (\<lambda>g. write_case_file wt (cf_path g) (cf_content g)) gs fs1 = Inr fs'"
    and ps: "require_nested_relative_file (cf_path g) = Inr ps"
    by (auto simp: bindE_eq_Inr)
  from write_case_file_plain [OF w Cons.prems(2) ps Cons.prems(4)] have
    s: "plain fs1 wt" "outside_same wt fs fs1" "tree_files wt fs1 (files(ps \<mapsto> utf8_bytes (cf_content g)))" by auto
  have "files ++ map_of (rev (map (\<lambda>g. (path_parts (cf_path g), utf8_bytes (cf_content g))) (g # gs)))
      = files(ps \<mapsto> utf8_bytes (cf_content g))
          ++ map_of (rev (map (\<lambda>g. (path_parts (cf_path g), utf8_bytes (cf_content g))) gs))"
    by (rule ext) (simp add: map_add_def require_nested_parts [OF ps] split: option.split)
  moreover have "plain fs' wt \<and> outside_same wt fs1 fs' \<and> tree_files wt fs' (files(ps \<mapsto> utf8_bytes (cf_content g))
      ++ map_of (rev (map (\<lambda>g. (path_parts (cf_path g), utf8_bytes (cf_content g))) gs)))"
    using Cons.prems(3) by (intro Cons.IH [OF r s(1) _ s(3)]) simp
  ultimately show ?case using outside_same_trans [OF s(2)] by metis
qed

lemma nested_inj:
  assumes "require_nested_relative_file a = Inr ps" and "require_nested_relative_file b = Inr ps"
  shows "a = b"
  using assms join_split_on unfolding require_nested_split by metis

lemma golden_bytes_distinct:
  assumes "one_hole ast canonical c"
  shows "distinct (map fst (golden_bytes c))"
proof -
  have "inj_on path_parts (cf_path ` set (golden_tree c))"
  proof (rule inj_onI)
    fix a b assume a: "a \<in> cf_path ` set (golden_tree c)" "b \<in> cf_path ` set (golden_tree c)"
      and e: "path_parts a = path_parts b"
    from a assms obtain ps qs where n: "require_nested_relative_file a = Inr ps"
      "require_nested_relative_file b = Inr qs"
      by (fastforce simp: one_hole_def Let_def)
    with e require_nested_parts show "a = b" by (metis nested_inj)
  qed
  moreover have "distinct (map cf_path (golden_tree c))" using assms by (simp add: one_hole_def Let_def)
  ultimately have "distinct (map path_parts (map cf_path (golden_tree c)))"
    by (subst distinct_map) simp
  then show ?thesis by (simp add: golden_bytes_def comp_def)
qed

lemma assembled:
  assumes "assemble c wt (fs_put wt Dir fs) = Inr fs'" and "fresh_dir fs wt" and "one_hole ast canonical c"
  shows "plain fs' wt \<and> outside_same wt (fs_put wt Dir fs) fs'
    \<and> tree_files wt fs' ((map_of (golden_bytes c))(path_parts (impl_path (case_task c)) \<mapsto> utf8_bytes (blank_stub c)))"
proof -
  have empty: "tree_files wt (fs_put wt Dir fs) Map.empty"
    using fresh_below [OF assms(2)] assms(2) by (auto simp: tree_files_def fs_get_put fresh_dir_def startswith_iff)
  from assms(1) obtain fs1 where
    t: "foldE (\<lambda>g. write_case_file wt (cf_path g) (cf_content g)) (golden_tree c) (fs_put wt Dir fs) = Inr fs1"
    and h: "write_case_file wt (impl_path (case_task c)) (blank_stub c) fs1 = Inr fs'"
    by (auto simp: assemble_def bindE_eq_Inr)
  from assms(3) obtain ps where n: "\<forall>g\<in>set (golden_tree c). \<exists>ps. require_nested_relative_file (cf_path g) = Inr ps"
    and ps: "require_nested_relative_file (impl_path (case_task c)) = Inr ps"
    by (auto simp: one_hole_def Let_def)
  have "Map.empty ++ map_of (rev (map (\<lambda>g. (path_parts (cf_path g), utf8_bytes (cf_content g))) (golden_tree c)))
      = map_of (golden_bytes c)"
    unfolding golden_bytes_def [symmetric] using golden_bytes_distinct [OF assms(3)]
    by (simp add: map_of_inject_set rev_map [symmetric])
  with write_tree_plain [OF t fresh_plain [OF assms(2)] n empty] have
    s: "plain fs1 wt" "outside_same wt (fs_put wt Dir fs) fs1" "tree_files wt fs1 (map_of (golden_bytes c))"
    by simp_all
  from write_case_file_plain [OF h s(1) ps s(3)] outside_same_trans [OF s(2)]
  show ?thesis by (simp add: require_nested_parts [OF ps])
qed

section \<open>A case leaves no trace\<close>

lemma implement_outside:
  assumes "implement h spec base_url model params card_path (Some wt) fs = (fs', Inr oc)" and "plain fs wt"
  shows "plain fs' wt \<and> outside_same wt fs fs'"
proof -
  obtain dir rest where
    n: "require_nested_relative_file (impl_path spec) = Inr (dir # rest)" and
    im: "implement_in h spec base_url model params card_path dir wt fs = (fs', Inr oc)"
    by (rule implement_cases [OF assms(1)]) auto
  obtain e :: "(httpx_backend \<times> nat) engine" and s r w where
    run: "loop_run e spec wt w = (s, Inr r)" and rd: "ready spec wt dir rest w"
    and fs': "fs' = w_fs (rs_world s)"
    and out: "\<And>q. \<not> below wt q \<Longrightarrow> fs_get (w_fs w) q = fs_get fs q"
    by (rule implement_ready [OF im assms(2) n]) blast
  have "fs_get fs' q = fs_get fs q" if "\<not> below wt q" for q
  proof -
    from that have "\<not> below (wt @ [dir]) q" "q \<noteq> oracle_file wt" by (auto simp: below_iff)
    with run_outside [OF run rd] out [OF that] fs' show ?thesis by simp
  qed
  with returned_plain [OF run rd] fs' show ?thesis by (simp add: outside_same_def)
qed

lemma remove_tree_wf:
  assumes "wf_fs fs" and "d \<noteq> []"
  shows "wf_fs (remove_tree d fs)"
  unfolding wf_fs_iff
proof (intro conjI allI impI)
  show "[] \<notin> fst ` set (remove_tree d fs)"
    using assms(1) by (auto simp: wf_fs_iff remove_tree_def)
  fix q assume q: "q \<noteq> [] \<and> fs_get (remove_tree d fs) q \<noteq> None"
  then have k: "\<not> startswith q d" "fs_get fs q \<noteq> None"
    by (simp_all add: remove_tree_get [OF assms(2)] split: if_splits)
  then have "\<not> startswith (butlast q) d"
    by (metis append_assoc append_butlast_last_id q startswith_iff)
  with wf_fs_entry [OF assms(1) k(2)] q show "fs_get (remove_tree d fs) (butlast q) = Some Dir"
    by (simp add: remove_tree_get [OF assms(2)])
  show "DOTDOT \<notin> set q" using wf_fs_entry [OF assms(1) k(2)] q by blast
qed

lemma removed_fresh:
  assumes "fresh_dir fs d" and "plain fs' d" and "outside_same d (fs_put d Dir fs) fs'"
  shows "wf_fs (remove_tree d fs') \<and> (\<forall>q. fs_get (remove_tree d fs') q = fs_get fs q)"
proof -
  have ne: "d \<noteq> []" using assms(1) by (simp add: fresh_dir_def)
  have "fs_get (remove_tree d fs') q = fs_get fs q" for q
  proof (cases "startswith q d")
    case True
    with ne fresh_below [OF assms(1)] show ?thesis by (simp add: remove_tree_get)
  next
    case False
    then have "\<not> below d q" "q \<noteq> d" by (auto simp: below_iff startswith_iff)
    with assms(3) ne False show ?thesis by (simp add: outside_same_def remove_tree_get fs_get_put)
  qed
  with remove_tree_wf [OF plain_wf [OF assms(2)] ne] show ?thesis by blast
qed

lemma fresh_put_other: "fresh_dir fs d \<Longrightarrow> fs_get fs q \<noteq> None \<Longrightarrow> fs_get (fs_put d Dir fs) q = fs_get fs q"
  by (auto simp: fresh_dir_def fs_get_put)

text \<open>A case that returns: what \<open>implement\<close> met, and what the file system is afterwards.\<close>

lemma run_case_returns:
  assumes "run_case bundled d h c fs = (fs', Inr oc)" and "dv_scratch d = None"
    and "fresh_dir fs (h_tmp h)" and "one_hole ast canonical c"
  obtains fs2 fs3 where "implement h (case_task c) (dv_base_url d) (dv_model d) (dv_params d)
        (case dv_card d of None \<Rightarrow> bundled | Some p \<Rightarrow> p) (Some (h_tmp h)) fs2 = (fs3, Inr oc)"
    and "plain fs2 (h_tmp h)" and "extends fs fs2"
    and "tree_files (h_tmp h) fs2
      ((map_of (golden_bytes c))(path_parts (impl_path (case_task c)) \<mapsto> utf8_bytes (blank_stub c)))"
    and "wf_fs fs' \<and> (\<forall>q. fs_get fs' q = fs_get fs q)"
proof -
  from assms(1,2) obtain fs2 fs3 where a: "assemble c (h_tmp h) (fs_put (h_tmp h) Dir fs) = Inr fs2"
    and i: "implement h (case_task c) (dv_base_url d) (dv_model d) (dv_params d)
        (case dv_card d of None \<Rightarrow> bundled | Some p \<Rightarrow> p) (Some (h_tmp h)) fs2 = (fs3, Inr oc)"
    and fs': "fs' = remove_tree (h_tmp h) fs3"
    by (auto simp: run_case_def scratch_ready_def make_temp_def split: sum.splits prod.splits if_splits)
  note as = assembled [OF a assms(3,4)]
  from implement_outside [OF i] as have "plain fs3 (h_tmp h)" "outside_same (h_tmp h) fs2 fs3" by blast+
  with as outside_same_trans removed_fresh [OF assms(3)] fs' have
    "wf_fs fs' \<and> (\<forall>q. fs_get fs' q = fs_get fs q)" by metis
  moreover have "extends fs fs2"
    using as fresh_below [OF assms(3)] assms(3)
    unfolding extends_def outside_same_def by (metis below_startswith fresh_put_other)
  ultimately show thesis using that [OF i] as by blast
qed

lemma fresh_dir_same:
  "fresh_dir fs d \<Longrightarrow> wf_fs fs' \<Longrightarrow> \<forall>q. fs_get fs' q = fs_get fs q \<Longrightarrow> fresh_dir fs' d"
  by (simp add: fresh_dir_def)

section \<open>The ladder\<close>

definition ladder_results :: "ladder_end \<Rightarrow> case_result list" where
  "ladder_results e = (case e of Completed rs \<Rightarrow> rs | Interrupted rs _ \<Rightarrow> rs | Escaped _ \<Rightarrow> [])"

text \<open>The outcome a case has on its own: run from a file system that reads as the first one does.\<close>

definition alone ::
  "path \<Rightarrow> driver \<Rightarrow> host \<Rightarrow> benchmark_case \<Rightarrow> fs \<Rightarrow> exn + outcome \<Rightarrow> bool" where
  "alone bundled d h c fs r \<longleftrightarrow>
     (\<exists>fs1. wf_fs fs1 \<and> (\<forall>q. fs_get fs1 q = fs_get fs q) \<and> snd (run_case bundled d h c fs1) = r)"

text \<open>Of the cases, the first ones finished; the ladder's end says what the next one did.\<close>

definition ladder_ends ::
  "path \<Rightarrow> driver \<Rightarrow> (nat \<Rightarrow> host) \<Rightarrow> nat \<Rightarrow> case_result list \<Rightarrow> (pystr \<times> benchmark_case) list \<Rightarrow> fs
     \<Rightarrow> ladder_end \<Rightarrow> bool" where
  "ladder_ends bundled d hosts k finished cases fs e \<longleftrightarrow>
     (\<exists>rs. length rs \<le> length cases
       \<and> (\<forall>i < length rs. cr_case_id (rs ! i) = fst (cases ! i)
            \<and> alone bundled d (hosts (k + i + 1)) (snd (cases ! i)) fs (Inr (cr_outcome (rs ! i))))
       \<and> (if length rs = length cases then e = Completed (finished @ rs)
          else \<exists>x. alone bundled d (hosts (k + length rs + 1)) (snd (cases ! length rs)) fs (Inl x)
                 \<and> e = (if is_host_fault x then Interrupted (finished @ rs) x else Escaped x)))"

lemma alone_same: "\<forall>q. fs_get fs1 q = fs_get fs q \<Longrightarrow> alone b d h c fs1 r \<Longrightarrow> alone b d h c fs r"
  by (auto simp: alone_def)

lemma run_from_ends:
  assumes "run_from bundled d hosts n_cases finished cases fs = (fs', es, e)" and "dv_scratch d = None"
    and "wf_fs fs" and "\<forall>k. fresh_dir fs (h_tmp (hosts k))"
    and "\<forall>(i, c)\<in>set cases. one_hole ast canonical c"
  shows "ladder_ends bundled d hosts (length finished) finished cases fs e
    \<and> ((\<exists>rs. e = Completed rs) \<longrightarrow> (\<forall>q. fs_get fs' q = fs_get fs q))"
  using assms
proof (induction cases arbitrary: finished fs es)
  case Nil
  then show ?case by (simp add: ladder_ends_def)
next
  case (Cons ic cs)
  obtain i c where ic: "ic = (i, c)" by (cases ic)
  let ?h = "hosts (length finished + 1)"
  have self: "alone bundled d ?h c fs (snd (run_case bundled d ?h c fs))"
    using Cons.prems(3) by (auto simp: alone_def)
  show ?case
  proof (cases "snd (run_case bundled d ?h c fs)")
    case (Inl x)
    then have "e = (if is_host_fault x then Interrupted finished x else Escaped x)"
      using Cons.prems(1) ic by (auto simp: Let_def split: prod.splits sum.splits)
    with self Inl ic show ?thesis by (auto simp: ladder_ends_def intro!: exI [of _ "[]"])
  next
    case (Inr oc)
    then obtain fs1 where r: "run_case bundled d ?h c fs = (fs1, Inr oc)" by (metis prod.collapse)
    let ?result = "\<lparr>cr_case_id = i, cr_outcome = oc\<rparr>"
    obtain es' where t: "run_from bundled d hosts n_cases (finished @ [?result]) cs fs1 = (fs', es', e)"
      using Cons.prems(1) ic r by (auto simp: Let_def split: prod.splits)
    have same: "wf_fs fs1 \<and> (\<forall>q. fs_get fs1 q = fs_get fs q)"
      using run_case_returns [OF r Cons.prems(2)] Cons.prems(4,5) ic
      by (metis (no_types, lifting) case_prodD list.set_intros(1))
    have "\<forall>k. fresh_dir fs1 (h_tmp (hosts k))" using Cons.prems(4) fresh_dir_same same by blast
    moreover have "\<forall>(i, c)\<in>set cs. one_hole ast canonical c" using Cons.prems(5) by simp
    ultimately have IH: "ladder_ends bundled d hosts (length (finished @ [?result])) (finished @ [?result]) cs fs1 e"
      and tr: "(\<exists>rs. e = Completed rs) \<longrightarrow> (\<forall>q. fs_get fs' q = fs_get fs1 q)"
      using Cons.IH [OF t Cons.prems(2) conjunct1 [OF same]] by blast+
    from IH obtain rs where
      len: "length rs \<le> length cs" and
      all: "\<forall>j < length rs. cr_case_id (rs ! j) = fst (cs ! j)
            \<and> alone bundled d (hosts (length (finished @ [?result]) + j + 1)) (snd (cs ! j)) fs1
                (Inr (cr_outcome (rs ! j)))" and
      fin: "if length rs = length cs then e = Completed ((finished @ [?result]) @ rs)
          else \<exists>x. alone bundled d (hosts (length (finished @ [?result]) + length rs + 1)) (snd (cs ! length rs)) fs1 (Inl x)
                 \<and> e = (if is_host_fault x then Interrupted ((finished @ [?result]) @ rs) x else Escaped x)"
      unfolding ladder_ends_def by blast
    note there = alone_same [OF conjunct2 [OF same]]
    have "\<forall>j < length (?result # rs). cr_case_id ((?result # rs) ! j) = fst ((ic # cs) ! j)
        \<and> alone bundled d (hosts (length finished + j + 1)) (snd ((ic # cs) ! j)) fs
             (Inr (cr_outcome ((?result # rs) ! j)))"
      using self Inr ic all there by (auto simp: nth_Cons split: nat.split)
    moreover have "if length (?result # rs) = length (ic # cs) then e = Completed (finished @ ?result # rs)
          else \<exists>x. alone bundled d (hosts (length finished + length (?result # rs) + 1))
                   (snd ((ic # cs) ! length (?result # rs))) fs (Inl x)
                 \<and> e = (if is_host_fault x then Interrupted (finished @ ?result # rs) x else Escaped x)"
    proof (cases "length rs = length cs")
      case True
      with fin show ?thesis by simp
    next
      case False
      with fin obtain x where x: "alone bundled d (hosts (length (finished @ [?result]) + length rs + 1))
          (snd (cs ! length rs)) fs1 (Inl x)"
        "e = (if is_host_fault x then Interrupted ((finished @ [?result]) @ rs) x else Escaped x)" by auto
      from there [OF x(1)] x(2) have "alone bundled d (hosts (length finished + length (?result # rs) + 1))
          (snd ((ic # cs) ! length (?result # rs))) fs (Inl x)
        \<and> e = (if is_host_fault x then Interrupted (finished @ ?result # rs) x else Escaped x)" by simp
      then show ?thesis using False by (metis length_Cons nat.inject)
    qed
    ultimately have "ladder_ends bundled d hosts (length finished) finished (ic # cs) fs e"
      unfolding ladder_ends_def using len by (intro exI [of _ "?result # rs"]) simp
    with tr same show ?thesis by simp
  qed
qed

end
