(* ===== verification/Scorecards.thy ===== *)
theory Scorecards
  imports Harness_Driver Json_Print "HOL-Library.Product_Lexorder"
begin

text \<open>
  What the benchmark keeps of a ladder: the scorecard (\<open>benchmarks/harness/scorer.py\<close>), the produced
  code (\<open>produced_code.py\<close>) and the style findings counted in it (\<open>style.py\<close>), with the names the two
  artifacts are written under and found again by.  The text of a float and the linter are parameters.
\<close>

section \<open>The scorecard\<close>

record case_score =
  cs_case_id :: pystr
  cs_status :: status
  cs_attempts :: nat
  cs_fault :: "sse_message option"
  cs_length_capped :: nat

record ladder_card =
  lc_model :: pystr
  lc_digest :: pystr
  lc_plan_first :: bool
  lc_cases :: "case_score list"
  lc_tokens :: int
  lc_seconds :: rat
  lc_mean :: "rat option"
  lc_style :: "int option"

definition cases_passed :: "ladder_card \<Rightarrow> nat" where
  "cases_passed s = length (filter (\<lambda>c. cs_status c = Done) (lc_cases s))"

definition cases_total :: "ladder_card \<Rightarrow> nat" where
  "cases_total s = length (lc_cases s)"

text \<open>The \<open>ValueError\<close>s of scoring.\<close>

datatype scoring_error = Empty_Benchmark | Varied string "pystr list"

text \<open>\<open>_held_constant\<close>: the one value of a set; the values are rendered only for the message.\<close>

definition held_constant :: "('a \<Rightarrow> pystr) \<Rightarrow> 'a list \<Rightarrow> string \<Rightarrow> scoring_error + 'a" where
  "held_constant render vs subject =
     (case remdups vs of
        [v] \<Rightarrow> Inr v
      | _ \<Rightarrow> Inl (Varied subject (sort (map render (remdups vs)))))"

definition str_bool :: "bool \<Rightarrow> pystr" where
  "str_bool b = (if b then u ''True'' else u ''False'')"

definition case_score_of :: "case_result \<Rightarrow> case_score" where
  "case_score_of r =
     (let oc = cr_outcome r
      in \<lparr>cs_case_id = cr_case_id r, cs_status = oc_status oc, cs_attempts = er_attempts (oc_record oc),
          cs_fault = oc_fault oc, cs_length_capped = er_length_capped (oc_record oc)\<rparr>)"

definition score_cases :: "case_result list \<Rightarrow> scoring_error + ladder_card" where
  "score_cases rs =
     (if rs = [] then Inl Empty_Benchmark
      else let records = map (oc_record \<circ> cr_outcome) rs in
        bindE (held_constant (\<lambda>m. m) (map er_model records) ''model'') (\<lambda>model.
        bindE (held_constant (\<lambda>d. d) (map er_digest records) ''rules card'') (\<lambda>digest.
        bindE (held_constant str_bool (map er_plan_first records) ''planning lever'') (\<lambda>plan.
          let tokens = sum_list (map er_tokens records); seconds = sum_list (map er_seconds records)
          in Inr \<lparr>lc_model = model, lc_digest = digest, lc_plan_first = plan,
                  lc_cases = map case_score_of rs, lc_tokens = tokens, lc_seconds = seconds,
                  lc_mean = mean_tokens_per_second tokens seconds, lc_style = None\<rparr>))))"

section \<open>Writing it\<close>

definition case_as_dict :: "(json \<Rightarrow> pystr) \<Rightarrow> case_score \<Rightarrow> json" where
  "case_as_dict py_str c = JObj
     ([(u ''case_id'', JStr (cs_case_id c)), (u ''status'', JStr (status_value (cs_status c))),
       (u ''attempts'', JInt (int (cs_attempts c))), (u ''length_capped'', JInt (int (cs_length_capped c)))]
      @ (case cs_fault c of None \<Rightarrow> [] | Some m \<Rightarrow> [(u ''fault'', JStr (message_text py_str m))]))"

definition card_as_dict :: "(json \<Rightarrow> pystr) \<Rightarrow> ladder_card \<Rightarrow> json" where
  "card_as_dict py_str s = JObj
     [(u ''model'', JStr (lc_model s)), (u ''rules_card_digest'', JStr (lc_digest s)),
      (u ''plan_first'', JBool (lc_plan_first s)), (u ''cases_passed'', JInt (int (cases_passed s))),
      (u ''cases_total'', JInt (int (cases_total s))), (u ''total_completion_tokens'', JInt (lc_tokens s)),
      (u ''total_model_seconds'', JFloat (Fin (lc_seconds s))),
      (u ''mean_tokens_per_second'', case lc_mean s of None \<Rightarrow> JNull | Some m \<Rightarrow> JFloat (Fin m)),
      (u ''style_findings'', case lc_style s of None \<Rightarrow> JNull | Some n \<Rightarrow> JInt n),
      (u ''cases'', JArr (map (case_as_dict py_str) (lc_cases s)))]"

definition scorecard_name :: "pystr \<Rightarrow> nat \<Rightarrow> pystr" where
  "scorecard_name model stamp = u ''scorecard-'' @ slug_model_id model @ u ''-'' @ str_nat stamp @ u ''.json''"

definition scorecard_text :: "(pyfloat \<Rightarrow> pystr) \<Rightarrow> (json \<Rightarrow> pystr) \<Rightarrow> ladder_card \<Rightarrow> pystr" where
  "scorecard_text repr py_str s = json_dumps repr (Some 2) (card_as_dict py_str s)"

text \<open>\<open>write\<close>: the file system, also after a refusal, and where it wrote.\<close>

definition write_scorecard ::
  "(pyfloat \<Rightarrow> pystr) \<Rightarrow> (json \<Rightarrow> pystr) \<Rightarrow> ladder_card \<Rightarrow> path \<Rightarrow> nat \<Rightarrow> fs \<Rightarrow> fs \<times> (exn + path)" where
  "write_scorecard repr py_str s directory stamp fs =
     (case mkdirs fs directory of
        Inl x \<Rightarrow> (fs, Inl x)
      | Inr fs1 \<Rightarrow>
          (let p = directory @ [scorecard_name (lc_model s) stamp]
           in case write_text fs1 p (scorecard_text repr py_str s) of
                Inl x \<Rightarrow> (fs1, Inl x) | Inr fs2 \<Rightarrow> (fs2, Inr p)))"

text \<open>The names in a directory.\<close>

definition names_in :: "fs \<Rightarrow> path \<Rightarrow> pystr list" where
  "names_in fs d = (case realpath fs d of None \<Rightarrow> [] | Some r \<Rightarrow> sort (map List.last (children fs r)))"

text \<open>\<open>scorecard_paths\<close>: the stem's part after its last dash is read as the stamp; a stem without a
  dash cannot occur, the prefix ends with one.\<close>

definition card_stamp :: "pystr \<Rightarrow> exn + int" where
  "card_stamp name = py_int (List.last (split_on 45 (take (length name - 5) name)))"

definition is_card_name :: "pystr \<Rightarrow> bool" where
  "is_card_name n \<longleftrightarrow> startswith n (u ''scorecard-'') \<and> ends_with n (u ''.json'')
     \<and> 15 \<le> length n"

definition scorecard_paths :: "fs \<Rightarrow> path \<Rightarrow> exn + (path \<times> int) list" where
  "scorecard_paths fs d =
     mapE (\<lambda>n. bindE (card_stamp n) (\<lambda>k. Inr (d @ [n], k))) (filter is_card_name (names_in fs d))"

section \<open>Produced code\<close>

definition run_directory_name :: "pystr \<Rightarrow> nat \<Rightarrow> pystr" where
  "run_directory_name model stamp = u ''code-'' @ slug_model_id model @ u ''-'' @ str_nat stamp"

fun write_answers :: "path \<Rightarrow> case_result list \<Rightarrow> fs \<Rightarrow> fs \<times> exn option" where
  "write_answers d [] fs = (fs, None)"
| "write_answers d (r # rs) fs =
     (case oc_code (cr_outcome r) of
        None \<Rightarrow> write_answers d rs fs
      | Some code \<Rightarrow>
          (let target = join_path (join_path d (cr_case_id r)) (oc_impl_path (cr_outcome r))
           in case mkdirs fs (butlast target) of
                Inl x \<Rightarrow> (fs, Some x)
              | Inr fs1 \<Rightarrow>
                  (case write_text fs1 target code of
                     Inl x \<Rightarrow> (fs1, Some x) | Inr fs2 \<Rightarrow> write_answers d rs fs2)))"

definition write_produced_code ::
  "case_result list \<Rightarrow> pystr \<Rightarrow> path \<Rightarrow> nat \<Rightarrow> fs \<Rightarrow> fs \<times> (exn + path)" where
  "write_produced_code rs model directory stamp fs =
     (let d = directory @ [run_directory_name model stamp]
      in case mkdirs fs d of
           Inl x \<Rightarrow> (fs, Inl x)
         | Inr fs1 \<Rightarrow>
             (case write_answers d rs fs1 of
                (fs2, Some x) \<Rightarrow> (fs2, Inl x) | (fs2, None) \<Rightarrow> (fs2, Inr d)))"

definition latest_run_directory :: "fs \<Rightarrow> path \<Rightarrow> path option" where
  "latest_run_directory fs d =
     (let ns = filter (\<lambda>n. startswith n (u ''code-'') \<and> is_dir fs (d @ [n])) (names_in fs d)
      in if ns = [] then None else Some (d @ [List.last ns]))"

section \<open>Style findings\<close>

record finding =
  fn_case :: pystr
  fn_rule :: pystr
  fn_message :: pystr
  fn_line :: int

text \<open>What the linter's process does: it is missing or its output is not text, or it exits.\<close>

datatype linter_run = Linter_Missing | Linter_Undecodable | Linter_Exited int pystr pystr

text \<open>The exceptions of the pass.  The last ones are raised on a document that is not the linter's.\<close>

datatype style_error =
    Linter_Not_Found
  | Bad_Linter_Output
  | Linter_Failed int pystr
  | Outside_The_Tree
  | Bad_Int
  | Document_Overflow
  | Document_Key_Error
  | Document_Type_Error
  | Document_Index_Error

definition SELECTED_RULES :: "string list" where
  "SELECTED_RULES = [''D100'', ''D101'', ''D102'', ''D103'', ''ANN001'', ''ANN201'', ''ANN202'', ''F401'',
     ''F841'', ''ARG'', ''BLE001'', ''B904'']"

definition linter_command :: "pystr \<Rightarrow> path \<Rightarrow> pystr list" where
  "linter_command executable d =
     [executable, u ''check'', u ''--no-cache'', u ''--isolated'',
      u ''--select='' @ join (u '','') (map u SELECTED_RULES), u ''--output-format=json'', str_path d]"

text \<open>\<open>_linter_executable\<close>; \<open>interpreter\<close> is \<open>sys.executable\<close>.\<close>

definition linter_executable :: "fs \<Rightarrow> path \<Rightarrow> pystr" where
  "linter_executable fs interpreter =
     (let adjacent = butlast interpreter @ [u ''ruff'']
      in if realpath fs adjacent \<noteq> None then str_path adjacent else u ''ruff'')"

definition run_linter :: "(pystr list \<Rightarrow> fs \<Rightarrow> linter_run) \<Rightarrow> path \<Rightarrow> path \<Rightarrow> fs \<Rightarrow> style_error + json" where
  "run_linter spawn interpreter d fs =
     (case spawn (linter_command (linter_executable fs interpreter) d) fs of
        Linter_Missing \<Rightarrow> Inl Linter_Not_Found
      | Linter_Undecodable \<Rightarrow> Inl Bad_Linter_Output
      | Linter_Exited code out err \<Rightarrow>
          if code \<noteq> 0 \<and> code \<noteq> 1 then Inl (Linter_Failed code err)
          else case json_loads out of Inl _ \<Rightarrow> Inl Bad_Linter_Output | Inr v \<Rightarrow> Inr v)"

text \<open>\<open>int\<close> of a decoded value; floats truncate toward zero, and the non-finite ones do not convert.\<close>

definition int_of_json :: "json \<Rightarrow> style_error + int" where
  "int_of_json v = (case v of
     JInt n \<Rightarrow> Inr n
   | JBool b \<Rightarrow> Inr (if b then 1 else 0)
   | JFloat (Fin q) \<Rightarrow> Inr (if q < 0 then - floor (- q) else floor q)
   | JFloat NaN \<Rightarrow> Inl Bad_Int
   | JFloat _ \<Rightarrow> Inl Document_Overflow
   | JStr s \<Rightarrow> (case py_int s of Inl _ \<Rightarrow> Inl Bad_Int | Inr n \<Rightarrow> Inr n)
   | _ \<Rightarrow> Inl Document_Type_Error)"

definition field :: "json \<Rightarrow> string \<Rightarrow> style_error + json" where
  "field v k = (case v of
     JObj kvs \<Rightarrow> (case obj_get kvs k of None \<Rightarrow> Inl Document_Key_Error | Some x \<Rightarrow> Inr x)
   | _ \<Rightarrow> Inl Document_Type_Error)"

text \<open>\<open>filename.relative_to(root).parts[0]\<close>.\<close>

definition case_of_file :: "path \<Rightarrow> pystr \<Rightarrow> style_error + pystr" where
  "case_of_file d name =
     (let p = path_parts name
      in if \<not> is_absolute name \<or> \<not> startswith p d then Inl Outside_The_Tree
         else if p = d then Inl Document_Index_Error else Inr (hd (drop (length d) p)))"

definition finding_of :: "(json \<Rightarrow> pystr) \<Rightarrow> path \<Rightarrow> json \<Rightarrow> style_error + finding" where
  "finding_of py_str d v =
     bindE (field v ''filename'') (\<lambda>name.
     bindE (field v ''location'') (\<lambda>location.
     bindE (case_of_file d (py_str name)) (\<lambda>c.
     bindE (field v ''code'') (\<lambda>code.
     bindE (field v ''message'') (\<lambda>message.
     bindE (case location of JObj _ \<Rightarrow> bindE (field location ''row'') int_of_json | _ \<Rightarrow> Inr 0) (\<lambda>line.
       Inr \<lparr>fn_case = c, fn_rule = py_str code, fn_message = py_str message, fn_line = line\<rparr>))))))"

text \<open>\<open>collect_style_findings\<close>; \<open>d\<close> is the resolved directory.  Iterating over an object yields its keys.\<close>

definition collect_style_findings ::
  "(json \<Rightarrow> pystr) \<Rightarrow> (pystr list \<Rightarrow> fs \<Rightarrow> linter_run) \<Rightarrow> path \<Rightarrow> path \<Rightarrow> fs \<Rightarrow> style_error + finding list" where
  "collect_style_findings py_str spawn interpreter directory fs =
     (let d = resolve fs directory
      in bindE (run_linter spawn interpreter d fs) (\<lambda>document.
         bindE (case document of
                  JArr vs \<Rightarrow> mapE (finding_of py_str d) vs
                | JObj kvs \<Rightarrow> mapE (\<lambda>(k, _). finding_of py_str d (JStr k)) kvs
                | JStr s \<Rightarrow> mapE (\<lambda>c. finding_of py_str d (JStr [c])) s
                | _ \<Rightarrow> Inl Document_Type_Error)
           (\<lambda>fs. Inr (sort_key (\<lambda>f. (fn_case f, fn_line f, fn_rule f)) fs))))"

section \<open>Scoring\<close>

lemma held_constant_Inr:
  "held_constant render vs subject = Inr v \<longleftrightarrow> vs \<noteq> [] \<and> (\<forall>w\<in>set vs. w = v)"
proof -
  have "remdups vs = [v] \<longleftrightarrow> vs \<noteq> [] \<and> (\<forall>w\<in>set vs. w = v)"
  proof
    assume "remdups vs = [v]"
    then have "set vs = {v}" by (metis list.set(1,2) set_remdups)
    then show "vs \<noteq> [] \<and> (\<forall>w\<in>set vs. w = v)" by auto
  next
    assume a: "vs \<noteq> [] \<and> (\<forall>w\<in>set vs. w = v)"
    have "\<exists>x. x \<in> set vs" using a by (cases vs) auto
    with a have "x \<in> set vs \<longleftrightarrow> x = v" for x by metis
    then have "set (remdups vs) = {v}" by auto
    moreover have "distinct (remdups vs)" by simp
    ultimately have "length (remdups vs) = 1" using distinct_card by fastforce
    then obtain w where "remdups vs = [w]" by (auto simp: length_Suc_conv)
    with \<open>set (remdups vs) = {v}\<close> show "remdups vs = [v]" by simp
  qed
  moreover have "held_constant render vs subject = Inr v \<longleftrightarrow> remdups vs = [v]"
    unfolding held_constant_def by (cases "remdups vs"; cases "tl (remdups vs)") simp_all
  ultimately show ?thesis by simp
qed

text \<open>A ladder scores exactly when its records agree on the model, the card and the lever.\<close>

definition one_configuration :: "case_result list \<Rightarrow> bool" where
  "one_configuration rs \<longleftrightarrow>
     (\<forall>r\<in>set rs. \<forall>r'\<in>set rs. er_model (oc_record (cr_outcome r)) = er_model (oc_record (cr_outcome r'))
        \<and> er_digest (oc_record (cr_outcome r)) = er_digest (oc_record (cr_outcome r'))
        \<and> er_plan_first (oc_record (cr_outcome r)) = er_plan_first (oc_record (cr_outcome r')))"

lemma score_cases_Inr:
  assumes "score_cases rs = Inr s"
  shows "rs \<noteq> [] \<and> one_configuration rs \<and> lc_cases s = map case_score_of rs \<and> lc_style s = None
    \<and> (\<forall>r\<in>set rs. er_model (oc_record (cr_outcome r)) = lc_model s
         \<and> er_digest (oc_record (cr_outcome r)) = lc_digest s
         \<and> er_plan_first (oc_record (cr_outcome r)) = lc_plan_first s)
    \<and> lc_tokens s = (\<Sum>r\<leftarrow>rs. er_tokens (oc_record (cr_outcome r)))
    \<and> lc_seconds s = (\<Sum>r\<leftarrow>rs. er_seconds (oc_record (cr_outcome r)))"
  using assms
  by (auto simp: score_cases_def bindE_eq_Inr held_constant_Inr one_configuration_def Let_def comp_def
      split: if_splits)

lemma held_all:
  assumes "rs \<noteq> []" and "\<forall>r\<in>set rs. g (oc_record (cr_outcome r)) = v"
  shows "held_constant render (map g (map (oc_record \<circ> cr_outcome) rs)) subject = Inr v"
  unfolding held_constant_Inr using assms by auto

lemma score_cases_total:
  assumes "rs \<noteq> []" and "one_configuration rs"
  shows "\<exists>s. score_cases rs = Inr s"
proof -
  let ?r = "oc_record (cr_outcome (hd rs))"
  have "\<forall>r\<in>set rs. er_model (oc_record (cr_outcome r)) = er_model ?r"
    "\<forall>r\<in>set rs. er_digest (oc_record (cr_outcome r)) = er_digest ?r"
    "\<forall>r\<in>set rs. er_plan_first (oc_record (cr_outcome r)) = er_plan_first ?r"
    using hd_in_set [OF assms(1)] assms(2) unfolding one_configuration_def by blast+
  note h = this [THEN held_all [OF assms(1)]]
  show ?thesis
    using assms(1) h(1) [of "\<lambda>m. m" "''model''"] h(2) [of "\<lambda>d. d" "''rules card''"]
      h(3) [of str_bool "''planning lever''"]
    unfolding score_cases_def Let_def by simp
qed

lemma length_filter_all: "length (filter P xs) = length xs \<longleftrightarrow> (\<forall>x\<in>set xs. P x)"
proof (induction xs)
  case (Cons x xs)
  have "length (filter P xs) \<noteq> Suc (length xs)" using length_filter_le [of P xs] by linarith
  with Cons show ?case by simp
qed simp

lemma all_passed_iff:
  "score_cases rs = Inr s \<Longrightarrow> cases_passed s = cases_total s \<longleftrightarrow> (\<forall>r\<in>set rs. oc_status (cr_outcome r) = Done)"
proof -
  assume "score_cases rs = Inr s"
  then have "lc_cases s = map case_score_of rs" by (blast dest: score_cases_Inr)
  then have "cases_passed s = cases_total s \<longleftrightarrow> (\<forall>c\<in>set (map case_score_of rs). cs_status c = Done)"
    by (simp only: cases_passed_def cases_total_def length_filter_all)
  then show ?thesis by (simp add: case_score_of_def Let_def)
qed

section \<open>Writing the answers\<close>

text \<open>Code an outcome carries was read from a file, so it can be written again.\<close>

definition writable_results :: "case_result list \<Rightarrow> bool" where
  "writable_results rs \<longleftrightarrow> (\<forall>r\<in>set rs. \<forall>c. oc_code (cr_outcome r) = Some c \<longrightarrow> encodable c)"

lemma implement_code_encodable:
  assumes "implement h spec base_url model params card_path (Some wt) fs = (fs', Inr oc)" and "oc_code oc = Some c"
  shows "encodable c"
proof -
  obtain dir where "implement_in h spec base_url model params card_path dir wt fs = (fs', Inr oc)"
    by (rule implement_cases [OF assms(1)]) auto
  then show ?thesis
  proof (rule implement_in_returns)
    fix r
    assume "if lr_best_score r = None then oc_code oc = None
        else \<exists>c. oc_code oc = Some c \<and> read_text fs' (wt @ path_parts (impl_path spec)) = Inr c"
    with assms(2) show ?thesis by (auto dest: read_text_encodable split: if_splits)
  qed
qed

lemma run_case_code:
  "run_case bundled d h c fs = (fs', Inr oc) \<Longrightarrow> oc_code oc = Some t \<Longrightarrow> encodable t"
  by (auto simp: run_case_def dest: implement_code_encodable split: sum.splits prod.splits)

lemma run_from_writable:
  assumes "run_from bundled d hosts n_cases finished cases fs = (fs', es, e)" and "writable_results finished"
  shows "writable_results (ladder_results e)"
  using assms
proof (induction cases arbitrary: finished fs es)
  case Nil
  then show ?case by (auto simp: ladder_results_def)
next
  case (Cons ic cs)
  obtain i c where ic: "ic = (i, c)" by (cases ic)
  obtain fs1 r where r: "run_case bundled d (hosts (length finished + 1)) c fs = (fs1, r)"
    by (cases "run_case bundled d (hosts (length finished + 1)) c fs")
  show ?case
  proof (cases r)
    case (Inl x)
    with Cons.prems r ic show ?thesis
      by (auto simp: Let_def ladder_results_def writable_results_def split: if_splits)
  next
    case (Inr oc)
    let ?result = "\<lparr>cr_case_id = i, cr_outcome = oc\<rparr>"
    have "writable_results (finished @ [?result])"
      using Cons.prems(2) run_case_code r Inr by (fastforce simp: writable_results_def)
    moreover obtain es' where "run_from bundled d hosts n_cases (finished @ [?result]) cs fs1 = (fs', es', e)"
      using Cons.prems(1) ic r Inr by (auto simp: Let_def split: prod.splits)
    ultimately show ?thesis using Cons.IH by blast
  qed
qed

lemma run_from_ids:
  "run_from bundled d hosts n_cases finished cases fs = (fs', es, Completed rs) \<Longrightarrow>
     map cr_case_id rs = map cr_case_id finished @ map fst cases"
proof (induction cases arbitrary: finished fs es)
  case (Cons ic cs)
  obtain i c where ic: "ic = (i, c)" by (cases ic)
  from Cons.prems ic obtain fs1 oc es' where
    "run_from bundled d hosts n_cases (finished @ [\<lparr>cr_case_id = i, cr_outcome = oc\<rparr>]) cs fs1
       = (fs', es', Completed rs)"
    by (auto simp: Let_def split: prod.splits sum.splits if_splits)
  from Cons.IH [OF this] ic show ?case by simp
qed simp

lemma write_answers_refused:
  "write_answers d rs fs = (fs', Some x) \<Longrightarrow> writable_results rs \<Longrightarrow> x = OS_Error"
  by (induction d rs fs rule: write_answers.induct)
    (auto simp: Let_def writable_results_def dest: mkdirs_refused write_text_refused
      split: option.splits sum.splits)

lemma produced_refused:
  "write_produced_code rs model d stamp fs = (fs', Inl x) \<Longrightarrow> writable_results rs \<Longrightarrow> x = OS_Error"
  by (auto simp: write_produced_code_def Let_def dest: mkdirs_refused write_answers_refused
      split: sum.splits prod.splits option.splits)

lemma scorecard_refused:
  "write_scorecard repr py_str s d stamp fs = (fs', Inl x) \<Longrightarrow> \<forall>f. ascii_text (repr f)
     \<Longrightarrow> x = OS_Error"
  using ascii_encodable [OF dumps_ascii]
  by (auto simp: write_scorecard_def scorecard_text_def Let_def dest: mkdirs_refused write_text_refused
      split: sum.splits)

section \<open>The configuration a record carries\<close>

lemma run_record:
  assumes "loop_run e spec wt w = (s, Inr r)"
  shows "er_model (lr_record r) = e_model e \<and> er_digest (lr_record r) = card_digest (e_prompt e)
    \<and> er_plan_first (lr_record r) = plan_first spec"
proof -
  from assms obtain planning sl where "finish e planning (plan_first spec) sl = (s, Inr r)"
    by (rule loop_run_returns)
  then show ?thesis by (auto simp: finish_def from_run_def Let_def split: sum.splits)
qed

definition digest_of :: "(bytes \<Rightarrow> pystr) \<Rightarrow> pystr \<Rightarrow> pystr" where
  "digest_of sha256 card_text = take DIGEST_CHARS (sha256 (utf8_bytes (rstrip_with (\<lambda>x. x = NL) card_text)))"

lemma implement_record:
  assumes "implement h spec base_url model params card_path (Some wt) fs = (fs', Inr oc)" and "plain fs wt"
    and "read_text fs card_path = Inr card_text"
  shows "er_model (oc_record oc) = model \<and> er_digest (oc_record oc) = digest_of (h_sha256 h) card_text
    \<and> er_plan_first (oc_record oc) = plan_first spec"
proof -
  obtain dir rest where
    n: "require_nested_relative_file (impl_path spec) = Inr (dir # rest)" and
    im: "implement_in h spec base_url model params card_path dir wt fs = (fs', Inr oc)"
    by (rule implement_cases [OF assms(1)]) auto
  have pp: "path_parts (impl_path spec) = dir # rest" by (rule require_nested_parts [OF n])
  from im obtain fs1 pb st s r where mk: "mkdirs fs (wt @ butlast (path_parts (impl_path spec))) = Inr fs1"
    and pb: "bindE (read_text fs1 card_path) (mk_builder (h_sha256 h)) = Inr pb"
    and run: "loop_run \<lparr>e_clk = h_clk h, e_gen = call_generate (h_post h), e_prompt = pb,
               e_oracle = h_oracle h, e_model = model\<rparr> spec wt
             \<lparr>w_client = \<lparr>backend = (mk_httpx base_url model params, 0), total_calls = 0\<rparr>,
               w_clock = 0, w_fs = fs1, w_store = st\<rparr> = (s, Inr r)"
    and oc: "oc_record oc = lr_record r"
    by (auto simp: implement_in_def wired_run_def Let_def bindE_eq_Inr split: sum.splits prod.splits)
  have dd: "DOTDOT \<notin> set (wt @ butlast (dir # rest))"
    using nested_shape(2) [OF n] plain_root [OF assms(2)] by (auto dest: in_set_butlastD)
  from mkdirs_plain [OF assms(2) _ dd mk [unfolded pp]] have "grown (wt @ butlast (dir # rest)) fs fs1" by simp
  then have "extends fs fs1" unfolding grown_def extends_def by metis
  from read_text_extends [OF assms(3) this] pb have "card_digest pb = digest_of (h_sha256 h) card_text"
    by (auto simp: mk_builder_def Let_def digest_of_def utf8_encode_def split: option.splits if_splits)
  with run_record [OF run] oc show ?thesis by simp
qed

lemma alone_record:
  assumes "alone bundled d h c fs (Inr oc)" and "dv_scratch d = None" and "fresh_dir fs (h_tmp h)"
    and "one_hole ast canonical c"
    and "read_text fs (case dv_card d of None \<Rightarrow> bundled | Some p \<Rightarrow> p) = Inr card_text"
  shows "er_model (oc_record oc) = dv_model d \<and> er_digest (oc_record oc) = digest_of (h_sha256 h) card_text
    \<and> er_plan_first (oc_record oc) = plan_first (case_task c)"
proof -
  from assms(1) obtain fs1 fs' where same: "wf_fs fs1" "\<forall>q. fs_get fs1 q = fs_get fs q"
    and r: "run_case bundled d h c fs1 = (fs', Inr oc)"
    by (auto simp: alone_def) (metis prod.collapse)
  from fresh_dir_same [OF assms(3) same] have f: "fresh_dir fs1 (h_tmp h)" .
  show ?thesis
    using r assms(2) f assms(4)
  proof (rule run_case_returns)
    fix fs2 fs3
    assume i: "implement h (case_task c) (dv_base_url d) (dv_model d) (dv_params d)
        (case dv_card d of None \<Rightarrow> bundled | Some p \<Rightarrow> p) (Some (h_tmp h)) fs2 = (fs3, Inr oc)"
      and p: "plain fs2 (h_tmp h)" and e: "extends fs1 fs2"
    have "extends fs fs2" using e same(2) by (simp add: extends_def)
    from implement_record [OF i p read_text_extends [OF assms(5) this]] show ?thesis .
  qed
qed

section \<open>Names\<close>

lemma digit_groups_digits: "ds \<noteq> [] \<Longrightarrow> list_all is_digit ds \<Longrightarrow> digit_groups ds"
  by (induction ds rule: digit_groups.induct) (auto simp: is_digit_def)

lemma str_nat_digits: "str_nat k \<noteq> [] \<and> list_all is_digit (str_nat k)"
  using dec_digits_range [of _ k] by (auto simp: str_nat_def list_all_iff is_digit_def dec_digits.simps [of k])

lemma strip_digits: "list_all is_digit ds \<Longrightarrow> strip ds = ds"
proof -
  have keep: "dropWhile is_space xs = xs" if "list_all is_digit xs" for xs
    using that by (cases xs) (auto simp: is_digit_def is_space_def)
  assume "list_all is_digit ds"
  moreover from this have "list_all is_digit (rev ds)" by simp
  ultimately show ?thesis by (simp add: strip_def lstrip_def rstrip_def rstrip_with_def keep)
qed

lemma py_int_str_nat:
  assumes "length (str_nat k) \<le> int_max_str_digits"
  shows "py_int (str_nat k) = Inr (int k)"
proof -
  have d: "list_all is_digit (str_nat k)" "str_nat k \<noteq> []" using str_nat_digits by blast+
  then obtain c cs where c: "str_nat k = c # cs" "is_digit c" by (cases "str_nat k") auto
  have "\<not> startswith (str_nat k) (u ''-'')" "\<not> startswith (str_nat k) (u ''+'')"
    using c by (auto simp: startswith_def u_def is_digit_def)
  moreover have "filter (\<lambda>c. c \<noteq> 95) (str_nat k) = str_nat k"
    using d(1) by (auto simp: filter_id_conv list_all_iff is_digit_def)
  ultimately show ?thesis
    using assms strip_digits [OF d(1)] digit_groups_digits [OF d(2,1)]
    by (simp add: py_int_def Let_def) (simp add: str_nat_def)
qed

lemma card_stamp_name:
  assumes "length (str_nat k) \<le> int_max_str_digits"
  shows "card_stamp (scorecard_name m k) = Inr (int k) \<and> is_card_name (scorecard_name m k)"
proof -
  let ?stem = "u ''scorecard-'' @ slug_model_id m @ u ''-'' @ str_nat k"
  have n: "scorecard_name m k = ?stem @ u ''.json''" by (simp add: scorecard_name_def)
  have "?stem = (u ''scorecard-'' @ slug_model_id m) @ 45 # str_nat k" by (simp add: u_def)
  then have "split_on 45 ?stem = split_on 45 (u ''scorecard-'' @ slug_model_id m) @ split_on 45 (str_nat k)"
    by (simp only: split_on_append_sep)
  moreover have "45 \<notin> set (str_nat k)" using str_nat_digits [of k] by (auto simp: list_all_iff is_digit_def)
  ultimately have l: "List.last (split_on 45 ?stem) = str_nat k" by (simp add: split_on_single)
  have "take (length (scorecard_name m k) - 5) (scorecard_name m k) = ?stem" unfolding n by simp
  then have "card_stamp (scorecard_name m k) = py_int (str_nat k)" using l by (simp add: card_stamp_def)
  moreover have "is_card_name (scorecard_name m k)"
    by (simp add: is_card_name_def n ends_with_def startswith_iff)
  ultimately show ?thesis using py_int_str_nat [OF assms] by simp
qed

lemma mapE_all:
  "(\<exists>ys. mapE f xs = Inr ys) \<longleftrightarrow> (\<forall>x\<in>set xs. \<exists>y. f x = Inr y)"
  by (induction xs) (auto simp: bindE_eq_Inr)

lemma mapE_set: "mapE f xs = Inr ys \<Longrightarrow> set ys = {y. \<exists>x\<in>set xs. f x = Inr y}"
  by (induction xs arbitrary: ys) (auto simp: bindE_eq_Inr)

lemma scorecard_written:
  assumes "write_scorecard repr py_str s d stamp fs = (fs', Inr p)" and "plain fs d"
  shows "p = d @ [scorecard_name (lc_model s) stamp] \<and> plain fs' d
    \<and> fs' = fs_put p (File (utf8_bytes (scorecard_text repr py_str s))) fs"
proof -
  have dd: "DOTDOT \<notin> set d" using plain_root [OF assms(2)] by simp
  have r: "realpath fs d = Some d"
    using plain_root [OF assms(2)] assms(2) by (auto simp: plain_def intro: realpath_self)
  have "mkdirs fs d = Inr fs" using r assms(2) by (simp add: mkdirs_def is_dir_def plain_def)
  with assms(1) have p: "p = d @ [scorecard_name (lc_model s) stamp]"
    and w: "write_text fs p (scorecard_text repr py_str s) = Inr fs'"
    by (auto simp: write_scorecard_def Let_def split: sum.splits)
  have "length (scorecard_name (lc_model s) stamp) > 2" by (simp add: scorecard_name_def)
  then have "scorecard_name (lc_model s) stamp \<noteq> DOTDOT" by (auto simp: DOTDOT_def)
  then have "DOTDOT \<notin> set p" using dd p by simp
  moreover have "write_bytes fs p (utf8_bytes (scorecard_text repr py_str s)) = Inr fs'"
    using w by (auto simp: write_text_def utf8_encode_def split: if_splits)
  moreover have "below d p" "fs_get fs (butlast p) = Some Dir"
    using p assms(2) by (simp_all add: below_iff plain_def)
  ultimately show ?thesis using write_bytes_plain [OF assms(2)] p by blast
qed

lemma children_put: "p \<noteq> [] \<Longrightarrow> set (children (fs_put p n fs) d) = (if butlast p = d then insert p else (\<lambda>x. x)) (set (children fs d))"
  using set_fs_put [of p n fs] by (auto simp: children_def)

lemma names_in_plain: "plain fs d \<Longrightarrow> set (names_in fs d) = List.last ` set (children fs d)"
  using plain_root [of fs d] realpath_self [of fs d Dir] by (auto simp: names_in_def plain_def)

lemma latest_is_by_name:
  "latest_run_directory [([u ''code-b-1''], Dir), ([u ''code-a-2''], Dir)] [] = Some [u ''code-b-1'']"
  "run_directory_name (u ''b'') 1 = u ''code-b-1''" "run_directory_name (u ''a'') 2 = u ''code-a-2''"
  by code_simp+

end
