(* ===== verification/Scorecard_Reading.thy ===== *)
theory Scorecard_Reading
  imports Scorecards Compare_Sweeps
begin

text \<open>
  Where the benchmark meets the comparison: \<open>compare_sweeps.py\<close> finds the scorecards the benchmark wrote
  by their names and reads them back, so what a run measured is what a table compares.
\<close>

section \<open>Reading a scorecard\<close>

definition as_str :: "json \<Rightarrow> pystr option" where
  "as_str v = (case v of JStr s \<Rightarrow> Some s | _ \<Rightarrow> None)"

definition as_int :: "json \<Rightarrow> int option" where
  "as_int v = (case v of JInt i \<Rightarrow> Some i | _ \<Rightarrow> None)"

definition as_seconds :: "json \<Rightarrow> rat option" where
  "as_seconds v = (case v of JFloat (Fin q) \<Rightarrow> Some q | JInt i \<Rightarrow> Some (of_int i) | _ \<Rightarrow> None)"

definition attempts_of :: "json \<Rightarrow> int option" where
  "attempts_of v = (case v of JObj kvs \<Rightarrow> Option.bind (obj_get kvs ''attempts'') as_int | _ \<Rightarrow> None)"

text \<open>A field that may be absent: \<open>None\<close> of the outer option is a value of another type.\<close>

definition optional :: "(json \<Rightarrow> 'a option) \<Rightarrow> json option \<Rightarrow> 'a option option" where
  "optional f v = (case v of None \<Rightarrow> Some None | Some x \<Rightarrow> map_option Some (f x))"

definition as_bool :: "json \<Rightarrow> bool option" where
  "as_bool v = (case v of JBool b \<Rightarrow> Some b | _ \<Rightarrow> None)"

text \<open>The fields a row of the comparison needs, with the types the writer gives them; any other document is
  not a scorecard.\<close>

definition document_of :: "json \<Rightarrow> document option" where
  "document_of v =
     (case v of
        JObj kvs \<Rightarrow>
          (case (Option.bind (obj_get kvs ''model'') as_str, optional as_str (obj_get kvs ''rules_card_digest''),
                 optional as_bool (obj_get kvs ''plan_first''), Option.bind (obj_get kvs ''cases_passed'') as_int,
                 Option.bind (obj_get kvs ''cases_total'') as_int,
                 Option.bind (obj_get kvs ''total_completion_tokens'') as_int,
                 Option.bind (obj_get kvs ''total_model_seconds'') as_seconds,
                 (case obj_get kvs ''cases'' of Some (JArr cs) \<Rightarrow> those (map attempts_of cs) | _ \<Rightarrow> None),
                 (case obj_get kvs ''style_findings'' of Some JNull \<Rightarrow> Some None | x \<Rightarrow> optional as_int x)) of
             (Some m, Some digest, Some plan, Some p, Some t, Some tokens, Some seconds, Some attempts, Some style) \<Rightarrow>
               Some \<lparr>d_model = m, d_digest = digest, d_plan = plan, d_passed = p, d_total = t, d_tokens = tokens,
                     d_seconds = seconds, d_attempts = attempts, d_style = style\<rparr>
           | _ \<Rightarrow> None)
      | _ \<Rightarrow> None)"

datatype reading_error = Reading_Raised exn | Unreadable_Json json_error | Not_A_Scorecard

definition read_document :: "fs \<Rightarrow> path \<Rightarrow> reading_error + document" where
  "read_document fs p =
     (case read_text fs p of
        Inl x \<Rightarrow> Inl (Reading_Raised x)
      | Inr t \<Rightarrow>
          (case json_loads t of
             Inl x \<Rightarrow> Inl (Unreadable_Json x)
           | Inr v \<Rightarrow> (case document_of v of None \<Rightarrow> Inl Not_A_Scorecard | Some doc \<Rightarrow> Inr doc)))"

definition read_documents :: "fs \<Rightarrow> path \<Rightarrow> reading_error + (int \<times> document) list" where
  "read_documents fs d =
     (case scorecard_paths fs d of
        Inl x \<Rightarrow> Inl (Reading_Raised x)
      | Inr ps \<Rightarrow> mapE (\<lambda>(p, k). bindE (read_document fs p) (\<lambda>doc. Inr (k, doc))) ps)"

text \<open>The whole script, over a directory.\<close>

definition compare_directory ::
  "(rat \<Rightarrow> pystr) \<Rightarrow> fs \<Rightarrow> path \<Rightarrow> reading_error + pystr list \<times> (sweep_error + int)" where
  "compare_directory fixed1 fs d = bindE (read_documents fs d) (\<lambda>docs. Inr (compare_main fixed1 docs))"

section \<open>What is written is what is read\<close>

definition document_written :: "ladder_card \<Rightarrow> document" where
  "document_written s = \<lparr>d_model = lc_model s, d_digest = Some (lc_digest s), d_plan = Some (lc_plan_first s),
     d_passed = int (cases_passed s), d_total = int (cases_total s), d_tokens = lc_tokens s,
     d_seconds = lc_seconds s, d_attempts = map (\<lambda>c. int (cs_attempts c)) (lc_cases s), d_style = lc_style s\<rparr>"

lemma attempts_of_case: "attempts_of (case_as_dict py_str c) = Some (int (cs_attempts c))"
  by (simp add: attempts_of_def case_as_dict_def obj_get_def as_int_def u_def)

lemma those_map_to: "\<forall>x\<in>set xs. f x = Some (g x) \<Longrightarrow> those (map f xs) = Some (map g xs)"
  by (induction xs) simp_all

lemma document_of_card: "document_of (card_as_dict py_str s) = Some (document_written s)"
proof -
  have "those (map attempts_of (map (case_as_dict py_str) (lc_cases s))) = Some (map (\<lambda>c. int (cs_attempts c)) (lc_cases s))"
    by (simp add: those_map_to attempts_of_case comp_def)
  then show ?thesis
    by (cases "lc_style s")
      (simp_all add: document_of_def card_as_dict_def obj_get_def as_str_def as_int_def as_bool_def as_seconds_def
        optional_def u_def document_written_def comp_def)
qed

lemma universal_newlines_keep: "CR \<notin> set s \<Longrightarrow> universal_newlines s = s"
  by (induction s rule: universal_newlines.induct) auto

lemma read_ascii:
  assumes "plain fs d" and "startswith p d" and "fs_get fs p = Some (File (utf8_bytes t))" and "ascii_text t"
  shows "read_text fs p = Inr t"
proof -
  have "utf8_encode t = Some (utf8_bytes t)" using ascii_encodable [OF assms(4)] by (simp add: utf8_encode_def)
  moreover have "CR \<notin> set t" using assms(4) by (auto simp: ascii_text_def)
  ultimately have "decode_text (utf8_bytes t) = Inr t"
    by (simp add: decode_text_def decode_strict_encode universal_newlines_keep)
  with read_plain [OF assms(1-3)] show ?thesis by (simp add: read_text_def)
qed

lemma put_extends: "p \<noteq> [] \<Longrightarrow> fs_get fs p = None \<Longrightarrow> extends fs (fs_put p n fs)"
  by (auto simp: extends_def fs_get_put)

lemma read_document_extends: "read_document fs p = Inr doc \<Longrightarrow> extends fs fs' \<Longrightarrow> read_document fs' p = Inr doc"
proof -
  assume a: "read_document fs p = Inr doc" "extends fs fs'"
  then obtain t where t: "read_text fs p = Inr t" by (auto simp: read_document_def split: sum.splits)
  with a read_text_extends [OF t a(2)] show ?thesis by (simp add: read_document_def)
qed

lemma results_insert:
  assumes "f a = Inr z" and "\<And>x y. x \<in> S \<Longrightarrow> f x = Inr y \<longleftrightarrow> g x = Inr y"
  shows "{y. \<exists>x\<in>insert a S. f x = Inr y} = insert z {y. \<exists>x\<in>S. g x = Inr y}"
  using assms by auto

lemma scorecard_paths_put:
  assumes "scorecard_paths fs d = Inr ps" and "plain fs d" and "plain (fs_put p n fs) d" and "p = d @ [name]"
    and "is_card_name name" and "card_stamp name = Inr k"
  shows "\<exists>ps'. scorecard_paths (fs_put p n fs) d = Inr ps' \<and> set ps' = insert (p, k) (set ps)"
proof -
  let ?f = "\<lambda>n. bindE (card_stamp n) (\<lambda>k. Inr (d @ [n], k))"
  let ?ns = "filter is_card_name (names_in fs d)" and ?ns' = "filter is_card_name (names_in (fs_put p n fs) d)"
  have ns: "set ?ns' = insert name (set ?ns)"
    unfolding set_filter names_in_plain [OF assms(2)] names_in_plain [OF assms(3)]
    using assms(4,5) by (auto simp: children_put)
  have old: "mapE ?f ?ns = Inr ps" using assms(1) by (simp add: scorecard_paths_def)
  then have "\<forall>x\<in>set ?ns. \<exists>y. ?f x = Inr y" using mapE_all [of ?f ?ns] by blast
  moreover have new: "?f name = Inr (p, k)" using assms(4,6) by simp
  ultimately have "\<forall>x\<in>set ?ns'. \<exists>y. ?f x = Inr y" unfolding ns by blast
  then obtain ps' where ps': "mapE ?f ?ns' = Inr ps'" using mapE_all [of ?f ?ns'] by blast
  have "set ps' = insert (p, k) (set ps)"
    unfolding mapE_set [OF ps'] mapE_set [OF old] ns by (rule results_insert [where f = ?f and g = ?f, OF new refl])
  with ps' show ?thesis by (simp add: scorecard_paths_def)
qed

section \<open>The property\<close>

text \<open>C38. What a run measured is what the comparison reads: writing a scorecard into a directory of
  readable ones, under a name none of them has, adds to what \<open>compare_sweeps.py\<close> finds there exactly
  one document, stamped with the run's stamp, whose row carries the scorecard's own model, card, lever,
  counts, tokens, seconds, attempts and style findings; the others are read as before.\<close>

theorem comparison_reads_what_was_written:
  assumes "write_scorecard repr py_str s d stamp fs = (fs', Inr p)" and "plain fs d" and "fs_get fs p = None"
    and "read_documents fs d = Inr old" and "readable repr (card_as_dict py_str s)"
    and "\<forall>f. ascii_text (repr f)" and "length (str_nat stamp) \<le> int_max_str_digits"
  shows "\<exists>docs doc. read_documents fs' d = Inr docs \<and> set docs = insert (int stamp, doc) (set old)
    \<and> load_card (int stamp) doc = \<lparr>sc_model = lc_model s, sc_card = lc_digest s,
        sc_plan = Some (lc_plan_first s), sc_stamp = int stamp, sc_passed = int (cases_passed s),
        sc_total = int (cases_total s), sc_tokens = lc_tokens s, sc_seconds = lc_seconds s,
        sc_attempts = (\<Sum>c\<leftarrow>lc_cases s. int (cs_attempts c)), sc_style = lc_style s\<rparr>"
proof -
  let ?name = "scorecard_name (lc_model s) stamp" and ?doc = "document_written s"
  let ?read = "\<lambda>fs (p, k). bindE (read_document fs p) (\<lambda>doc. Inr (k :: int, doc))"
  have w: "p = d @ [?name]" "plain fs' d" "fs' = fs_put p (File (utf8_bytes (scorecard_text repr py_str s))) fs"
    using scorecard_written [OF assms(1,2)] by blast+
  have name: "card_stamp ?name = Inr (int stamp)" "is_card_name ?name" using card_stamp_name [OF assms(7)] by blast+
  have t: "ascii_text (scorecard_text repr py_str s)" by (simp add: scorecard_text_def dumps_ascii assms(6))
  have "fs_get fs' p = Some (File (utf8_bytes (scorecard_text repr py_str s)))" using w(1,3) by (simp add: fs_get_put)
  from read_ascii [OF w(2) _ this t] w(1) have "read_text fs' p = Inr (scorecard_text repr py_str s)"
    by (simp add: startswith_iff)
  then have doc: "read_document fs' p = Inr ?doc"
    by (simp add: read_document_def scorecard_text_def loads_dumps [OF assms(5)] document_of_card)
  obtain ps where ps: "scorecard_paths fs d = Inr ps" and old: "mapE (?read fs) ps = Inr old"
    using assms(4) by (auto simp: read_documents_def split: sum.splits)
  obtain ps' where ps': "scorecard_paths fs' d = Inr ps'" "set ps' = insert (p, int stamp) (set ps)"
    using scorecard_paths_put [OF ps assms(2) w(2) [unfolded w(3)] w(1) name(2,1)] w(3) by blast
  have "extends fs fs'" using w(1,3) assms(3) put_extends by simp
  note grow = read_document_extends [OF _ this]
  have keep: "?read fs' x = Inr y" if r: "?read fs x = Inr y" for x y
  proof -
    obtain q k where x: "x = (q, k)" by (cases x)
    with r obtain doc where "read_document fs q = Inr doc" "y = (k, doc)" by (auto simp: bindE_eq_Inr)
    with grow x show ?thesis by simp
  qed
  have ok: "\<forall>x\<in>set ps. \<exists>y. ?read fs x = Inr y" using mapE_all [of "?read fs" ps] old by blast
  then have "\<forall>x\<in>set ps'. \<exists>y. ?read fs' x = Inr y" unfolding ps'(2) using doc keep by fastforce
  then obtain docs where docs: "mapE (?read fs') ps' = Inr docs" using mapE_all [of "?read fs'" ps'] by blast
  have same: "?read fs' x = Inr y \<longleftrightarrow> ?read fs x = Inr y" if "x \<in> set ps" for x y
    using ok keep that by (metis sum.inject(2))
  have "set docs = insert (int stamp, ?doc) (set old)"
    unfolding mapE_set [OF docs] mapE_set [OF old] ps'(2)
    by (rule results_insert [where f = "?read fs'" and g = "?read fs"]) (simp add: doc, rule same)
  moreover have "read_documents fs' d = Inr docs" using ps'(1) docs by (simp add: read_documents_def)
  moreover have "load_card (int stamp) ?doc = \<lparr>sc_model = lc_model s, sc_card = lc_digest s,
        sc_plan = Some (lc_plan_first s), sc_stamp = int stamp, sc_passed = int (cases_passed s),
        sc_total = int (cases_total s), sc_tokens = lc_tokens s, sc_seconds = lc_seconds s,
        sc_attempts = (\<Sum>c\<leftarrow>lc_cases s. int (cs_attempts c)), sc_style = lc_style s\<rparr>"
    by (simp add: load_card_def document_written_def)
  ultimately show ?thesis by blast
qed

definition small_card :: ladder_card where
  "small_card = \<lparr>lc_model = u ''m'', lc_digest = u ''0d'', lc_plan_first = True,
     lc_cases = [\<lparr>cs_case_id = u ''01'', cs_status = Done, cs_attempts = 2, cs_fault = None, cs_length_capped = 0\<rparr>],
     lc_tokens = 9, lc_seconds = 0, lc_mean = None, lc_style = Some 0\<rparr>"

definition small_directory :: fs where
  "small_directory = [([u ''o''], Dir)]"

abbreviation zero_text :: "pyfloat \<Rightarrow> pystr" where
  "zero_text \<equiv> \<lambda>_. u ''0.0''"

lemma small_readable: "readable zero_text (card_as_dict (\<lambda>_. []) small_card)"
proof -
  have "reads_back zero_text (Fin 0)"
    by (rule decimal_reads_back [where a = 0 and ds = "[48]"])
      (simp_all add: u_def dec_digits.simps is_digit_def dec_value_def float_of_rat_def)
  moreover have "case_as_dict (\<lambda>_. []) \<lparr>cs_case_id = u ''01'', cs_status = Done, cs_attempts = 2, cs_fault = None,
      cs_length_capped = 0\<rparr> = JObj [(u ''case_id'', JStr (u ''01'')), (u ''status'', JStr (u ''done'')),
        (u ''attempts'', JInt 2), (u ''length_capped'', JInt 0)]"
    by (simp add: case_as_dict_def status_value_def)
  ultimately show ?thesis
    by (simp add: card_as_dict_def small_card_def cases_passed_def cases_total_def u_def is_high_def is_low_def
        dec_digits.simps int_max_str_digits_def)
qed

theorem comparison_reads_what_was_written_witness:
  "\<exists>fs' docs doc. write_scorecard zero_text (\<lambda>_. []) small_card [u ''o''] 7 small_directory
       = (fs', Inr [u ''o'', u ''scorecard-m-7.json''])
     \<and> read_documents fs' [u ''o''] = Inr docs \<and> set docs = {(7, doc)}
     \<and> sc_attempts (load_card 7 doc) = 2 \<and> sc_passed (load_card 7 doc) = 1 \<and> sc_style (load_card 7 doc) = Some 0"
proof -
  have "case write_scorecard zero_text (\<lambda>_. []) small_card [u ''o''] 7 small_directory of
      (_, Inl _) \<Rightarrow> False | (_, Inr p) \<Rightarrow> p = [u ''o'', u ''scorecard-m-7.json'']"
    by code_simp
  then obtain fs' where w: "write_scorecard zero_text (\<lambda>_. []) small_card [u ''o''] 7 small_directory
      = (fs', Inr [u ''o'', u ''scorecard-m-7.json''])" by (auto split: prod.splits sum.splits)
  have p: "plain small_directory [u ''o'']"
    by (auto simp: plain_def small_directory_def wf_fs_def fs_get_def u_def DOTDOT_def is_link_node_def)
  have f: "fs_get small_directory [u ''o'', u ''scorecard-m-7.json''] = None"
    by (simp add: small_directory_def fs_get_def)
  have o: "read_documents small_directory [u ''o''] = Inr []" by code_simp
  have a: "\<forall>f. ascii_text (zero_text f)" by (simp add: u_def)
  have l: "length (str_nat 7) \<le> int_max_str_digits" by code_simp
  from comparison_reads_what_was_written [OF w p f o small_readable a l] show ?thesis
    using w by (fastforce simp: small_card_def cases_passed_def)
qed

end
