(* ===== verification/Benchmark_Run.thy ===== *)
theory Benchmark_Run
  imports Scorecard_Reading Quicksort_Example
begin

text \<open>
  \<open>benchmarks/run.py\<close>: the benchmark's command line, the cases it selects, the ladder it runs and scores,
  the artifacts it writes and the code it exits with; and the console the ladder is reported on live.
\<close>

section \<open>The arguments\<close>

definition RUN_OPTIONS :: "(pystr \<times> option_kind) list" where
  "RUN_OPTIONS = [(u ''--help'', Help), (u ''--base-url'', Takes_Value), (u ''--model'', Takes_Value),
     (u ''--out'', Takes_Value), (u ''--code-out'', Takes_Value), (u ''--stream'', Switch),
     (u ''--only'', Takes_Value), (u ''--plan-first'', Switch), (u ''--generation-params'', Takes_Value),
     (u ''--rules-card'', Takes_Value)]"

record run_args =
  ra_base_url :: "pystr option"
  ra_model :: "pystr option"
  ra_out :: "pystr option"
  ra_code_out :: "pystr option"
  ra_stream :: bool
  ra_only :: "pystr list"
  ra_plan_first :: bool
  ra_params :: "(pystr \<times> json) list"
  ra_rules_card :: "pystr option"

definition store_run :: "pystr \<Rightarrow> pystr \<Rightarrow> run_args \<Rightarrow> int + run_args" where
  "store_run opt v args =
     (if opt = u ''--base-url'' then Inr (args\<lparr>ra_base_url := Some v\<rparr>)
      else if opt = u ''--model'' then Inr (args\<lparr>ra_model := Some v\<rparr>)
      else if opt = u ''--out'' then Inr (args\<lparr>ra_out := Some v\<rparr>)
      else if opt = u ''--code-out'' then Inr (args\<lparr>ra_code_out := Some v\<rparr>)
      else if opt = u ''--only'' then Inr (args\<lparr>ra_only := ra_only args @ [v]\<rparr>)
      else if opt = u ''--rules-card'' then Inr (args\<lparr>ra_rules_card := Some v\<rparr>)
      else (case generation_params_from_json v of
              Inl _ \<Rightarrow> Inl 2 | Inr ps \<Rightarrow> Inr (args\<lparr>ra_params := ps\<rparr>)))"

definition switch_run :: "pystr \<Rightarrow> run_args \<Rightarrow> run_args" where
  "switch_run opt args =
     (if opt = u ''--stream'' then args\<lparr>ra_stream := True\<rparr> else args\<lparr>ra_plan_first := True\<rparr>)"

definition parse_run :: "(pystr \<Rightarrow> pystr option) \<Rightarrow> pystr list \<Rightarrow> int + run_args" where
  "parse_run getenv argv =
     consume RUN_OPTIONS switch_run store_run False
       \<lparr>ra_base_url = getenv BASE_URL_ENV, ra_model = getenv MODEL_ENV, ra_out = None, ra_code_out = None,
        ra_stream = False, ra_only = [], ra_plan_first = False, ra_params = [], ra_rules_card = None\<rparr> argv"

section \<open>Preparation\<close>

text \<open>What ends a run without an exit code.\<close>

datatype run_error =
    Loading_Raised case_error
  | Ladder_Raised exn
  | Scoring_Raised scoring_error
  | Artifact_Raised exn
  | Style_Raised style_error

definition resolve_server :: "run_args \<Rightarrow> pystr + pystr \<times> pystr" where
  "resolve_server args =
     (if ra_base_url args = None \<or> ra_base_url args = Some []
      then Inl (u ''no server given (pass --base-url or set '' @ BASE_URL_ENV @ u '')'')
      else if ra_model args = None \<or> ra_model args = Some []
      then Inl (u ''no model given (pass --model or set '' @ MODEL_ENV @ u '')'')
      else Inr (the (ra_base_url args), the (ra_model args)))"

definition plan_cases ::
  "fixture_reader \<Rightarrow> (pystr \<times> benchmark_case) list \<Rightarrow> case_error + (pystr \<times> benchmark_case) list" where
  "plan_cases rd =
     mapE (\<lambda>(i, c). bindE (planning_first (fx_ast rd) (fx_canonical rd) c) (\<lambda>c'. Inr (i, c')))"

text \<open>\<open>--only\<close>: the unknown ids in sorted order, or the selected cases in the ladder's order.\<close>

definition select_cases ::
  "pystr list \<Rightarrow> (pystr \<times> benchmark_case) list \<Rightarrow> pystr + (pystr \<times> benchmark_case) list" where
  "select_cases only cases =
     (if only = [] then Inr cases
      else let unknown = sort (remdups (filter (\<lambda>i. i \<notin> fst ` set cases) only))
           in if unknown \<noteq> []
              then Inl (u ''unknown case id(s): '' @ join (u '', '') unknown @ [32, 8212] @ u '' the ladder is ''
                     @ join (u '', '') (map fst cases))
              else Inr (filter (\<lambda>(i, _). i \<in> set only) cases))"

text \<open>The committed ladder: \<open>here\<close> is the directory of \<open>run.py\<close>.\<close>

definition cases_dir :: "path \<Rightarrow> path" where
  "cases_dir here = here @ [u ''schedule_manager'', u ''cases'']"

definition golden_app :: "path \<Rightarrow> path" where
  "golden_app here = here @ [u ''schedule_manager'', u ''golden'', u ''app'']"

definition prepare_cases ::
  "fixture_reader \<Rightarrow> path \<Rightarrow> run_args \<Rightarrow> fs \<Rightarrow> case_error + (pystr + (pystr \<times> benchmark_case) list)" where
  "prepare_cases rd here args fs =
     bindE (load_cases rd fs (golden_app here) (cases_dir here)) (\<lambda>cases.
     bindE (if ra_plan_first args then plan_cases rd cases else Inr cases) (\<lambda>planned.
       Inr (select_cases (ra_only args) planned)))"

section \<open>What is printed\<close>

definition score_line :: "(json \<Rightarrow> pystr) \<Rightarrow> case_score \<Rightarrow> pystr" where
  "score_line py_str c =
     u ''  '' @ ljust 20 (cs_case_id c) @ u '' '' @ ljust 10 (status_value (cs_status c)) @ u '' ''
       @ str_nat (cs_attempts c) @ u '' attempt(s)''
       @ (if cs_length_capped c = 0 then [] else u '', '' @ str_nat (cs_length_capped c) @ u '' length-capped'')
       @ (case cs_fault c of None \<Rightarrow> [] | Some m \<Rightarrow> [32, 8212] @ u '' fault: '' @ message_text py_str m)"

text \<open>\<open>fixed1\<close> renders a float with one decimal, as \<open>:.1f\<close> does.  Python refuses to format an integer of
  more than 4300 digits; the counts printed here are taken to be shorter.\<close>

definition print_scorecard :: "(rat \<Rightarrow> pystr) \<Rightarrow> (json \<Rightarrow> pystr) \<Rightarrow> ladder_card \<Rightarrow> pystr list" where
  "print_scorecard fixed1 py_str s =
     [u ''model: '' @ lc_model s, u ''rules card: '' @ lc_digest s]
     @ map (score_line py_str) (lc_cases s)
     @ [u ''[benchmark] '' @ str_nat (cases_passed s) @ u ''/'' @ str_nat (cases_total s) @ u '' cases passed, ''
          @ str_int (lc_tokens s) @ u '' completion tokens, '' @ fixed1 (lc_seconds s) @ u ''s decode, ''
          @ (case lc_mean s of None \<Rightarrow> u ''n/a'' | Some m \<Rightarrow> fixed1 m) @ u '' tok/s'']"

definition still_whole :: "string \<Rightarrow> pystr" where
  "still_whole absent =
     u ''the scorecard covers every case that ran; only '' @ u absent @ u '' is absent''"

text \<open>A fault of the host, or of the linter, with the line that says what it costs.\<close>

datatype harness_fault = Host_Fault exn | Style_Fault style_error

definition fault_line :: "(harness_fault \<Rightarrow> pystr) \<Rightarrow> harness_fault option \<Rightarrow> pystr" where
  "fault_line text_of f = u ''error: benchmark harness fault: ''
     @ (case f of None \<Rightarrow> u ''None'' | Some x \<Rightarrow> text_of x)"

definition report_harness_faults ::
  "(harness_fault \<Rightarrow> pystr) \<Rightarrow> harness_fault option \<Rightarrow> (harness_fault \<times> pystr) list \<Rightarrow> nat
     \<Rightarrow> pystr list \<times> bool" where
  "report_harness_faults text_of interruption artifact_faults scored =
     ((case interruption of None \<Rightarrow> []
       | Some x \<Rightarrow> [fault_line text_of (Some x),
           u ''the scorecard covers the '' @ str_nat scored @ u '' case(s) that finished before it''])
      @ concat (map (\<lambda>(x, consequence). [fault_line text_of (Some x), consequence]) artifact_faults),
      interruption \<noteq> None \<or> artifact_faults \<noteq> [])"

section \<open>The artifacts\<close>

text \<open>\<open>main\<close>'s clause: \<open>OSError\<close>, \<open>RuntimeError\<close> and \<open>ValueError\<close>.\<close>

definition style_caught :: "style_error \<Rightarrow> bool" where
  "style_caught e = (case e of Document_Overflow \<Rightarrow> False | Document_Key_Error \<Rightarrow> False | Document_Type_Error \<Rightarrow> False
     | Document_Index_Error \<Rightarrow> False | _ \<Rightarrow> True)"

definition exn_caught :: "exn \<Rightarrow> bool" where
  "exn_caught x \<longleftrightarrow> x = OS_Error \<or> is_value_error x"

record run_env =
  re_getenv :: "pystr \<Rightarrow> pystr option"
  re_cwd :: path
  re_here :: path
  re_bundled :: path
  re_reader :: fixture_reader
  re_hosts :: "nat \<Rightarrow> host"
  re_stamp :: nat
  re_scratch :: path
  re_interpreter :: path
  re_linter :: "pystr list \<Rightarrow> fs \<Rightarrow> linter_run"
  re_repr :: "pyfloat \<Rightarrow> pystr"
  re_str :: "json \<Rightarrow> pystr"
  re_fixed1 :: "rat \<Rightarrow> pystr"
  re_text :: "harness_fault \<Rightarrow> pystr"

text \<open>\<open>_count_style_findings\<close>: the produced code in a temporary directory, linted and removed.  The
  linter reads the state before the removal, whichever is written first below; the removal itself
  is taken to succeed.\<close>

definition count_style_findings ::
  "run_env \<Rightarrow> case_result list \<Rightarrow> pystr \<Rightarrow> fs \<Rightarrow> fs \<times> (harness_fault + int option)" where
  "count_style_findings env rs model fs =
     (case make_temp (re_scratch env) fs of
        Inl x \<Rightarrow> (fs, Inl (Host_Fault x))
      | Inr fs1 \<Rightarrow>
          (case write_produced_code rs model (re_scratch env) (re_stamp env) fs1 of
             (fs2, Inl x) \<Rightarrow> (remove_tree (re_scratch env) fs2, Inl (Host_Fault x))
           | (fs2, Inr d) \<Rightarrow>
               (remove_tree (re_scratch env) fs2,
                if names_in fs2 d = [] then Inr None
                else (case collect_style_findings (re_str env) (re_linter env) (re_interpreter env) d fs2 of
                        Inl e \<Rightarrow> Inl (Style_Fault e)
                      | Inr findings \<Rightarrow> Inr (Some (int (length findings)))))))"

definition fault_caught :: "harness_fault \<Rightarrow> bool" where
  "fault_caught f = (case f of Host_Fault x \<Rightarrow> exn_caught x | Style_Fault e \<Rightarrow> style_caught e)"

definition fault_raised :: "harness_fault \<Rightarrow> run_error" where
  "fault_raised f = (case f of Host_Fault x \<Rightarrow> Artifact_Raised x | Style_Fault e \<Rightarrow> Style_Raised e)"

text \<open>One opt-in file: nothing asked, written with the line that says so, or refused by the host.  Only
  \<open>OSError\<close> is a refusal.\<close>

definition write_artifact ::
  "pystr \<Rightarrow> pystr \<Rightarrow> (path \<Rightarrow> fs \<Rightarrow> fs \<times> (exn + path)) \<Rightarrow> path \<Rightarrow> pystr option \<Rightarrow> fs
     \<Rightarrow> fs \<times> (exn + pystr list \<times> (harness_fault \<times> pystr) list)" where
  "write_artifact what consequence write cwd wanted fs =
     (case wanted of
        None \<Rightarrow> (fs, Inr ([], []))
      | Some t \<Rightarrow>
          (case write (join_path cwd t) fs of
             (fs', Inr p) \<Rightarrow> (fs', Inr ([what @ u '' written to '' @ str_path p], []))
           | (fs', Inl x) \<Rightarrow>
               (fs', if x = OS_Error then Inr ([], [(Host_Fault x, consequence)]) else Inl x)))"

definition write_run_artifacts ::
  "run_env \<Rightarrow> ladder_card \<Rightarrow> case_result list \<Rightarrow> run_args \<Rightarrow> fs
     \<Rightarrow> fs \<times> (exn + pystr list \<times> (harness_fault \<times> pystr) list)" where
  "write_run_artifacts env s rs args fs =
     (case write_artifact (u ''produced code'') (still_whole ''the produced-code tree'')
             (\<lambda>p. write_produced_code rs (lc_model s) p (re_stamp env)) (re_cwd env) (ra_code_out args) fs of
        (fs1, Inl x) \<Rightarrow> (fs1, Inl x)
      | (fs1, Inr (out1, faults1)) \<Rightarrow>
          (case write_artifact (u ''scorecard'')
                  (u ''the run's measurement is the scorecard printed above, unwritten'')
                  (\<lambda>p. write_scorecard (re_repr env) (re_str env) s p (re_stamp env)) (re_cwd env)
                  (ra_out args) fs1 of
             (fs2, Inl x) \<Rightarrow> (fs2, Inl x)
           | (fs2, Inr (out2, faults2)) \<Rightarrow> (fs2, Inr (out1 @ out2, faults1 @ faults2))))"

section \<open>main\<close>

text \<open>The file system, the lines \<open>main\<close> itself prints, and the exit code or what it raises: from the
  printing of the scorecard on, and from its scoring on.\<close>

definition publish ::
  "run_env \<Rightarrow> run_args \<Rightarrow> harness_fault option \<Rightarrow> (harness_fault \<times> pystr) list \<Rightarrow> case_result list
     \<Rightarrow> ladder_card \<Rightarrow> fs \<Rightarrow> fs \<times> pystr list \<times> (run_error + int)"
where
  "publish env args interruption style_faults rs s fs =
     (let printed = print_scorecard (re_fixed1 env) (re_str env) s
      in case write_run_artifacts env s rs args fs of
           (fs', Inl x) \<Rightarrow> (fs', printed, Inl (Artifact_Raised x))
         | (fs', Inr (out, faults)) \<Rightarrow>
             (case report_harness_faults (re_text env) interruption (style_faults @ faults) (length rs) of
                (lines, broken) \<Rightarrow>
                  (fs', printed @ out @ lines,
                   Inr (if broken then 3 else if cases_passed s = cases_total s then 0 else 1))))"

definition finish_run ::
  "run_env \<Rightarrow> run_args \<Rightarrow> harness_fault option \<Rightarrow> case_result list \<Rightarrow> fs \<Rightarrow> fs \<times> pystr list \<times> (run_error + int)"
where
  "finish_run env args interruption rs fs =
     (case score_cases rs of
        Inl x \<Rightarrow> (fs, [], Inl (Scoring_Raised x))
      | Inr s \<Rightarrow>
          (case count_style_findings env rs (lc_model s) fs of
             (fs1, Inr n) \<Rightarrow> publish env args interruption [] rs (s\<lparr>lc_style := n\<rparr>) fs1
           | (fs1, Inl f) \<Rightarrow>
               if fault_caught f
               then publish env args interruption [(f, still_whole ''its style count'')] rs s fs1
               else (fs1, [], Inl (fault_raised f))))"

definition run_driver :: "run_env \<Rightarrow> run_args \<Rightarrow> pystr \<Rightarrow> pystr \<Rightarrow> driver" where
  "run_driver env args base_url model =
     \<lparr>dv_base_url = base_url, dv_model = model, dv_params = ra_params args, dv_scratch = None,
      dv_card = map_option (join_path (re_cwd env)) (ra_rules_card args)\<rparr>"

text \<open>\<open>main\<close> once its arguments are read.\<close>

definition run_with ::
  "run_env \<Rightarrow> run_args \<Rightarrow> fs \<Rightarrow> fs \<times> pystr list \<times> (run_error + int)" where
  "run_with env args fs =
     (case resolve_server args of
        Inl msg \<Rightarrow> (fs, [u ''error: '' @ msg], Inr 2)
      | Inr (base_url, model) \<Rightarrow>
          (case prepare_cases (re_reader env) (re_here env) args fs of
             Inl x \<Rightarrow> (fs, [], Inl (Loading_Raised x))
           | Inr (Inl msg) \<Rightarrow> (fs, [u ''error: '' @ msg], Inr 2)
           | Inr (Inr cases) \<Rightarrow>
               (case run_cases (re_bundled env) (run_driver env args base_url model) (re_hosts env) cases fs of
                  (fs1, _, Escaped x) \<Rightarrow> (fs1, [], Inl (Ladder_Raised x))
                | (fs1, _, Completed rs) \<Rightarrow>
                    if rs = [] then (fs1, [fault_line (re_text env) None], Inr 3)
                    else finish_run env args None rs fs1
                | (fs1, _, Interrupted rs x) \<Rightarrow>
                    if rs = [] then (fs1, [fault_line (re_text env) (Some (Host_Fault x))], Inr 3)
                    else finish_run env args (Some (Host_Fault x)) rs fs1)))"

definition benchmark_main ::
  "run_env \<Rightarrow> pystr list \<Rightarrow> fs \<Rightarrow> fs \<times> pystr list \<times> (run_error + int)" where
  "benchmark_main env argv fs =
     (case parse_run (re_getenv env) argv of Inl code \<Rightarrow> (fs, [], Inr code) | Inr args \<Rightarrow> run_with env args fs)"

text \<open>The return code of the process: what \<open>main\<close> raises ends it with 1.\<close>

definition ladder_code :: "fs \<times> pystr list \<times> (run_error + int) \<Rightarrow> int" where
  "ladder_code r = (case snd (snd r) of Inl _ \<Rightarrow> 1 | Inr code \<Rightarrow> code)"

definition run_benchmark :: "run_env \<Rightarrow> fs \<Rightarrow> pystr list \<Rightarrow> exn + int" where
  "run_benchmark env fs cmd = Inr (ladder_code (benchmark_main env (drop 3 cmd) fs))"

interpretation run_table: option_table RUN_OPTIONS
proof
  show "distinct (map fst RUN_OPTIONS)" by code_simp
  show "startswith opt (u ''--'') \<and> 2 < length opt \<and> 61 \<notin> set opt" if "(opt, k) \<in> set RUN_OPTIONS" for opt k
    using that by (auto simp: RUN_OPTIONS_def u_def startswith_def)
qed

section \<open>The console\<close>

text \<open>What has been written, and whether the last raw delta left a line open.\<close>

record console =
  co_out :: pystr
  co_mid_line :: bool

definition new_console :: console where
  "new_console = \<lparr>co_out = [], co_mid_line = False\<rparr>"

definition console_line :: "pystr \<Rightarrow> console \<Rightarrow> console" where
  "console_line t c =
     c\<lparr>co_out := co_out c @ (if co_mid_line c then [NL] else []) @ t @ [NL], co_mid_line := False\<rparr>"

definition console_delta :: "bool \<Rightarrow> pystr \<Rightarrow> console \<Rightarrow> console" where
  "console_delta stream_text t c =
     (if stream_text then c\<lparr>co_out := co_out c @ t, co_mid_line := \<not> ends_with t [NL]\<rparr> else c)"

text \<open>\<open>fixed0\<close> and \<open>fixed1\<close> are the formats \<open>:.0f\<close> and \<open>:.1f\<close>.\<close>

definition case_started :: "(pyfloat \<Rightarrow> pystr) \<Rightarrow> pystr \<Rightarrow> benchmark_case \<Rightarrow> nat \<Rightarrow> nat \<Rightarrow> console \<Rightarrow> console" where
  "case_started fixed0 i c index n =
     (let b = task_budget (case_task c)
      in console_line (u ''['' @ str_nat index @ u ''/'' @ str_nat n @ u ''] '' @ i @ u ''  ->  ''
           @ impl_path (case_task c) @ u ''  (up to '' @ str_int (max_attempts b) @ u '' attempts x ''
           @ str_int (max_tokens b) @ u '' tokens, '' @ fixed0 (generation_timeout_s b) @ u ''s decode, ''
           @ fixed0 (oracle_timeout_s b) @ u ''s oracle)''))"

definition attempt_verdict :: "(json \<Rightarrow> pystr) \<Rightarrow> (block_reason \<Rightarrow> pystr) \<Rightarrow> attempt_progress \<Rightarrow> pystr" where
  "attempt_verdict py_str reason_text p =
     (case p_score p of
        Some s \<Rightarrow> str_int (passed s) @ u ''/'' @ str_int (expected s) @ u '' oracle tests passed''
      | None \<Rightarrow>
          (case r_fault (p_generation p) of
             Some m \<Rightarrow> u ''server fault: '' @ message_text py_str m
           | None \<Rightarrow>
               (case r_derail (p_generation p) of
                  Some d \<Rightarrow> u ''derailed ('' @ derail_value d @ u '')''
                | None \<Rightarrow>
                    (case p_blocked_reason p of
                       Some b \<Rightarrow> if reason_text b = [] then u ''no usable file frame'' else reason_text b
                     | None \<Rightarrow> u ''no usable file frame''))))"

definition attempt_marks :: "attempt_progress \<Rightarrow> pystr" where
  "attempt_marks p =
     (let marks = (if p_repeats p then [u ''repeat''] else []) @ (if p_nudged p then [u ''nudged''] else [])
      in if marks = [] then [] else u ''  ['' @ join (u '', '') marks @ u '']'')"

definition attempt_line ::
  "(rat \<Rightarrow> pystr) \<Rightarrow> (json \<Rightarrow> pystr) \<Rightarrow> (block_reason \<Rightarrow> pystr) \<Rightarrow> attempt_progress \<Rightarrow> console \<Rightarrow> console" where
  "attempt_line fixed1 py_str reason_text p =
     (let g = p_generation p
      in console_line (u ''    attempt '' @ str_nat (p_attempt p) @ u ''  '' @ rjust 6 (str_int (completion_tokens g))
           @ u '' tok  '' @ rjust 6 (fixed1 (r_seconds g)) @ u ''s  ''
           @ (case tokens_per_second g of
                None \<Rightarrow> u ''  n/a'' | Some r \<Rightarrow> rjust 5 (fixed1 r))
           @ u '' tok/s  ->  '' @ attempt_verdict py_str reason_text p @ attempt_marks p))"

definition case_finished :: "(rat \<Rightarrow> pystr) \<Rightarrow> case_result \<Rightarrow> console \<Rightarrow> console" where
  "case_finished fixed1 r =
     (let rec = oc_record (cr_outcome r)
      in console_line (u ''    = '' @ status_value (oc_status (cr_outcome r)) @ u '' after ''
           @ str_nat (er_attempts rec) @ u '' attempt(s), '' @ str_int (er_tokens rec) @ u '' tokens in ''
           @ fixed1 (er_seconds rec) @ u ''s''))"

text \<open>However structured lines and raw deltas interleave, a structured line starts at the left margin, and
  without \<open>--stream\<close> the console shows the structured lines alone.\<close>

datatype console_event = Structured pystr | Streamed pystr

fun console_step :: "bool \<Rightarrow> console_event \<Rightarrow> console \<Rightarrow> console" where
  "console_step stream_text (Structured t) c = console_line t c"
| "console_step stream_text (Streamed t) c = console_delta stream_text t c"

fun structured_text :: "console_event \<Rightarrow> pystr" where
  "structured_text (Structured t) = t @ [NL]"
| "structured_text (Streamed t) = []"

definition at_margin :: "pystr \<Rightarrow> bool" where
  "at_margin t \<longleftrightarrow> t = [] \<or> ends_with t [NL]"

lemma at_margin_snoc [simp]: "at_margin (t @ [NL])"
  by (simp add: at_margin_def ends_with_def startswith_def)

lemma console_step_margin:
  assumes "\<not> co_mid_line c \<longrightarrow> at_margin (co_out c)"
  shows "\<not> co_mid_line (console_step stream e c) \<longrightarrow> at_margin (co_out (console_step stream e c))"
proof -
  have "ends_with t [NL] \<Longrightarrow> at_margin (xs @ t)" for xs t
    by (auto simp: ends_with_def at_margin_def startswith_iff)
  with assms show ?thesis
    by (cases e) (auto simp: console_line_def console_delta_def simp flip: append_assoc)
qed

lemma console_margin:
  "\<not> co_mid_line (fold (console_step stream) es new_console)
     \<longrightarrow> at_margin (co_out (fold (console_step stream) es new_console))"
proof (induction es rule: rev_induct)
  case Nil
  show ?case by (simp add: new_console_def at_margin_def)
next
  case (snoc e es)
  then show ?case using console_step_margin by simp
qed

lemma structured_line_at_margin:
  "\<exists>shown. co_out (console_line t (fold (console_step stream) es new_console)) = shown @ t @ [NL] \<and> at_margin shown"
  using console_margin [of stream es] by (auto simp: console_line_def simp flip: append_assoc)

lemma quiet_console:
  "co_out (fold (console_step False) es new_console) = concat (map structured_text es)
   \<and> \<not> co_mid_line (fold (console_step False) es new_console)"
proof (induction es rule: rev_induct)
  case Nil
  show ?case by (simp add: new_console_def)
next
  case (snoc e es)
  then show ?case by (cases e) (simp_all add: console_line_def console_delta_def)
qed

end
