(* ===== verification/Benchmark_Properties.thy ===== *)
theory Benchmark_Properties
  imports Benchmark_Run Entrypoint_Properties
begin

text \<open>
  What the benchmark promises: the cases are holes in one golden tree and run apart from each other; a
  zero exit admits only a ladder that passed whole; and what was scored survives every later fault.
\<close>

section \<open>The cases\<close>

lemma mapE_ids:
  "mapE (\<lambda>n. bindE (f n) (\<lambda>c. Inr (n, c))) ns = Inr ics \<Longrightarrow>
     map fst ics = ns \<and> (\<forall>(n, c)\<in>set ics. f n = Inr c)"
  by (induction ns arbitrary: ics) (auto simp: bindE_eq_Inr)

lemma loaded_case:
  assumes "load_cases rd fs app dir = Inr cases" and "(i, c) \<in> set cases"
  obtains tree where "golden_snapshot fs app = Inr tree" and "golden_tree c = tree"
    and "one_hole (fx_ast rd) (fx_canonical rd) c" and "wf_task (case_task c)"
    and "\<not> plan_first (case_task c)" and "wf_budget (task_budget (case_task c))"
proof -
  from assms have "load_case rd fs app (dir @ [i]) = Inr c"
    using mapE_ids by (fastforce simp: load_cases_def split: if_splits)
  then show thesis using that by (rule load_case_Inr) blast
qed

lemma plan_cases_map:
  assumes "\<forall>(i, c)\<in>set cases. one_hole (fx_ast rd) (fx_canonical rd) c \<and> wf_task (case_task c)"
  shows "plan_cases rd cases =
     Inr (map (\<lambda>(i, c). (i, c\<lparr>case_task := case_task c\<lparr>plan_first := True\<rparr>\<rparr>)) cases)"
  using assms by (induction cases) (auto simp: plan_cases_def planning_first_total)

definition with_lever :: "bool \<Rightarrow> benchmark_case \<Rightarrow> benchmark_case" where
  "with_lever b c = (if b then c\<lparr>case_task := case_task c\<lparr>plan_first := True\<rparr>\<rparr> else c)"

lemma with_lever_simps [simp]:
  "golden_tree (with_lever b c) = golden_tree c" "blank_stub (with_lever b c) = blank_stub c"
  "impl_path (case_task (with_lever b c)) = impl_path (case_task c)"
  "one_hole ast canonical (with_lever b c) = one_hole ast canonical c"
  "wf_task (case_task (with_lever b c)) = wf_task (case_task c)"
  "plan_first (case_task (with_lever b c)) = (b \<or> plan_first (case_task c))"
  by (simp_all add: with_lever_def one_hole_lever wf_task_def)

lemma select_cases_Inr:
  assumes "select_cases only cases = Inr selected"
  shows "set only \<subseteq> fst ` set cases
    \<and> selected = filter (\<lambda>(i, _). only = [] \<or> i \<in> set only) cases"
proof (cases "only = []")
  case True
  with assms show ?thesis by (simp add: select_cases_def)
next
  case False
  with assms have "filter (\<lambda>i. i \<notin> fst ` set cases) only = []"
    and s: "selected = filter (\<lambda>(i, _). i \<in> set only) cases"
    by (auto simp: select_cases_def Let_def split: if_splits) (metis set_empty set_remdups set_sort)
  from this(1) have "set only \<subseteq> fst ` set cases" by (auto simp: filter_empty_conv)
  with s False show ?thesis by simp
qed

lemma prepared_cases:
  assumes "prepare_cases rd here args fs = Inr (Inr cases)"
  shows "\<exists>ladder. load_cases rd fs (golden_app here) (cases_dir here) = Inr ladder
    \<and> map fst ladder = case_names fs (cases_dir here)
    \<and> set (ra_only args) \<subseteq> fst ` set ladder
    \<and> cases = map (\<lambda>(i, c). (i, with_lever (ra_plan_first args) c))
        (filter (\<lambda>(i, _). ra_only args = [] \<or> i \<in> set (ra_only args)) ladder)
    \<and> (\<forall>(i, c)\<in>set cases. one_hole (fx_ast rd) (fx_canonical rd) c \<and> wf_task (case_task c)
         \<and> golden_snapshot fs (golden_app here) = Inr (golden_tree c)
         \<and> (plan_first (case_task c) \<longleftrightarrow> ra_plan_first args))"
proof -
  let ?lever = "\<lambda>(i, c). (i, with_lever (ra_plan_first args) c)"
  from assms obtain ladder planned where l: "load_cases rd fs (golden_app here) (cases_dir here) = Inr ladder"
    and p: "(if ra_plan_first args then plan_cases rd ladder else Inr ladder) = Inr planned"
    and s: "select_cases (ra_only args) planned = Inr cases"
    by (auto simp: prepare_cases_def bindE_eq_Inr)
  have ok: "one_hole (fx_ast rd) (fx_canonical rd) c \<and> wf_task (case_task c) \<and> \<not> plan_first (case_task c)
      \<and> golden_snapshot fs (golden_app here) = Inr (golden_tree c)" if "(i, c) \<in> set ladder" for i c
    using loaded_case [OF l that] by metis
  then have "planned = map ?lever ladder"
    using p plan_cases_map [of ladder rd] by (auto simp: with_lever_def split: if_splits)
  moreover have "fst ` set (map ?lever ladder) = fst ` set ladder" by force
  ultimately have "set (ra_only args) \<subseteq> fst ` set ladder"
    and c: "cases = map ?lever (filter (\<lambda>(i, _). ra_only args = [] \<or> i \<in> set (ra_only args)) ladder)"
    using select_cases_Inr [OF s] by (auto simp: filter_map comp_def split_def)
  moreover have "map fst ladder = case_names fs (cases_dir here)"
    using l by (auto simp: load_cases_def dest: mapE_ids split: if_splits)
  moreover have "\<forall>(i, c)\<in>set cases. one_hole (fx_ast rd) (fx_canonical rd) c \<and> wf_task (case_task c)
         \<and> golden_snapshot fs (golden_app here) = Inr (golden_tree c)
         \<and> (plan_first (case_task c) \<longleftrightarrow> ra_plan_first args)"
    using ok unfolding c by fastforce
  ultimately show ?thesis using l by blast
qed

lemma prepared_holes:
  assumes "prepare_cases rd here args fs = Inr (Inr cases)"
  shows "\<forall>(i, c)\<in>set cases. one_hole (fx_ast rd) (fx_canonical rd) c
    \<and> (plan_first (case_task c) \<longleftrightarrow> ra_plan_first args)"
proof -
  from prepared_cases [OF assms] have
    "\<forall>(i, c)\<in>set cases. one_hole (fx_ast rd) (fx_canonical rd) c \<and> wf_task (case_task c)
       \<and> golden_snapshot fs (golden_app here) = Inr (golden_tree c)
       \<and> (plan_first (case_task c) \<longleftrightarrow> ra_plan_first args)" by blast
  then show ?thesis by fast
qed

text \<open>C17. What the benchmark is run on: the cases the options select are the committed directories'
  own, in the ladder's order, every name given to \<open>--only\<close> being one of them; all of them are holes in
  the same golden tree, show the model only golden files and never the target, and differ from the
  loaded case by the planning lever alone.\<close>

theorem prepared_cases_are_the_ladders:
  assumes "prepare_cases rd here args fs = Inr (Inr cases)"
  shows "\<exists>ladder. load_cases rd fs (golden_app here) (cases_dir here) = Inr ladder
    \<and> map fst ladder = case_names fs (cases_dir here)
    \<and> set (ra_only args) \<subseteq> fst ` set ladder
    \<and> cases = map (\<lambda>(i, c). (i, with_lever (ra_plan_first args) c))
        (filter (\<lambda>(i, _). ra_only args = [] \<or> i \<in> set (ra_only args)) ladder)
    \<and> (\<forall>(i, c)\<in>set cases. one_hole (fx_ast rd) (fx_canonical rd) c \<and> wf_task (case_task c)
         \<and> golden_snapshot fs (golden_app here) = Inr (golden_tree c)
         \<and> (plan_first (case_task c) \<longleftrightarrow> ra_plan_first args))"
  by (rule prepared_cases [OF assms])

section \<open>Running a case\<close>

text \<open>C16. A case's model meets the golden tree with exactly one hole: when a case returns, \<open>implement\<close>
  ran in a worktree whose files were, byte for byte, the golden files, the target's replaced by the
  blank stub, and nothing else; and afterwards every path of the file system is as it was.\<close>

theorem case_meets_the_tree_with_one_hole:
  assumes "run_case bundled d h c fs = (fs', Inr oc)" and "dv_scratch d = None"
    and "fresh_dir fs (h_tmp h)" and "one_hole ast canonical c"
  shows "\<exists>fs2 fs3. implement h (case_task c) (dv_base_url d) (dv_model d) (dv_params d)
        (case dv_card d of None \<Rightarrow> bundled | Some p \<Rightarrow> p) (Some (h_tmp h)) fs2 = (fs3, Inr oc)
    \<and> (\<forall>ps b. ps \<noteq> [] \<longrightarrow> (fs_get fs2 (h_tmp h @ ps) = Some (File b) \<longleftrightarrow>
         (if ps = path_parts (impl_path (case_task c)) then b = utf8_bytes (blank_stub c)
          else \<exists>g\<in>set (golden_tree c). ps = path_parts (cf_path g) \<and> b = utf8_bytes (cf_content g))))
    \<and> (\<forall>q. fs_get fs' q = fs_get fs q)"
  using assms
proof (rule run_case_returns)
  fix fs2 fs3
  assume i: "implement h (case_task c) (dv_base_url d) (dv_model d) (dv_params d)
        (case dv_card d of None \<Rightarrow> bundled | Some p \<Rightarrow> p) (Some (h_tmp h)) fs2 = (fs3, Inr oc)"
    and t: "tree_files (h_tmp h) fs2
      ((map_of (golden_bytes c))(path_parts (impl_path (case_task c)) \<mapsto> utf8_bytes (blank_stub c)))"
    and same: "wf_fs fs' \<and> (\<forall>q. fs_get fs' q = fs_get fs q)"
  have m: "map_of (golden_bytes c) ps = Some b \<longleftrightarrow>
      (\<exists>g\<in>set (golden_tree c). ps = path_parts (cf_path g) \<and> b = utf8_bytes (cf_content g))" for ps b
    using map_of_eq_Some_iff [OF golden_bytes_distinct [OF assms(4)], of ps b] by (auto simp: golden_bytes_def)
  show ?thesis
    using i t same unfolding tree_files_def by (intro exI [of _ fs2] exI [of _ fs3]) (auto simp: m)
qed

lemma ladder_apart:
  assumes "run_cases bundled d hosts cases fs = (fs', es, e)" and "dv_scratch d = None"
    and "wf_fs fs" and "\<forall>k. fresh_dir fs (h_tmp (hosts k))"
    and "\<forall>(i, c)\<in>set cases. one_hole ast canonical c"
  shows "\<exists>rs. length rs \<le> length cases
    \<and> (\<forall>i < length rs. cr_case_id (rs ! i) = fst (cases ! i)
         \<and> alone bundled d (hosts (i + 1)) (snd (cases ! i)) fs (Inr (cr_outcome (rs ! i))))
    \<and> (if length rs = length cases then e = Completed rs \<and> (\<forall>q. fs_get fs' q = fs_get fs q)
       else \<exists>x. alone bundled d (hosts (length rs + 1)) (snd (cases ! length rs)) fs (Inl x)
              \<and> e = (if is_host_fault x then Interrupted rs x else Escaped x))"
proof -
  from run_from_ends [OF assms(1) [unfolded run_cases_def] assms(2-5)] have
    "ladder_ends bundled d hosts 0 [] cases fs e" and
    t: "(\<exists>rs. e = Completed rs) \<longrightarrow> (\<forall>q. fs_get fs' q = fs_get fs q)" by simp_all
  then obtain rs where rs: "length rs \<le> length cases"
    "\<forall>i < length rs. cr_case_id (rs ! i) = fst (cases ! i)
       \<and> alone bundled d (hosts (i + 1)) (snd (cases ! i)) fs (Inr (cr_outcome (rs ! i)))"
    and e: "if length rs = length cases then e = Completed rs
     else \<exists>x. alone bundled d (hosts (length rs + 1)) (snd (cases ! length rs)) fs (Inl x)
            \<and> e = (if is_host_fault x then Interrupted rs x else Escaped x)"
    unfolding ladder_ends_def append_Nil add_0 by blast
  show ?thesis
  proof (cases "length rs = length cases")
    case True
    with e t rs show ?thesis by (intro exI [of _ rs]) simp
  next
    case False
    with e rs show ?thesis by (intro exI [of _ rs]) (simp only: if_False simp_thms)
  qed
qed

text \<open>C15. Cases run apart from each other: when every case finds a fresh directory for its worktree, each
  result a run reports, in the ladder's order and under its own id, is the outcome that case has when
  run alone from the file system the ladder started from; the ladder ends with the first case that
  raises, and one that completes leaves every path as it was.\<close>

theorem cases_run_apart:
  assumes "run_cases bundled d hosts cases fs = (fs', es, e)" and "dv_scratch d = None"
    and "wf_fs fs" and "\<forall>k. fresh_dir fs (h_tmp (hosts k))"
    and "\<forall>(i, c)\<in>set cases. one_hole ast canonical c"
  shows "\<exists>rs. length rs \<le> length cases
    \<and> (\<forall>i < length rs. cr_case_id (rs ! i) = fst (cases ! i)
         \<and> alone bundled d (hosts (i + 1)) (snd (cases ! i)) fs (Inr (cr_outcome (rs ! i))))
    \<and> (if length rs = length cases then e = Completed rs \<and> (\<forall>q. fs_get fs' q = fs_get fs q)
       else \<exists>x. alone bundled d (hosts (length rs + 1)) (snd (cases ! length rs)) fs (Inl x)
              \<and> e = (if is_host_fault x then Interrupted rs x else Escaped x))"
  by (rule ladder_apart [OF assms])

section \<open>The exit code\<close>

lemma publish_code:
  assumes "publish env args interruption style_faults rs s fs = (fs', lines, Inr code)"
  shows "(\<exists>rest. lines = print_scorecard (re_fixed1 env) (re_str env) s @ rest)
    \<and> (interruption \<noteq> None \<or> style_faults \<noteq> [] \<longrightarrow> code = 3)
    \<and> (code = 3 \<or> code = (if cases_passed s = cases_total s then 0 else 1))"
proof -
  from assms obtain out faults where
    "lines = print_scorecard (re_fixed1 env) (re_str env) s @ out
       @ fst (report_harness_faults (re_text env) interruption (style_faults @ faults) (length rs))"
    "code = (if interruption \<noteq> None \<or> style_faults @ faults \<noteq> [] then 3
             else if cases_passed s = cases_total s then 0 else 1)"
    by (auto simp: publish_def Let_def report_harness_faults_def simp del: not_None_eq split: sum.splits prod.splits)
  then show ?thesis by simp
qed

lemma finish_run_code:
  assumes "finish_run env args interruption rs fs = (fs', lines, Inr code)"
  obtains s n where "score_cases rs = Inr s"
    and "\<exists>rest. lines = print_scorecard (re_fixed1 env) (re_str env) (s\<lparr>lc_style := n\<rparr>) @ rest"
    and "interruption \<noteq> None \<longrightarrow> code = 3"
    and "code = 3 \<or> code = (if cases_passed s = cases_total s then 0 else 1)"
proof -
  from assms obtain s fs1 counted where s: "score_cases rs = Inr s"
    and c: "count_style_findings env rs (lc_model s) fs = (fs1, counted)"
    by (auto simp: finish_run_def split: sum.splits prod.splits)
  have style: "cases_passed (s\<lparr>lc_style := n\<rparr>) = cases_passed s" "cases_total (s\<lparr>lc_style := n\<rparr>) = cases_total s"
    for n by (simp_all add: cases_passed_def cases_total_def)
  have plain: "s\<lparr>lc_style := None\<rparr> = s" using score_cases_Inr [OF s] by (cases s) simp
  show thesis
  proof (cases counted)
    case (Inr n)
    with assms s c have "publish env args interruption [] rs (s\<lparr>lc_style := n\<rparr>) fs1 = (fs', lines, Inr code)"
      by (simp add: finish_run_def)
    from publish_code [OF this] that [OF s] style show thesis by auto
  next
    case (Inl f)
    with assms s c have "publish env args interruption [(f, still_whole ''its style count'')] rs s fs1
        = (fs', lines, Inr code)"
      by (simp add: finish_run_def split: if_splits)
    from publish_code [OF this] that [OF s, of None] plain show thesis by auto
  qed
qed

lemma main_on_cases:
  assumes "parse_run (re_getenv env) argv = Inr args" and "resolve_server args = Inr (base_url, model)"
    and "prepare_cases (re_reader env) (re_here env) args fs = Inr (Inr cases)"
    and "run_cases (re_bundled env) (run_driver env args base_url model) (re_hosts env) cases fs = (fs1, es, e)"
  shows "benchmark_main env argv fs =
     (case e of Escaped x \<Rightarrow> (fs1, [], Inl (Ladder_Raised x))
      | Completed rs \<Rightarrow> if rs = [] then (fs1, [fault_line (re_text env) None], Inr 3)
                        else finish_run env args None rs fs1
      | Interrupted rs x \<Rightarrow>
          if rs = [] then (fs1, [fault_line (re_text env) (Some (Host_Fault x))], Inr 3)
          else finish_run env args (Some (Host_Fault x)) rs fs1)"
  using assms by (simp add: benchmark_main_def run_with_def split: ladder_end.split)

text \<open>C14. Exit 0 is earned by the whole ladder: a run that exits 0, the help text apart, named a server
  and a model, selected at least one case, completed every selected one with a result under its id,
  and every result is DONE.\<close>

theorem exit_zero_is_a_ladder_passed_whole:
  assumes "benchmark_main env argv fs = (fs', lines, Inr 0)" and "parse_run (re_getenv env) argv = Inr args"
  shows "\<exists>base_url model cases rs fs1 es. resolve_server args = Inr (base_url, model)
    \<and> prepare_cases (re_reader env) (re_here env) args fs = Inr (Inr cases) \<and> cases \<noteq> []
    \<and> run_cases (re_bundled env) (run_driver env args base_url model) (re_hosts env) cases fs
        = (fs1, es, Completed rs)
    \<and> map cr_case_id rs = map fst cases \<and> (\<forall>r\<in>set rs. oc_status (cr_outcome r) = Done)"
proof -
  from assms obtain base_url model where r: "resolve_server args = Inr (base_url, model)"
    by (auto simp: benchmark_main_def run_with_def split: sum.splits)
  with assms obtain cases where p: "prepare_cases (re_reader env) (re_here env) args fs = Inr (Inr cases)"
    by (auto simp: benchmark_main_def run_with_def split: sum.splits)
  obtain fs1 es e where run: "run_cases (re_bundled env) (run_driver env args base_url model) (re_hosts env) cases fs
      = (fs1, es, e)" by (metis prod_cases3)
  note m = main_on_cases [OF assms(2) r p run] assms(1)
  have "\<exists>rs. e = Completed rs \<and> rs \<noteq> [] \<and> finish_run env args None rs fs1 = (fs', lines, Inr 0)"
  proof (cases e)
    case (Interrupted rs x)
    with m have "finish_run env args (Some (Host_Fault x)) rs fs1 = (fs', lines, Inr 0)"
      by (simp split: if_splits)
    then show ?thesis by (rule finish_run_code) simp
  qed (use m in \<open>simp_all split: if_splits\<close>)
  then obtain rs where rs: "e = Completed rs" "rs \<noteq> []" "finish_run env args None rs fs1 = (fs', lines, Inr 0)"
    by blast
  from rs(3) obtain s where s: "score_cases rs = Inr s" "cases_passed s = cases_total s"
    by (rule finish_run_code) (auto split: if_splits)
  have "map cr_case_id rs = map fst cases" using run_from_ids run rs(1) unfolding run_cases_def by fastforce
  moreover from this rs(2) have "cases \<noteq> []" by auto
  ultimately show ?thesis using r p run rs(1) s all_passed_iff [OF s(1)] by blast
qed

section \<open>What was scored survives\<close>

text \<open>The records of a ladder run against one server, under one readable card, on cases of one lever, agree;
  so scoring it never raises.\<close>

lemma ladder_one_configuration:
  assumes "run_cases bundled d hosts cases fs = (fs', es, e)" and "dv_scratch d = None"
    and "wf_fs fs" and "\<forall>k. fresh_dir fs (h_tmp (hosts k))"
    and "\<forall>(i, c)\<in>set cases. one_hole ast canonical c \<and> (plan_first (case_task c) \<longleftrightarrow> lever)"
    and "read_text fs (case dv_card d of None \<Rightarrow> bundled | Some p \<Rightarrow> p) = Inr card_text"
    and "\<forall>k. h_sha256 (hosts k) = sha256"
  shows "one_configuration (ladder_results e)"
proof -
  have "\<forall>(i, c)\<in>set cases. one_hole ast canonical c" using assms(5) by auto
  from ladder_apart [OF assms(1-4) this] obtain rs where
    rs: "length rs \<le> length cases" "\<forall>i < length rs. cr_case_id (rs ! i) = fst (cases ! i)
       \<and> alone bundled d (hosts (i + 1)) (snd (cases ! i)) fs (Inr (cr_outcome (rs ! i)))" and
    e: "if length rs = length cases then e = Completed rs \<and> (\<forall>q. fs_get fs' q = fs_get fs q)
       else \<exists>x. alone bundled d (hosts (length rs + 1)) (snd (cases ! length rs)) fs (Inl x)
              \<and> e = (if is_host_fault x then Interrupted rs x else Escaped x)" by blast
  from e have "ladder_results e = rs \<or> ladder_results e = []"
    by (cases "length rs = length cases") (auto simp: ladder_results_def)
  have "er_model (oc_record (cr_outcome r)) = dv_model d
      \<and> er_digest (oc_record (cr_outcome r)) = digest_of sha256 card_text
      \<and> er_plan_first (oc_record (cr_outcome r)) = lever" if r: "r \<in> set rs" for r
  proof -
    from r obtain i where i: "i < length rs" "r = rs ! i" by (metis in_set_conv_nth)
    then have "cases ! i \<in> set cases" using rs(1) by simp
    then have c: "one_hole ast canonical (snd (cases ! i))" "plan_first (case_task (snd (cases ! i))) \<longleftrightarrow> lever"
      using assms(5) by (cases "cases ! i"; fastforce)+
    have "alone bundled d (hosts (i + 1)) (snd (cases ! i)) fs (Inr (cr_outcome r))" using rs(2) i by blast
    from alone_record [OF this assms(2) _ c(1) assms(6)] assms(4,7) c(2) i(2) show ?thesis by simp
  qed
  with \<open>ladder_results e = rs \<or> ladder_results e = []\<close> show ?thesis by (auto simp: one_configuration_def)
qed

definition refused_by_the_host :: "(path \<Rightarrow> fs \<Rightarrow> fs \<times> (exn + path)) \<Rightarrow> bool" where
  "refused_by_the_host write \<longleftrightarrow> (\<forall>p fs fs' x. write p fs = (fs', Inl x) \<longrightarrow> x = OS_Error)"

lemma write_artifact_kept:
  assumes "refused_by_the_host write"
  shows "\<exists>fs' out faults. write_artifact what consequence write cwd wanted fs = (fs', Inr (out, faults))"
proof (cases wanted)
  case None
  then show ?thesis by (simp add: write_artifact_def)
next
  case (Some t)
  obtain fs' r where w: "write (join_path cwd t) fs = (fs', r)" by fastforce
  with assms Some show ?thesis by (cases r) (auto simp: write_artifact_def refused_by_the_host_def)
qed

lemma publish_returns:
  assumes "writable_results rs" and "\<forall>f. ascii_text (re_repr env f)"
  shows "\<exists>fs' lines code. publish env args interruption style_faults rs s fs = (fs', lines, Inr code)"
proof -
  let ?code = "\<lambda>p. write_produced_code rs (lc_model s) p (re_stamp env)"
  let ?card = "\<lambda>p. write_scorecard (re_repr env) (re_str env) s p (re_stamp env)"
  have "refused_by_the_host ?code" using produced_refused assms(1) unfolding refused_by_the_host_def by blast
  from write_artifact_kept [OF this] obtain fs1 out1 faults1 where
    e1: "write_artifact (u ''produced code'') (still_whole ''the produced-code tree'') ?code (re_cwd env)
       (ra_code_out args) fs = (fs1, Inr (out1, faults1))" by blast
  have "refused_by_the_host ?card" using scorecard_refused assms(2) unfolding refused_by_the_host_def by blast
  from write_artifact_kept [OF this] obtain fs2 out2 faults2 where
    e2: "write_artifact (u ''scorecard'') (u ''the run's measurement is the scorecard printed above, unwritten'')
       ?card (re_cwd env) (ra_out args) fs1 = (fs2, Inr (out2, faults2))" by blast
  show ?thesis
    unfolding publish_def write_run_artifacts_def Let_def e1 prod.case sum.case e2 report_harness_faults_def
    by blast
qed

lemma make_temp_refused: "make_temp d fs = Inl x \<Longrightarrow> x = OS_Error"
  by (simp add: make_temp_def split: if_splits)

lemma counting_caught:
  assumes "count_style_findings env rs model fs = (fs', Inl f)" and "writable_results rs"
    and "\<forall>d fs x. collect_style_findings (re_str env) (re_linter env) (re_interpreter env) d fs = Inl x
          \<longrightarrow> style_caught x"
  shows "fault_caught f"
  using assms(1) assms(3) produced_refused [OF _ assms(2)]
  by (auto simp: count_style_findings_def fault_caught_def exn_caught_def dest: make_temp_refused
      split: sum.splits prod.splits if_splits)

lemma finish_run_returns:
  assumes "score_cases rs = Inr s" and "writable_results rs" and "\<forall>f. ascii_text (re_repr env f)"
    and "\<forall>d fs x. collect_style_findings (re_str env) (re_linter env) (re_interpreter env) d fs = Inl x
          \<longrightarrow> style_caught x"
  shows "\<exists>fs' lines code. finish_run env args interruption rs fs = (fs', lines, Inr code)"
proof -
  obtain fs1 counted where c: "count_style_findings env rs (lc_model s) fs = (fs1, counted)" by fastforce
  show ?thesis
  proof (cases counted)
    case (Inl f)
    with counting_caught [OF c [unfolded Inl] assms(2,4)] assms(1) c publish_returns [OF assms(2,3)] show ?thesis
      by (simp add: finish_run_def)
  next
    case (Inr n)
    with assms(1) c publish_returns [OF assms(2,3)] show ?thesis by (simp add: finish_run_def)
  qed
qed

text \<open>C13. A scored ladder survives every later fault: once a case has finished, a ladder that completes or
  is stopped by a fault of the host is scored, whatever the host then refuses - the temporary
  directory, the linter, the produced-code tree or the scorecard's directory.  The scorecard with one
  line per finished case is printed, and the exit code is 3 when the ladder was stopped, and otherwise 3,
  or the verdict of the whole ladder.  The linter's document is assumed to be one, the card to be readable.\<close>

theorem scored_ladder_survives:
  assumes "parse_run (re_getenv env) argv = Inr args" and "resolve_server args = Inr (base_url, model)"
    and "prepare_cases (re_reader env) (re_here env) args fs = Inr (Inr cases)"
    and "run_cases (re_bundled env) (run_driver env args base_url model) (re_hosts env) cases fs = (fs1, es, e)"
    and "e = Completed rs \<or> e = Interrupted rs x" and "rs \<noteq> []"
    and "wf_fs fs" and "\<forall>k. fresh_dir fs (h_tmp (re_hosts env k)) \<and> h_sha256 (re_hosts env k) = sha256"
    and "read_text fs (case map_option (join_path (re_cwd env)) (ra_rules_card args) of
           None \<Rightarrow> re_bundled env | Some p \<Rightarrow> p) = Inr card_text"
    and "\<forall>d fs x. collect_style_findings (re_str env) (re_linter env) (re_interpreter env) d fs = Inl x
          \<longrightarrow> style_caught x"
    and "\<forall>f. ascii_text (re_repr env f)"
  shows "\<exists>s n fs' rest code. score_cases rs = Inr s \<and> lc_cases s = map case_score_of rs
    \<and> benchmark_main env argv fs
        = (fs', print_scorecard (re_fixed1 env) (re_str env) (s\<lparr>lc_style := n\<rparr>) @ rest, Inr code)
    \<and> (e \<noteq> Completed rs \<longrightarrow> code = 3)
    \<and> (code = 3 \<or> code = (if \<forall>r\<in>set rs. oc_status (cr_outcome r) = Done then 0 else 1))"
proof -
  let ?d = "run_driver env args base_url model"
  have d: "dv_scratch ?d = None" "dv_card ?d = map_option (join_path (re_cwd env)) (ra_rules_card args)"
    by (simp_all add: run_driver_def)
  have hole: "\<forall>(i, c)\<in>set cases. one_hole (fx_ast (re_reader env)) (fx_canonical (re_reader env)) c
      \<and> (plan_first (case_task c) \<longleftrightarrow> ra_plan_first args)"
    using prepared_holes [OF assms(3)] by auto
  have "ladder_results e = rs" using assms(5) by (auto simp: ladder_results_def)
  moreover have "one_configuration (ladder_results e)"
    using ladder_one_configuration [OF assms(4) d(1) assms(7) _ hole] assms(8,9) unfolding d(2) by blast
  ultimately obtain s where s: "score_cases rs = Inr s"
    using score_cases_total assms(6) by metis
  have "writable_results rs"
    using run_from_writable [OF assms(4) [unfolded run_cases_def]] \<open>ladder_results e = rs\<close>
    by (simp add: writable_results_def)
  note stays = finish_run_returns [OF s this assms(11,10)]
  define interruption where "interruption = (if e = Completed rs then None else Some (Host_Fault x))"
  from stays obtain fs' lines code where f: "finish_run env args interruption rs fs1 = (fs', lines, Inr code)"
    by blast
  have m: "benchmark_main env argv fs = (fs', lines, Inr code)"
    using main_on_cases [OF assms(1-4)] assms(5,6) f by (auto simp: interruption_def)
  from f show ?thesis
  proof (rule finish_run_code)
    fix s' n
    assume a: "score_cases rs = Inr s'"
      "\<exists>rest. lines = print_scorecard (re_fixed1 env) (re_str env) (s'\<lparr>lc_style := n\<rparr>) @ rest"
      "interruption \<noteq> None \<longrightarrow> code = 3" "code = 3 \<or> code = (if cases_passed s' = cases_total s' then 0 else 1)"
    have "s' = s" using s a(1) by simp
    moreover from a(2) obtain rest where
      "lines = print_scorecard (re_fixed1 env) (re_str env) (s'\<lparr>lc_style := n\<rparr>) @ rest" by blast
    moreover have "e \<noteq> Completed rs \<longrightarrow> code = 3" using a(3) by (simp add: interruption_def)
    moreover have "lc_cases s = map case_score_of rs" using score_cases_Inr [OF s] by blast
    moreover have "code = 3 \<or> code = (if \<forall>r\<in>set rs. oc_status (cr_outcome r) = Done then 0 else 1)"
      using a(4) \<open>s' = s\<close> all_passed_iff [OF s] by (simp only:)
    ultimately show ?thesis using m s by blast
  qed
qed

end
