(* ===== verification/Benchmark_Demo.thy ===== *)
theory Benchmark_Demo
  imports Benchmark_Properties
begin

text \<open>
  The benchmark on a small checkout: two cases over one golden tree, a server that answers the first, is
  gone by the second, or sends a reply no file can hold.  The properties apply there.
\<close>

section \<open>A checkout and a server\<close>

text \<open>Evaluation decides a conjunction by its first conjunct where that is false.\<close>

lemma conj_if [code_unfold]: "(p \<and> q) = (if p then q else False)"
  by simp

lemma disj_if [code_unfold]: "(p \<or> q) = (if p then True else q)"
  by simp

definition demo_manifest :: manifest where
  "demo_manifest = \<lparr>mf_impl_path = u ''app/a.py'', mf_context_paths = [u ''app/b.py''], mf_max_attempts = 1,
     mf_max_tokens = 9, mf_generation_timeout = Fin 1, mf_oracle_timeout = Fin 1\<rparr>"

definition demo_reader :: fixture_reader where
  "demo_reader = \<lparr>fx_ast = (\<lambda>_. Some [Function_Def (u ''test_a''), Other_Statement]), fx_canonical = (\<lambda>p. p),
     fx_toml = (\<lambda>_. Some demo_manifest)\<rparr>"

text \<open>The checkout is reached through a link, and so is the second case, a link to the first.\<close>

definition demo_bench_fs :: fs where
  "demo_bench_fs =
     (let d = [u ''s'', u ''cases'', u ''01'']
      in [([u ''card''], File (ascii ''rules'')), ([u ''schedule_manager''], Link (u ''s'')), ([u ''s''], Dir),
          ([u ''s'', u ''golden''], Dir), ([u ''s'', u ''golden'', u ''app''], Dir),
          ([u ''s'', u ''golden'', u ''app'', u ''b.py''], File (ascii ''y'')),
          ([u ''s'', u ''golden'', u ''app'', u ''a.py''], File (ascii ''z'')), ([u ''s'', u ''cases''], Dir),
          ([u ''s'', u ''cases'', u ''02''], Link (u ''01'')),
          (d, Dir), (d @ [u ''case.toml''], File []), (d @ [u ''spec.md''], File (ascii ''do'')),
          (d @ [u ''oracle.py''], File (ascii ''t'')), (d @ [u ''blank''], Dir), (d @ [u ''blank'', u ''app''], Dir),
          (d @ [u ''blank'', u ''app'', u ''a.py''], File (ascii ''x''))])"

definition demo_golden :: "context_file list" where
  "demo_golden = [\<lparr>cf_path = u ''app/a.py'', cf_content = u ''z''\<rparr>, \<lparr>cf_path = u ''app/b.py'', cf_content = u ''y''\<rparr>]"

definition demo_case :: benchmark_case where
  "demo_case = \<lparr>case_task = \<lparr>impl_path = u ''app/a.py'', spec_text = u ''do'', test_text = u ''t'', expected_tests = 1,
       task_budget = \<lparr>max_attempts = 1, max_tokens = 9, generation_timeout_s = Fin 1, oracle_timeout_s = Fin 1\<rparr>,
       context_files = [\<lparr>cf_path = u ''app/b.py'', cf_content = u ''y''\<rparr>], plan_first = False\<rparr>,
     golden_tree = demo_golden, blank_stub = u ''x''\<rparr>"

lemma demo_loaded:
  "load_cases demo_reader demo_bench_fs (golden_app []) (cases_dir [])
     = Inr [(u ''01'', demo_case), (u ''02'', demo_case)]"
  by code_simp

definition reply_host :: "http_outcome \<Rightarrow> host" where
  "reply_host reply = \<lparr>h_clk = (\<lambda>_. 0), h_post = (\<lambda>n url body. reply),
     h_oracle = (\<lambda>i fs. \<lparr>o_executable = u ''python'',
       o_spawn = (\<lambda>cmd cwd box. (Spawned [] [], Some (ascii ''0''))),
       o_parse = (\<lambda>t. Some (Elem (u ''testsuite'') [(u ''tests'', u ''1''), (u ''failures'', t)] [])),
       o_tmp = [u ''box'']\<rparr>),
     h_sha256 = (\<lambda>_. u ''0d''), h_tmp = [u ''t'']\<rparr>"

text \<open>A good reply, no answer at all, and a reply with a lone surrogate.\<close>

definition answering :: host where
  "answering = reply_host (Responded 200 [chat_reply (ascii ''FILE: app/a.py'' @ [92, 110] @ ascii ''ok'')] None)"

definition gone :: host where
  "gone = reply_host (No_Response (Request_Error (u ''ConnectError'') (u ''refused'')))"

definition surrogate :: host where
  "surrogate = reply_host (Responded 200 [chat_reply ([92] @ ascii ''ud800'')] None)"

text \<open>The first case is answered; what the later ones meet.\<close>

definition later :: "host \<Rightarrow> nat \<Rightarrow> host" where
  "later h k = (if k = 1 then answering else h)"

definition demo_driver :: driver where
  "demo_driver = \<lparr>dv_base_url = u ''http://h/'', dv_model = u ''m'', dv_params = [], dv_scratch = None, dv_card = None\<rparr>"

definition demo_outcome :: outcome where
  "demo_outcome = \<lparr>oc_status = Done, oc_code = Some (u ''ok''), oc_impl_path = u ''app/a.py'',
     oc_files_changed = [u ''app/a.py''],
     oc_record = \<lparr>er_model = u ''m'', er_digest = u ''0d'', er_plan_first = False, er_total_calls = 1,
       er_tokens = 5, er_seconds = 0, er_mean = None, er_estimated = True, er_length_capped = 0,
       er_status = Done, er_attempts = 1\<rparr>,
     oc_fault = None, oc_derail = None\<rparr>"

definition demo_refusal :: exn where
  "demo_refusal = Backend_Unavailable (u ''http://h/v1/chat/completions'') (u ''m'') (u ''ConnectError: refused'')"

lemma demo_done:
  "run_case [u ''card''] demo_driver answering demo_case demo_bench_fs = (demo_bench_fs, Inr demo_outcome)"
  by code_simp

lemma demo_refused:
  "run_case [u ''card''] demo_driver gone demo_case demo_bench_fs = (demo_bench_fs, Inl demo_refusal)"
  by code_simp

lemma demo_escapes:
  "run_case [u ''card''] demo_driver surrogate demo_case demo_bench_fs
     = (demo_bench_fs, Inl Unicode_Encode_Error)"
  by code_simp

abbreviation demo_result :: case_result where
  "demo_result \<equiv> \<lparr>cr_case_id = u ''01'', cr_outcome = demo_outcome\<rparr>"

lemma demo_ladders:
  "\<exists>es. run_cases [u ''card''] demo_driver (later h) [(u ''01'', demo_case)] demo_bench_fs
     = (demo_bench_fs, es, Completed [demo_result])"
  "\<exists>es. run_cases [u ''card''] demo_driver (later gone) [(u ''01'', demo_case), (u ''02'', demo_case)] demo_bench_fs
     = (demo_bench_fs, es, Interrupted [demo_result] demo_refusal)"
  "\<exists>es. run_cases [u ''card''] demo_driver (later surrogate) [(u ''01'', demo_case), (u ''02'', demo_case)]
     demo_bench_fs = (demo_bench_fs, es, Escaped Unicode_Encode_Error)"
  by (simp_all add: run_cases_def later_def demo_done demo_refused demo_escapes is_host_fault_def demo_refusal_def
      Let_def)

section \<open>The run\<close>

text \<open>The linter finds nothing; no artifact is asked for.\<close>

definition demo_env :: "(nat \<Rightarrow> host) \<Rightarrow> run_env" where
  "demo_env hosts = \<lparr>re_getenv = (\<lambda>_. None), re_cwd = [], re_here = [], re_bundled = [u ''card''],
     re_reader = demo_reader, re_hosts = hosts, re_stamp = 7, re_scratch = [u ''z''], re_interpreter = [u ''py''],
     re_linter = (\<lambda>_ _. Linter_Exited 0 (u ''[]'') []), re_repr = (\<lambda>_. u ''0''), re_str = (\<lambda>_. []),
     re_fixed1 = (\<lambda>_. u ''0''), re_text = (\<lambda>_. [])\<rparr>"

definition demo_argv :: "string list \<Rightarrow> pystr list" where
  "demo_argv only = [u ''--base-url'', u ''http://h/'', u ''--model'', u ''m'']
     @ concat (map (\<lambda>i. [u ''--only'', u i]) only)"

definition demo_args :: "string list \<Rightarrow> run_args" where
  "demo_args only = \<lparr>ra_base_url = Some (u ''http://h/''), ra_model = Some (u ''m''), ra_out = None,
     ra_code_out = None, ra_stream = False, ra_only = map u only, ra_plan_first = False, ra_params = [],
     ra_rules_card = None\<rparr>"

lemma demo_parsed:
  "parse_run (\<lambda>_. None) (demo_argv [''01'']) = Inr (demo_args [''01''])"
  "parse_run (\<lambda>_. None) (demo_argv []) = Inr (demo_args [])"
  by code_simp+

lemma demo_prepared:
  "prepare_cases demo_reader [] (demo_args [''01'']) demo_bench_fs = Inr (Inr [(u ''01'', demo_case)])"
  "prepare_cases demo_reader [] (demo_args []) demo_bench_fs
     = Inr (Inr [(u ''01'', demo_case), (u ''02'', demo_case)])"
  by (simp_all add: prepare_cases_def demo_loaded demo_args_def select_cases_def u_def)

lemma demo_run_driver: "run_driver (demo_env hosts) (demo_args only) (u ''http://h/'') (u ''m'') = demo_driver"
  by (simp add: run_driver_def demo_args_def demo_driver_def)

lemma demo_server: "resolve_server (demo_args only) = Inr (u ''http://h/'', u ''m'')"
  by (simp add: resolve_server_def demo_args_def u_def)

lemma demo_finished:
  "case finish_run (demo_env hosts) (demo_args only) None [demo_result] demo_bench_fs of
     (_, _, r) \<Rightarrow> r = Inr 0"
  by code_simp

lemma demo_fresh_tmp: "fresh_dir demo_bench_fs [u ''t'']"
  unfolding fresh_dir_def by code_simp

lemma later_tmp [simp]: "h_tmp (later h k) = (if k = 1 then [u ''t''] else h_tmp h)" 
  and demo_tmp [simp]: "h_tmp answering = [u ''t'']" "h_tmp gone = [u ''t'']" "h_tmp surrogate = [u ''t'']"
  and demo_digest [simp]: "h_sha256 answering = (\<lambda>_. u ''0d'')" "h_sha256 gone = (\<lambda>_. u ''0d'')"
  by (simp_all add: later_def answering_def gone_def surrogate_def reply_host_def)

lemma demo_hole: "one_hole (fx_ast demo_reader) (fx_canonical demo_reader) demo_case"
  using prepared_holes [OF demo_prepared(1)] by simp

lemma demo_env_simps [simp]:
  "re_getenv (demo_env h) = (\<lambda>_. None)" "re_cwd (demo_env h) = []" "re_here (demo_env h) = []"
  "re_bundled (demo_env h) = [u ''card'']" "re_reader (demo_env h) = demo_reader" "re_hosts (demo_env h) = h"
  "re_repr (demo_env h) f = u ''0''" "re_str (demo_env h) = (\<lambda>_. [])" "re_fixed1 (demo_env h) = (\<lambda>_. u ''0'')"
  by (simp_all add: demo_env_def)

lemma demo_main_passes: "\<exists>fs' lines. benchmark_main (demo_env (later gone)) (demo_argv [''01'']) demo_bench_fs = (fs', lines, Inr 0)"
proof -
  obtain es where "run_cases [u ''card''] demo_driver (later gone) [(u ''01'', demo_case)] demo_bench_fs
     = (demo_bench_fs, es, Completed [demo_result])" using demo_ladders(1) by blast
  then have "benchmark_main (demo_env (later gone)) (demo_argv [''01'']) demo_bench_fs
      = finish_run (demo_env (later gone)) (demo_args [''01'']) None [demo_result] demo_bench_fs"
    using main_on_cases [of "demo_env (later gone)" "demo_argv [''01'']", OF _ demo_server]
    by (simp add: demo_parsed demo_prepared demo_run_driver)
  then show ?thesis using demo_finished [of "later gone" "[''01'']"] by (auto split: prod.splits)
qed

section \<open>The properties there\<close>

lemma prepared_cases_are_the_ladders_witness:
  "\<exists>ladder. load_cases demo_reader demo_bench_fs (golden_app []) (cases_dir []) = Inr ladder
    \<and> map fst ladder = case_names demo_bench_fs (cases_dir [])
    \<and> {u ''01''} \<subseteq> fst ` set ladder"
  using prepared_cases_are_the_ladders [OF demo_prepared(1)] by (auto simp: demo_args_def)

lemma case_meets_the_tree_with_one_hole_witness:
  "\<exists>fs2 fs3. implement answering (case_task demo_case) (u ''http://h/'') (u ''m'') []
        [u ''card''] (Some [u ''t'']) fs2 = (fs3, Inr demo_outcome)
    \<and> fs_get fs2 [u ''t'', u ''app'', u ''a.py''] = Some (File (ascii ''x''))
    \<and> fs_get fs2 [u ''t'', u ''app'', u ''b.py''] = Some (File (ascii ''y''))"
proof -
  have parts: "path_parts (impl_path (case_task demo_case)) = [u ''app'', u ''a.py'']"
    "path_parts (u ''app/a.py'') = [u ''app'', u ''a.py'']" "path_parts (u ''app/b.py'') = [u ''app'', u ''b.py'']"
    "utf8_bytes (blank_stub demo_case) = ascii ''x''" "utf8_bytes (u ''y'') = ascii ''y''"
    "u ''b.py'' \<noteq> u ''a.py''"
    by code_simp+
  have "dv_scratch demo_driver = None" "fresh_dir demo_bench_fs (h_tmp answering)"
    by (simp_all add: demo_driver_def demo_fresh_tmp)
  from case_meets_the_tree_with_one_hole [OF demo_done this demo_hole] obtain fs2 fs3 where
    i: "implement answering (case_task demo_case) (dv_base_url demo_driver) (dv_model demo_driver) (dv_params demo_driver)
        (case dv_card demo_driver of None \<Rightarrow> [u ''card''] | Some p \<Rightarrow> p) (Some (h_tmp answering)) fs2
      = (fs3, Inr demo_outcome)"
    and t: "\<And>ps b. ps \<noteq> [] \<Longrightarrow> (fs_get fs2 (h_tmp answering @ ps) = Some (File b) \<longleftrightarrow>
         (if ps = path_parts (impl_path (case_task demo_case)) then b = utf8_bytes (blank_stub demo_case)
          else \<exists>g\<in>set (golden_tree demo_case). ps = path_parts (cf_path g) \<and> b = utf8_bytes (cf_content g)))"
    by blast
  have g: "golden_tree demo_case = demo_golden" by (simp add: demo_case_def)
  have "fs_get fs2 [u ''t'', u ''app'', u ''a.py''] = Some (File (ascii ''x''))"
    "fs_get fs2 [u ''t'', u ''app'', u ''b.py''] = Some (File (ascii ''y''))"
    using t [of "[u ''app'', u ''a.py'']" "ascii ''x''"] t [of "[u ''app'', u ''b.py'']" "ascii ''y''"]
    by (simp_all add: parts g demo_golden_def)
  with i show ?thesis by (simp add: demo_driver_def) blast
qed

lemma cases_run_apart_witness:
  "alone [u ''card''] demo_driver answering demo_case demo_bench_fs (Inr demo_outcome)
   \<and> alone [u ''card''] demo_driver gone demo_case demo_bench_fs (Inl demo_refusal)"
proof -
  obtain es where run: "run_cases [u ''card''] demo_driver (later gone) [(u ''01'', demo_case), (u ''02'', demo_case)]
     demo_bench_fs = (demo_bench_fs, es, Interrupted [demo_result] demo_refusal)" using demo_ladders(2) by blast
  have "dv_scratch demo_driver = None" "wf_fs demo_bench_fs" "\<forall>k. fresh_dir demo_bench_fs (h_tmp (later gone k))"
    using demo_fresh_tmp by (simp_all add: demo_driver_def fresh_dir_def)
  moreover have "\<forall>(i, c)\<in>set [(u ''01'', demo_case), (u ''02'', demo_case)].
      one_hole (fx_ast demo_reader) (fx_canonical demo_reader) c" by (simp add: demo_hole)
  ultimately obtain rs where
    rs: "\<forall>i < length rs. cr_case_id (rs ! i) = fst ([(u ''01'', demo_case), (u ''02'', demo_case)] ! i)
       \<and> alone [u ''card''] demo_driver (later gone (i + 1))
         (snd ([(u ''01'', demo_case), (u ''02'', demo_case)] ! i)) demo_bench_fs (Inr (cr_outcome (rs ! i)))"
    and e: "if length rs = length [(u ''01'', demo_case), (u ''02'', demo_case)]
       then Interrupted [demo_result] demo_refusal = Completed rs
         \<and> (\<forall>q. fs_get demo_bench_fs q = fs_get demo_bench_fs q)
       else \<exists>x. alone [u ''card''] demo_driver (later gone (length rs + 1))
            (snd ([(u ''01'', demo_case), (u ''02'', demo_case)] ! length rs)) demo_bench_fs (Inl x)
          \<and> Interrupted [demo_result] demo_refusal = (if is_host_fault x then Interrupted rs x else Escaped x)"
    using cases_run_apart [OF run] by blast
  from e have "rs = [demo_result]" and "alone [u ''card''] demo_driver gone demo_case demo_bench_fs (Inl demo_refusal)"
    by (auto simp: later_def split: if_splits)
  then show ?thesis using rs by (simp add: later_def)
qed

lemma exit_zero_is_a_ladder_passed_whole_witness:
  "\<exists>rs fs1 es. run_cases [u ''card''] demo_driver (later gone) [(u ''01'', demo_case)] demo_bench_fs
     = (fs1, es, Completed rs) \<and> map cr_case_id rs = [u ''01'']"
proof -
  obtain fs' lines where "benchmark_main (demo_env (later gone)) (demo_argv [''01'']) demo_bench_fs = (fs', lines, Inr 0)"
    using demo_main_passes by blast
  from exit_zero_is_a_ladder_passed_whole [OF this, of "demo_args [''01'']"] show ?thesis
    by (auto simp: demo_parsed demo_server demo_prepared demo_run_driver)
qed

lemma demo_linter:
  "collect_style_findings (re_str (demo_env h)) (re_linter (demo_env h)) (re_interpreter (demo_env h)) d fs = Inr []"
proof -
  have "json_loads (u ''[]'') = Inr (JArr [])" by code_simp
  then show ?thesis by (simp add: collect_style_findings_def run_linter_def demo_env_def Let_def)
qed

lemma scored_ladder_survives_witness:
  "\<exists>s n fs' rest. score_cases [demo_result] = Inr s
    \<and> benchmark_main (demo_env (later gone)) (demo_argv []) demo_bench_fs
        = (fs', print_scorecard (\<lambda>_. u ''0'') (\<lambda>_. []) (s\<lparr>lc_style := n\<rparr>) @ rest, Inr 3)"
proof -
  let ?env = "demo_env (later gone)"
  have p: "parse_run (re_getenv ?env) (demo_argv []) = Inr (demo_args [])" by (simp add: demo_parsed)
  have c: "prepare_cases (re_reader ?env) (re_here ?env) (demo_args []) demo_bench_fs
      = Inr (Inr [(u ''01'', demo_case), (u ''02'', demo_case)])" by (simp add: demo_prepared)
  obtain es where run: "run_cases (re_bundled ?env) (run_driver ?env (demo_args []) (u ''http://h/'') (u ''m''))
      (re_hosts ?env) [(u ''01'', demo_case), (u ''02'', demo_case)]
     demo_bench_fs = (demo_bench_fs, es, Interrupted [demo_result] demo_refusal)"
    using demo_ladders(2) by (auto simp: demo_run_driver)
  have card: "read_text demo_bench_fs [u ''card''] = Inr (u ''rules'')" by code_simp
  have "wf_fs demo_bench_fs" using demo_fresh_tmp by (simp add: fresh_dir_def)
  moreover have "\<forall>k. fresh_dir demo_bench_fs (h_tmp (re_hosts ?env k)) \<and> h_sha256 (re_hosts ?env k) = (\<lambda>_. u ''0d'')"
    by (simp add: demo_fresh_tmp later_def)
  moreover have "\<forall>d fs x. collect_style_findings (re_str ?env) (re_linter ?env) (re_interpreter ?env) d fs = Inl x
          \<longrightarrow> style_caught x" unfolding demo_linter by simp
  moreover have "\<forall>f. ascii_text (re_repr ?env f)" by (simp add: ascii_text_def u_def)
  moreover have "read_text demo_bench_fs (case map_option (join_path (re_cwd ?env)) (ra_rules_card (demo_args [])) of
           None \<Rightarrow> re_bundled ?env | Some p \<Rightarrow> p) = Inr (u ''rules'')" by (simp add: demo_args_def card)
  ultimately show ?thesis
    using scored_ladder_survives [OF p demo_server c run, of "[demo_result]" demo_refusal "\<lambda>_. u ''0d''" "u ''rules''"]
    unfolding demo_env_simps by (simp del: demo_env_simps) blast
qed

section \<open>What does not survive\<close>

text \<open>An exception that is none of the three of a host fault ends the ladder: a reply with a lone
  surrogate to the second case, and the first case, finished and reported, is neither scored nor printed.\<close>

lemma escaping_reply_discards_the_ladder:
  "case run_cases [u ''card''] demo_driver (later surrogate) [(u ''01'', demo_case), (u ''02'', demo_case)] demo_bench_fs of
     (_, es, e) \<Rightarrow> Case_Finished demo_result \<in> set es \<and> e = Escaped Unicode_Encode_Error"
  "benchmark_main (demo_env (later surrogate)) (demo_argv []) demo_bench_fs
     = (demo_bench_fs, [], Inl (Ladder_Raised Unicode_Encode_Error))"
proof -
  show "case run_cases [u ''card''] demo_driver (later surrogate) [(u ''01'', demo_case), (u ''02'', demo_case)]
      demo_bench_fs of (_, es, e) \<Rightarrow> Case_Finished demo_result \<in> set es \<and> e = Escaped Unicode_Encode_Error"
    by (simp add: run_cases_def later_def demo_done demo_escapes is_host_fault_def Let_def)
  obtain es where "run_cases [u ''card''] demo_driver (later surrogate) [(u ''01'', demo_case), (u ''02'', demo_case)]
     demo_bench_fs = (demo_bench_fs, es, Escaped Unicode_Encode_Error)" using demo_ladders(3) by blast
  then show "benchmark_main (demo_env (later surrogate)) (demo_argv []) demo_bench_fs
     = (demo_bench_fs, [], Inl (Ladder_Raised Unicode_Encode_Error))"
    using main_on_cases [of "demo_env (later surrogate)" "demo_argv []", OF _ demo_server]
    by (simp add: demo_parsed demo_prepared demo_run_driver)
qed

end
