(* ===== verification/Benchmark_Chain.thy ===== *)
theory Benchmark_Chain
  imports Benchmark_Demo
begin

text \<open>
  \<open>scripts/benchmark_model.py\<close> and the benchmark it runs, as one program: the command the script builds
  is the one \<open>benchmarks/run.py\<close> reads, and the code the script passes on is the ladder's verdict on the
  row it served.
\<close>

section \<open>Reading the command\<close>

definition row_args ::
  "pystr \<Rightarrow> pystr \<Rightarrow> pystr \<Rightarrow> params \<Rightarrow> bool \<Rightarrow> pystr list \<Rightarrow> bool \<Rightarrow> pystr option \<Rightarrow> run_args" where
  "row_args base_url model out ps stream only planned rules_card =
     \<lparr>ra_base_url = Some base_url, ra_model = Some model, ra_out = Some out, ra_code_out = None,
      ra_stream = stream, ra_only = only, ra_plan_first = planned, ra_params = ps, ra_rules_card = rules_card\<rparr>"

abbreviation not_dashed :: "pystr \<Rightarrow> bool" where
  "not_dashed v \<equiv> \<not> startswith v [45]"

lemma run_listed:
  "(u ''--base-url'', Takes_Value) \<in> set RUN_OPTIONS" "(u ''--model'', Takes_Value) \<in> set RUN_OPTIONS"
  "(u ''--out'', Takes_Value) \<in> set RUN_OPTIONS" "(u ''--generation-params'', Takes_Value) \<in> set RUN_OPTIONS"
  "(u ''--rules-card'', Takes_Value) \<in> set RUN_OPTIONS" "(u ''--only'', Takes_Value) \<in> set RUN_OPTIONS"
  "(u ''--stream'', Switch) \<in> set RUN_OPTIONS" "(u ''--plan-first'', Switch) \<in> set RUN_OPTIONS"
  by (simp_all add: RUN_OPTIONS_def)

lemma store_runs:
  "store_run (u ''--base-url'') v args = Inr (args\<lparr>ra_base_url := Some v\<rparr>)"
  "store_run (u ''--model'') v args = Inr (args\<lparr>ra_model := Some v\<rparr>)"
  "store_run (u ''--out'') v args = Inr (args\<lparr>ra_out := Some v\<rparr>)"
  "store_run (u ''--only'') v args = Inr (args\<lparr>ra_only := ra_only args @ [v]\<rparr>)"
  "store_run (u ''--rules-card'') v args = Inr (args\<lparr>ra_rules_card := Some v\<rparr>)"
  "generation_params_from_json v = Inr ps \<Longrightarrow>
     store_run (u ''--generation-params'') v args = Inr (args\<lparr>ra_params := ps\<rparr>)"
  "switch_run (u ''--stream'') args = args\<lparr>ra_stream := True\<rparr>"
  "switch_run (u ''--plan-first'') args = args\<lparr>ra_plan_first := True\<rparr>"
  by (simp_all add: store_run_def switch_run_def u_def)

lemmas read_run = run_listed(1-6) [THEN run_table.read_separate] run_listed(7-8) [THEN run_table.read_switch]

lemma read_only:
  "list_all not_dashed only \<Longrightarrow>
     consume RUN_OPTIONS switch_run store_run False args (concat (map (\<lambda>c. [u ''--only'', c]) only))
       = Inr (args\<lparr>ra_only := ra_only args @ only\<rparr>)"
  by (induction only arbitrary: args) (simp_all add: read_run store_runs)

lemma benchmark_command_parsed:
  assumes "not_dashed base_url" and "not_dashed model" and "not_dashed out" and "list_all not_dashed only"
    and "\<forall>c. rules_card = Some c \<longrightarrow> not_dashed c" and "readable repr (JObj ps)"
  shows "parse_run getenv
      (drop 3 (benchmark_command (json_dumps repr None) executable base_url model out ps stream only planned rules_card))
    = Inr (row_args base_url model out ps stream only planned rules_card)"
  using assms(1-5) printed_object [OF assms(6)]
  by (cases "ps = []"; cases stream; cases planned; cases rules_card)
    (simp_all add: parse_run_def benchmark_command_def read_run store_runs read_only row_args_def)

section \<open>The chain\<close>

text \<open>From the parsed arguments of \<open>benchmark_model.py\<close> on.\<close>

lemma chain_scores:
  assumes "benchmark_model_main mach (run_benchmark env fs) (json_dumps repr None) T name out stream only planned
      rules_card = Inr (Some (Some g, Block_Value (cmd, code)))"
    and "\<forall>handle model. served_model_id (m_str mach) (m_get mach) handle = Inr model \<longrightarrow> not_dashed model"
    and "not_dashed out" and "list_all not_dashed only" and "\<forall>c. rules_card = Some c \<longrightarrow> not_dashed c"
    and "\<forall>m. resolve_model (m_registry mach) (m_files mach) name = Inr m \<longrightarrow> readable repr (JObj (rm_params m))"
  shows "\<exists>m server model. resolve_model (m_registry mach) (m_files mach) name = Inr m
    \<and> for_model (m_executable mach) m DEFAULT_MAX_TOKENS = Inr server
    \<and> served_model_id (m_str mach) (m_get mach) \<lparr>sh_base_url = server_base_url server,
         sh_port = ms_port server, sh_pid = v_pid (m_serving mach)\<rparr> = Inr model
    \<and> code = ladder_code (run_with env
        (row_args (server_base_url server) model out (rm_params m) stream only planned rules_card) fs)
    \<and> \<not> g_alive (s_leader g)"
proof -
  obtain m server model where a:
    "resolve_model (m_registry mach) (m_files mach) name = Inr m"
    "for_model (m_executable mach) m DEFAULT_MAX_TOKENS = Inr server"
    "served_model_id (m_str mach) (m_get mach) \<lparr>sh_base_url = server_base_url server,
           sh_port = ms_port server, sh_pid = v_pid (m_serving mach)\<rparr> = Inr model"
    and cmd: "cmd = benchmark_command (json_dumps repr None) (m_executable mach) (server_base_url server) model out
       (rm_params m) stream only planned rules_card"
    and e: "run_benchmark env fs cmd = Inr code" "\<not> g_alive (s_leader g)"
    using run_against_value [OF assms(1) [unfolded benchmark_model_main_def]] by (metis server_handle.select_convs(1))
  have "not_dashed (server_base_url server)" by (simp add: server_base_url_def u_def startswith_def)
  moreover have "not_dashed model" using assms(2) a(3) by blast
  moreover have "readable repr (JObj (rm_params m))" using assms(6) a(1) by blast
  ultimately have "parse_run (re_getenv env) (drop 3 cmd)
      = Inr (row_args (server_base_url server) model out (rm_params m) stream only planned rules_card)"
    unfolding cmd using assms(3-5) by (intro benchmark_command_parsed)
  with e(1) have "code = ladder_code (run_with env
        (row_args (server_base_url server) model out (rm_params m) stream only planned rules_card) fs)"
    by (simp add: run_benchmark_def benchmark_main_def)
  with a e(2) show ?thesis by blast
qed

text \<open>A server that is gone when the first case asks.\<close>

lemma small_row_gone:
  "\<exists>fs' lines. run_with (demo_env (\<lambda>_. gone)) (row_args (u ''http://127.0.0.1:80'') (u ''/m/A'') (u ''o'')
      (rm_params small_model) True [u ''01''] False None) demo_bench_fs = (fs', lines, Inr 3)"
proof -
  let ?row = "row_args (u ''http://127.0.0.1:80'') (u ''/m/A'') (u ''o'') (rm_params small_model) True [u ''01''] False None"
  have r: "resolve_server ?row = Inr (u ''http://127.0.0.1:80'', u ''/m/A'')"
    by (simp add: resolve_server_def row_args_def u_def)
  have p: "prepare_cases demo_reader [] ?row demo_bench_fs = Inr (Inr [(u ''01'', demo_case)])"
    by (simp add: prepare_cases_def demo_loaded row_args_def select_cases_def u_def)
  have "case run_case [u ''card''] (run_driver (demo_env (\<lambda>_. gone)) ?row (u ''http://127.0.0.1:80'') (u ''/m/A''))
      gone demo_case demo_bench_fs of (_, Inl x) \<Rightarrow> is_host_fault x | (_, Inr oc) \<Rightarrow> False"
    by code_simp
  then obtain fs' x where "run_case [u ''card'']
      (run_driver (demo_env (\<lambda>_. gone)) ?row (u ''http://127.0.0.1:80'') (u ''/m/A''))
      gone demo_case demo_bench_fs = (fs', Inl x)" and "is_host_fault x"
    by (auto split: prod.splits sum.splits)
  then show ?thesis using r p by (simp add: run_with_def run_cases_def Let_def)
qed

end
