(* ===== verification/Script_Args.thy ===== *)
theory Script_Args
  imports Benchmark_Chain Score_Style
begin

text \<open>
  The command lines of the files under \<open>scripts/\<close>: options as the rest of the package reads them, with the
  positional arguments these scripts take, the numbers they convert, and their main functions from
  the argument list on.
\<close>

section \<open>Positional arguments\<close>

text \<open>\<open>n\<close> arguments are needed, \<open>k\<close> are found; \<open>place k\<close> stores the next one.  \<open>just\<close> holds after an
  argument that was stored: a double dash there belongs to it.  After a double dash every argument
  is positional.\<close>

fun place_all :: "(nat \<Rightarrow> pystr \<Rightarrow> 'a \<Rightarrow> 'a) \<Rightarrow> nat \<Rightarrow> pystr list \<Rightarrow> 'a \<Rightarrow> 'a" where
  "place_all place k [] args = args"
| "place_all place k (v # vs) args = place_all place (k + 1) vs (place k v args)"

fun consume_at ::
  "(pystr \<times> option_kind) list \<Rightarrow> (pystr \<Rightarrow> 'a \<Rightarrow> 'a) \<Rightarrow> (pystr \<Rightarrow> pystr \<Rightarrow> 'a \<Rightarrow> int + 'a)
     \<Rightarrow> (nat \<Rightarrow> pystr \<Rightarrow> 'a \<Rightarrow> 'a) \<Rightarrow> nat \<Rightarrow> nat \<Rightarrow> bool \<Rightarrow> bool \<Rightarrow> 'a \<Rightarrow> pystr list \<Rightarrow> int + 'a" where
  "consume_at tbl switch store place n k just extras args [] = (if extras \<or> k < n then Inl 2 else Inr args)"
| "consume_at tbl switch store place n k just extras args (t # ts) =
     (if t = u ''--''
      then if length ts + k = n \<and> (just \<or> ts \<noteq> []) \<and> \<not> extras then Inr (place_all place k ts args) else Inl 2
      else if \<not> is_option tbl t
      then if k < n then consume_at tbl switch store place n (k + 1) True extras (place k t args) ts
           else consume_at tbl switch store place n k just True args ts
      else case candidates tbl t of
        [] \<Rightarrow> consume_at tbl switch store place n k False True args ts
      | [(opt, Help)] \<Rightarrow> if inline_value t = None \<and> \<not> startswith t (u ''-h-'') then Inl 0 else Inl 2
      | [(opt, Switch)] \<Rightarrow>
          if inline_value t = None
          then consume_at tbl switch store place n k False extras (switch opt args) ts else Inl 2
      | [(opt, Takes_Value)] \<Rightarrow>
          (case inline_value t of
             Some v \<Rightarrow>
               (case store opt v args of
                  Inl code \<Rightarrow> Inl code
                | Inr args' \<Rightarrow> consume_at tbl switch store place n k False extras args' ts)
           | None \<Rightarrow>
               (case ts of
                  [] \<Rightarrow> Inl 2
                | v # ts' \<Rightarrow>
                    if v = u ''--'' \<or> is_option tbl v then Inl 2
                    else (case store opt v args of
                            Inl code \<Rightarrow> Inl code
                          | Inr args' \<Rightarrow> consume_at tbl switch store place n k False extras args' ts')))
      | _ \<Rightarrow> Inl 2)"

lemmas consume_at_step = consume_at.simps(2)
declare consume_at.simps(2) [simp del]

text \<open>An argument without a leading dash is the next positional one; an option is read wherever it stands.\<close>

lemma read_positional:
  assumes "\<not> startswith v [45]" and "k < n"
  shows "consume_at tbl switch store place n k just extras args (v # ts)
     = consume_at tbl switch store place n (k + 1) True extras (place k v args) ts"
proof -
  have "v \<noteq> u ''--''" "\<not> is_option tbl v" using assms(1) by (auto simp: is_option_def u_def startswith_def)
  with assms(2) show ?thesis by (simp add: consume_at_step)
qed

context option_table begin

lemma read_separate_at:
  assumes "(opt, Takes_Value) \<in> set tbl" and "\<not> startswith v [45]"
  shows "consume_at tbl switch store place n k just extras args (opt # v # ts) =
     (case store opt v args of
        Inl code \<Rightarrow> Inl code | Inr args' \<Rightarrow> consume_at tbl switch store place n k False extras args' ts)"
proof -
  have "inline_value opt = None" using long_name [OF assms(1)] by (simp add: inline_value_def)
  moreover have "v \<noteq> u ''--''" "\<not> is_option tbl v"
    using assms(2) by (auto simp: is_option_def u_def startswith_def)
  ultimately show ?thesis using exact [OF assms(1) disjI1 [OF refl]] by (simp add: consume_at_step)
qed

lemma read_switch_at:
  assumes "(opt, Switch) \<in> set tbl"
  shows "consume_at tbl switch store place n k just extras args (opt # ts)
     = consume_at tbl switch store place n k False extras (switch opt args) ts"
proof -
  have "inline_value opt = None" using long_name [OF assms] by (simp add: inline_value_def)
  then show ?thesis using exact [OF assms disjI1 [OF refl]] by (simp add: consume_at_step)
qed

end

section \<open>Numbers\<close>

definition lower_ascii :: "pystr \<Rightarrow> pystr" where
  "lower_ascii s = map (\<lambda>c. if 65 \<le> c \<and> c \<le> 90 then c + 32 else c) s"

definition no_underscores :: "pystr \<Rightarrow> pystr" where
  "no_underscores s = filter (\<lambda>c. c \<noteq> 95) s"

text \<open>The exponent of a literal: a sign and digits.\<close>

definition exponent_of :: "pystr \<Rightarrow> (bool \<times> pystr) option" where
  "exponent_of s =
     (let ds = (if startswith s [45] \<or> startswith s [43] then drop 1 s else s)
      in if digit_groups ds then Some (startswith s [45], no_underscores ds) else None)"

text \<open>The digits before and after the point, at least one of the two given.\<close>

definition mantissa_of :: "pystr \<Rightarrow> (pystr \<times> pystr) option" where
  "mantissa_of s =
     (case split_on 46 s of
        [ds] \<Rightarrow> if digit_groups ds then Some (no_underscores ds, []) else None
      | [ds, fs] \<Rightarrow>
          if (ds \<noteq> [] \<or> fs \<noteq> []) \<and> (ds = [] \<or> digit_groups ds) \<and> (fs = [] \<or> digit_groups fs)
          then Some (no_underscores ds, no_underscores fs) else None
      | _ \<Rightarrow> None)"

text \<open>\<open>float(text)\<close> for ASCII text; \<open>None\<close> is its \<open>ValueError\<close>.\<close>

definition py_float :: "pystr \<Rightarrow> pyfloat option" where
  "py_float t =
     (let s = lower_ascii (strip t); neg = startswith s [45];
          body = (if neg \<or> startswith s [43] then drop 1 s else s)
      in if body = u ''inf'' \<or> body = u ''infinity'' then Some (if neg then NegInf else PosInf)
         else if body = u ''nan'' then Some NaN
         else (case split_on 101 body of
                 [m] \<Rightarrow>
                   (case mantissa_of m of
                      Some (ds, fs) \<Rightarrow>
                        (case number_value neg ds (Some fs) None of Inr (JFloat f) \<Rightarrow> Some f | _ \<Rightarrow> None)
                    | None \<Rightarrow> None)
               | [m, e] \<Rightarrow>
                   (case (mantissa_of m, exponent_of e) of
                      (Some (ds, fs), Some x) \<Rightarrow>
                        (case number_value neg ds (Some fs) (Some x) of Inr (JFloat f) \<Rightarrow> Some f | _ \<Rightarrow> None)
                    | _ \<Rightarrow> None)
               | _ \<Rightarrow> None))"

text \<open>A conversion that fails is a usage error.\<close>

definition stored :: "'b option \<Rightarrow> ('b \<Rightarrow> 'a) \<Rightarrow> int + 'a" where
  "stored v f = (case v of None \<Rightarrow> Inl 2 | Some x \<Rightarrow> Inr (f x))"

definition int_of :: "pystr \<Rightarrow> int option" where
  "int_of v = (case py_int v of Inl _ \<Rightarrow> None | Inr n \<Rightarrow> Some n)"

definition params_of :: "pystr \<Rightarrow> params option" where
  "params_of v = (case generation_params_from_json v of Inl _ \<Rightarrow> None | Inr ps \<Rightarrow> Some ps)"

text \<open>A \<open>Path\<close> handed on as text.\<close>

definition path_text :: "pystr \<Rightarrow> pystr" where
  "path_text v = as_posix (is_absolute v) (path_parts v)"

section \<open>The options every serving script has\<close>

abbreviation startup_option :: "pystr \<times> option_kind" where
  "startup_option \<equiv> (u ''--startup-timeout'', Takes_Value)"

section \<open>benchmark_model.py\<close>

definition BENCH_OPTIONS :: "(pystr \<times> option_kind) list" where
  "BENCH_OPTIONS = [(u ''--help'', Help), (u ''--out'', Takes_Value), startup_option, (u ''--stream'', Switch),
     (u ''--only'', Takes_Value), (u ''--plan-first'', Switch), (u ''--rules-card'', Takes_Value)]"

record bench_args =
  ba_model :: pystr
  ba_out :: pystr
  ba_startup :: pyfloat
  ba_stream :: bool
  ba_only :: "pystr list"
  ba_plan_first :: bool
  ba_rules_card :: "pystr option"

definition store_bench :: "pystr \<Rightarrow> pystr \<Rightarrow> bench_args \<Rightarrow> int + bench_args" where
  "store_bench opt v a =
     (if opt = u ''--out'' then Inr (a\<lparr>ba_out := path_text v\<rparr>)
      else if opt = u ''--startup-timeout'' then stored (py_float v) (\<lambda>x. a\<lparr>ba_startup := x\<rparr>)
      else if opt = u ''--only'' then Inr (a\<lparr>ba_only := ba_only a @ [v]\<rparr>)
      else Inr (a\<lparr>ba_rules_card := Some (path_text v)\<rparr>))"

definition switch_bench :: "pystr \<Rightarrow> bench_args \<Rightarrow> bench_args" where
  "switch_bench opt a = (if opt = u ''--stream'' then a\<lparr>ba_stream := True\<rparr> else a\<lparr>ba_plan_first := True\<rparr>)"

text \<open>\<open>scorecards\<close> is the directory scorecards are written into by default, as text.\<close>

definition parse_bench :: "pystr \<Rightarrow> pystr list \<Rightarrow> int + bench_args" where
  "parse_bench scorecards argv =
     consume_at BENCH_OPTIONS switch_bench store_bench (\<lambda>_ v a. a\<lparr>ba_model := v\<rparr>) 1 0 False False
       \<lparr>ba_model = [], ba_out = scorecards, ba_startup = DEFAULT_STARTUP_TIMEOUT_S, ba_stream = False, ba_only = [],
        ba_plan_first = False, ba_rules_card = None\<rparr> argv"

definition benchmark_model_argv ::
  "machine \<Rightarrow> (pystr list \<Rightarrow> exn + int) \<Rightarrow> (json \<Rightarrow> pystr) \<Rightarrow> pystr \<Rightarrow> pystr list
     \<Rightarrow> int + (launch_error + (session option \<times> (pystr list \<times> int) block_end) option)" where
  "benchmark_model_argv mach run dumps scorecards argv =
     bindE (parse_bench scorecards argv) (\<lambda>a.
       Inr (benchmark_model_main mach run dumps (ba_startup a) (ba_model a) (ba_out a) (ba_stream a) (ba_only a)
              (ba_plan_first a) (ba_rules_card a)))"

section \<open>e2e_local_model.py and probe_thinking_channel.py\<close>

definition STARTUP_OPTIONS :: "(pystr \<times> option_kind) list" where
  "STARTUP_OPTIONS = [(u ''--help'', Help), startup_option]"

record startup_args =
  st_model :: pystr
  st_startup :: pyfloat

definition parse_startup :: "pystr list \<Rightarrow> int + startup_args" where
  "parse_startup argv =
     consume_at STARTUP_OPTIONS (\<lambda>_ a. a) (\<lambda>_ v a. stored (py_float v) (\<lambda>x. a\<lparr>st_startup := x\<rparr>))
       (\<lambda>_ v a. a\<lparr>st_model := v\<rparr>) 1 0 False False
       \<lparr>st_model = [], st_startup = DEFAULT_STARTUP_TIMEOUT_S\<rparr> argv"

definition e2e_argv ::
  "machine \<Rightarrow> (pystr list \<Rightarrow> exn + int) \<Rightarrow> (json \<Rightarrow> pystr) \<Rightarrow> pystr \<Rightarrow> pystr list
     \<Rightarrow> int + (launch_error + (session option \<times> (pystr list \<times> int) block_end) option)" where
  "e2e_argv mach run dumps example argv =
     bindE (parse_startup argv) (\<lambda>a. Inr (e2e_main mach run dumps example (st_startup a) (st_model a)))"

text \<open>The thinking probe: its steps in order, a heading per prompt and a request or a skip per control.\<close>

datatype probe_step = Heading pystr | Skipped | Ask params pystr

definition probe_steps :: "path option \<Rightarrow> probe_step list" where
  "probe_steps draft_path = concat (map (\<lambda>(label, prompt). Heading label
     # map (\<lambda>ps. if is_unservable_combination draft_path ps then Skipped else Ask ps prompt) CONTROLS) PROMPTS)"

text \<open>What a request came to: the lines of a successful response, or what the HTTP client raised.  The first
  error ends the probe; the lines printed before it stay printed.\<close>

datatype thinking_error = Http_Raised pystr | Bad_Line probe_error

record shown =
  sh_params :: "params \<Rightarrow> pystr"
  sh_list :: "pystr list \<Rightarrow> pystr"
  sh_repr :: "pystr \<Rightarrow> pystr"
  sh_str :: "json \<Rightarrow> pystr"

fun run_steps ::
  "shown \<Rightarrow> (json \<Rightarrow> pystr + pystr list) \<Rightarrow> pystr \<Rightarrow> probe_step list \<Rightarrow> pystr list \<times> thinking_error option" where
  "run_steps sh http model [] = ([], None)"
| "run_steps sh http model (Heading label # steps) =
     (case run_steps sh http model steps of (out, e) \<Rightarrow> (([NL] @ u ''==== prompt: '' @ label) # out, e))"
| "run_steps sh http model (Skipped # steps) =
     (case run_steps sh http model steps of
        (out, e) \<Rightarrow> (([NL] @ u ''--- skipped thinking_budget: server raises with a draft model'') # out, e))"
| "run_steps sh http model (Ask ps prompt # steps) =
     (case http (JObj (probe_body model ps prompt)) of
        Inl x \<Rightarrow> ([], Some (Http_Raised x))
      | Inr ls \<Rightarrow>
          (case probe_channels ls of
             Inl x \<Rightarrow> ([], Some (Bad_Line x))
           | Inr ch \<Rightarrow>
               (case run_steps sh http model steps of
                  (out, e) \<Rightarrow> (probe_report (sh_params sh) (sh_list sh) (sh_repr sh) (sh_str sh) ps model ch @ out, e))))"

text \<open>\<open>main\<close>; an error leaves the running block, whose value here is what was printed and the error.\<close>

definition thinking_main ::
  "machine \<Rightarrow> shown \<Rightarrow> (pystr \<Rightarrow> json \<Rightarrow> pystr + pystr list) \<Rightarrow> pyfloat \<Rightarrow> pystr
     \<Rightarrow> launch_error + (session option \<times> (pystr list \<times> thinking_error option) block_end) option" where
  "thinking_main mach sh http startup_timeout_s name =
     bindE (resolved_on mach name) (\<lambda>m.
       serve mach startup_timeout_s m (\<lambda>handle served.
         Inr (run_steps sh (http (sh_base_url handle @ CHAT_COMPLETIONS_PATH)) served (probe_steps (rm_draft_path m)))))"

definition thinking_argv ::
  "machine \<Rightarrow> shown \<Rightarrow> (pystr \<Rightarrow> json \<Rightarrow> pystr + pystr list) \<Rightarrow> pystr list
     \<Rightarrow> int + (launch_error + (session option \<times> (pystr list \<times> thinking_error option) block_end) option)" where
  "thinking_argv mach sh http argv =
     bindE (parse_startup argv) (\<lambda>a. Inr (thinking_main mach sh http (st_startup a) (st_model a)))"

section \<open>measure_first_byte.py\<close>

definition MEASURE_OPTIONS :: "(pystr \<times> option_kind) list" where
  "MEASURE_OPTIONS = [(u ''--help'', Help), startup_option, (u ''--max-tokens'', Takes_Value)]"

record measure_args =
  me_model :: pystr
  me_startup :: pyfloat
  me_max_tokens :: int

definition store_measure :: "pystr \<Rightarrow> pystr \<Rightarrow> measure_args \<Rightarrow> int + measure_args" where
  "store_measure opt v a =
     (if opt = u ''--startup-timeout'' then stored (py_float v) (\<lambda>x. a\<lparr>me_startup := x\<rparr>)
      else stored (int_of v) (\<lambda>n. a\<lparr>me_max_tokens := n\<rparr>))"

definition parse_measure :: "pystr list \<Rightarrow> int + measure_args" where
  "parse_measure argv =
     consume_at MEASURE_OPTIONS (\<lambda>_ a. a) store_measure (\<lambda>_ v a. a\<lparr>me_model := v\<rparr>) 1 0 False False
       \<lparr>me_model = [], me_startup = DEFAULT_STARTUP_TIMEOUT_S, me_max_tokens = REPLY_TOKENS\<rparr> argv"

definition measure_argv ::
  "machine \<Rightarrow> transport \<Rightarrow> stopwatch \<Rightarrow> (rat \<Rightarrow> rat) \<Rightarrow> path \<Rightarrow> pystr list
     \<Rightarrow> int + (launch_error + (session option \<times> (probe_error + (pystr \<times> json) list) block_end) option)" where
  "measure_argv mach post w round1 card_path argv =
     bindE (parse_measure argv) (\<lambda>a.
       Inr (measure_main mach post w round1 card_path (me_startup a) (me_model a) (me_max_tokens a)))"

section \<open>capture_sse_fixture.py\<close>

definition CAPTURE_OPTIONS :: "(pystr \<times> option_kind) list" where
  "CAPTURE_OPTIONS = [(u ''--help'', Help), (u ''--system'', Takes_Value), (u ''--user'', Takes_Value),
     (u ''--generation-params'', Takes_Value), (u ''--max-tokens'', Takes_Value), (u ''--timeout'', Takes_Value),
     startup_option]"

record capture_args =
  ca_model :: pystr
  ca_destination :: pystr
  ca_system :: pystr
  ca_user :: "pystr option"
  ca_params :: "params option"
  ca_max_tokens :: int
  ca_timeout :: pyfloat
  ca_startup :: pyfloat

definition store_capture :: "pystr \<Rightarrow> pystr \<Rightarrow> capture_args \<Rightarrow> int + capture_args" where
  "store_capture opt v a =
     (if opt = u ''--system'' then Inr (a\<lparr>ca_system := v\<rparr>)
      else if opt = u ''--user'' then Inr (a\<lparr>ca_user := Some v\<rparr>)
      else if opt = u ''--generation-params'' then stored (params_of v) (\<lambda>ps. a\<lparr>ca_params := Some ps\<rparr>)
      else if opt = u ''--max-tokens'' then stored (int_of v) (\<lambda>n. a\<lparr>ca_max_tokens := n\<rparr>)
      else if opt = u ''--timeout'' then stored (py_float v) (\<lambda>x. a\<lparr>ca_timeout := x\<rparr>)
      else stored (py_float v) (\<lambda>x. a\<lparr>ca_startup := x\<rparr>))"

text \<open>\<open>--user\<close> is required.\<close>

definition parse_capture :: "pystr list \<Rightarrow> int + capture_args" where
  "parse_capture argv =
     bindE (consume_at CAPTURE_OPTIONS (\<lambda>_ a. a) store_capture
       (\<lambda>k v a. if k = 0 then a\<lparr>ca_model := v\<rparr> else a\<lparr>ca_destination := v\<rparr>) 2 0 False False
       \<lparr>ca_model = [], ca_destination = [], ca_system = u ''You are a terse assistant.'', ca_user = None,
        ca_params = None, ca_max_tokens = 200, ca_timeout = Fin 300, ca_startup = DEFAULT_STARTUP_TIMEOUT_S\<rparr> argv)
     (\<lambda>a. if ca_user a = None then Inl 2 else Inr a)"

definition capture_argv ::
  "machine \<Rightarrow> transport \<Rightarrow> path \<Rightarrow> pystr list
     \<Rightarrow> int + (launch_error + (session option \<times> (exn + fs) block_end) option)" where
  "capture_argv mach post cwd argv =
     bindE (parse_capture argv) (\<lambda>a.
       Inr (capture_main mach post (ca_startup a) (ca_model a) (ca_params a) (ca_system a) (the (ca_user a))
              (ca_max_tokens a) (ca_timeout a) (join_path cwd (ca_destination a))))"

section \<open>probe_reply.py\<close>

definition PROBE_OPTIONS :: "(pystr \<times> option_kind) list" where
  "PROBE_OPTIONS = [(u ''--help'', Help), (u ''--tail'', Takes_Value), (u ''--raw'', Switch),
     (u ''--generation-params'', Takes_Value), (u ''--max-tokens'', Takes_Value),
     (u ''--generation-timeout'', Takes_Value), startup_option]"

definition store_probe :: "pystr \<Rightarrow> pystr \<Rightarrow> probe_arguments \<Rightarrow> int + probe_arguments" where
  "store_probe opt v a =
     (if opt = u ''--tail'' then Inr (a\<lparr>pa_tail := v\<rparr>)
      else if opt = u ''--generation-params'' then stored (params_of v) (\<lambda>ps. a\<lparr>pa_params := Some ps\<rparr>)
      else if opt = u ''--max-tokens'' then stored (int_of v) (\<lambda>n. a\<lparr>pa_max_tokens := n\<rparr>)
      else if opt = u ''--generation-timeout'' then stored (py_float v) (\<lambda>x. a\<lparr>pa_generation_timeout := x\<rparr>)
      else stored (py_float v) (\<lambda>x. a\<lparr>pa_startup_timeout := x\<rparr>))"

definition parse_probe :: "path \<Rightarrow> pystr list \<Rightarrow> int + probe_arguments" where
  "parse_probe cwd argv =
     consume_at PROBE_OPTIONS (\<lambda>_ a. a\<lparr>pa_raw := True\<rparr>) store_probe
       (\<lambda>k v a. if k = 0 then a\<lparr>pa_model := v\<rparr> else a\<lparr>pa_task_dir := join_path cwd v\<rparr>) 2 0 False False
       \<lparr>pa_model = [], pa_task_dir = [], pa_tail = [], pa_raw = False, pa_params = None, pa_max_tokens = 4096,
        pa_generation_timeout = Fin 300, pa_startup_timeout = DEFAULT_STARTUP_TIMEOUT_S\<rparr> argv"

definition probe_reply_argv ::
  "machine \<Rightarrow> (nat \<Rightarrow> rat) \<Rightarrow> (nat \<Rightarrow> transport) \<Rightarrow> (bytes \<Rightarrow> pystr) \<Rightarrow> path \<Rightarrow> (params \<Rightarrow> pystr) \<Rightarrow> path
     \<Rightarrow> pystr list \<Rightarrow> int + (launch_error + (session option \<times> (pystr list \<times> pystr) block_end) option)" where
  "probe_reply_argv mach clk post sha256_hex card_path show_params cwd argv =
     bindE (parse_probe cwd argv) (\<lambda>a. Inr (probe_reply_main mach clk post sha256_hex card_path show_params a))"

section \<open>score_style.py\<close>

text \<open>Any number of directories, and no option but help: every argument before a double dash that looks like
  an option is refused, unless it asks for help.\<close>

fun parse_style :: "bool \<Rightarrow> pystr list \<Rightarrow> pystr list \<Rightarrow> int + pystr list" where
  "parse_style extras named [] = (if extras then Inl 2 else Inr named)"
| "parse_style extras named (t # ts) =
     (if t = u ''--'' then (if extras then Inl 2 else Inr (named @ ts))
      else if \<not> is_option [(u ''--help'', Help)] t then parse_style extras (named @ [t]) ts
      else if candidates [(u ''--help'', Help)] t = [] then parse_style True named ts
      else if inline_value t = None \<and> \<not> startswith t (u ''-h-'') then Inl 0 else Inl 2)"

definition score_style_argv ::
  "(path \<Rightarrow> style_finding list) \<Rightarrow> fs \<Rightarrow> path \<Rightarrow> path \<Rightarrow> pystr list \<Rightarrow> pystr list \<times> pystr list \<times> int" where
  "score_style_argv lint fs scorecards cwd argv =
     (case parse_style False [] argv of
        Inl code \<Rightarrow> ([], [], code)
      | Inr named \<Rightarrow> score_style_main lint fs scorecards (latest_run_directory fs scorecards) (map (join_path cwd) named))"

section \<open>What the sweep asks for\<close>

interpretation bench_table: option_table BENCH_OPTIONS
proof
  show "distinct (map fst BENCH_OPTIONS)" by code_simp
  show "startswith opt (u ''--'') \<and> 2 < length opt \<and> 61 \<notin> set opt" if "(opt, k) \<in> set BENCH_OPTIONS" for opt k
    using that by (auto simp: BENCH_OPTIONS_def u_def startswith_def)
qed

text \<open>The sweep's command for one row: the model it names and its card, everything else as by default.\<close>

lemma sweep_command_parsed:
  assumes "not_dashed name" and "\<forall>c. card_text = Some c \<longrightarrow> not_dashed c"
  shows "parse_bench scorecards (drop 2 (bench_command executable script name card_text))
    = Inr \<lparr>ba_model = name, ba_out = scorecards, ba_startup = DEFAULT_STARTUP_TIMEOUT_S, ba_stream = False,
        ba_only = [], ba_plan_first = False, ba_rules_card = map_option path_text card_text\<rparr>"
proof -
  have "(u ''--rules-card'', Takes_Value) \<in> set BENCH_OPTIONS" by (simp add: BENCH_OPTIONS_def)
  note r = bench_table.read_separate_at [OF this]
  have s: "store_bench (u ''--rules-card'') v a = Inr (a\<lparr>ba_rules_card := Some (path_text v)\<rparr>)" for v a
    by (simp add: store_bench_def u_def)
  show ?thesis
    using assms by (cases card_text) (simp_all add: parse_bench_def bench_command_def read_positional r s)
qed

section \<open>The property\<close>

text \<open>C39. What \<open>benchmark_model.py\<close> returns is the verdict on the row its command line names: when the chain of
  one model returns, the benchmark was run with exactly the address of the server the row launched,
  the id that server advertised, the row's own generation parameters and the cases, card and switches
  the command line gave; the code is the one the ladder run with these ended with; and the server is
  dead.  What the outer command hands on as a separate word (the id, the output directory, the
  cases, the card) must not begin with a dash, which the inner parser would take for an option, and
  the row's parameters must be JSON that prints and reads back.\<close>

theorem benchmark_chain_scores_the_row:
  assumes "parse_bench scorecards argv = Inr a"
    and "benchmark_model_argv mach (run_benchmark env fs) (json_dumps repr None) scorecards argv
      = Inr (Inr (Some (Some g, Block_Value (cmd, code))))"
    and "\<forall>handle model. served_model_id (m_str mach) (m_get mach) handle = Inr model \<longrightarrow> not_dashed model"
    and "not_dashed (ba_out a)" and "list_all not_dashed (ba_only a)"
    and "\<forall>c. ba_rules_card a = Some c \<longrightarrow> not_dashed c"
    and "\<forall>m. resolve_model (m_registry mach) (m_files mach) (ba_model a) = Inr m \<longrightarrow> readable repr (JObj (rm_params m))"
  shows "\<exists>m server model. resolve_model (m_registry mach) (m_files mach) (ba_model a) = Inr m
    \<and> for_model (m_executable mach) m DEFAULT_MAX_TOKENS = Inr server
    \<and> served_model_id (m_str mach) (m_get mach) \<lparr>sh_base_url = server_base_url server,
         sh_port = ms_port server, sh_pid = v_pid (m_serving mach)\<rparr> = Inr model
    \<and> code = ladder_code (run_with env (row_args (server_base_url server) model (ba_out a) (rm_params m)
        (ba_stream a) (ba_only a) (ba_plan_first a) (ba_rules_card a)) fs)
    \<and> \<not> g_alive (s_leader g)"
proof -
  from assms(1,2) have "benchmark_model_main mach (run_benchmark env fs) (json_dumps repr None) (ba_startup a)
      (ba_model a) (ba_out a) (ba_stream a) (ba_only a) (ba_plan_first a) (ba_rules_card a)
    = Inr (Some (Some g, Block_Value (cmd, code)))" by (simp add: benchmark_model_argv_def)
  from chain_scores [OF this assms(3-7)] show ?thesis .
qed

text \<open>On the small machine, with a server that is gone when the first case asks.\<close>

definition small_argv :: "pystr list" where
  "small_argv = [u ''--out'', u ''o'', u ''A'', u ''--stream'', u ''--only'', u ''01'', u ''--startup-timeout'', u ''1'']"

definition small_bench :: bench_args where
  "small_bench = \<lparr>ba_model = u ''A'', ba_out = u ''o'', ba_startup = Fin 1, ba_stream = True, ba_only = [u ''01''],
     ba_plan_first = False, ba_rules_card = None\<rparr>"

lemma one_second: "py_float (u ''1'') = Some (Fin 1)"
proof -
  have "mantissa_of [49] = Some ([49], [])" "strip (u ''1'') = [49]" "dec_value [49] = 1" "dec_value [] = 0" by code_simp+
  then show ?thesis
    by (simp add: py_float_def lower_ascii_def u_def startswith_def number_value_def float_of_rat_def)
qed

lemma small_parsed: "parse_bench [] small_argv = Inr small_bench"
proof -
  have o: "(u ''--out'', Takes_Value) \<in> set BENCH_OPTIONS" "(u ''--only'', Takes_Value) \<in> set BENCH_OPTIONS"
    "(u ''--startup-timeout'', Takes_Value) \<in> set BENCH_OPTIONS" "(u ''--stream'', Switch) \<in> set BENCH_OPTIONS"
    by (simp_all add: BENCH_OPTIONS_def)
  have d: "not_dashed (u ''o'')" "not_dashed (u ''A'')" "not_dashed (u ''01'')" "not_dashed (u ''1'')"
    by (simp_all add: u_def startswith_def)
  have "path_text (u ''o'') = u ''o''" by code_simp
  then have s: "store_bench (u ''--out'') (u ''o'') b = Inr (b\<lparr>ba_out := u ''o''\<rparr>)"
    "store_bench (u ''--only'') v b = Inr (b\<lparr>ba_only := ba_only b @ [v]\<rparr>)"
    "store_bench (u ''--startup-timeout'') (u ''1'') b = Inr (b\<lparr>ba_startup := Fin 1\<rparr>)"
    "switch_bench (u ''--stream'') b = b\<lparr>ba_stream := True\<rparr>" for v b
    by (simp_all add: store_bench_def switch_bench_def one_second stored_def) (simp_all add: u_def)
  show ?thesis
    by (simp add: parse_bench_def small_argv_def small_bench_def read_positional bench_table.read_switch_at [OF o(4)]
        o(1-3) [THEN bench_table.read_separate_at] d s)
qed

theorem benchmark_chain_scores_the_row_witness:
  "\<exists>g cmd. benchmark_model_argv small_machine (run_benchmark (demo_env (\<lambda>_. gone)) demo_bench_fs)
       (json_dumps quick_repr None) [] small_argv = Inr (Inr (Some (Some g, Block_Value (cmd, 3))))
     \<and> \<not> g_alive (s_leader g)"
proof -
  have "resolved_on small_machine (u ''A'') = Inr small_model"
    by (simp add: resolved_on_def small_machine_def small_resolves)
  then obtain g cmd code where b: "benchmark_model_argv small_machine
       (run_benchmark (demo_env (\<lambda>_. gone)) demo_bench_fs) (json_dumps quick_repr None) [] small_argv
     = Inr (Inr (Some (Some g, Block_Value (cmd, code))))"
    by (simp add: benchmark_model_argv_def small_parsed small_bench_def benchmark_model_main_def run_against_def
        small_serve lift_left_def run_benchmark_def)
  have "not_dashed (ba_out small_bench)" "list_all not_dashed (ba_only small_bench)"
    by (simp_all add: small_bench_def u_def startswith_def)
  from benchmark_chain_scores_the_row [OF small_parsed b _ this] quick_params small_machine_finds obtain server where
    "for_model (m_executable small_machine) small_model DEFAULT_MAX_TOKENS = Inr server"
    and "code = ladder_code (run_with (demo_env (\<lambda>_. gone)) (row_args (server_base_url server) (u ''/m/A'') (u ''o'')
      (rm_params small_model) True [u ''01''] False None) demo_bench_fs) \<and> \<not> g_alive (s_leader g)"
    by (auto simp: small_bench_def)
  with small_row_gone small_url b show ?thesis by (auto simp: ladder_code_def)
qed

end
