(* ===== verification/Replay.thy ===== *)
theory Replay
  imports Json_Print Prompt Edits Client
begin

text \<open>
  \<open>benchmarks/harness/replay.py\<close>: the recorded server the offline benchmark runs against.  It answers a
  request with one complete file, chosen by the target the request's own prompt names, framed and
  streamed as a server frames and streams it.
\<close>

section \<open>The stream\<close>

definition REPLAY_MODEL :: pystr where "REPLAY_MODEL = u ''benchmark-replay''"

definition CHUNK_BASE :: "(pystr \<times> json) list" where
  "CHUNK_BASE = [(u ''id'', JStr (u ''chatcmpl-benchmark-replay'')), (u ''object'', JStr (u ''chat.completion.chunk'')),
     (u ''created'', JInt 0), (u ''model'', JStr REPLAY_MODEL)]"

definition REPLAY_COMPLETION_TOKENS :: int where "REPLAY_COMPLETION_TOKENS = 1"
definition REPLAY_PROMPT_TOKENS :: int where "REPLAY_PROMPT_TOKENS = 0"

definition replay_choice :: "(pystr \<times> json) list \<Rightarrow> json \<Rightarrow> json" where
  "replay_choice d reason = JObj (dict_display CHUNK_BASE [(u ''choices'', JArr [JObj
     [(u ''index'', JInt 0), (u ''delta'', JObj d), (u ''finish_reason'', reason)]])])"

definition file_reply :: "pystr \<Rightarrow> pystr \<Rightarrow> pystr" where
  "file_reply source path = WHOLE_FILE_REPLY_PREFIX @ path @ [NL, NL] @ source"

definition replay_frames :: "pystr \<Rightarrow> pystr \<Rightarrow> json list" where
  "replay_frames source path =
     [replay_choice [(u ''role'', JStr (u ''assistant'')), (u ''content'', JStr [])] JNull,
      replay_choice [(u ''content'', JStr (file_reply source path))] JNull,
      replay_choice [] (JStr (u ''stop'')),
      JObj (dict_display CHUNK_BASE [(u ''choices'', JArr []), (u ''usage'', JObj
        [(u ''prompt_tokens'', JInt REPLAY_PROMPT_TOKENS), (u ''completion_tokens'', JInt REPLAY_COMPLETION_TOKENS),
         (u ''total_tokens'', JInt (REPLAY_PROMPT_TOKENS + REPLAY_COMPLETION_TOKENS))])])]"

text \<open>No frame holds a float; \<open>repr\<close> is the printer's parameter.\<close>

definition sse_frame :: "(pyfloat \<Rightarrow> pystr) \<Rightarrow> json \<Rightarrow> bytes" where
  "sse_frame repr v = utf8_bytes (u ''data: '' @ json_dumps repr None v @ [NL, NL])"

definition completion_stream :: "(pyfloat \<Rightarrow> pystr) \<Rightarrow> pystr \<Rightarrow> pystr \<Rightarrow> bytes" where
  "completion_stream repr source path =
     concat (map (sse_frame repr) (replay_frames source path)) @ ascii ''data: [DONE]'' @ [10, 10]"

section \<open>The dispatch\<close>

text \<open>A request that is not a chat completion, one without a target line, one for a file not recorded.\<close>

datatype replay_error = Not_A_Chat_Request | No_Target_File | No_Source pystr

definition TARGET_FILE_MARKER :: pystr where "TARGET_FILE_MARKER = TARGET_FILE_LABEL @ u '' ''"

text \<open>The request is the JSON value of its body: the text \<open>httpx\<close> prints and the handler reads again
  with \<open>json.loads\<close> is taken to carry that value unchanged.\<close>

definition requested_impl_path :: "json \<Rightarrow> replay_error + pystr" where
  "requested_impl_path request =
     (case request of
        JObj kvs \<Rightarrow>
          (case obj_get kvs ''messages'' of
             Some (JArr (JObj m # _)) \<Rightarrow>
               (case obj_get m ''content'' of
                  Some (JStr t) \<Rightarrow>
                    (case find (\<lambda>l. removeprefix l TARGET_FILE_MARKER \<noteq> l) (splitlines t) of
                       None \<Rightarrow> Inl No_Target_File
                     | Some l \<Rightarrow> Inr (strip (removeprefix l TARGET_FILE_MARKER)))
                | _ \<Rightarrow> Inl Not_A_Chat_Request)
           | _ \<Rightarrow> Inl Not_A_Chat_Request)
      | _ \<Rightarrow> Inl Not_A_Chat_Request)"

text \<open>\<open>chunked\<close> is how the client's mock transport hands out the content.\<close>

definition replay_completion ::
  "(pyfloat \<Rightarrow> pystr) \<Rightarrow> (bytes \<Rightarrow> bytes list) \<Rightarrow> pystr \<Rightarrow> pystr \<Rightarrow> json \<Rightarrow> http_outcome" where
  "replay_completion repr chunked source path request = Responded 200 (chunked (completion_stream repr source path)) None"

definition replay_dispatched ::
  "(pyfloat \<Rightarrow> pystr) \<Rightarrow> (bytes \<Rightarrow> bytes list) \<Rightarrow> (pystr \<times> pystr) list \<Rightarrow> json \<Rightarrow> replay_error + http_outcome" where
  "replay_dispatched repr chunked sources request =
     bindE (requested_impl_path request) (\<lambda>path.
       case map_of sources path of
         None \<Rightarrow> Inl (No_Source path)
       | Some source \<Rightarrow> Inr (Responded 200 (chunked (completion_stream repr source path)) None))"

section \<open>The stream is decoded\<close>

definition visible :: "pystr \<Rightarrow> bool" where
  "visible s \<longleftrightarrow> list_all (\<lambda>c. 32 \<le> c \<and> c \<le> 126) s"

lemma visible_simps [simp]:
  "visible []" "visible (c # s) \<longleftrightarrow> 32 \<le> c \<and> c \<le> 126 \<and> visible s" "visible (s @ t) \<longleftrightarrow> visible s \<and> visible t"
  by (auto simp: visible_def)

lemma u_escape_visible: "visible (u_escape c)"
proof -
  have "32 \<le> hex_digit (d mod 16) \<and> hex_digit (d mod 16) \<le> 126" for d
    using pos_mod_bound_16 [of d] by (auto simp: hex_digit_def)
  then show ?thesis by (simp add: u_escape_def)
qed

lemma escape_char_visible: "visible (escape_char c)"
  by (auto simp: escape_char_def u_escape_visible short_escape_def split: option.split if_splits)

lemma print_string_visible: "visible (print_string s)"
  using escape_char_visible by (induction s) (auto simp: print_string_def)

lemma dec_digits_visible: "visible (dec_digits n)"
  using dec_digits_range [of _ n] by (fastforce simp: visible_def list_all_iff)

lemma str_int_visible: "visible (str_int i)"
  using dec_digits_visible by (simp add: str_int_def u_def)

lemma printed_visible:
  "visible (print_value repr None level (JObj kvs))
     \<longleftrightarrow> (\<forall>(k, v)\<in>set kvs. visible (print_value repr None (level + 1) v))"
  "visible (print_value repr None level (JArr vs))
     \<longleftrightarrow> (\<forall>v\<in>set vs. visible (print_value repr None (level + 1) v))"
  "visible (print_value repr None level (JStr s))" "visible (print_value repr None level (JInt i))"
  "visible (print_value repr None level JNull)"
proof -
  have j: "visible (join (item_separator None (level + 1)) xs) \<longleftrightarrow> (\<forall>x\<in>set xs. visible x)" for xs
    by (induction "item_separator None (level + 1)" xs rule: join.induct) (auto simp: item_separator_def u_def)
  have b: "visible (bracketed None level op cl xs) \<longleftrightarrow> (\<forall>x\<in>set xs. visible x)"
    if "visible [op, cl]" for op cl xs
    using that j by (auto simp: bracketed_def newline_indent_def)
  show "visible (print_value repr None level (JObj kvs))
     \<longleftrightarrow> (\<forall>(k, v)\<in>set kvs. visible (print_value repr None (level + 1) v))"
    using print_string_visible by (auto simp: b split_def u_def)
  show "visible (print_value repr None level (JArr vs))
     \<longleftrightarrow> (\<forall>v\<in>set vs. visible (print_value repr None (level + 1) v))"
    by (auto simp: b)
qed (simp_all add: print_string_visible str_int_visible u_def)

lemma visible_chars: "visible s \<Longrightarrow> c \<in> set s \<Longrightarrow> 32 \<le> c \<and> c < 128"
  by (fastforce simp: visible_def list_all_iff)

lemma rstrip_with_absent: "\<forall>x\<in>set xs. \<not> p x \<Longrightarrow> rstrip_with p xs = xs"
  by (cases xs rule: rev_cases) (simp_all add: rstrip_with_def)

lemma visible_byte:
  assumes "visible s" and "(b :: 8 word) \<in> set (map of_nat s)"
  shows "b \<noteq> 10 \<and> b \<noteq> 13"
proof -
  from assms(2) obtain c where c: "c \<in> set s" "b = of_nat c" by (auto simp del: of_nat_numeral)
  with visible_chars [OF assms(1)] have "32 \<le> unat b" by (fastforce simp: unat_of_nat)
  then show ?thesis by auto
qed

lemma visible_line: "visible s \<Longrightarrow> line_text (map of_nat s) = s"
proof -
  assume v: "visible s"
  then have "rstrip_with (\<lambda>b. b = 13) (map of_nat s) = (map of_nat s :: bytes)"
    using visible_byte by (intro rstrip_with_absent) blast
  then show ?thesis using visible_chars [OF v] decode_replace_ascii [of s] by (simp add: line_text_def)
qed

text \<open>One frame is one data line and the blank line that dispatches it.\<close>

lemma frame_lines:
  assumes "visible (json_dumps repr None v)" and "json_loads (json_dumps repr None v) = Inr v"
    and "events (json_dumps repr None v) = Inr evs"
  shows "run_lines (butlast (split_on 10 (sse_frame repr v @ rest))) [] 0
      = (case run_lines (butlast (split_on 10 rest)) [] 0 of (evs', r) \<Rightarrow> (evs @ evs', r))"
proof -
  let ?d = "json_dumps repr None v"
  let ?l = "u ''data: '' @ ?d"
  have v: "visible ?l" using assms(1) by (simp add: u_def)
  have "\<forall>c\<in>set (?l @ [NL, NL]). c < 128" using visible_chars [OF v] by auto
  then have b: "sse_frame repr v = map of_nat ?l @ 10 # 10 # []"
    using utf8_bytes_ascii by (simp add: sse_frame_def)
  have "(10 :: 8 word) \<notin> set (map of_nat ?l)" using visible_byte [OF v] by blast
  then have sp: "split_on 10 (sse_frame repr v @ rest) = map of_nat ?l # [] # split_on 10 rest"
    unfolding b using split_on_append_sep [of 10 "map of_nat ?l" "10 # rest"] by (simp add: split_on_single)
  have "?d \<noteq> u ''[DONE]''"
  proof
    assume "?d = u ''[DONE]''"
    moreover have "case json_loads (u ''[DONE]'') of Inl _ \<Rightarrow> True | Inr _ \<Rightarrow> False" by code_simp
    ultimately show False using assms(2) by simp
  qed
  moreover have "line_text [] = []" by code_simp
  ultimately have "process_line [] [?d] n = Continue evs [] 0" for n
    using assms(3) by (simp add: process_line_def Let_def)
  moreover have "process_line (map of_nat ?l) [] 0 = Continue [] [?d] (length ?d)"
    using visible_line [OF v] by (simp add: process_line_def Let_def u_def startswith_def removeprefix_def)
  ultimately show ?thesis using sp by (auto split: prod.splits)
qed

lemma encodable_unpaired: "encodable s \<Longrightarrow> unpaired s"
  by (induction s rule: unpaired.induct) (auto simp: encodable_def is_scalar_def is_high_def)

lemma unpaired_after_ascii: "\<forall>c\<in>set s. c < 128 \<Longrightarrow> unpaired t \<Longrightarrow> unpaired (s @ t)"
proof (induction s)
  case (Cons c s)
  then have "unpaired (s @ t)" "c < 128" by simp_all
  then show ?case by (cases "s @ t") (auto simp: is_high_def)
qed simp

lemma chunk_displays:
  "dict_display CHUNK_BASE [(u ''choices'', v)] = CHUNK_BASE @ [(u ''choices'', v)]"
  "dict_display CHUNK_BASE [(u ''choices'', v), (u ''usage'', w)] = CHUNK_BASE @ [(u ''choices'', v), (u ''usage'', w)]"
  by (simp_all add: dict_display_def CHUNK_BASE_def u_def)

lemmas displayed = replay_frames_def [unfolded replay_choice_def chunk_displays]

lemma frames_visible: "list_all (\<lambda>v. visible (json_dumps repr None v)) (replay_frames source path)"
  by (simp add: json_dumps_def displayed CHUNK_BASE_def printed_visible del: print_value.simps)

lemma frames_readable:
  assumes "unpaired (file_reply source path)"
  shows "list_all (readable repr) (replay_frames source path)"
proof -
  have "length (dec_digits 0) \<le> int_max_str_digits" "length (dec_digits 1) \<le> int_max_str_digits" by code_simp+
  with assms show ?thesis
    by (simp add: displayed CHUNK_BASE_def u_def
      REPLAY_MODEL_def REPLAY_PROMPT_TOKENS_def REPLAY_COMPLETION_TOKENS_def is_high_def)
qed

text \<open>What each frame means to the client's decoder.\<close>

definition frame_events :: "pystr \<Rightarrow> pystr \<Rightarrow> sse_event list list" where
  "frame_events source path = [[], [Delta (file_reply source path)], [Finish (u ''stop'')], [Usage 1]]"

lemma frames_events:
  "list_all2 (\<lambda>v evs. \<forall>t. json_loads t = Inr v \<longrightarrow> events t = Inr evs)
     (replay_frames source path) (frame_events source path)"
proof -
  have ne: "file_reply source path \<noteq> []" by (simp add: file_reply_def WHOLE_FILE_REPLY_PREFIX_def u_def)
  then show ?thesis
    unfolding displayed frame_events_def
    by (simp add: events_def CHUNK_BASE_def u_def obj_get_def choice_events_def
        choice_events1_def delta_text_events_def get_or_null_def string_or_null_def emit_def usage_event_def
        REPLAY_COMPLETION_TOKENS_def)
qed

lemma stream_lines:
  assumes "list_all2 (\<lambda>v evs. visible (json_dumps repr None v) \<and> json_loads (json_dumps repr None v) = Inr v
       \<and> events (json_dumps repr None v) = Inr evs) vs evss"
  shows "run_lines (butlast (split_on 10 (concat (map (sse_frame repr) vs) @ ascii ''data: [DONE]'' @ [10, 10]))) [] 0
     = (concat evss, Inl Stopped)"
  using assms
proof (induction vs evss rule: list_all2_induct)
  case Nil
  show ?case by code_simp
next
  case (Cons v vs evs evss)
  then show ?case by (simp add: frame_lines)
qed

lemma replay_decodes:
  assumes "concat chunks = completion_stream repr source path" and "unpaired (file_reply source path)"
    and "length (completion_stream repr source path) \<le> MAX_FRAME_BYTES"
  shows "decode_sse chunks = ([Delta (file_reply source path), Finish (u ''stop''), Usage 1], Stopped)"
proof -
  have "list_all2 (\<lambda>v evs. visible (json_dumps repr None v) \<and> json_loads (json_dumps repr None v) = Inr v
       \<and> events (json_dumps repr None v) = Inr evs) (replay_frames source path) (frame_events source path)"
    using frames_events [of source path] frames_visible [of repr source path] frames_readable [OF assms(2), of repr]
    by (auto simp: list_all2_conv_all_nth list_all_length loads_dumps)
  from stream_lines [OF this] show ?thesis
    using assms(1,3) decode_from_spec [of init_sse chunks]
    by (simp add: decode_sse_def init_sse_def completion_stream_def frame_events_def)
qed

section \<open>The dispatch\<close>

lemma splitlines_acc_first_newline: "splitlines_acc acc (NL # ys) = rev acc # splitlines_acc [] ys"
  by (cases ys) (simp_all add: is_linebreak_def)

lemma splitlines_acc_newline:
  "splitlines_acc acc (xs @ NL # ys) = splitlines_acc acc (xs @ [NL]) @ splitlines_acc [] ys"
proof (induction acc xs rule: splitlines_acc.induct)
  case (2 acc c)
  show ?case using splitlines_acc_first_newline [of _ ys] splitlines_acc_first_newline [of _ "[]"] by simp
qed (simp_all add: splitlines_acc_first_newline is_linebreak_def)

lemma splitlines_newline: "splitlines (xs @ NL # ys) = splitlines (xs @ [NL]) @ splitlines ys"
  unfolding splitlines_def by (rule splitlines_acc_newline)

lemma splitlines_acc_one:
  "\<forall>c\<in>set l. \<not> is_linebreak c \<Longrightarrow> splitlines_acc acc (l @ [NL]) = [rev acc @ l]"
proof (induction acc l rule: splitlines_acc.induct)
  case (2 acc c)
  moreover have "is_linebreak CR" by (simp add: is_linebreak_def)
  ultimately show ?case using splitlines_acc_first_newline [of _ "[]"] by auto
next
  case (3 acc c d cs)
  moreover have "is_linebreak CR" by (simp add: is_linebreak_def)
  ultimately have "\<not> (c = CR \<and> d = NL)" "\<not> is_linebreak c" by auto
  with 3 show ?case by simp
qed (simp add: is_linebreak_def)

lemma splitlines_one: "\<forall>c\<in>set l. \<not> is_linebreak c \<Longrightarrow> splitlines (l @ [NL]) = [l]"
  by (simp add: splitlines_def splitlines_acc_one)

lemma find_after: "find p xs = None \<Longrightarrow> find p (xs @ ys) = find p ys"
  by (induction xs) (auto split: if_splits)

text \<open>A card that does not itself name a target leaves the target line the first.\<close>

definition names_no_target :: "pystr \<Rightarrow> bool" where
  "names_no_target card_text \<longleftrightarrow> (\<forall>l\<in>set (splitlines (card_text @ [NL])). \<not> startswith l TARGET_FILE_MARKER)"

lemma target_found:
  assumes "names_no_target (card pb)" and "\<forall>c\<in>set (impl_path spec). \<not> is_linebreak c"
  shows "find (\<lambda>l. removeprefix l TARGET_FILE_MARKER \<noteq> l) (splitlines (stable_prefix pb spec plan))
     = Some (TARGET_FILE_MARKER @ impl_path spec)"
proof -
  let ?p = "\<lambda>l. removeprefix l TARGET_FILE_MARKER \<noteq> l"
  obtain rest where s: "stable_prefix pb spec plan = card pb @ NL # NL # SPEC_HEADER @ NL #
      (TARGET_FILE_MARKER @ impl_path spec) @ NL # rest"
    by (simp add: stable_prefix_def PARA_def TARGET_FILE_MARKER_def)
  have "\<forall>l\<in>set (splitlines (card pb @ [NL])). \<not> startswith l TARGET_FILE_MARKER"
    using assms(1) by (simp add: names_no_target_def)
  then have c: "find ?p (splitlines (card pb @ [NL])) = None"
    by (auto simp: find_None_iff removeprefix_def split: if_splits)
  have h: "find ?p (splitlines (NL # SPEC_HEADER @ [NL])) = None" by code_simp
  have "\<forall>c\<in>set (TARGET_FILE_MARKER @ impl_path spec). \<not> is_linebreak c"
    using assms(2) by (auto simp: TARGET_FILE_MARKER_def TARGET_FILE_LABEL_def u_def is_linebreak_def)
  note one = splitlines_one [OF this]
  have "splitlines (stable_prefix pb spec plan) = splitlines (card pb @ [NL])
      @ splitlines ((NL # SPEC_HEADER) @ NL # (TARGET_FILE_MARKER @ impl_path spec) @ NL # rest)"
    unfolding s by (subst splitlines_newline) simp
  also have "splitlines ((NL # SPEC_HEADER) @ NL # (TARGET_FILE_MARKER @ impl_path spec) @ NL # rest)
      = splitlines ((NL # SPEC_HEADER) @ [NL]) @ splitlines ((TARGET_FILE_MARKER @ impl_path spec) @ NL # rest)"
    by (rule splitlines_newline)
  also have "splitlines ((TARGET_FILE_MARKER @ impl_path spec) @ NL # rest)
      = (TARGET_FILE_MARKER @ impl_path spec) # splitlines rest"
    by (subst splitlines_newline) (simp only: one append_Cons append_Nil)
  finally have "splitlines (stable_prefix pb spec plan) = splitlines (card pb @ [NL])
      @ splitlines ((NL # SPEC_HEADER) @ [NL]) @ (TARGET_FILE_MARKER @ impl_path spec) # splitlines rest" .
  moreover have "?p (TARGET_FILE_MARKER @ impl_path spec)"
    by (simp add: removeprefix_def startswith_def TARGET_FILE_MARKER_def TARGET_FILE_LABEL_def u_def)
  ultimately show ?thesis using c h by (simp add: find_after)
qed

lemma requested_target:
  assumes "names_no_target (card pb)" and "\<forall>c\<in>set (impl_path spec). \<not> is_linebreak c"
  shows "requested_impl_path (JObj (request_body hb (stable_prefix pb spec plan) tail b)) = Inr (strip (impl_path spec))"
proof -
  have "obj_get (request_body hb (stable_prefix pb spec plan) tail b) ''messages''
      = Some (JArr [chat_message ''system'' (stable_prefix pb spec plan), chat_message ''user'' tail])"
    by (simp add: obj_get_def request_body_def map_of_dict_display u_def)
  moreover have "removeprefix (TARGET_FILE_MARKER @ impl_path spec) TARGET_FILE_MARKER = impl_path spec"
    by (simp add: removeprefix_def startswith_def)
  ultimately show ?thesis using target_found [OF assms]
    by (simp add: requested_impl_path_def chat_message_def obj_get_def u_def)
qed

lemma file_reply_extracted:
  assumes "\<forall>c\<in>set path. \<not> is_linebreak c" and "strip path \<noteq> []" and "encodable path" and "encodable source"
    and "\<not> startswith source FENCE"
  shows "extract_file (assistant_content (file_reply source path)) = Some \<lparr>reply_path = path, payload = utf8_bytes source\<rparr>"
proof -
  have "\<not> opens_transcript (file_reply source path)"
    by (simp add: opens_transcript_def transcript_openers_def file_reply_def WHOLE_FILE_REPLY_PREFIX_def u_def
        startswith_def lstrip_def is_space_def)
  then have a: "assistant_content (file_reply source path) = file_reply source path"
    by (simp add: assistant_content_def)
  have "is_linebreak NL" "is_linebreak CR" by (simp_all add: is_linebreak_def)
  with assms(1) have "NL \<notin> set path" "CR \<notin> set path" by blast+
  moreover have "unwrap_fence (removeprefix (NL # source) [NL]) = source"
    using unwrap_fence_plain [OF assms(5)] by (simp add: removeprefix_def startswith_def)
  ultimately show ?thesis
    using extract_framed [of path "NL # source" 0] assms(2-4) by (simp only: a) (simp add: file_reply_def)
qed

section \<open>The property\<close>

text \<open>C40. The recorded server answers for the file it is asked for: any request the tool sends for a case -
  whatever the parameters, the spec, the context, the plan and the tail - is dispatched to that case's
  own source, and however the answer is sliced the client's decoder reads exactly one content delta,
  the stop and the usage from it, and the reply is parsed to the target's path and the bytes of the source.
  The card is assumed to name no target itself, the path to hold no line break and no blank at either
  end, the source not to open with a fence, and the stream to stay within the decoder's frame cap.\<close>

theorem replay_serves_the_named_file:
  assumes "names_no_target (card pb)" and "\<forall>c\<in>set (impl_path spec). \<not> is_linebreak c"
    and "strip (impl_path spec) = impl_path spec" and "impl_path spec \<noteq> []" and "encodable (impl_path spec)"
    and "map_of sources (impl_path spec) = Some source" and "encodable source" and "\<not> startswith source FENCE"
    and "\<forall>bs. concat (chunked bs) = bs"
    and "length (completion_stream repr source (impl_path spec)) \<le> MAX_FRAME_BYTES"
  shows "\<exists>chunks r. replay_dispatched repr chunked sources
        (JObj (request_body hb (stable_prefix pb spec plan) tail b)) = Inr (Responded 200 chunks None)
    \<and> decode_sse chunks = ([Delta r, Finish (u ''stop''), Usage 1], Stopped)
    \<and> extract_file (assistant_content r) = Some \<lparr>reply_path = impl_path spec, payload = utf8_bytes source\<rparr>"
proof -
  let ?chunks = "chunked (completion_stream repr source (impl_path spec))"
  have "unpaired (file_reply source (impl_path spec))"
    using assms(5,7) by (intro encodable_unpaired)
      (simp add: file_reply_def WHOLE_FILE_REPLY_PREFIX_def encodable_def is_scalar_def u_def)
  then have "decode_sse ?chunks = ([Delta (file_reply source (impl_path spec)), Finish (u ''stop''), Usage 1], Stopped)"
    using assms(9,10) by (intro replay_decodes) simp_all
  moreover have "extract_file (assistant_content (file_reply source (impl_path spec)))
      = Some \<lparr>reply_path = impl_path spec, payload = utf8_bytes source\<rparr>"
    using assms(2-5,7,8) by (intro file_reply_extracted) simp_all
  moreover have "replay_dispatched repr chunked sources (JObj (request_body hb (stable_prefix pb spec plan) tail b))
      = Inr (Responded 200 ?chunks None)"
    using requested_target [OF assms(1,2)] assms(3,6) by (simp add: replay_dispatched_def)
  ultimately show ?thesis by blast
qed

theorem replay_serves_the_named_file_witness:
  "\<exists>chunks r. replay_dispatched (\<lambda>_. []) (map (\<lambda>b. [b])) [(u ''b.py'', u ''y''), (u ''src/a.py'', [960, NL])]
        (JObj (request_body (mk_httpx (u ''http://h/'') (u ''m'') []) (stable_prefix \<lparr>card = u ''card'', card_digest = []\<rparr>
           sample_task (u ''plan'')) (u ''tail'') sample_budget)) = Inr (Responded 200 chunks None)
    \<and> decode_sse chunks = ([Delta r, Finish (u ''stop''), Usage 1], Stopped)
    \<and> extract_file (assistant_content r) = Some \<lparr>reply_path = u ''src/a.py'', payload = [207, 128, 10]\<rparr>"
proof -
  have f: "names_no_target (u ''card'')" "\<not> startswith [960, NL] FENCE" "encodable [960, NL]"
    "\<forall>c\<in>set (u ''src/a.py''). \<not> is_linebreak c" "strip (u ''src/a.py'') = u ''src/a.py''" "u ''src/a.py'' \<noteq> []"
    "encodable (u ''src/a.py'')" "map_of [(u ''b.py'', u ''y''), (u ''src/a.py'', [960, NL])] (u ''src/a.py'') = Some [960, NL]"
    "length (completion_stream (\<lambda>_. []) [960, NL] (u ''src/a.py'')) \<le> MAX_FRAME_BYTES"
    "utf8_bytes [960, NL] = [207, 128, 10]"
    by code_simp+
  have "\<forall>bs :: bytes. concat (map (\<lambda>b. [b]) bs) = bs" by simp
  with replay_serves_the_named_file [of "\<lparr>card = u ''card'', card_digest = []\<rparr>" sample_task
      "[(u ''b.py'', u ''y''), (u ''src/a.py'', [960, NL])]" "[960, NL]" "map (\<lambda>b. [b])" "\<lambda>_. []"] f
  show ?thesis by (simp add: sample_task_def)
qed

end
