(* ===== verification/Spec2Isabelle.thy ===== *)
theory Spec2Isabelle
  imports Derail Harmony Sse Backend Client Filesystem Paths Edits Sandbox Runner Snapshot Restore
    Prompt Telemetry Loop Loop_Control Loop_Worktree Loop_Properties Entrypoint
    Entrypoint_Properties Model_Registry Cli Cli_Properties
    Model_Server Model_Session Compare_Sweeps Sandbox_Profile Cli_Args Sweep Probes Score_Style Launch
    Argparse Quicksort_Example Text_Files Json_Print Harness_Case Harness_Driver Scorecards Scorecard_Reading
    Benchmark_Run Benchmark_Properties Benchmark_Demo Benchmark_Chain Script_Args Replay
begin

text \<open>
  A verification library for \<^verbatim>\<open>claude-local\<close>, the driver that lets a model served on the same machine
  write one implementation file until the oracle test of a task passes.

  \<^bold>\<open>The program.\<close>  \<open>implement\<close> (\<open>src/claude_local/entrypoint.py\<close>) wires a prompt builder, a model client over an
  HTTP backend, a snapshot store and a sandboxed oracle into \<open>Loop.run\<close> (\<open>loop.py\<close>).  Each iteration
  sends the stable prefix and a changing tail, decodes the server's event stream (\<open>sse.py\<close>) under a guard
  that cuts a derailed generation (\<open>derail.py\<close>), takes the final channel of the transcript (\<open>harmony.py\<close>),
  applies the whole-file reply to the one permitted path (\<open>edits.py\<close>, \<open>paths.py\<close>), runs the oracle in a
  child the sandbox confines (\<open>runner.py\<close>, \<open>sandbox.py\<close>), snapshots a scored attempt (\<open>snapshot.py\<close>) and turns
  its failure into the next tail (\<open>prompt.py\<close>).  \<open>cli.py\<close> adapts a task envelope to one such run;
  \<open>model_registry.py\<close>, \<open>model_server.py\<close> and \<open>model_session.py\<close> resolve, launch and talk to a server.
  \<open>benchmarks/run.py\<close> measures a model on a ladder of cases, each a golden tree with one hole, and writes
  scorecards; the files under \<open>scripts/\<close> serve a model and run that ladder, sweep all models, compare
  scorecards, score style, probe and capture.

  \<^bold>\<open>Theories and sources.\<close>  State is a record passed through and returned; an exception is the left side
  of a sum; definitions keep the source's names, without leading underscores.

    \<^item> \<open>Prelude\<close> (code-point strings, \<open>bindE\<close>, splitting and stripping), \<open>Utf8\<close> (the codec with its error
      handlers), \<open>Json\<close> (\<open>json.loads\<close>, floats), \<open>Json_Print\<close> (\<open>json.dumps\<close>), \<open>Filesystem\<close> (\<open>pathlib\<close> and
      \<open>shutil\<close> over a table of files, directories and symbolic links) and \<open>Text_Files\<close> (how text files are
      read and refused) model the standard library the program uses.
    \<^item> \<open>Domain\<close>: \<open>types.py\<close> and the exceptions.  \<open>Derail\<close>, \<open>Harmony\<close>, \<open>Sse\<close>, \<open>Backend\<close>, \<open>Client\<close>, \<open>Paths\<close>, \<open>Edits\<close>,
      \<open>Runner\<close>, \<open>Prompt\<close>, \<open>Telemetry\<close>, \<open>Entrypoint\<close>, \<open>Model_Registry\<close>, \<open>Model_Server\<close>, \<open>Model_Session\<close>: the module
      of the same name.  \<open>Sandbox\<close> and \<open>Sandbox_Profile\<close>: \<open>sandbox.py\<close>.  \<open>Snapshot\<close> holds \<open>snapshot.py\<close> and
      \<open>Restore\<close> the exactness of its restoration.
    \<^item> \<open>Loop\<close>: \<open>loop.py\<close>, one definition per method; \<open>Loop_Control\<close> its control flow, with \<open>reached\<close> as the step
      relation of the iterations; \<open>Loop_Worktree\<close> the worktree invariant; \<open>Loop_Properties\<close> and
      \<open>Entrypoint_Properties\<close> what a run and \<open>implement\<close> guarantee.
    \<^item> \<open>Argparse\<close>: how \<open>argparse\<close> reads a table of long options.  \<open>Cli\<close> and \<open>Cli_Args\<close>: \<open>cli.py\<close> from the parsed
      arguments on, and its argument parser; \<open>Cli_Properties\<close> what an exit code promises.
    \<^item> \<open>Compare_Sweeps\<close>, \<open>Score_Style\<close>: the script of that name.  \<open>Sweep\<close>: \<open>benchmark_all_models.py\<close> and the
      command of \<open>benchmark_model.py\<close>.  \<open>Probes\<close>: what the probe and capture scripts compute.  \<open>Launch\<close>: the
      main functions of the scripts that serve a model themselves; \<open>Script_Args\<close>: the argument parsers of all
      scripts, in front of those functions.  \<open>Quicksort_Example\<close>: \<open>examples/quicksort/run.py\<close>, and the
      end-to-end script that runs it against a served model.
    \<^item> \<open>Harness_Case\<close>: \<open>benchmarks/harness/case.py\<close> and \<open>loader.py\<close>; \<open>Harness_Driver\<close>: \<open>driver.py\<close>, one case in
      a worktree of its own and the ladder; \<open>Scorecards\<close>: \<open>scorer.py\<close>, \<open>produced_code.py\<close> and \<open>style.py\<close>;
      \<open>Replay\<close>: \<open>replay.py\<close>; \<open>Benchmark_Run\<close>: \<open>benchmarks/run.py\<close>.  \<open>Benchmark_Properties\<close> says what a
      benchmark promises, \<open>Benchmark_Demo\<close> evaluates it on a small checkout, \<open>Scorecard_Reading\<close> joins the
      scorecards written to the comparison that reads them, and \<open>Benchmark_Chain\<close> the script that serves
      one model to the benchmark it runs.

  \<^bold>\<open>Interfaces.\<close>  A locale states each contract a client relies on, and an interpretation discharges it on
  the model's definitions: \<open>generation_source\<close> (a backend raises only its own faults or silence; replay
  and httpx), \<open>stream_guard\<close> (a guard latches its first reason) with \<open>guarded_client\<close> over it,
  \<open>verdict_source\<close> (an oracle run scores or raises), \<open>best_keeper\<close> (a store whose best is least in rank),
  \<open>ladder\<close> (an escalation numbered from one without gaps), \<open>option_table\<close> (long names, all different; the
  command lines of the package, the example, the benchmark, the sweep and the benchmark of one model).

  \<^bold>\<open>The run's own log.\<close>  \<open>wired_run\<close> is the one call of the loop that \<open>implement\<close> makes and \<open>attempt_log\<close> its
  reports; what is said of an outcome or of an exit code is said over that log, and \<open>all_judged\<close> says that
  each score in it is the oracle's verdict over a tree that held that attempt's reply and the task's test.

  \<^bold>\<open>What the lemmas show.\<close>
    \<^item> The run: after it the implementation file holds the bytes of the best scored reply and nothing
      outside the permitted places changed; the loop refines an abstract policy on its log and ends
      by itself; accounts, statuses, exit codes and the outcome say what happened.
    \<^item> The stream: decoding does not depend on chunking, the ring buffer decides the reference
      repetition test, a result summarises a prefix of the events, and faults stop at a boundary.
    \<^item> Containment: resolved paths stay inside their root, one file is written, restoring is exact, the
      sandbox profile read back as tokens grants the paths it was given and no others.
    \<^item> Serving: readiness ends for the first reason that arose, teardown kills what its definition can
      reach, no flag moves the bind address, a session and a benchmark talk to the server they started, and
      the end-to-end script's exit code is the outcome of the run it set up.
    \<^item> Benchmarking: the cases are holes in one golden tree and run apart, a model meets the tree with
      exactly one hole, exit code 0 admits only a ladder passed whole, what was scored survives later
      faults, and the comparison reads what the benchmark wrote.
    \<^item> Formats: task envelopes as JSON text, reply frames, scorecards, recorded streams, parameter cells and
      command lines read back to what they carry.
    \<^item> Where the code does not do what it says, a theorem shows it: teardown and the sweep's ceiling leave
      processes alive, a chain of links misses a hop the kernel takes, a surrogate in a reply ends the run,
      mixed levers end the comparison in \<open>TypeError\<close>.

  \<^bold>\<open>Bounds and fuel.\<close>  \<open>json_loads\<close> gives the parser \<open>2 * length + 2\<close> units of fuel, two per character; that it
  never runs out is the lemma \<open>json_loads_fuel\<close>.  A path walk follows at most 40 links (\<open>MAX_LINKS\<close>) and
  fails with \<open>OS_Error\<close> beyond, as the kernel does.  The loop recurses over its attempt budget, and
  \<open>loop_ends_by_itself\<close> bounds its iterations without it.  The readiness loop and the link chain are
  \<open>partial_function\<close>s whose not returning is \<open>None\<close>; that they return is proved, for a clock that
  advances and over every file system: since resolution follows at most 40 links, only finitely many
  of the paths the walk can reach are links (\<open>finite_walk_links\<close>).

  \<^bold>\<open>Parameters.\<close>  What is not code under \<open>src/\<close> is an argument: the clock, the answer of each POST and
  GET, the child process and its JUnit report, the XML parser, SHA-256, the text of a float,
  what the operating system says of paths and processes, the linter's process, \<open>ast.parse\<close>, \<open>tomllib\<close> and
  the folding of file names.  \<open>implement\<close>'s own record file is printed by a parameter too.

  \<^bold>\<open>Simplified.\<close>  Finite floats are exact rationals; \<open>int\<close> of a text reads ASCII digits; JSON nests without
  limit; a text file that cannot be encoded is left untouched where Python empties it; the \<open>httpx\<close>
  exceptions that are not request errors are left out of a POST's outcomes; no file name has a length
  limit or folds case; a scorecard document has the field types its writer gives it; the printed
  counts have at most 4300 digits.  Each is repeated at the definition it concerns.

  \<^bold>\<open>Not modelled.\<close>  Help texts and the wording of \<open>argparse\<close>'s own messages; progress lines of the scripts on
  standard error; the objects of the HTTP client and their closing; \<open>__init__.py\<close> and \<open>__main__.py\<close>, which
  re-export and call; the oracle of the example; the golden application and the oracles of the benchmark
  cases, which are the tasks and no part of the engine; \<open>tests/\<close>.
\<close>

end
